(* ===== verification/Prelude.thy ===== *)
theory Prelude
  imports Main "HOL-Library.Word"
begin

text \<open>
  Shared vocabulary of the development: the machine types of the WebAssembly target (32-bit
  \<open>size_t\<close>, little-endian memory), the ways a contract stops (\<open>eosio::check\<close> with a false
  condition, or a trap), list and word lemmas used by several components, and the fact
  collection \<open>w32\<close> that moves 32-bit arithmetic to natural numbers.
\<close>

unbundle bit_operations_syntax

section \<open>Machine types\<close>

type_synonym u8 = "8 word"
type_synonym u16 = "16 word"
type_synonym u32 = "32 word"
type_synonym u64 = "64 word"
type_synonym bytes = "u8 list"

section \<open>Failure\<close>

text \<open>
  \<open>eosio::check(pred, msg)\<close> aborts the whole transaction with its message when the predicate
  is false, so a failed operation has no resulting state. \<open>Trap\<close> is an abort of the machine
  itself (an access outside the linear memory, undefined behaviour of the source).
\<close>

datatype error = Check string | Trap string

type_synonym 'a result = "error + 'a"

fun is_ok :: "'a result \<Rightarrow> bool" where
  "is_ok (Inl _) = False"
| "is_ok (Inr _) = True"

lemma is_ok_projr: "is_ok r \<Longrightarrow> r = Inr (projr r)"
  by (cases r) simp_all

text \<open>Sequencing of fallible operations, and \<open>eosio::check\<close>.\<close>

definition res_bind :: "'e + 'a \<Rightarrow> ('a \<Rightarrow> 'e + 'b) \<Rightarrow> 'e + 'b" where
  "res_bind r f = (case r of Inl e \<Rightarrow> Inl e | Inr x \<Rightarrow> f x)"

definition check :: "bool \<Rightarrow> string \<Rightarrow> unit result" where
  "check pred msg = (if pred then Inr () else Inl (Check msg))"

lemma res_bind_simps [simp]: "res_bind (Inl e) f = Inl e" "res_bind (Inr x) f = f x"
  by (simp_all add: res_bind_def)

lemma res_bind_Inr: "res_bind r f = Inr y \<longleftrightarrow> (\<exists>x. r = Inr x \<and> f x = Inr y)"
  by (cases r) simp_all

lemma check_simps [simp]: "check True msg = Inr ()" "check False msg = Inl (Check msg)"
  by (simp_all add: check_def)

lemma check_Inr: "check b msg = Inr u \<longleftrightarrow> b"
  by (simp add: check_def)

section \<open>Facts about 32-bit arithmetic\<close>

named_theorems w32 \<open>32-bit words read as natural numbers\<close>

lemma unat_add32 [w32]:
  "unat a + unat b < 4294967296 \<Longrightarrow> unat (a + b) = unat a + unat (b :: u32)"
  by (simp add: unat_word_ariths)

lemma unat_sub32 [w32]: "unat b \<le> unat a \<Longrightarrow> unat (a - b) = unat a - unat (b :: u32)"
  by (rule unat_sub) (simp add: word_le_nat_alt)

lemma unat_lt32 [simp]: "unat (a :: u32) < 4294967296"
  using unsigned_less [of a] by simp

lemma unat_le32 [simp]: "unat (a :: u32) \<le> 4294967295"
  using unat_lt32 [of a] by arith

lemma unat_of_nat32 [w32]: "n < 4294967296 \<Longrightarrow> unat (of_nat n :: u32) = n"
  by (simp add: unat_of_nat take_bit_eq_mod)

lemma word32_le_unat [w32]: "(a :: u32) \<le> b \<longleftrightarrow> unat a \<le> unat b"
  by (rule word_le_nat_alt)

lemma word32_less_unat [w32]: "(a :: u32) < b \<longleftrightarrow> unat a < unat b"
  by (rule word_less_nat_alt)

lemma word32_eq_unat: "(a :: u32) = b \<longleftrightarrow> unat a = unat b"
  by (simp add: word_unat_eq_iff)

lemma unat_drop_bit32 [w32]: "unat (drop_bit n (a :: u32)) = unat a div 2 ^ n"
  unfolding unat_drop_bit_eq by (rule drop_bit_eq_div)

section \<open>Lists\<close>

lemma image_neq: "y \<notin> f ` S \<Longrightarrow> x \<in> S \<Longrightarrow> f x \<noteq> y"
  by blast

lemma distinct_Cons_neq: "distinct (map f (x # xs)) \<Longrightarrow> y \<in> set xs \<Longrightarrow> f y \<notin> {f x}"
  by (auto dest: image_neq)

lemma nth_list_update_if:
  "i < length xs \<Longrightarrow> xs[i := x] ! j = (if i = j then x else xs ! j)"
  by simp

end
