(* ===== verification/Memory.thy ===== *)
theory Memory
  imports Prelude
begin

text \<open>
  The linear memory of the WebAssembly target and the byte routines of
  \<open>libraries/eosiolib/memory.cpp\<close>. Memory is a function from 32-bit addresses to bytes; an
  aligned or unaligned 32-bit access is four byte accesses in little-endian order, so accesses
  that overlap in part interfere as they do on the machine.
\<close>

type_synonym memory = "u32 \<Rightarrow> u8"

section \<open>32-bit loads and stores\<close>

definition load32 :: "memory \<Rightarrow> u32 \<Rightarrow> u32" where
  "load32 m a = ucast (m a) OR push_bit 8 (ucast (m (a + 1)))
     OR push_bit 16 (ucast (m (a + 2))) OR push_bit 24 (ucast (m (a + 3)))"

definition store32 :: "memory \<Rightarrow> u32 \<Rightarrow> u32 \<Rightarrow> memory" where
  "store32 m a v = m(a := ucast v, a + 1 := ucast (drop_bit 8 v),
     a + 2 := ucast (drop_bit 16 v), a + 3 := ucast (drop_bit 24 v))"

definition cells :: "u32 \<Rightarrow> nat \<Rightarrow> nat set" where
  "cells a n = {unat a ..< unat a + n}"

definition same_on :: "nat set \<Rightarrow> memory \<Rightarrow> memory \<Rightarrow> bool" where
  "same_on S m m' \<longleftrightarrow> (\<forall>a. unat a \<in> S \<longrightarrow> m' a = m a)"

lemma same_on_refl [simp]: "same_on S m m"
  by (simp add: same_on_def)

lemma same_on_mono: "same_on S m m' \<Longrightarrow> T \<subseteq> S \<Longrightarrow> same_on T m m'"
  by (auto simp: same_on_def)

lemma same_on_trans: "same_on S m m' \<Longrightarrow> same_on S m' m'' \<Longrightarrow> same_on S m m''"
  by (simp add: same_on_def)

lemma load32_store32 [simp]: "load32 (store32 m a v) a = v"
proof (rule bit_word_eqI)
  fix n assume "n < LENGTH(32)"
  then have n: "n < 32" by simp
  then consider "n < 8" | "8 \<le> n \<and> n < 16" | "16 \<le> n \<and> n < 24" | "24 \<le> n" by linarith
  then show "bit (load32 (store32 m a v) a) n = bit v n"
    by cases (use n in \<open>auto simp: load32_def store32_def bit_simps\<close>)
qed

lemma unat_addr_offsets:
  assumes "unat (a :: u32) + 4 \<le> 4294967296"
  shows "unat (a + 1) = unat a + 1" "unat (a + 2) = unat a + 2" "unat (a + 3) = unat a + 3"
  using assms by (simp_all add: unat_add32)

lemma store32_same_on:
  assumes "unat a + 4 \<le> 4294967296" and "S \<inter> cells a 4 = {}"
  shows "same_on S m (store32 m a v)"
  using assms unat_addr_offsets [OF assms(1)]
  by (auto simp: same_on_def store32_def cells_def)

lemma load32_same_on:
  assumes "same_on S m m'" and "cells a 4 \<subseteq> S" and "unat a + 4 \<le> 4294967296"
  shows "load32 m' a = load32 m a"
proof -
  have "m' b = m b" if "unat b \<in> cells a 4" for b
    using assms(1,2) that by (auto simp: same_on_def)
  moreover have "unat a \<in> cells a 4" "unat (a + 1) \<in> cells a 4"
      "unat (a + 2) \<in> cells a 4" "unat (a + 3) \<in> cells a 4"
    using unat_addr_offsets [OF assms(3)] by (auto simp: cells_def)
  ultimately show ?thesis by (simp add: load32_def)
qed

lemma load32_store32_other:
  assumes "unat a + 4 \<le> 4294967296" "unat b + 4 \<le> 4294967296"
    and "unat a + 4 \<le> unat b \<or> unat b + 4 \<le> unat a"
  shows "load32 (store32 m b v) a = load32 m a"
  by (rule load32_same_on [of "cells a 4"])
     (use assms in \<open>auto intro!: store32_same_on simp: cells_def\<close>)

section \<open>The byte routines of memory.cpp\<close>

fun memset_loop :: "nat \<Rightarrow> u32 \<Rightarrow> u8 \<Rightarrow> memory \<Rightarrow> memory" where
  "memset_loop 0 p c m = m"
| "memset_loop (Suc n) p c m = memset_loop n (p + 1) c (m(p := c))"

definition memset :: "u32 \<Rightarrow> u32 \<Rightarrow> u32 \<Rightarrow> memory \<Rightarrow> memory" where
  "memset p c n m = memset_loop (unat n) p (ucast c) m"

fun memcpy_loop :: "nat \<Rightarrow> u32 \<Rightarrow> u32 \<Rightarrow> memory \<Rightarrow> memory" where
  "memcpy_loop 0 p1 p2 m = m"
| "memcpy_loop (Suc n) p1 p2 m = memcpy_loop n (p1 + 1) (p2 + 1) (m(p1 := m p2))"

definition memcpy :: "u32 \<Rightarrow> u32 \<Rightarrow> u32 \<Rightarrow> memory \<Rightarrow> memory" where
  "memcpy p1 p2 n m = memcpy_loop (unat n) p1 p2 m"

text \<open>
  \<open>memmove\<close> copies through a temporary obtained from \<open>new uint8_t[n]\<close>; its address \<open>p3\<close> is an
  argument here, and the caller's fact about it is that it does not overlap the two buffers.
\<close>

definition memmove :: "u32 \<Rightarrow> u32 \<Rightarrow> u32 \<Rightarrow> u32 \<Rightarrow> memory \<Rightarrow> memory" where
  "memmove p3 p1 p2 n m = memcpy p1 p3 n (memcpy p3 p2 n m)"

fun memcmp_loop :: "nat \<Rightarrow> u32 \<Rightarrow> u32 \<Rightarrow> memory \<Rightarrow> int" where
  "memcmp_loop 0 p1 p2 m = 0"
| "memcmp_loop (Suc n) p1 p2 m =
     (if m p1 < m p2 then - 1
      else if m p1 > m p2 then 1
      else memcmp_loop n (p1 + 1) (p2 + 1) m)"

definition memcmp :: "u32 \<Rightarrow> u32 \<Rightarrow> u32 \<Rightarrow> memory \<Rightarrow> int" where
  "memcmp p1 p2 n m = memcmp_loop (unat n) p1 p2 m"

definition read_bytes :: "memory \<Rightarrow> u32 \<Rightarrow> nat \<Rightarrow> bytes" where
  "read_bytes m p n = map (\<lambda>i. m (p + of_nat i)) [0..<n]"

lemma length_read_bytes [simp]: "length (read_bytes m p n) = n"
  by (simp add: read_bytes_def)

lemma read_bytes_Suc: "read_bytes m p (Suc n) = m p # read_bytes m (p + 1) n"
proof -
  have "[0..<Suc n] = 0 # map Suc [0..<n]"
    by (simp add: map_Suc_upt upt_conv_Cons)
  then show ?thesis
    by (simp add: read_bytes_def algebra_simps comp_def del: upt_Suc)
qed

lemma read_bytes_0 [simp]: "read_bytes m p 0 = []"
  by (simp add: read_bytes_def)

lemma unat_offset32:
  "unat p + n \<le> 4294967296 \<Longrightarrow> i < n \<Longrightarrow> unat (p + of_nat i :: u32) = unat p + i"
  by (simp add: w32)

lemma read_bytes_cong:
  assumes "\<And>a. unat a \<in> cells p n \<Longrightarrow> m' a = m a" and "unat p + n \<le> 4294967296"
  shows "read_bytes m' p n = read_bytes m p n"
  unfolding read_bytes_def
  using assms by (auto simp: cells_def unat_offset32)

lemma memset_loop_apply:
  "unat p + n \<le> 4294967296 \<Longrightarrow>
   memset_loop n p c m a = (if unat a \<in> cells p n then c else m a)"
proof (induction n arbitrary: p m)
  case (Suc n)
  show ?case
  proof (cases "n = 0")
    case True
    then show ?thesis by (auto simp: cells_def word_unat_eq_iff [of a p])
  next
    case False
    with Suc.prems have p: "unat (p + 1) = unat p + 1"
      by (simp add: unat_add32)
    have "memset_loop n (p + 1) c (m(p := c)) a
        = (if unat a \<in> cells (p + 1) n then c else (m(p := c)) a)"
      using Suc.prems p by (intro Suc.IH) simp
    moreover have "a = p \<longleftrightarrow> unat a = unat p" by (simp add: word_unat_eq_iff)
    ultimately show ?thesis using p by (auto simp: cells_def)
  qed
qed (simp add: cells_def)

lemma memset_apply:
  "unat p + unat n \<le> 4294967296 \<Longrightarrow>
   memset p c n m a = (if unat a \<in> cells p (unat n) then ucast c else m a)"
  by (simp add: memset_def memset_loop_apply)

lemma memcpy_loop_frame:
  "unat p1 + n \<le> 4294967296 \<Longrightarrow> unat a \<notin> cells p1 n \<Longrightarrow> memcpy_loop n p1 p2 m a = m a"
proof (induction n arbitrary: p1 p2 m)
  case (Suc n)
  show ?case
  proof (cases "n = 0")
    case True
    with Suc.prems show ?thesis by (auto simp: cells_def word_unat_eq_iff)
  next
    case False
    with Suc.prems have p: "unat (p1 + 1) = unat p1 + 1" by (simp add: unat_add32)
    have "memcpy_loop n (p1 + 1) (p2 + 1) (m(p1 := m p2)) a = (m(p1 := m p2)) a"
      using Suc.prems p by (intro Suc.IH) (auto simp: cells_def)
    then show ?thesis using Suc.prems by (auto simp: cells_def)
  qed
qed simp

text \<open>A forward copy between buffers that do not overlap copies the source bytes.\<close>

lemma memcpy_loop_copies:
  "unat p1 + n \<le> 4294967296 \<Longrightarrow> unat p2 + n \<le> 4294967296 \<Longrightarrow> cells p1 n \<inter> cells p2 n = {} \<Longrightarrow>
   read_bytes (memcpy_loop n p1 p2 m) p1 n = read_bytes m p2 n"
proof (induction n arbitrary: p1 p2 m)
  case (Suc n)
  show ?case
  proof (cases "n = 0")
    case True
    then show ?thesis by (simp add: read_bytes_Suc)
  next
    case False
    with Suc.prems have p: "unat (p1 + 1) = unat p1 + 1" "unat (p2 + 1) = unat p2 + 1"
      by (simp_all add: unat_add32)
    let ?m = "m(p1 := m p2)"
    have sub: "cells (p1 + 1) n \<subseteq> cells p1 (Suc n)" "cells (p2 + 1) n \<subseteq> cells p2 (Suc n)"
      using p by (auto simp: cells_def)
    have tl: "read_bytes (memcpy_loop n (p1 + 1) (p2 + 1) ?m) (p1 + 1) n
        = read_bytes ?m (p2 + 1) n"
      using Suc.prems p sub by (intro Suc.IH) auto
    have "read_bytes ?m (p2 + 1) n = read_bytes m (p2 + 1) n"
    proof (rule read_bytes_cong)
      fix a :: u32 assume "unat a \<in> cells (p2 + 1) n"
      with sub have "unat a \<in> cells p2 (Suc n)" by blast
      moreover have "unat p1 \<in> cells p1 (Suc n)" by (simp add: cells_def)
      ultimately have "a \<noteq> p1" using Suc.prems(3) by auto
      then show "?m a = m a" by simp
    qed (use Suc.prems p in simp)
    moreover have "memcpy_loop n (p1 + 1) (p2 + 1) ?m p1 = ?m p1"
      using Suc.prems p by (intro memcpy_loop_frame) (auto simp: cells_def)
    ultimately show ?thesis using tl by (simp add: read_bytes_Suc)
  qed
qed simp

lemma memcmp_loop_zero_iff:
  "memcmp_loop n p1 p2 m = 0 \<longleftrightarrow> read_bytes m p1 n = read_bytes m p2 n"
  by (induction n arbitrary: p1 p2) (auto simp: read_bytes_Suc)

end
