(* ===== verification/Regions.thy ===== *)
theory Regions
  imports Memory "HOL-Library.Multiset"
begin

text \<open>
  Regions of the linear memory and families of pairwise disjoint regions. A region is a start
  address and a length. The allocators keep a family of regions (live blocks and free blocks)
  separate; an allocation or a release only moves, splits, joins or drops members of it. The
  family is a list whose order does not matter, so a move is an equation between multisets.
\<close>

type_synonym region = "nat \<times> nat"

definition span :: "region \<Rightarrow> nat set" where
  "span r = {fst r ..< fst r + snd r}"

definition clear_of :: "region \<Rightarrow> region \<Rightarrow> bool" where
  "clear_of r q \<longleftrightarrow> span r \<inter> span q = {}"

fun separate :: "region list \<Rightarrow> bool" where
  "separate [] = True"
| "separate (r # rs) = ((\<forall>q \<in> set rs. clear_of r q) \<and> separate rs)"

definition within :: "nat \<Rightarrow> nat \<Rightarrow> region \<Rightarrow> bool" where
  "within lo hi r \<longleftrightarrow> lo \<le> fst r \<and> fst r + snd r \<le> hi"

lemma clear_of_sym: "clear_of r q \<longleftrightarrow> clear_of q r"
  by (auto simp: clear_of_def)

lemma clear_of_mono: "clear_of r q \<Longrightarrow> span r' \<subseteq> span r \<Longrightarrow> clear_of r' q"
  by (auto simp: clear_of_def)

lemma span_empty [simp]: "span (p, 0) = {}"
  by (simp add: span_def)

lemma clear_of_empty [simp]: "clear_of (p, 0) q" "clear_of q (p, 0)"
  by (simp_all add: clear_of_def)

lemma clear_of_above: "fst r + snd r \<le> fst q \<Longrightarrow> clear_of r q"
  by (auto simp: clear_of_def span_def)

lemma within_above: "within lo hi r \<Longrightarrow> hi \<le> fst q \<Longrightarrow> clear_of r q"
  by (auto simp: within_def intro: clear_of_above)

lemma within_mono: "within lo hi r \<Longrightarrow> hi \<le> hi' \<Longrightarrow> within lo hi' r"
  by (simp add: within_def)

lemma separate_append:
  "separate (xs @ ys) \<longleftrightarrow>
     separate xs \<and> separate ys \<and> (\<forall>x \<in> set xs. \<forall>y \<in> set ys. clear_of x y)"
  by (induction xs) (auto simp: clear_of_sym)

lemma separate_middle:
  "separate (xs @ x # ys) \<longleftrightarrow> separate (x # xs @ ys)"
  by (auto simp: separate_append clear_of_sym)

lemma separate_perm: "mset xs = mset ys \<Longrightarrow> separate xs \<longleftrightarrow> separate ys"
proof (induction xs arbitrary: ys)
  case (Cons x xs)
  have "x \<in> set ys" using Cons.prems by (metis list.set_intros(1) set_mset_mset)
  then obtain as bs where ys: "ys = as @ x # bs" by (meson split_list)
  with Cons.prems have m: "mset xs = mset (as @ bs)" by simp
  then have "set xs = set (as @ bs)" by (metis set_mset_mset)
  with Cons.IH [OF m] show ?case
    unfolding ys separate_middle by simp
qed simp

lemma separate_submset: "separate ys \<Longrightarrow> mset xs \<subseteq># mset ys \<Longrightarrow> separate xs"
proof -
  assume sep: "separate ys" and "mset xs \<subseteq># mset ys"
  then obtain M where "mset ys = mset xs + M" by (auto simp: subset_mset.le_iff_add)
  moreover obtain zs where "M = mset zs" by (metis ex_mset)
  ultimately have "mset (xs @ zs) = mset ys" by simp
  then have "separate (xs @ zs)" using sep by (metis separate_perm)
  then show ?thesis by (simp add: separate_append)
qed

lemma separate_shrink:
  "separate (r # rs) \<Longrightarrow> span r' \<subseteq> span r \<Longrightarrow> separate (r' # rs)"
  by (auto intro: clear_of_mono)

lemma separate_shrink_map:
  "separate (map f xs) \<Longrightarrow> (\<And>x. x \<in> set xs \<Longrightarrow> span (g x) \<subseteq> span (f x)) \<Longrightarrow> separate (map g xs)"
proof (induction xs)
  case (Cons x xs)
  have "clear_of (g x) (g y)" if "y \<in> set xs" for y
  proof -
    have "clear_of (f x) (f y)" using Cons.prems(1) that by simp
    moreover have "span (g x) \<subseteq> span (f x)" "span (g y) \<subseteq> span (f y)"
      using Cons.prems(2) that by simp_all
    ultimately show ?thesis unfolding clear_of_def by blast
  qed
  with Cons show ?case by simp
qed simp

lemma separate_split:
  "separate ((p, n) # rs) \<Longrightarrow> k \<le> n \<Longrightarrow> separate ((p, k) # (p + k, n - k) # rs)"
  by (auto simp: clear_of_def span_def; fastforce)

lemma separate_join:
  "separate ((p, n) # (p + n, k) # rs) \<Longrightarrow> separate ((p, n + k) # rs)"
proof -
  assume a: "separate ((p, n) # (p + n, k) # rs)"
  have "span (p, n + k) = span (p, n) \<union> span (p + n, k)" by (auto simp: span_def)
  with a show ?thesis by (auto simp: clear_of_def)
qed

lemma separateD:
  "separate rs \<Longrightarrow> i < length rs \<Longrightarrow> j < length rs \<Longrightarrow> i \<noteq> j \<Longrightarrow> clear_of (rs ! i) (rs ! j)"
proof (induction rs arbitrary: i j)
  case (Cons r rs)
  then show ?case
    by (cases i; cases j) (auto simp: clear_of_sym)
qed simp

lemma separate_add_above:
  "separate rs \<Longrightarrow> \<forall>r \<in> set rs. within lo hi r \<Longrightarrow> hi \<le> p \<Longrightarrow> separate ((p, n) # rs)"
  using within_above [of lo hi _ "(p, n)"] by (auto simp: clear_of_sym)

end
