(* ===== verification/SimpleMalloc.thy ===== *)
theory SimpleMalloc
  imports Regions
begin

text \<open>
  The allocator that contracts link against: \<open>libraries/eosiolib/simple_malloc.cpp\<close> with its two
  helpers \<open>malloc/eosio/small_memory_alloc.hpp\<close> and \<open>malloc/eosio/big_memory_alloc.hpp\<close>.
  Sizes are rounded to one of fifteen classes; freed blocks of a class form a list linked through
  their first word, freed blocks above the largest class go to a table of thirty-two chunks, and
  fresh memory is taken from the end of the heap, growing the linear memory page by page.
  A pointer is a 32-bit address and the null pointer is \<open>0\<close>.
\<close>

section \<open>Small blocks: small_mem_alloc\<close>

definition free_list_chunk_size :: "u32 list" where
  "free_list_chunk_size = [64, 128, 256, 512, 1024, 2048, 4096, 8192, 16384, 32768, 65536,
     131072, 262144, 524288, 1048576]"

text \<open>The loop of \<open>find_small_mem_size\<close>: the class and the adjusted size, or \<open>-1\<close> and the size.\<close>

fun find_small_loop :: "u32 list \<Rightarrow> nat \<Rightarrow> u32 \<Rightarrow> int \<times> u32" where
  "find_small_loop [] i sz = (- 1, sz)"
| "find_small_loop (c # cs) i sz = (if sz \<le> c then (int i, c) else find_small_loop cs (Suc i) sz)"

definition find_small_mem_size :: "u32 \<Rightarrow> int \<times> u32" where
  "find_small_mem_size sz = find_small_loop free_list_chunk_size 0 sz"

definition allocate_from_free_list ::
    "int \<Rightarrow> u32 \<Rightarrow> u32 list \<times> memory \<Rightarrow> u32 \<times> u32 list \<times> memory" where
  "allocate_from_free_list fid sz st = (case st of (free_lists, m) \<Rightarrow>
     if fid \<ge> 0 \<and> free_lists ! nat fid \<noteq> 0 then
       let cur = free_lists ! nat fid;
           next = load32 m cur;
           m1 = store32 m cur (of_int fid);
           m2 = store32 m1 (cur + 4) sz
       in (cur, free_lists[nat fid := next], m2)
     else (0, free_lists, m))"

definition add_to_freelist :: "u32 \<Rightarrow> int \<Rightarrow> u32 list \<times> memory \<Rightarrow> u32 list \<times> memory" where
  "add_to_freelist ptr fid st = (case st of (free_lists, m) \<Rightarrow>
     if fid \<ge> 0 \<and> nat fid < length free_lists then
       (free_lists[nat fid := ptr], store32 m ptr (free_lists ! nat fid))
     else (free_lists, m))"

section \<open>Big blocks: big_mem_alloc\<close>

record bigchunk =
  chunk_ptr :: u32
  capacity :: u32

definition max_bigchunk_items :: nat where
  "max_bigchunk_items = 32"

definition no_chunk :: bigchunk where
  "no_chunk = \<lparr>chunk_ptr = 0, capacity = 0\<rparr>"

text \<open>\<open>std::find_if\<close> over the table: the first chunk that is in use and large enough.\<close>

fun alloc_from_bigchunk :: "u32 \<Rightarrow> bigchunk list \<Rightarrow> u32 \<times> bigchunk list" where
  "alloc_from_bigchunk sz [] = (0, [])"
| "alloc_from_bigchunk sz (c # cs) =
     (if chunk_ptr c \<noteq> 0 \<and> capacity c \<ge> sz then
        (chunk_ptr c, \<lparr>chunk_ptr = chunk_ptr c + sz, capacity = capacity c - sz\<rparr> # cs)
      else (case alloc_from_bigchunk sz cs of (r, cs') \<Rightarrow> (r, c # cs')))"

text \<open>
  One iteration of the loop of \<open>add_to_bigchunk\<close>: merge with chunk \<open>i\<close> when it ends where the
  freed memory begins or begins where it ends, then keep the smallest chunk seen. The source
  holds \<open>smallest_cap\<close> in an \<open>int\<close> and compares it with a \<open>size_t\<close>, which converts it back.
\<close>

type_synonym merge_state = "bigchunk list \<times> u32 \<times> u32 \<times> u32 \<times> nat"

definition merge_chunk :: "nat \<Rightarrow> bigchunk list \<times> u32 \<times> u32 \<Rightarrow> bigchunk list \<times> u32 \<times> u32" where
  "merge_chunk i st = (case st of (cs, freed_mem, cap) \<Rightarrow>
     if chunk_ptr (cs ! i) \<noteq> 0 then
       if chunk_ptr (cs ! i) + capacity (cs ! i) = freed_mem then
         (cs[i := no_chunk], chunk_ptr (cs ! i), cap + capacity (cs ! i))
       else if freed_mem + cap = chunk_ptr (cs ! i) then
         (cs[i := no_chunk], freed_mem, cap + capacity (cs ! i))
       else (cs, freed_mem, cap)
     else (cs, freed_mem, cap))"

definition bigchunk_step :: "nat \<Rightarrow> merge_state \<Rightarrow> merge_state" where
  "bigchunk_step i st = (case st of (cs, freed_mem, cap, smallest_cap, smallest_idx) \<Rightarrow>
     case merge_chunk i (cs, freed_mem, cap) of (cs', freed', cap') \<Rightarrow>
       if capacity (cs' ! i) < smallest_cap then (cs', freed', cap', capacity (cs' ! i), i)
       else (cs', freed', cap', smallest_cap, smallest_idx))"

definition add_to_bigchunk :: "u32 \<Rightarrow> u32 \<Rightarrow> bigchunk list \<Rightarrow> bigchunk list" where
  "add_to_bigchunk freed_mem cap cs =
     (case fold bigchunk_step [0..<max_bigchunk_items] (cs, freed_mem, cap, capacity (cs ! 0), 0)
      of (cs', freed', cap', smallest_cap, smallest_idx) \<Rightarrow>
        if cap' > smallest_cap then
          cs'[smallest_idx := \<lparr>chunk_ptr = freed', capacity = cap'\<rparr>]
        else cs')"

section \<open>The allocator: dsmalloc\<close>

record dsmalloc =
  last_ptr :: u32
  next_page :: u32
  free_lists :: "u32 list"
  bigchunks :: "bigchunk list"
  mem :: memory
  mem_pages :: u32
  max_pages :: u32
  free_enabled :: bool

definition free_list_meta_size :: u32 where
  "free_list_meta_size = 16"

text \<open>
  The constructor: the heap starts at \<open>&__heap_base\<close> and the next page is the current size of
  the linear memory (\<open>mem_pages\<close>; the engine refuses to grow it past \<open>max_pages\<close>).
\<close>

definition ds_init :: "u32 \<Rightarrow> u32 \<Rightarrow> u32 \<Rightarrow> memory \<Rightarrow> dsmalloc" where
  "ds_init heap_base pages limit m = \<lparr>last_ptr = heap_base, next_page = pages,
     free_lists = replicate 15 0, bigchunks = replicate max_bigchunk_items no_chunk,
     mem = m, mem_pages = pages, max_pages = limit, free_enabled = False\<rparr>"

text \<open>
  Both overloads of \<open>align\<close>. The second argument is a \<open>uint8_t\<close>, promoted to \<open>int\<close> in the
  expression and converted to \<open>size_t\<close> by the arithmetic.
\<close>

definition align :: "u32 \<Rightarrow> u8 \<Rightarrow> u32" where
  "align p align_amt = (p + ucast align_amt - 1) AND NOT (ucast align_amt - 1)"

text \<open>\<open>GROW_MEMORY\<close>: \<open>None\<close> is the \<open>-1\<close> of \<open>memory.grow\<close>.\<close>

definition grow_memory :: "u32 \<Rightarrow> dsmalloc \<Rightarrow> dsmalloc option" where
  "grow_memory n s = (if unat (mem_pages s) + unat n \<le> unat (max_pages s)
     then Some (s\<lparr>mem_pages := mem_pages s + n\<rparr>) else None)"

definition write_header :: "u32 \<Rightarrow> int \<Rightarrow> u32 \<Rightarrow> dsmalloc \<Rightarrow> dsmalloc" where
  "write_header ret fid sz s =
     s\<lparr>mem := store32 (store32 (mem s) ret (of_int fid)) (ret + 4) sz\<rparr>"

text \<open>\<open>dsmalloc::operator()\<close>\<close>

definition ds_alloc :: "u32 \<Rightarrow> u8 \<Rightarrow> dsmalloc \<Rightarrow> (u32 \<times> dsmalloc) result" where
  "ds_alloc sz0 align_amt s =
     (if sz0 = 0 then Inr (0, s)
      else case find_small_mem_size (align (sz0 + free_list_meta_size) align_amt) of (fid, sz) \<Rightarrow>
        if fid \<ge> 0 \<and> free_lists s ! nat fid \<noteq> 0 then
          (case allocate_from_free_list fid sz (free_lists s, mem s) of (cur, fl, m) \<Rightarrow>
             Inr (cur + free_list_meta_size, s\<lparr>free_lists := fl, mem := m\<rparr>))
        else
          let ret = last_ptr s;
              new_last = align (last_ptr s + sz) align_amt;
              pages_to_alloc = drop_bit 16 sz;
              np = next_page s + pages_to_alloc;
              more = push_bit 16 np \<le> new_last;
              np' = (if more then np + 1 else np);
              pages' = (if more then pages_to_alloc + 1 else pages_to_alloc)
          in case grow_memory pages' s of
               Some s1 \<Rightarrow>
                 Inr (ret + free_list_meta_size,
                   write_header ret fid sz (s1\<lparr>last_ptr := new_last, next_page := np'\<rparr>))
             | None \<Rightarrow>
                 (case alloc_from_bigchunk sz (bigchunks s) of (r, cs) \<Rightarrow>
                    if r \<noteq> 0 then
                      Inr (r + free_list_meta_size, write_header r fid sz (s\<lparr>bigchunks := cs\<rparr>))
                    else Inl (Check ''failed to allocate pages'')))"

text \<open>\<open>dsmalloc::free\<close>\<close>

definition ds_free :: "u32 \<Rightarrow> dsmalloc \<Rightarrow> dsmalloc" where
  "ds_free p s =
     (if sint p \<ge> sint free_list_meta_size then
        let ptr = p - free_list_meta_size;
            fid = sint (load32 (mem s) ptr)
        in if fid \<ge> 0 \<and> nat fid < length (free_lists s) then
             (case add_to_freelist ptr fid (free_lists s, mem s) of (fl, m) \<Rightarrow>
                s\<lparr>free_lists := fl, mem := m\<rparr>)
           else s\<lparr>bigchunks := add_to_bigchunk ptr (load32 (mem s) (ptr + 4)) (bigchunks s)\<rparr>
      else s)"

section \<open>The C entry points\<close>

definition eosio_malloc_enable_free :: "dsmalloc \<Rightarrow> dsmalloc" where
  "eosio_malloc_enable_free s = s\<lparr>free_enabled := True\<rparr>"

definition eosio_malloc_disable_free :: "dsmalloc \<Rightarrow> dsmalloc" where
  "eosio_malloc_disable_free s = s\<lparr>free_enabled := False\<rparr>"

definition c_malloc :: "u32 \<Rightarrow> dsmalloc \<Rightarrow> (u32 \<times> dsmalloc) result" where
  "c_malloc n s = ds_alloc n 16 s"

definition EINVAL :: int where
  "EINVAL = 22"

definition c_posix_memalign :: "u32 \<Rightarrow> u32 \<Rightarrow> dsmalloc \<Rightarrow> (int \<times> u32 option \<times> dsmalloc) result" where
  "c_posix_memalign alignment n s =
     (if alignment < 4 \<or> alignment AND (alignment - 1) \<noteq> 0 then Inr (EINVAL, None, s)
      else case ds_alloc n (ucast (if alignment > 16 then alignment else 16)) s of
             Inl e \<Rightarrow> Inl e
           | Inr (p, s') \<Rightarrow> Inr (0, Some p, s'))"

definition c_calloc :: "u32 \<Rightarrow> u32 \<Rightarrow> dsmalloc \<Rightarrow> (u32 \<times> dsmalloc) result" where
  "c_calloc cnt n s =
     (case ds_alloc (cnt * n) 16 s of
        Inl e \<Rightarrow> Inl e
      | Inr (p, s') \<Rightarrow>
          if p \<noteq> 0 then Inr (p, s'\<lparr>mem := memset p 0 (cnt * n) (mem s')\<rparr>)
          else Inr (0, s'))"

definition c_free :: "u32 \<Rightarrow> dsmalloc \<Rightarrow> dsmalloc" where
  "c_free p s = (if free_enabled s then ds_free p s else s)"

text \<open>
  \<open>memmove\<close> here is the copy of \<open>size\<close> bytes of the old memory into the new block: the bytes
  are those before the copy, whatever the overlap.
\<close>

definition copy_bytes :: "u32 \<Rightarrow> u32 \<Rightarrow> u32 \<Rightarrow> memory \<Rightarrow> memory" where
  "copy_bytes dst src n m = (\<lambda>a. if a - dst < n then m (src + (a - dst)) else m a)"

definition c_realloc :: "u32 \<Rightarrow> u32 \<Rightarrow> dsmalloc \<Rightarrow> (u32 \<times> dsmalloc) result" where
  "c_realloc old n s =
     (if sint old \<ge> sint free_list_meta_size
         \<and> load32 (mem s) (old - free_list_meta_size + 4) - free_list_meta_size \<ge> n
      then Inr (old, s)
      else case ds_alloc n 16 s of
             Inl e \<Rightarrow> Inl e
           | Inr (result, s') \<Rightarrow>
               if result \<noteq> 0 then
                 Inr (result, c_free old (s'\<lparr>mem := copy_bytes result old n (mem s')\<rparr>))
               else Inr (0, s'))"

end
