(* ===== verification/SimpleMallocSafe.thy ===== *)
theory SimpleMallocSafe
  imports SimpleMalloc
begin

text \<open>
  Memory safety of the contract allocator. The state of the heap is described by two ghost
  lists: the live blocks, and per size class the addresses on its free list. The invariant
  \<open>ds_inv\<close> says that the blocks, the free-list nodes and the big chunks are pairwise disjoint
  regions of the heap, that the free lists are the linked lists in memory, and that every live
  block carries the header \<open>free\<close> will read. Every operation keeps it, so it holds along every
  run of a client (\<open>ds_step\<close>) that frees what it was given and writes inside its blocks.
\<close>

section \<open>Rounding and size classes\<close>

lemma and_not_15: "(a :: u32) AND NOT 15 = push_bit 4 (drop_bit 4 a)"
proof (rule bit_word_eqI)
  have m: "(15 :: u32) = mask 4" by (simp add: mask_eq_exp_minus_1)
  fix n assume "n < LENGTH(32)"
  then show "bit (a AND NOT 15) n = bit (push_bit 4 (drop_bit 4 a)) n"
    unfolding m by (auto simp: bit_simps)
qed

lemma unat_and_not_15: "unat ((a :: u32) AND - 16) = unat a div 16 * 16"
proof -
  have "a AND - 16 = push_bit 4 (drop_bit 4 a)"
    using and_not_15 [of a] by simp
  also have "\<dots> = drop_bit 4 a * 16" by (simp add: push_bit_eq_mult)
  finally have "unat (a AND - 16) = (unat a div 16 * 16) mod 4294967296"
    by (simp only: unat_word_ariths unat_drop_bit32) simp
  also have "\<dots> = unat a div 16 * 16"
    using unat_lt32 [of a] by (intro mod_less) linarith
  finally show ?thesis .
qed

lemma align_16: "align x 16 = (x + 15) AND - 16"
  by (simp add: align_def, subst add.commute, rule refl)

lemma unat_align16:
  "unat x + 15 < 4294967296 \<Longrightarrow> unat (align x 16) = (unat x + 15) div 16 * 16"
proof -
  assume a: "unat x + 15 < 4294967296"
  then have "unat (x + 15) = unat x + 15" by (simp add: unat_add32)
  then show ?thesis unfolding align_16 unat_and_not_15 by simp
qed

lemma align16_id:
  "unat x + 15 < 4294967296 \<Longrightarrow> 16 dvd unat x \<Longrightarrow> align x 16 = x"
  by (auto simp: word_unat_eq_iff unat_align16 elim!: dvdE)

lemma length_free_list_chunk_size [simp]: "length free_list_chunk_size = 15"
  by (simp add: free_list_chunk_size_def)

lemma less_15_cases:
  "i < (15::nat) \<longleftrightarrow> i \<in> {0,1,2,3,4,5,6,7,8,9,10,11,12,13,14}"
  by simp arith

lemma chunk_size_facts:
  "i < 15 \<Longrightarrow> 64 \<le> unat (free_list_chunk_size ! i) \<and> unat (free_list_chunk_size ! i) \<le> 1048576
     \<and> 16 dvd unat (free_list_chunk_size ! i)"
  by (auto simp: less_15_cases free_list_chunk_size_def)

lemma find_small_loop_spec:
  "find_small_loop cs i sz = (fid, sz') \<Longrightarrow>
     (fid = - 1 \<and> sz' = sz \<and> (\<forall>c \<in> set cs. c < sz)) \<or>
     (\<exists>k < length cs. fid = int (i + k) \<and> sz' = cs ! k \<and> sz \<le> sz' \<and> (\<forall>j < k. cs ! j < sz))"
proof (induction cs arbitrary: i)
  case (Cons c cs)
  show ?case
  proof (cases "sz \<le> c")
    case True
    with Cons.prems show ?thesis by (intro disjI2 exI [of _ 0]) auto
  next
    case False
    with Cons.prems have "find_small_loop cs (Suc i) sz = (fid, sz')" by simp
    from Cons.IH [OF this] False show ?thesis
    proof (elim disjE conjE exE, goal_cases)
      case 1
      then show ?case by auto
    next
      case (2 k)
      then show ?case
        by (intro disjI2 exI [of _ "Suc k"]) (auto simp: nth_Cons split: nat.splits)
    qed
  qed
qed simp

lemma find_small_mem_size_spec:
  assumes "find_small_mem_size sz = (fid, sz')"
  obtains (big) "fid = - 1" "sz' = sz" "unat sz > 1048576"
    | (small) k where "k < 15" "fid = int k" "sz' = free_list_chunk_size ! k" "sz \<le> sz'"
        "\<And>j. j < k \<Longrightarrow> free_list_chunk_size ! j < sz"
  using find_small_loop_spec [OF assms [unfolded find_small_mem_size_def]]
  by (auto simp: free_list_chunk_size_def word_less_nat_alt)

section \<open>Free lists in memory\<close>

fun flchain :: "memory \<Rightarrow> u32 \<Rightarrow> u32 list \<Rightarrow> bool" where
  "flchain m p [] \<longleftrightarrow> p = 0"
| "flchain m p (q # qs) \<longleftrightarrow> p \<noteq> 0 \<and> p = q \<and> flchain m (load32 m p) qs"

lemma flchain_cong:
  "(\<And>q. q \<in> set qs \<Longrightarrow> load32 m' q = load32 m q) \<Longrightarrow> flchain m' p qs \<longleftrightarrow> flchain m p qs"
  by (induction qs arbitrary: p) auto

lemma flchain_nonempty: "flchain m p qs \<Longrightarrow> p \<noteq> 0 \<Longrightarrow> \<exists>rs. qs = p # rs"
  by (cases qs) auto

section \<open>The regions of a heap\<close>

type_synonym block = "u32 \<times> u32"

definition block_region :: "block \<Rightarrow> region" where
  "block_region b = (unat (fst b), unat (snd b))"

definition big_blocks :: "bigchunk list \<Rightarrow> block list" where
  "big_blocks cs = map (\<lambda>c. (chunk_ptr c, capacity c)) (filter (\<lambda>c. chunk_ptr c \<noteq> 0) cs)"

definition free_blocks :: "u32 list \<Rightarrow> u32 list list \<Rightarrow> block list" where
  "free_blocks sizes fls = concat (map2 (\<lambda>c qs. map (\<lambda>q. (q, c)) qs) sizes fls)"

definition heap_blocks :: "block list \<Rightarrow> u32 list list \<Rightarrow> bigchunk list \<Rightarrow> block list" where
  "heap_blocks live fls cs = live @ free_blocks free_list_chunk_size fls @ big_blocks cs"

lemma mset_free_blocks_update:
  "i < length sizes \<Longrightarrow> length sizes = length fls \<Longrightarrow>
   mset (free_blocks sizes (fls[i := qs])) + mset (map (\<lambda>q. (q, sizes ! i)) (fls ! i))
   = mset (free_blocks sizes fls) + mset (map (\<lambda>q. (q, sizes ! i)) qs)"
  unfolding free_blocks_def
proof (induction sizes arbitrary: i fls)
  case (Cons c sizes)
  then obtain f fls' where [simp]: "fls = f # fls'" by (cases fls) auto
  show ?case
  proof (cases i)
    case 0
    then show ?thesis by simp
  next
    case (Suc k)
    with Cons.prems Cons.IH [of k fls'] show ?thesis by simp
  qed
qed simp

lemma in_free_blocks:
  "i < length sizes \<Longrightarrow> length sizes = length fls \<Longrightarrow> q \<in> set (fls ! i) \<Longrightarrow>
   (q, sizes ! i) \<in> set (free_blocks sizes fls)"
  unfolding free_blocks_def
  by (auto simp: set_zip intro!: exI [of _ "sizes ! i"] exI [of _ "fls ! i"] exI [of _ i])

lemma mset_big_blocks_clear:
  "i < length cs \<Longrightarrow> chunk_ptr (cs ! i) \<noteq> 0 \<Longrightarrow>
   mset (big_blocks cs)
   = add_mset (chunk_ptr (cs ! i), capacity (cs ! i)) (mset (big_blocks (cs[i := no_chunk])))"
  by (subst (1) id_take_nth_drop [of i cs])
     (auto simp: big_blocks_def upd_conv_take_nth_drop no_chunk_def)

lemma mset_big_blocks_put:
  "i < length cs \<Longrightarrow>
   mset (big_blocks (cs[i := c])) \<subseteq># add_mset (chunk_ptr c, capacity c) (mset (big_blocks cs))"
  by (subst (2) id_take_nth_drop [of i cs])
     (auto simp: big_blocks_def upd_conv_take_nth_drop intro: subset_mset.order_trans)

section \<open>Disjoint blocks\<close>

definition block_ok :: "nat \<Rightarrow> nat \<Rightarrow> block \<Rightarrow> bool" where
  "block_ok lo hi b \<longleftrightarrow> within lo hi (block_region b)
     \<and> 16 dvd unat (fst b) \<and> 16 dvd unat (snd b)"

definition blocks_ok :: "nat \<Rightarrow> nat \<Rightarrow> block list \<Rightarrow> bool" where
  "blocks_ok lo hi bs \<longleftrightarrow> separate (map block_region bs) \<and> (\<forall>b \<in> set bs. block_ok lo hi b)"

lemma blocks_ok_sub:
  assumes "blocks_ok lo hi bs" and "mset as \<subseteq># mset bs"
  shows "blocks_ok lo hi as"
proof -
  have "mset (map block_region as) \<subseteq># mset (map block_region bs)"
    using assms(2) by (simp add: image_mset_subseteq_mono)
  moreover have "set as \<subseteq> set bs" using assms(2) by (metis set_mset_mono set_mset_mset)
  ultimately show ?thesis
    using assms(1) by (auto simp: blocks_ok_def intro: separate_submset)
qed

lemma blocks_ok_perm: "mset as = mset bs \<Longrightarrow> blocks_ok lo hi as \<longleftrightarrow> blocks_ok lo hi bs"
  by (metis blocks_ok_sub subset_mset.order_refl)

lemma blocks_ok_mono: "blocks_ok lo hi bs \<Longrightarrow> hi \<le> hi' \<Longrightarrow> blocks_ok lo hi' bs"
  by (auto simp: blocks_ok_def block_ok_def intro: within_mono)

lemma blocks_ok_add_above:
  assumes "blocks_ok lo hi bs" "lo \<le> hi" "hi \<le> unat p" "unat p + unat n \<le> hi'"
    "16 dvd unat p" "16 dvd unat n"
  shows "blocks_ok lo hi' ((p, n) # bs)"
proof -
  have "separate ((unat p, unat n) # map block_region bs)"
    using assms by (intro separate_add_above [of _ lo hi]) (auto simp: blocks_ok_def block_ok_def)
  with assms show ?thesis
    by (auto simp: blocks_ok_def block_ok_def block_region_def within_def)
qed

lemma blocks_ok_split:
  assumes "blocks_ok lo hi ((p, n) # bs)" "k \<le> n" "16 dvd unat k" "hi < 4294967296"
  shows "blocks_ok lo hi ((p, k) # (p + k, n - k) # bs)"
proof -
  have le: "unat k \<le> unat n" using assms(2) by (simp add: word_le_nat_alt)
  have b: "lo \<le> unat p" "unat p + unat n \<le> hi" "16 dvd unat p" "16 dvd unat n"
    using assms(1) by (auto simp: blocks_ok_def block_ok_def block_region_def within_def)
  then have u: "unat (p + k) = unat p + unat k" "unat (n - k) = unat n - unat k"
    using le assms(4) by (simp_all add: unat_add32 unat_sub32)
  have "separate ((unat p, unat n) # map block_region bs)"
    using assms(1) by (simp add: blocks_ok_def block_region_def)
  from separate_split [OF this le] b u le assms show ?thesis
    by (auto simp: blocks_ok_def block_ok_def block_region_def within_def dvd_diff_nat)
qed

lemma blocks_ok_join:
  assumes "blocks_ok lo hi ((p, n) # (p + n, k) # bs)" "hi < 4294967296"
  shows "blocks_ok lo hi ((p, n + k) # bs)"
proof -
  have b: "lo \<le> unat p" "unat p + unat n \<le> hi" "unat (p + n) + unat k \<le> hi"
      "16 dvd unat p" "16 dvd unat n" "16 dvd unat k"
    using assms(1) by (auto simp: blocks_ok_def block_ok_def block_region_def within_def)
  then have u: "unat (p + n) = unat p + unat n" using assms(2) by (simp add: unat_add32)
  with b assms(2) have v: "unat (n + k) = unat n + unat k" by (simp add: unat_add32)
  have "separate ((unat p, unat n) # (unat p + unat n, unat k) # map block_region bs)"
    using assms(1) u by (simp add: blocks_ok_def block_region_def)
  from separate_join [OF this] b u v assms show ?thesis
    by (auto simp: blocks_ok_def block_ok_def block_region_def within_def)
qed

lemma blocks_ok_clear:
  "blocks_ok lo hi (b # bs) \<Longrightarrow> b' \<in> set bs \<Longrightarrow> clear_of (block_region b) (block_region b')"
  by (auto simp: blocks_ok_def)

lemma blocks_ok_member: "blocks_ok lo hi bs \<Longrightarrow> b \<in> set bs \<Longrightarrow> block_ok lo hi b"
  by (simp add: blocks_ok_def)

section \<open>The chunk table\<close>

lemma alloc_from_bigchunk_spec:
  "alloc_from_bigchunk sz cs = (r, cs') \<Longrightarrow> r \<noteq> 0 \<Longrightarrow>
   length cs' = length cs \<and> (\<exists>n M. mset (big_blocks cs) = add_mset (r, n) M \<and> sz \<le> n
     \<and> mset (big_blocks cs') \<subseteq># add_mset (r + sz, n - sz) M)"
proof (induction cs arbitrary: cs')
  case (Cons c cs)
  show ?case
  proof (cases "chunk_ptr c \<noteq> 0 \<and> capacity c \<ge> sz")
    case True
    with Cons.prems show ?thesis
      by (intro conjI exI [of _ "capacity c"] exI [of _ "mset (big_blocks cs)"])
         (auto simp: big_blocks_def)
  next
    case False
    with Cons.prems obtain cs1 where c1: "alloc_from_bigchunk sz cs = (r, cs1)" "cs' = c # cs1"
      by (auto split: prod.splits if_splits)
    from Cons.IH [OF c1(1) Cons.prems(2)] obtain n M where
      IH: "length cs1 = length cs" "mset (big_blocks cs) = add_mset (r, n) M" "sz \<le> n"
        "mset (big_blocks cs1) \<subseteq># add_mset (r + sz, n - sz) M" by blast
    have hd: "mset (big_blocks (c # xs)) = mset (big_blocks [c]) + mset (big_blocks xs)" for xs
      by (simp add: big_blocks_def)
    have "mset (big_blocks [c]) + mset (big_blocks cs1)
        \<subseteq># add_mset (r + sz, n - sz) (mset (big_blocks [c]) + M)"
      using IH(4) by (metis add_mset_add_single subset_mset.add_left_mono union_assoc)
    with IH c1(2) show ?thesis
      by (intro conjI exI [of _ n] exI [of _ "mset (big_blocks [c]) + M"])
         (simp_all add: hd [of cs] hd [of cs1])
  qed
qed simp

lemma merge_chunk_ok:
  assumes "merge_chunk i (cs, p, n) = (cs', p', n')" "i < length cs" "hi < 4294967296"
    and ok: "blocks_ok lo hi ((p, n) # rest @ big_blocks cs)"
  shows "length cs' = length cs \<and> blocks_ok lo hi ((p', n') # rest @ big_blocks cs')
     \<and> (p \<noteq> 0 \<longrightarrow> p' \<noteq> 0)"
proof -
  let ?q = "chunk_ptr (cs ! i)" and ?k = "capacity (cs ! i)" and ?cs = "cs[i := no_chunk]"
  have move: "mset ((q, k) # (p, n) # rest @ big_blocks ?cs) = mset ((p, n) # rest @ big_blocks cs)"
    if "?q \<noteq> 0" "q = ?q" "k = ?k" for q k
    using that mset_big_blocks_clear [OF assms(2)] by simp
  consider (right) "?q \<noteq> 0" "?q + ?k = p" "cs' = ?cs" "p' = ?q" "n' = n + ?k"
    | (left) "?q \<noteq> 0" "p + n = ?q" "cs' = ?cs" "p' = p" "n' = n + ?k"
    | (none) "cs' = cs" "p' = p" "n' = n"
    using assms(1) by (auto simp: merge_chunk_def split: if_splits)
  then show ?thesis
  proof cases
    case right
    then have "blocks_ok lo hi ((?q, ?k) # (?q + ?k, n) # rest @ big_blocks ?cs)"
      using blocks_ok_perm [OF move [OF right(1) refl refl]] ok by simp
    from blocks_ok_join [OF this assms(3)] right show ?thesis by (simp add: add.commute)
  next
    case left
    have "blocks_ok lo hi ((p, n) # (p + n, ?k) # rest @ big_blocks ?cs)"
      using blocks_ok_perm [OF move [OF left(1) refl refl]] ok left(2)
      by (subst blocks_ok_perm [of _ "(?q, ?k) # (p, n) # rest @ big_blocks ?cs"]) auto
    from blocks_ok_join [OF this assms(3)] left show ?thesis by simp
  next
    case none
    with ok show ?thesis by simp
  qed
qed

lemma add_to_bigchunk_ok:
  assumes "length cs = 32" "hi < 4294967296" "p \<noteq> 0"
    and ok: "blocks_ok lo hi ((p, n) # rest @ big_blocks cs)"
  shows "length (add_to_bigchunk p n cs) = 32 \<and> blocks_ok lo hi (rest @ big_blocks (add_to_bigchunk p n cs))"
proof -
  let ?P = "\<lambda>(cs, p, n, sc :: u32, si :: nat). length cs = 32 \<and> si < 32 \<and> p \<noteq> 0
     \<and> blocks_ok lo hi ((p, n) # rest @ big_blocks cs)"
  let ?st = "fold bigchunk_step [0..<max_bigchunk_items] (cs, p, n, capacity (cs ! 0), 0)"
  have "?P ?st"
  proof (rule fold_invariant [where Q = "\<lambda>i. i < 32"])
    fix i :: nat and st :: merge_state assume i: "i < 32" and P: "?P st"
    obtain cs1 p1 n1 sc si where st: "st = (cs1, p1, n1, sc, si)" by (metis prod.collapse)
    obtain cs2 p2 n2 where m: "merge_chunk i (cs1, p1, n1) = (cs2, p2, n2)" by (metis prod.collapse)
    from merge_chunk_ok [OF m _ assms(2)] i P st
    have "length cs2 = 32" "p2 \<noteq> 0" "blocks_ok lo hi ((p2, n2) # rest @ big_blocks cs2)" "si < 32"
      by auto
    then show "?P (bigchunk_step i st)"
      using i by (simp add: bigchunk_step_def st m)
  qed (use assms in \<open>simp_all add: max_bigchunk_items_def\<close>)
  then obtain cs' p' n' sc si where st: "?st = (cs', p', n', sc, si)" and
    P: "length cs' = 32" "si < 32" "p' \<noteq> 0" "blocks_ok lo hi ((p', n') # rest @ big_blocks cs')"
    by (auto split: prod.splits)
  let ?c = "\<lparr>chunk_ptr = p', capacity = n'\<rparr>"
  have "mset (rest @ big_blocks (cs'[si := ?c])) \<subseteq># mset ((p', n') # rest @ big_blocks cs')"
    using mset_big_blocks_put [of si cs' ?c] P(1,2)
    by simp
  moreover have "mset (rest @ big_blocks cs') \<subseteq># mset ((p', n') # rest @ big_blocks cs')"
    by simp
  ultimately show ?thesis
    using P blocks_ok_sub [OF P(4)] by (simp add: add_to_bigchunk_def st)
qed

section \<open>The invariant\<close>

definition live_header :: "memory \<Rightarrow> block \<Rightarrow> bool" where
  "live_header m b \<longleftrightarrow>
     ((\<exists>i < 15. load32 m (fst b) = of_nat i \<and> snd b = free_list_chunk_size ! i)
       \<or> load32 m (fst b) = - 1 \<and> 1048576 < unat (snd b))
     \<and> load32 m (fst b + 4) = snd b"

definition mem_ok :: "memory \<Rightarrow> block list \<Rightarrow> u32 list \<Rightarrow> u32 list list \<Rightarrow> bool" where
  "mem_ok m live fl fls \<longleftrightarrow> (\<forall>i < 15. flchain m (fl ! i) (fls ! i)) \<and> (\<forall>b \<in> set live. live_header m b)"

definition heap_geometry :: "nat \<Rightarrow> dsmalloc \<Rightarrow> bool" where
  "heap_geometry hb s \<longleftrightarrow> 0 < hb \<and> 16 dvd hb \<and> hb \<le> unat (last_ptr s) \<and> 16 dvd unat (last_ptr s)
     \<and> unat (last_ptr s) < unat (next_page s) * 65536 \<and> unat (next_page s) \<le> unat (mem_pages s)
     \<and> unat (mem_pages s) \<le> unat (max_pages s) \<and> unat (max_pages s) < 32768"

definition ds_inv :: "nat \<Rightarrow> dsmalloc \<Rightarrow> block list \<Rightarrow> u32 list list \<Rightarrow> bool" where
  "ds_inv hb s live fls \<longleftrightarrow> heap_geometry hb s
     \<and> length (free_lists s) = 15 \<and> length fls = 15 \<and> length (bigchunks s) = 32
     \<and> blocks_ok hb (unat (last_ptr s)) (heap_blocks live fls (bigchunks s))
     \<and> mem_ok (mem s) live (free_lists s) fls"

lemma heap_geometry_last: "heap_geometry hb s \<Longrightarrow> unat (last_ptr s) < 2147483648"
  by (simp add: heap_geometry_def)

lemma block_cells_bound:
  "block_ok hb hi (h, c) \<Longrightarrow> hi < 4294967296 \<Longrightarrow> k \<le> unat c \<Longrightarrow> unat h + k \<le> 4294967296"
  by (simp add: block_ok_def within_def block_region_def)

lemma header_loads_same:
  assumes "same_on (cells h 8) m m'" and "unat h + 8 \<le> 4294967296"
  shows "load32 m' h = load32 m h" and "load32 m' (h + 4) = load32 m (h + 4)"
proof -
  have u: "unat (h + 4) = unat h + 4" using assms(2) by (simp add: unat_add32)
  show "load32 m' h = load32 m h"
    using assms by (intro load32_same_on [of "cells h 8"]) (auto simp: cells_def)
  show "load32 m' (h + 4) = load32 m (h + 4)"
    using assms u by (intro load32_same_on [of "cells h 8"]) (auto simp: cells_def)
qed

lemma mem_ok_frame:
  assumes "mem_ok m live fl fls" and "length fls = 15"
    and "\<And>b. b \<in> set live \<Longrightarrow> same_on (cells (fst b) 8) m m' \<and> unat (fst b) + 8 \<le> 4294967296"
    and "\<And>b. b \<in> set (free_blocks free_list_chunk_size fls) \<Longrightarrow>
           same_on (cells (fst b) 8) m m' \<and> unat (fst b) + 8 \<le> 4294967296"
  shows "mem_ok m' live fl fls"
  unfolding mem_ok_def
proof (intro conjI allI impI ballI)
  fix i :: nat assume i: "i < 15"
  have "load32 m' q = load32 m q" if "q \<in> set (fls ! i)" for q
  proof -
    have "(q, free_list_chunk_size ! i) \<in> set (free_blocks free_list_chunk_size fls)"
      using i assms(2) that by (intro in_free_blocks) auto
    from assms(4) [OF this] show ?thesis by (intro header_loads_same) auto
  qed
  then have "flchain m' (fl ! i) (fls ! i) \<longleftrightarrow> flchain m (fl ! i) (fls ! i)"
    by (rule flchain_cong)
  with assms(1) i show "flchain m' (fl ! i) (fls ! i)" by (simp add: mem_ok_def)
next
  fix b assume b: "b \<in> set live"
  then have "load32 m' (fst b) = load32 m (fst b)" "load32 m' (fst b + 4) = load32 m (fst b + 4)"
    using assms(3) [OF b] header_loads_same [of "fst b" m m'] by auto
  then show "live_header m' b"
    using assms(1) b by (simp add: mem_ok_def live_header_def)
qed

lemma free_block_size:
  assumes "b \<in> set (free_blocks free_list_chunk_size fls)"
  shows "64 \<le> unat (snd b)"
proof -
  from assms obtain i where "i < 15" "snd b = free_list_chunk_size ! i"
    by (auto simp: free_blocks_def set_zip)
  then show ?thesis using chunk_size_facts by simp
qed

lemma live_block_size: "live_header m b \<Longrightarrow> 64 \<le> unat (snd b)"
  using chunk_size_facts by (auto simp: live_header_def)

text \<open>Memory changed only inside one block leaves the headers and links of the others alone.\<close>

lemma mem_ok_other_blocks:
  assumes ok: "blocks_ok hb hi ((h, c) # bs)" "hi < 4294967296"
    and sub: "set live \<subseteq> set bs" "set (free_blocks free_list_chunk_size fls) \<subseteq> set bs"
    and m: "mem_ok m live fl fls" "length fls = 15" "same_on (- cells h (unat c)) m m'"
  shows "mem_ok m' live fl fls"
proof (rule mem_ok_frame [OF m(1,2)])
  have *: "same_on (cells (fst b) 8) m m' \<and> unat (fst b) + 8 \<le> 4294967296"
    if "b \<in> set bs" "64 \<le> unat (snd b)" for b
  proof -
    have "clear_of (block_region (h, c)) (block_region b)"
      using ok(1) that(1) by (rule blocks_ok_clear)
    then have "cells (fst b) 8 \<subseteq> - cells h (unat c)"
      using that(2) by (fastforce simp: clear_of_def span_def block_region_def cells_def)
    moreover have "block_ok hb hi b" using ok(1) that(1) by (auto intro: blocks_ok_member)
    ultimately show ?thesis
      using m(3) ok(2) that(2)
      by (auto intro: same_on_mono simp: block_ok_def within_def block_region_def)
  qed
  fix b
  { assume "b \<in> set live"
    with sub(1) m(1) have "b \<in> set bs" "live_header m b" by (auto simp: mem_ok_def)
    then show "same_on (cells (fst b) 8) m m' \<and> unat (fst b) + 8 \<le> 4294967296"
      by (intro * live_block_size) }
  { assume "b \<in> set (free_blocks free_list_chunk_size fls)"
    with sub(2) show "same_on (cells (fst b) 8) m m' \<and> unat (fst b) + 8 \<le> 4294967296"
      by (intro * free_block_size) auto }
qed

section \<open>Allocation keeps the invariant\<close>

lemma write_header_mem:
  assumes "8 \<le> n" "unat h + n \<le> 4294967296"
  shows "same_on (- cells h n) m (store32 (store32 m h x) (h + 4) c)"
    and "load32 (store32 (store32 m h x) (h + 4) c) h = x"
    and "load32 (store32 (store32 m h x) (h + 4) c) (h + 4) = c"
proof -
  have u: "unat (h + 4) = unat h + 4" using assms by (simp add: unat_add32)
  have "same_on (- cells h n) m (store32 m h x)"
    using assms by (intro store32_same_on) (auto simp: cells_def)
  moreover have "same_on (- cells h n) (store32 m h x) (store32 (store32 m h x) (h + 4) c)"
    using assms u by (intro store32_same_on) (auto simp: cells_def)
  ultimately show "same_on (- cells h n) m (store32 (store32 m h x) (h + 4) c)"
    by (rule same_on_trans)
  show "load32 (store32 (store32 m h x) (h + 4) c) h = x"
    using assms u by (subst load32_store32_other) auto
qed simp

definition size_header :: "int \<Rightarrow> u32 \<Rightarrow> bool" where
  "size_header fid sz \<longleftrightarrow> (\<exists>i < 15. fid = int i \<and> sz = free_list_chunk_size ! i)
     \<or> fid = - 1 \<and> 1048576 < unat sz"

lemma size_header_size: "size_header fid sz \<Longrightarrow> 64 \<le> unat sz"
  using chunk_size_facts by (auto simp: size_header_def)


lemma install_block:
  assumes geom: "heap_geometry hb s"
    and len: "length (free_lists s) = 15" "length fls = 15" "length (bigchunks s) = 32"
    and ok: "blocks_ok hb (unat (last_ptr s)) ((h, c) # heap_blocks live fls (bigchunks s))"
    and mo: "mem_ok (mem s) live (free_lists s) fls"
    and hdr: "size_header fid c"
  shows "ds_inv hb (write_header h fid c s) ((h, c) # live) fls
     \<and> same_on (- cells h (unat c)) (mem s) (mem (write_header h fid c s))"
proof -
  have hi: "unat (last_ptr s) < 4294967296" by simp
  have c: "8 \<le> unat c" using size_header_size [OF hdr] by simp
  have hc: "unat h + unat c \<le> 4294967296"
    using block_cells_bound [of hb "unat (last_ptr s)" h c "unat c"] ok
    by (simp add: blocks_ok_def)
  let ?m = "mem (write_header h fid c s)"
  have m: "?m = store32 (store32 (mem s) h (of_int fid)) (h + 4) c"
    by (simp add: write_header_def)
  note w = write_header_mem [OF c hc, of "mem s" "of_int fid" c, folded m]
  have "mem_ok ?m live (free_lists s) fls"
    by (rule mem_ok_other_blocks [OF ok hi _ _ mo len(2) w(1)]) (unfold heap_blocks_def set_append, blast+)
  moreover have "live_header ?m (h, c)"
    using hdr w(2,3) by (auto simp: live_header_def size_header_def)
  moreover have "blocks_ok hb (unat (last_ptr s)) (heap_blocks ((h, c) # live) fls (bigchunks s))"
    using ok by (simp add: heap_blocks_def)
  ultimately show ?thesis
    using geom len w(1)
    by (simp add: ds_inv_def mem_ok_def heap_geometry_def write_header_def)
qed

lemma ds_inv_pop_free:
  assumes inv: "ds_inv hb s live fls" and k: "k < 15" and nz: "free_lists s ! k \<noteq> 0"
  obtains qs where "fls ! k = free_lists s ! k # qs"
    "blocks_ok hb (unat (last_ptr s))
       ((free_lists s ! k, free_list_chunk_size ! k) # heap_blocks live (fls[k := qs]) (bigchunks s))"
    "mem_ok (mem s) live ((free_lists s)[k := load32 (mem s) (free_lists s ! k)]) (fls[k := qs])"
proof -
  have len: "length fls = 15" "length (free_lists s) = 15" using inv by (simp_all add: ds_inv_def)
  have chain: "flchain (mem s) (free_lists s ! k) (fls ! k)"
    using inv k by (simp add: ds_inv_def mem_ok_def)
  then obtain qs where qs: "fls ! k = free_lists s ! k # qs" using nz by (metis flchain_nonempty)
  with chain have tl: "flchain (mem s) (load32 (mem s) (free_lists s ! k)) qs" by simp
  have "mset ((free_lists s ! k, free_list_chunk_size ! k) # heap_blocks live (fls[k := qs]) (bigchunks s))
      = mset (heap_blocks live fls (bigchunks s))"
    using mset_free_blocks_update [of k free_list_chunk_size fls qs] k len qs
    by (simp add: heap_blocks_def)
  then have "blocks_ok hb (unat (last_ptr s))
       ((free_lists s ! k, free_list_chunk_size ! k) # heap_blocks live (fls[k := qs]) (bigchunks s))"
    by (rule blocks_ok_perm [THEN iffD2]) (use inv in \<open>simp add: ds_inv_def\<close>)
  moreover have "mem_ok (mem s) live ((free_lists s)[k := load32 (mem s) (free_lists s ! k)]) (fls[k := qs])"
    using inv tl k len by (auto simp: ds_inv_def mem_ok_def nth_list_update)
  ultimately show ?thesis using qs that by blast
qed

lemma page_limit: "x < (a + 1) * 65536 \<Longrightarrow> a < 32768 \<Longrightarrow> x < (2147483648 :: nat)"
proof -
  assume "x < (a + 1) * 65536" "a < 32768"
  moreover then have "(a + 1) * 65536 \<le> 32768 * 65536" by (intro mult_le_mono1) simp
  ultimately show ?thesis by simp
qed

lemma unat_page_shift: "unat n < 32768 \<Longrightarrow> unat (push_bit 16 n :: u32) = unat n * 65536"
  by (simp add: push_bit_eq_mult unat_word_ariths)

lemma grown_geometry:
  assumes g: "heap_geometry hb s" and d: "16 dvd unat sz"
    and up: "up = (push_bit 16 (next_page s + drop_bit 16 sz) \<le> align (last_ptr s + sz) 16)"
    and gr: "grow_memory (if up then drop_bit 16 sz + 1 else drop_bit 16 sz) s = Some s1"
    and s2: "s2 = s1\<lparr>last_ptr := align (last_ptr s + sz) 16,
        next_page := (if up then next_page s + drop_bit 16 sz + 1 else next_page s + drop_bit 16 sz)\<rparr>"
  shows "heap_geometry hb s2 \<and> unat (last_ptr s2) = unat (last_ptr s) + unat sz"
proof -
  let ?q = "unat sz div 65536"
  have dq: "unat (drop_bit 16 sz) = ?q" by (simp add: unat_drop_bit32)
  have qle: "?q \<le> 65535" using unat_lt32 [of sz] by linarith
  have q1: "unat (drop_bit 16 sz + 1) = ?q + 1" using dq qle by (simp add: unat_add32)
  have lim: "unat (max_pages s) < 32768" "unat (next_page s) \<le> unat (mem_pages s)"
      "unat (last_ptr s) < unat (next_page s) * 65536"
    using g by (simp_all add: heap_geometry_def)
  have pg: "unat (mem_pages s) + (if up then ?q + 1 else ?q) \<le> unat (max_pages s)"
      and s1: "s1 = s\<lparr>mem_pages := mem_pages s + (if up then drop_bit 16 sz + 1 else drop_bit 16 sz)\<rparr>"
    using gr dq q1 by (auto simp: grow_memory_def split: if_splits)
  have szlt: "unat sz < (?q + 1) * 65536"
    using dividend_less_div_times [of 65536 "unat sz"] by simp
  have sum: "unat (last_ptr s) + unat sz < (unat (next_page s) + ?q + 1) * 65536"
    using lim szlt by (simp add: algebra_simps)
  have nq: "unat (next_page s) + ?q < 32768" using pg lim by (auto split: if_splits)
  have tot: "unat (last_ptr s) + unat sz < 2147483648"
    using sum nq by (rule page_limit)
  then have last: "unat (last_ptr s + sz) = unat (last_ptr s) + unat sz"
    by (intro unat_add32) simp
  then have al: "align (last_ptr s + sz) 16 = last_ptr s + sz"
    using tot g d by (intro align16_id) (simp_all add: heap_geometry_def)
  have np: "unat (next_page s + drop_bit 16 sz) = unat (next_page s) + ?q"
    using nq dq by (subst unat_add32) auto
  have "unat (push_bit 16 (next_page s + drop_bit 16 sz)) = (unat (next_page s) + ?q) * 65536"
    using nq np by (simp only: unat_page_shift)
  then have up': "up \<longleftrightarrow> (unat (next_page s) + ?q) * 65536 \<le> unat (last_ptr s) + unat sz"
    unfolding up al by (simp add: word_le_nat_alt last)
  have np1: "unat (next_page s + drop_bit 16 sz + 1) = unat (next_page s) + ?q + 1"
    using nq np by (subst unat_add32) auto
  have mp: "unat (mem_pages s1) = unat (mem_pages s) + (if up then ?q + 1 else ?q)"
    using pg lim dq q1 unfolding s1 by (auto simp: unat_add32 split: if_splits)
  have "16 dvd unat (last_ptr s) + unat sz" using g d by (simp add: heap_geometry_def)
  with g lim pg sum up' mp np np1 show ?thesis
    unfolding s2 by (cases up) (auto simp: heap_geometry_def al last s1)
qed

lemma request_class:
  assumes "find_small_mem_size (align (n + free_list_meta_size) 16) = (fid, sz)"
    and "unat n < 4294967265"
  shows "size_header fid sz \<and> unat n + 16 \<le> unat sz \<and> 16 dvd unat sz"
proof -
  have n: "unat (n + 16) = unat n + 16" using assms(2) by (simp add: unat_add32)
  have a: "unat (align (n + 16) 16) = (unat n + 16 + 15) div 16 * 16"
    using assms(2) n by (simp add: unat_align16)
  then have a': "unat n + 16 \<le> unat (align (n + 16) 16)" "16 dvd unat (align (n + 16) 16)"
    by (simp_all add: n)
  show ?thesis
    using assms(1) [unfolded free_list_meta_size_def]
  proof (cases rule: find_small_mem_size_spec)
    case big
    with a' show ?thesis by (simp add: size_header_def)
  next
    case (small k)
    with a' chunk_size_facts [of k] show ?thesis
      by (auto simp: size_header_def word_le_nat_alt)
  qed
qed

definition alloc_result :: "nat \<Rightarrow> dsmalloc \<Rightarrow> block list \<Rightarrow> u32 \<Rightarrow> u32 \<Rightarrow> dsmalloc \<Rightarrow> bool" where
  "alloc_result hb s live h c s' \<longleftrightarrow> (\<exists>fls'. ds_inv hb s' ((h, c) # live) fls')
     \<and> same_on (- cells h (unat c)) (mem s) (mem s') \<and> free_enabled s' = free_enabled s"

lemma alloc_result_install:
  assumes "heap_geometry hb s1" "length (free_lists s1) = 15" "length fls = 15" "length (bigchunks s1) = 32"
    "blocks_ok hb (unat (last_ptr s1)) ((h, c) # heap_blocks live fls (bigchunks s1))"
    "mem_ok (mem s1) live (free_lists s1) fls" "size_header fid c"
    "mem s1 = mem s" "free_enabled s1 = free_enabled s"
  shows "alloc_result hb s live h c (write_header h fid c s1)"
  using install_block [OF assms(1-7)] assms(8,9)
  unfolding alloc_result_def by (auto simp: write_header_def)

lemma alloc_free_list:
  assumes inv: "ds_inv hb s live fls" and k: "fid = int k" "k < 15" "sz = free_list_chunk_size ! k"
    and nz: "free_lists s ! k \<noteq> 0"
    and al: "allocate_from_free_list fid sz (free_lists s, mem s) = (cur, fl, m)"
  shows "alloc_result hb s live cur sz (s\<lparr>free_lists := fl, mem := m\<rparr>)"
proof -
  let ?cur = "free_lists s ! k"
  let ?s1 = "s\<lparr>free_lists := (free_lists s)[k := load32 (mem s) ?cur]\<rparr>"
  obtain qs where qs: "fls ! k = ?cur # qs"
    "blocks_ok hb (unat (last_ptr s)) ((?cur, free_list_chunk_size ! k) # heap_blocks live (fls[k := qs]) (bigchunks s))"
    "mem_ok (mem s) live ((free_lists s)[k := load32 (mem s) ?cur]) (fls[k := qs])"
    using ds_inv_pop_free [OF inv k(2) nz] by metis
  have "alloc_result hb s live ?cur sz (write_header ?cur fid sz ?s1)"
    by (rule alloc_result_install [where fls = "fls[k := qs]"])
       (use inv qs k in \<open>simp_all add: ds_inv_def heap_geometry_def size_header_def\<close>)
  moreover have "cur = ?cur" "s\<lparr>free_lists := fl, mem := m\<rparr> = write_header ?cur fid sz ?s1"
    using al nz k by (auto simp: allocate_from_free_list_def write_header_def Let_def)
  ultimately show ?thesis by simp
qed

lemma alloc_fresh:
  assumes inv: "ds_inv hb s live fls" and sz: "size_header fid sz" "16 dvd unat sz"
    and up: "up = (push_bit 16 (next_page s + drop_bit 16 sz) \<le> align (last_ptr s + sz) 16)"
    and gr: "grow_memory (if up then drop_bit 16 sz + 1 else drop_bit 16 sz) s = Some s1"
    and s2: "s2 = s1\<lparr>last_ptr := align (last_ptr s + sz) 16,
        next_page := (if up then next_page s + drop_bit 16 sz + 1 else next_page s + drop_bit 16 sz)\<rparr>"
  shows "alloc_result hb s live (last_ptr s) sz (write_header (last_ptr s) fid sz s2)"
proof -
  have g: "heap_geometry hb s" using inv by (simp add: ds_inv_def)
  note g2 = grown_geometry [OF g sz(2) up gr s2]
  have same: "mem s2 = mem s" "free_lists s2 = free_lists s" "bigchunks s2 = bigchunks s"
      "free_enabled s2 = free_enabled s"
    using gr by (auto simp: s2 grow_memory_def split: if_splits)
  have "blocks_ok hb (unat (last_ptr s2)) ((last_ptr s, sz) # heap_blocks live fls (bigchunks s))"
    by (rule blocks_ok_add_above [of _ "unat (last_ptr s)"])
       (use inv g g2 sz(2) in \<open>simp_all add: ds_inv_def heap_geometry_def\<close>)
  then show ?thesis
    by (intro alloc_result_install [where fls = fls])
       (use inv g2 sz(1) same in \<open>simp_all add: ds_inv_def\<close>)
qed

lemma alloc_chunk:
  assumes inv: "ds_inv hb s live fls" and sz: "size_header fid sz" "16 dvd unat sz"
    and al: "alloc_from_bigchunk sz (bigchunks s) = (r, cs)" "r \<noteq> 0"
  shows "alloc_result hb s live r sz (write_header r fid sz (s\<lparr>bigchunks := cs\<rparr>))"
proof -
  obtain n M where len: "length cs = length (bigchunks s)" and
    M: "mset (big_blocks (bigchunks s)) = add_mset (r, n) M" "sz \<le> n"
       "mset (big_blocks cs) \<subseteq># add_mset (r + sz, n - sz) M"
    using alloc_from_bigchunk_spec [OF al] by blast
  obtain bs where bs: "M = mset bs" by (metis ex_mset)
  let ?rest = "live @ free_blocks free_list_chunk_size fls"
  have "blocks_ok hb (unat (last_ptr s)) ((r, n) # ?rest @ bs)"
    by (rule blocks_ok_perm [THEN iffD2, of _ "heap_blocks live fls (bigchunks s)"])
       (use inv M(1) bs in \<open>simp_all add: ds_inv_def heap_blocks_def\<close>)
  from blocks_ok_split [OF this M(2) sz(2)]
  have "blocks_ok hb (unat (last_ptr s)) ((r, sz) # (r + sz, n - sz) # ?rest @ bs)" by simp
  moreover have "mset ((r, sz) # heap_blocks live fls cs) \<subseteq># mset ((r, sz) # (r + sz, n - sz) # ?rest @ bs)"
    using M(3) bs by (simp add: heap_blocks_def ac_simps)
  ultimately have "blocks_ok hb (unat (last_ptr s)) ((r, sz) # heap_blocks live fls cs)"
    by (rule blocks_ok_sub)
  then show ?thesis
    by (intro alloc_result_install [where fls = fls])
       (use inv len sz(1) in \<open>simp_all add: ds_inv_def heap_geometry_def\<close>)
qed

lemma ds_alloc_inv:
  assumes inv: "ds_inv hb s live fls" and n: "n \<noteq> 0" "unat n < 4294967265"
    and al: "ds_alloc n 16 s = Inr (p, s')"
  obtains h c where "p = h + 16" "alloc_result hb s live h c s'" "unat n + 16 \<le> unat c"
proof -
  obtain fid sz where f: "find_small_mem_size (align (n + free_list_meta_size) 16) = (fid, sz)"
    by (metis prod.collapse)
  note rc = request_class [OF f n(2)]
  then have sz: "size_header fid sz" "16 dvd unat sz" "unat n + 16 \<le> unat sz" by simp_all
  let ?up = "push_bit 16 (next_page s + drop_bit 16 sz) \<le> align (last_ptr s + sz) 16"
  let ?gr = "grow_memory (if ?up then drop_bit 16 sz + 1 else drop_bit 16 sz) s"
  consider (pop) "fid \<ge> 0" "free_lists s ! nat fid \<noteq> 0"
    | (grow) s1 where "\<not> (fid \<ge> 0 \<and> free_lists s ! nat fid \<noteq> 0)" "?gr = Some s1"
    | (chunk) "\<not> (fid \<ge> 0 \<and> free_lists s ! nat fid \<noteq> 0)" "?gr = None"
    by fastforce
  then show ?thesis
  proof cases
    case pop
    then obtain k where k: "fid = int k" "k < 15" "sz = free_list_chunk_size ! k"
      using sz(1) by (auto simp: size_header_def)
    obtain cur fl m where a: "allocate_from_free_list fid sz (free_lists s, mem s) = (cur, fl, m)"
      by (metis prod.collapse)
    have "p = cur + 16" "s' = s\<lparr>free_lists := fl, mem := m\<rparr>"
      using al n(1) f pop a by (simp_all add: ds_alloc_def free_list_meta_size_def)
    with alloc_free_list [OF inv k _ a] pop k sz(3) that show ?thesis by simp
  next
    case grow
    let ?s2 = "s1\<lparr>last_ptr := align (last_ptr s + sz) 16,
        next_page := (if ?up then next_page s + drop_bit 16 sz + 1 else next_page s + drop_bit 16 sz)\<rparr>"
    have "p = last_ptr s + 16" "s' = write_header (last_ptr s) fid sz ?s2"
      using al n(1) f grow
      by (simp_all add: ds_alloc_def free_list_meta_size_def Let_def cong: conj_cong)
    with alloc_fresh [OF inv sz(1,2) refl grow(2) refl] sz(3) that show ?thesis by simp
  next
    case chunk
    obtain r cs where a: "alloc_from_bigchunk sz (bigchunks s) = (r, cs)" by (metis prod.collapse)
    have "r \<noteq> 0 \<and> p = r + 16 \<and> s' = write_header r fid sz (s\<lparr>bigchunks := cs\<rparr>)"
      using al n(1) f chunk a
      by (auto simp: ds_alloc_def free_list_meta_size_def Let_def split: if_splits)
    with alloc_chunk [OF inv sz(1,2) a] sz(3) that show ?thesis by simp
  qed
qed

section \<open>Release keeps the invariant\<close>

lemma sint_unat32: "unat (x :: u32) < 2147483648 \<Longrightarrow> sint x = int (unat x)"
proof -
  assume "unat x < 2147483648"
  then have u: "uint x < 2147483648" unfolding uint_nat by linarith
  have "- (2147483648) \<le> uint x" using uint_ge_0 [of x] by linarith
  then have "signed_take_bit 31 (uint x) = uint x"
    using u by (intro signed_take_bit_int_eq_self) simp_all
  then show ?thesis unfolding sint_uint uint_nat by simp
qed

lemma live_block_bounds:
  assumes inv: "ds_inv hb s live fls" and b: "(h, c) \<in> set live"
  shows "hb \<le> unat h" "unat h + unat c \<le> unat (last_ptr s)" "64 \<le> unat c" "h \<noteq> 0"
    "16 dvd unat h" "unat (last_ptr s) < 2147483648"
proof -
  have "block_ok hb (unat (last_ptr s)) (h, c)"
    using inv b by (intro blocks_ok_member [of _ _ "heap_blocks live fls (bigchunks s)"])
      (auto simp: ds_inv_def heap_blocks_def)
  then show "hb \<le> unat h" "unat h + unat c \<le> unat (last_ptr s)" "16 dvd unat h"
    by (simp_all add: block_ok_def within_def block_region_def)
  moreover show "unat (last_ptr s) < 2147483648"
    using inv heap_geometry_last [of hb s] by (simp add: ds_inv_def)
  moreover have "0 < hb" using inv by (simp add: ds_inv_def heap_geometry_def)
  ultimately show "h \<noteq> 0" by auto
  have "live_header (mem s) (h, c)" using inv b by (simp add: ds_inv_def mem_ok_def)
  then show "64 \<le> unat c" using live_block_size by fastforce
qed

lemma free_small:
  assumes inv: "ds_inv hb s ((h, c) # live) fls" and i: "i < 15" "c = free_list_chunk_size ! i"
    and a: "add_to_freelist h (int i) (free_lists s, mem s) = (fl, m)"
  shows "ds_inv hb (s\<lparr>free_lists := fl, mem := m\<rparr>) live (fls[i := h # fls ! i])
    \<and> same_on (- cells h (unat c)) (mem s) m"
proof -
  note hb = live_block_bounds [OF inv list.set_intros(1)]
  have hi: "unat (last_ptr s) < 4294967296" by simp
  have len: "length fls = 15" "length (free_lists s) = 15" using inv by (simp_all add: ds_inv_def)
  have fl: "fl = (free_lists s)[i := h]" and m: "m = store32 (mem s) h (free_lists s ! i)"
    using a i len by (simp_all add: add_to_freelist_def)
  have same: "same_on (- cells h (unat c)) (mem s) m"
    unfolding m using hb by (intro store32_same_on) (auto simp: cells_def)
  have ok: "blocks_ok hb (unat (last_ptr s)) ((h, c) # heap_blocks live fls (bigchunks s))"
    using inv by (simp add: ds_inv_def heap_blocks_def)
  have mo: "mem_ok (mem s) live (free_lists s) fls"
    using inv by (simp add: ds_inv_def mem_ok_def)
  have mo': "mem_ok m live (free_lists s) fls"
    by (rule mem_ok_other_blocks [OF ok hi _ _ mo len(1) same]) (unfold heap_blocks_def set_append, blast+)
  have "flchain m h (h # fls ! i)"
    using mo' i hb by (simp add: mem_ok_def m)
  then have "mem_ok m live fl (fls[i := h # fls ! i])"
    using mo' len i by (simp add: mem_ok_def fl nth_list_update)
  moreover have "mset (heap_blocks live (fls[i := h # fls ! i]) (bigchunks s))
      = mset ((h, c) # heap_blocks live fls (bigchunks s))"
    using mset_free_blocks_update [of i free_list_chunk_size fls "h # fls ! i"] i len
    by (simp add: heap_blocks_def)
  then have "blocks_ok hb (unat (last_ptr s)) (heap_blocks live (fls[i := h # fls ! i]) (bigchunks s))"
    by (rule blocks_ok_perm [THEN iffD2]) (rule ok)
  ultimately show ?thesis
    using inv len same by (simp add: ds_inv_def fl heap_geometry_def)
qed

lemma free_big:
  assumes inv: "ds_inv hb s ((h, c) # live) fls"
  shows "ds_inv hb (s\<lparr>bigchunks := add_to_bigchunk h c (bigchunks s)\<rparr>) live fls"
proof -
  note hb = live_block_bounds [OF inv list.set_intros(1)]
  let ?rest = "live @ free_blocks free_list_chunk_size fls"
  have "blocks_ok hb (unat (last_ptr s)) ((h, c) # ?rest @ big_blocks (bigchunks s))"
    using inv by (simp add: ds_inv_def heap_blocks_def)
  then have "length (add_to_bigchunk h c (bigchunks s)) = 32 \<and>
      blocks_ok hb (unat (last_ptr s)) (?rest @ big_blocks (add_to_bigchunk h c (bigchunks s)))"
    using inv hb by (intro add_to_bigchunk_ok) (auto simp: ds_inv_def)
  then show ?thesis
    using inv by (simp add: ds_inv_def mem_ok_def heap_blocks_def heap_geometry_def)
qed

lemma ds_free_small:
  assumes inv: "ds_inv hb s ((h, c) # live) fls" and i: "i < 15" "load32 (mem s) h = of_nat i"
  shows "ds_free (h + 16) s = (case add_to_freelist h (int i) (free_lists s, mem s) of (fl, m) \<Rightarrow>
     s\<lparr>free_lists := fl, mem := m\<rparr>)"
proof -
  note hb = live_block_bounds [OF inv list.set_intros(1)]
  have u: "unat (h + 16) = unat h + 16" using hb by (simp add: unat_add32)
  have "sint (h + 16) = int (unat (h + 16))"
    by (rule sint_unat32) (use hb u in linarith)
  then have "16 \<le> sint (h + 16)" using u by simp
  moreover have "sint (of_nat i :: u32) = int i"
    using i(1) by (subst sint_unat32) (simp_all add: unat_of_nat32)
  moreover have "sint (16 :: u32) = 16" by simp
  ultimately show ?thesis
    using inv i by (simp add: ds_free_def free_list_meta_size_def Let_def ds_inv_def)
qed

lemma ds_free_big:
  assumes inv: "ds_inv hb s ((h, c) # live) fls" and l: "load32 (mem s) h = - 1"
  shows "ds_free (h + 16) s = s\<lparr>bigchunks := add_to_bigchunk h c (bigchunks s)\<rparr>"
proof -
  note hb = live_block_bounds [OF inv list.set_intros(1)]
  have u: "unat (h + 16) = unat h + 16" using hb by (simp add: unat_add32)
  have "sint (h + 16) = int (unat (h + 16))"
    by (rule sint_unat32) (use hb u in linarith)
  then have "16 \<le> sint (h + 16)" using u by simp
  moreover have "sint (16 :: u32) = 16" by simp
  moreover have "load32 (mem s) (h + 4) = c"
    using inv by (simp add: ds_inv_def mem_ok_def live_header_def)
  ultimately show ?thesis
    using l by (simp add: ds_free_def free_list_meta_size_def Let_def)
qed

lemma ds_free_inv:
  assumes inv: "ds_inv hb s ((h, c) # live) fls"
  obtains fls' where "ds_inv hb (ds_free (h + 16) s) live fls'"
    "same_on (- cells h (unat c)) (mem s) (mem (ds_free (h + 16) s))"
proof -
  have "live_header (mem s) (h, c)" using inv by (simp add: ds_inv_def mem_ok_def)
  then consider (small) i where "i < 15" "load32 (mem s) h = of_nat i" "c = free_list_chunk_size ! i"
    | (big) "load32 (mem s) h = - 1"
    by (auto simp: live_header_def)
  then show ?thesis
  proof cases
    case small
    obtain fl m where a: "add_to_freelist h (int i) (free_lists s, mem s) = (fl, m)"
      by (metis prod.collapse)
    from free_small [OF inv small(1,3) a] ds_free_small [OF inv small(1,2)] a that [of "fls[i := h # fls ! i]"]
    show ?thesis by simp
  next
    case big
    from free_big [OF inv] ds_free_big [OF inv big] that [of fls]
    show ?thesis by (simp add: same_on_def)
  qed
qed

lemma ds_inv_live_perm: "ds_inv hb s as fls \<Longrightarrow> mset as = mset bs \<Longrightarrow> ds_inv hb s bs fls"
proof -
  assume a: "ds_inv hb s as fls" and m: "mset as = mset bs"
  have "mset (heap_blocks bs fls (bigchunks s)) = mset (heap_blocks as fls (bigchunks s))"
    using m by (simp add: heap_blocks_def)
  then have "blocks_ok hb (unat (last_ptr s)) (heap_blocks bs fls (bigchunks s))"
    by (rule blocks_ok_perm [THEN iffD2]) (use a in \<open>simp add: ds_inv_def\<close>)
  moreover have "set as = set bs" using m by (metis set_mset_mset)
  ultimately show ?thesis using a by (simp add: ds_inv_def mem_ok_def)
qed

section \<open>Writes of the client\<close>

lemma payload_write_inv:
  assumes inv: "ds_inv hb s ((h, c) # live) fls"
    and m: "same_on (- cells (h + 16) (unat c - 16)) (mem s) m"
  shows "ds_inv hb (s\<lparr>mem := m\<rparr>) ((h, c) # live) fls"
proof -
  note hb = live_block_bounds [OF inv list.set_intros(1)]
  have hi: "unat (last_ptr s) < 4294967296" by simp
  have len: "length fls = 15" using inv by (simp add: ds_inv_def)
  have u: "unat (h + 16) = unat h + 16" using hb by (simp add: unat_add32)
  have ok: "blocks_ok hb (unat (last_ptr s)) ((h, c) # heap_blocks live fls (bigchunks s))"
    using inv by (simp add: ds_inv_def heap_blocks_def)
  have mo: "mem_ok (mem s) live (free_lists s) fls" "live_header (mem s) (h, c)"
    using inv by (simp_all add: ds_inv_def mem_ok_def)
  have all: "same_on (- cells h (unat c)) (mem s) m"
    using m hb u by (auto simp: same_on_def cells_def)
  have "mem_ok m live (free_lists s) fls"
    by (rule mem_ok_other_blocks [OF ok hi _ _ mo(1) len all]) (unfold heap_blocks_def set_append, blast+)
  moreover have "same_on (cells h 8) (mem s) m"
    using m hb u by (auto simp: same_on_def cells_def)
  then have "live_header m (h, c)"
    using mo(2) header_loads_same [of h "mem s" m] hb by (simp add: live_header_def)
  ultimately show ?thesis
    using inv by (simp add: ds_inv_def mem_ok_def heap_geometry_def)
qed

section \<open>What a client of the heap sees\<close>

text \<open>
  A client knows the blocks it holds as pairs of a pointer and a requested size. \<open>heap_inv\<close>
  relates that list to the blocks of the invariant: each held block is served by one that starts
  sixteen bytes before the pointer and is large enough.
\<close>

type_synonym holding = "u32 \<times> u32"

definition serves :: "holding \<times> block \<Rightarrow> bool" where
  "serves x \<longleftrightarrow> fst (fst x) = fst (snd x) + 16 \<and> unat (snd (fst x)) + 16 \<le> unat (snd (snd x))"

definition heap_inv :: "nat \<Rightarrow> dsmalloc \<Rightarrow> holding list \<Rightarrow> bool" where
  "heap_inv hb s held \<longleftrightarrow> (\<exists>xs fls. mset (map fst xs) = mset held \<and> (\<forall>x \<in> set xs. serves x)
     \<and> ds_inv hb s (map snd xs) fls)"

definition payload :: "holding \<Rightarrow> nat set" where
  "payload b = cells (fst b) (unat (snd b))"

definition keeps :: "holding list \<Rightarrow> memory \<Rightarrow> memory \<Rightarrow> bool" where
  "keeps held m m' \<longleftrightarrow> (\<forall>b \<in> set held. same_on (payload b) m m')"

lemma heap_inv_perm: "heap_inv hb s as \<Longrightarrow> mset as = mset bs \<Longrightarrow> heap_inv hb s bs"
  by (simp add: heap_inv_def)

lemma heap_inv_take:
  assumes "heap_inv hb s held" and "b \<in> set held"
  obtains c xs fls where "mset (map fst xs) = mset (remove1 b held)" "\<forall>x \<in> set xs. serves x"
    "serves (b, (fst b - 16, c))" "ds_inv hb s ((fst b - 16, c) # map snd xs) fls"
proof -
  obtain xs fls where xs: "mset (map fst xs) = mset held" "\<forall>x \<in> set xs. serves x"
      "ds_inv hb s (map snd xs) fls"
    using assms(1) by (auto simp: heap_inv_def)
  have "b \<in> set (map fst xs)" using xs(1) assms(2) by (metis set_mset_mset)
  then obtain y where y: "y \<in> set xs" "fst y = b" by auto
  from y(1) obtain as bs where split: "xs = as @ y # bs" by (meson split_list)
  have sy: "serves y" using xs(2) y(1) by blast
  then have yy: "snd y = (fst b - 16, snd (snd y))"
    using y(2) by (cases y) (auto simp: serves_def)
  have "mset held = add_mset b (mset (map fst (as @ bs)))"
    using xs(1) split y(2) by simp
  then have "mset (map fst (as @ bs)) = mset (remove1 b held)" by simp
  moreover have "\<forall>x \<in> set (as @ bs). serves x" using xs(2) split by simp
  moreover have "serves (b, (fst b - 16, snd (snd y)))"
    using sy y(2) yy by (metis prod.collapse)
  moreover have "ds_inv hb s ((fst b - 16, snd (snd y)) # map snd (as @ bs)) fls"
    by (rule ds_inv_live_perm [OF xs(3)]) (simp add: split yy [symmetric])
  ultimately show ?thesis by (rule that)
qed

lemma ds_inv_drop: "ds_inv hb s (b # live) fls \<Longrightarrow> ds_inv hb s live fls"
  using blocks_ok_sub [of hb "unat (last_ptr s)" "heap_blocks (b # live) fls (bigchunks s)"
    "heap_blocks live fls (bigchunks s)"]
  by (simp add: ds_inv_def mem_ok_def heap_blocks_def)

lemma heap_inv_sub: "heap_inv hb s held \<Longrightarrow> heap_inv hb s (remove1 b held)"
proof (cases "b \<in> set held")
  assume inv: "heap_inv hb s held" and b: "b \<in> set held"
  obtain c xs fls where x: "mset (map fst xs) = mset (remove1 b held)" "\<forall>x \<in> set xs. serves x"
    "ds_inv hb s ((fst b - 16, c) # map snd xs) fls"
    using heap_inv_take [OF inv b] by metis
  from x(3) have "ds_inv hb s (map snd xs) fls"
    by (rule ds_inv_drop)
  with x(1,2) show "heap_inv hb s (remove1 b held)" unfolding heap_inv_def by blast
qed (simp add: remove1_idem)

lemma serves_payload:
  assumes "serves (b, (h, c))" "ds_inv hb s live fls" "(h, c) \<in> set live"
  shows "payload b \<subseteq> cells h (unat c)" "unat (fst b) = unat h + 16"
    "payload b \<subseteq> cells (h + 16) (unat c - 16)"
proof -
  note hb = live_block_bounds [OF assms(2,3)]
  show u: "unat (fst b) = unat h + 16"
    using assms(1) hb by (simp add: serves_def unat_add32)
  with assms(1) show "payload b \<subseteq> cells h (unat c)"
    by (auto simp: serves_def payload_def cells_def)
  show "payload b \<subseteq> cells (h + 16) (unat c - 16)"
    using u assms(1) by (auto simp: serves_def payload_def cells_def)
qed

lemma keeps_outside_block:
  assumes inv: "ds_inv hb s ((h, c) # map snd xs) fls" and xs: "\<forall>x \<in> set xs. serves x"
    and m: "same_on (- cells h (unat c)) (mem s) m" and p: "mset (map fst xs) = mset held"
  shows "keeps held (mem s) m"
  unfolding keeps_def
proof
  fix b assume "b \<in> set held"
  then have "b \<in> set (map fst xs)" using p by (metis set_mset_mset)
  then obtain h' c' where x: "(b, (h', c')) \<in> set xs" by auto
  then have in1: "(h', c') \<in> set (map snd xs)" by force
  have "payload b \<subseteq> cells h' (unat c')"
    using serves_payload(1) [OF _ inv, of b h' c'] x xs in1 by auto
  moreover have "clear_of (block_region (h, c)) (block_region (h', c'))"
    using inv in1 by (intro blocks_ok_clear [of hb "unat (last_ptr s)" _
       "map snd xs @ free_blocks free_list_chunk_size fls @ big_blocks (bigchunks s)"])
      (simp_all add: ds_inv_def heap_blocks_def)
  ultimately have "payload b \<subseteq> - cells h (unat c)"
    by (auto simp: clear_of_def span_def block_region_def cells_def)
  with m show "same_on (payload b) (mem s) m" by (rule same_on_mono)
qed

lemma keeps_refl [simp]: "keeps held m m"
  by (simp add: keeps_def)

lemma keeps_perm: "keeps as m m' \<Longrightarrow> mset as = mset bs \<Longrightarrow> keeps bs m m'"
  unfolding keeps_def by (metis set_mset_mset)

text \<open>The payloads of the held blocks are pairwise disjoint, aligned and inside the heap.\<close>

lemma heap_inv_separate:
  assumes "heap_inv hb s held" shows "separate (map block_region held)"
proof -
  obtain xs fls where xs: "mset (map fst xs) = mset held" "\<forall>x \<in> set xs. serves x"
      "ds_inv hb s (map snd xs) fls"
    using assms by (auto simp: heap_inv_def)
  have sep: "separate (map block_region (map snd xs))"
    using blocks_ok_sub [of hb "unat (last_ptr s)" "heap_blocks (map snd xs) fls (bigchunks s)" "map snd xs"]
      xs(3) by (simp add: ds_inv_def heap_blocks_def blocks_ok_def)
  have sub: "span (block_region (fst x)) \<subseteq> span (block_region (snd x))" if "x \<in> set xs" for x
  proof -
    have "serves (fst x, (fst (snd x), snd (snd x)))" "(fst (snd x), snd (snd x)) \<in> set (map snd xs)"
      using that xs(2) by auto
    from serves_payload(1) [OF this(1) xs(3) this(2)] show ?thesis
      by (simp add: payload_def cells_def span_def block_region_def)
  qed
  have "separate (map (block_region \<circ> fst) xs)"
    by (rule separate_shrink_map [of "block_region \<circ> snd"]) (use sep sub in simp_all)
  moreover have "mset (map (block_region \<circ> fst) xs) = mset (map block_region held)"
    using xs(1) by (metis map_map mset_map)
  ultimately show ?thesis by (metis separate_perm)
qed

definition fits :: "u32 \<Rightarrow> bool" where
  "fits n \<longleftrightarrow> n \<noteq> 0 \<and> unat n < 4294967265"

lemma heap_inv_uncons:
  assumes "heap_inv hb s (b # held)"
  obtains c xs fls where "mset (map fst xs) = mset held" "\<forall>x \<in> set xs. serves x"
    "serves (b, (fst b - 16, c))" "ds_inv hb s ((fst b - 16, c) # map snd xs) fls"
proof (rule heap_inv_take [OF assms list.set_intros(1)])
  fix c xs fls
  assume "mset (map fst xs) = mset (remove1 b (b # held))" "\<forall>x \<in> set xs. serves x"
    "serves (b, (fst b - 16, c))" "ds_inv hb s ((fst b - 16, c) # map snd xs) fls"
  then show thesis by (intro that) simp_all
qed

lemma keeps_Cons: "keeps (b # held) m m' \<longleftrightarrow> same_on (payload b) m m' \<and> keeps held m m'"
  by (simp add: keeps_def)

lemma heap_inv_in_heap:
  assumes "heap_inv hb s held" and "(p, n) \<in> set held"
  shows "hb + 16 \<le> unat p" "unat p + unat n \<le> unat (last_ptr s)" "16 dvd unat p"
    "unat (last_ptr s) < unat (mem_pages s) * 65536" "unat (last_ptr s) < 2147483648"
proof -
  obtain c fls and xs :: "(holding \<times> block) list" where
    x: "serves ((p, n), (p - 16, c))" "ds_inv hb s ((p - 16, c) # map snd xs) fls"
    by (rule heap_inv_take [OF assms]) simp
  note lb = live_block_bounds [OF x(2) list.set_intros(1)]
  have u: "unat p = unat (p - 16) + 16"
    using serves_payload(2) [OF x(1,2)] by simp
  with x(1) lb show "hb + 16 \<le> unat p" "unat p + unat n \<le> unat (last_ptr s)" "16 dvd unat p"
    by (simp_all add: serves_def)
  show "unat (last_ptr s) < 2147483648" by (rule lb(6))
  have "unat (last_ptr s) < unat (next_page s) * 65536" "unat (next_page s) \<le> unat (mem_pages s)"
    using x(2) by (simp_all add: ds_inv_def heap_geometry_def)
  then show "unat (last_ptr s) < unat (mem_pages s) * 65536"
    by (meson less_le_trans mult_le_mono1)
qed

lemma c_malloc_inv:
  assumes inv: "heap_inv hb s held" and al: "c_malloc n s = Inr (p, s')" and n: "fits n"
  shows "heap_inv hb s' ((p, n) # held) \<and> keeps held (mem s) (mem s')
    \<and> free_enabled s' = free_enabled s"
proof -
  obtain xs fls where xs: "mset (map fst xs) = mset held" "\<forall>x \<in> set xs. serves x"
      "ds_inv hb s (map snd xs) fls"
    using inv by (auto simp: heap_inv_def)
  obtain h c where hc: "p = h + 16" "alloc_result hb s (map snd xs) h c s'" "unat n + 16 \<le> unat c"
    using ds_alloc_inv [OF xs(3) _ _ al [unfolded c_malloc_def]] n by (auto simp: fits_def)
  then obtain fls' where fls': "ds_inv hb s' ((h, c) # map snd xs) fls'"
    and same: "same_on (- cells h (unat c)) (mem s) (mem s')"
    by (auto simp: alloc_result_def)
  have "heap_inv hb s' ((p, n) # held)"
    unfolding heap_inv_def
    by (rule exI [of _ "((p, n), (h, c)) # xs"], rule exI [of _ fls'])
       (use xs hc fls' in \<open>simp add: serves_def\<close>)
  moreover have "keeps held (mem s) (mem s')"
  proof -
    have "same_on (- cells h (unat c)) (mem s') (mem s)"
      using same by (simp add: same_on_def)
    from keeps_outside_block [OF fls' xs(2) this xs(1)] show ?thesis
      by (simp add: keeps_def same_on_def)
  qed
  ultimately show ?thesis using hc(2) by (simp add: alloc_result_def)
qed

lemma c_free_inv:
  assumes inv: "heap_inv hb s ((p, n) # held)"
  shows "heap_inv hb (c_free p s) held \<and> keeps held (mem s) (mem (c_free p s))"
proof (cases "free_enabled s")
  case True
  obtain c xs fls where x: "mset (map fst xs) = mset held" "\<forall>x \<in> set xs. serves x"
    "ds_inv hb s ((p - 16, c) # map snd xs) fls"
    by (rule heap_inv_uncons [OF inv], rule that) simp_all
  obtain fls' where "ds_inv hb (ds_free (p - 16 + 16) s) (map snd xs) fls'"
    "same_on (- cells (p - 16) (unat c)) (mem s) (mem (ds_free (p - 16 + 16) s))"
    using ds_free_inv [OF x(3)] by metis
  then have f: "ds_inv hb (c_free p s) (map snd xs) fls'"
    "same_on (- cells (p - 16) (unat c)) (mem s) (mem (c_free p s))"
    using True by (simp_all add: c_free_def)
  have "keeps held (mem s) (mem (c_free p s))"
    by (rule keeps_outside_block [OF x(3,2) f(2) x(1)])
  with f(1) x(1,2) show ?thesis unfolding heap_inv_def by blast
next
  case False
  then show ?thesis using heap_inv_sub [OF inv, of "(p, n)"] by (simp add: c_free_def)
qed

lemma heap_write_inv:
  assumes inv: "heap_inv hb s (b # held)" and m: "same_on (- payload b) (mem s) m"
  shows "heap_inv hb (s\<lparr>mem := m\<rparr>) (b # held) \<and> keeps held (mem s) m"
proof -
  obtain c xs fls where x: "mset (map fst xs) = mset held" "\<forall>x \<in> set xs. serves x"
    "serves (b, (fst b - 16, c))" "ds_inv hb s ((fst b - 16, c) # map snd xs) fls"
    by (rule heap_inv_uncons [OF inv])
  note sp = serves_payload [OF x(3,4) list.set_intros(1)]
  have m1: "same_on (- cells (fst b - 16 + 16) (unat c - 16)) (mem s) m"
    and m2: "same_on (- cells (fst b - 16) (unat c)) (mem s) m"
    by (rule same_on_mono [OF m], use sp in auto)+
  from payload_write_inv [OF x(4) m1]
  have "ds_inv hb (s\<lparr>mem := m\<rparr>) (map snd ((b, (fst b - 16, c)) # xs)) fls" by simp
  moreover have "mset (map fst ((b, (fst b - 16, c)) # xs)) = mset (b # held)" using x(1) by simp
  moreover have "\<forall>x \<in> set ((b, (fst b - 16, c)) # xs). serves x" using x(2,3) by simp
  ultimately have "heap_inv hb (s\<lparr>mem := m\<rparr>) (b # held)" unfolding heap_inv_def by blast
  moreover have "keeps held (mem s) m"
    by (rule keeps_outside_block [OF x(4,2) m2 x(1)])
  ultimately show ?thesis by simp
qed

section \<open>The heap as an interface\<close>

text \<open>
  The contract of a heap: what allocation, release and a write inside a held block promise.
  The derived operations (an allocation that clears its block, a block moved to a larger one)
  are correct over any heap that keeps it.
\<close>

locale block_heap =
  fixes inv :: "'s \<Rightarrow> holding list \<Rightarrow> bool"
    and alloc :: "u32 \<Rightarrow> 's \<Rightarrow> (u32 \<times> 's) result"
    and release :: "u32 \<Rightarrow> 's \<Rightarrow> 's"
    and contents :: "'s \<Rightarrow> memory"
    and update :: "memory \<Rightarrow> 's \<Rightarrow> 's"
  assumes alloc_inv: "inv s held \<Longrightarrow> alloc n s = Inr (p, s') \<Longrightarrow> fits n \<Longrightarrow>
      inv s' ((p, n) # held) \<and> keeps held (contents s) (contents s')"
    and release_inv: "inv s ((p, n) # held) \<Longrightarrow>
      inv (release p s) held \<and> keeps held (contents s) (contents (release p s))"
    and write_inv: "inv s (b # held) \<Longrightarrow> same_on (- payload b) (contents s) m \<Longrightarrow>
      inv (update m s) (b # held) \<and> keeps held (contents s) m"
    and contents_update: "contents (update m s) = m"
    and inv_perm: "inv s as \<Longrightarrow> mset as = mset bs \<Longrightarrow> inv s bs"
    and inv_apart: "inv s held \<Longrightarrow> separate (map block_region held)"
    and inv_bound: "inv s held \<Longrightarrow> (p, n) \<in> set held \<Longrightarrow> 0 < unat p \<and> unat p + unat n < 4294967296"
begin

lemma keeps_trans: "keeps held m m' \<Longrightarrow> keeps held m' m'' \<Longrightarrow> keeps held m m''"
  unfolding keeps_def by (meson same_on_trans)

lemma cleared_block:
  assumes "inv s held" "alloc n s = Inr (p, s')" "fits n"
  defines "s2 \<equiv> update (memset p 0 n (contents s')) s'"
  shows "inv s2 ((p, n) # held) \<and> keeps held (contents s) (contents s2)
    \<and> read_bytes (contents s2) p (unat n) = replicate (unat n) 0"
proof -
  let ?m = "memset p 0 n (contents s')"
  have a: "inv s' ((p, n) # held)" "keeps held (contents s) (contents s')"
    using alloc_inv [OF assms(1-3)] by simp_all
  have b: "unat p + unat n \<le> 4294967296" using inv_bound [OF a(1), of p n] by simp
  have "same_on (- payload (p, n)) (contents s') ?m"
    using b by (auto simp: same_on_def payload_def memset_apply)
  from write_inv [OF a(1) this] have "inv s2 ((p, n) # held)" "keeps held (contents s') ?m"
    by (simp_all add: s2_def)
  moreover have "read_bytes ?m p (unat n) = replicate (unat n) 0"
    using b by (intro nth_equalityI)
      (auto simp: read_bytes_def memset_apply cells_def unat_offset32)
  ultimately show ?thesis
    using a(2) by (auto simp: s2_def contents_update intro: keeps_trans)
qed

lemma moved_block:
  assumes "inv s ((p, k) # held)" "alloc n s = Inr (q, s')" "fits n"
  defines "s2 \<equiv> update (copy_bytes q p n (contents s')) s'"
  defines "s3 \<equiv> release p s2"
  shows "inv s3 ((q, n) # held) \<and> keeps held (contents s) (contents s3)
    \<and> read_bytes (contents s3) q (min (unat n) (unat k))
      = read_bytes (contents s) p (min (unat n) (unat k))"
proof -
  let ?m = "copy_bytes q p n (contents s')" and ?j = "min (unat n) (unat k)"
  have a: "inv s' ((q, n) # (p, k) # held)" "keeps ((p, k) # held) (contents s) (contents s')"
    using alloc_inv [OF assms(1-3)] by simp_all
  have b: "unat q + unat n < 4294967296" "unat p + unat k < 4294967296"
    using inv_bound [OF a(1)] by auto
  have off: "a - q < n \<longleftrightarrow> unat a \<in> cells q (unat n)" for a
    using b by (simp add: cells_def word_less_nat_alt unat_sub_if_size word_size) linarith
  have "same_on (- payload (q, n)) (contents s') ?m"
    by (auto simp: same_on_def payload_def copy_bytes_def off)
  from write_inv [OF a(1) this]
  have w: "inv s2 ((q, n) # (p, k) # held)" "keeps ((p, k) # held) (contents s') (contents s2)"
    by (simp_all add: s2_def contents_update)
  then have "inv s2 ((p, k) # (q, n) # held)" by (rule_tac inv_perm) auto
  from release_inv [OF this]
  have r: "inv s3 ((q, n) # held)" "keeps ((q, n) # held) (contents s2) (contents s3)"
    by (simp_all add: s3_def)
  have "keeps held (contents s) (contents s3)"
    using a(2) w(2) r(2) by (meson keeps_Cons keeps_trans)
  moreover have "read_bytes (contents s3) q ?j = read_bytes (contents s2) q ?j"
    using r(2) b by (intro read_bytes_cong) (auto simp: keeps_def same_on_def payload_def cells_def)
  moreover have "read_bytes (contents s2) q ?j = read_bytes (contents s') p ?j"
    using b unat_offset32 [of q "unat n"]
    by (auto simp: read_bytes_def s2_def contents_update copy_bytes_def off cells_def)
  moreover have "read_bytes (contents s') p ?j = read_bytes (contents s) p ?j"
    using a(2) b by (intro read_bytes_cong) (auto simp: keeps_def same_on_def payload_def cells_def)
  ultimately show ?thesis using r(1) by simp
qed

end

interpretation sm: block_heap "heap_inv hb" c_malloc c_free mem "\<lambda>m s. s\<lparr>mem := m\<rparr>" for hb
proof (unfold_locales, goal_cases)
  case (1 s held n p s')
  then show ?case using c_malloc_inv by blast
next
  case (2 s p n held)
  then show ?case by (rule c_free_inv)
next
  case (3 s b held m)
  then show ?case by (rule heap_write_inv)
next
  case (5 s as bs)
  then show ?case by (rule heap_inv_perm)
next
  case (6 s held)
  then show ?case by (rule heap_inv_separate)
next
  case (7 s held p n)
  from heap_inv_in_heap [OF this] show ?case by simp
qed simp

section \<open>The derived entry points\<close>

lemma c_malloc_nonzero:
  assumes inv: "heap_inv hb s held" and al: "c_malloc n s = Inr (p, s')" and f: "fits n"
  shows "p \<noteq> 0"
proof -
  have "heap_inv hb s' ((p, n) # held)" using c_malloc_inv [OF assms] by simp
  from heap_inv_in_heap(1) [OF this list.set_intros(1)] show ?thesis by auto
qed

lemma c_calloc_inv:
  assumes inv: "heap_inv hb s held" and al: "c_calloc k n s = Inr (p, s')" and f: "fits (k * n)"
  shows "heap_inv hb s' ((p, k * n) # held) \<and> keeps held (mem s) (mem s')
    \<and> read_bytes (mem s') p (unat (k * n)) = replicate (unat (k * n)) 0"
proof -
  obtain p1 s1 where a: "c_malloc (k * n) s = Inr (p1, s1)"
    using al by (auto simp: c_calloc_def c_malloc_def split: sum.splits)
  have "p1 \<noteq> 0" by (rule c_malloc_nonzero [OF inv a f])
  then have "p = p1" "s' = s1\<lparr>mem := memset p1 0 (k * n) (mem s1)\<rparr>"
    using al a by (auto simp: c_calloc_def c_malloc_def)
  with sm.cleared_block [OF inv a f] show ?thesis by simp
qed

lemma live_size_word:
  "ds_inv hb s ((h, c) # live) fls \<Longrightarrow> load32 (mem s) (h + 4) = c"
  by (simp add: ds_inv_def mem_ok_def live_header_def)

lemma c_realloc_inv:
  assumes inv: "heap_inv hb s ((p, k) # held)" and re: "c_realloc p n s = Inr (q, s')" and f: "fits n"
  shows "heap_inv hb s' ((q, n) # held) \<and> keeps held (mem s) (mem s')
    \<and> read_bytes (mem s') q (min (unat n) (unat k)) = read_bytes (mem s) p (min (unat n) (unat k))"
proof -
  obtain c xs fls where x: "mset (map fst xs) = mset held" "\<forall>x \<in> set xs. serves x"
      "serves ((p, k), (p - 16, c))" "ds_inv hb s ((p - 16, c) # map snd xs) fls"
    by (rule heap_inv_uncons [OF inv]) simp
  have c: "load32 (mem s) (p - 16 + 4) = c" by (rule live_size_word [OF x(4)])
  note lb = live_block_bounds [OF x(4) list.set_intros(1)]
  have p: "16 \<le> unat p" "unat p < 2147483648"
    using heap_inv_in_heap [OF inv list.set_intros(1)] by simp_all
  then have "sint p = int (unat p)" by (intro sint_unat32)
  moreover have "sint free_list_meta_size = 16" by (simp add: free_list_meta_size_def)
  ultimately have p16: "sint p \<ge> sint free_list_meta_size" using p by linarith
  show ?thesis
  proof (cases "c - 16 \<ge> n")
    case True
    then have "unat n + 16 \<le> unat c" using lb(3) by (simp add: word_le_nat_alt unat_sub32)
    then have "serves ((p, n), (p - 16, c))" using x(3) by (simp add: serves_def)
    then have "heap_inv hb s ((p, n) # held)"
      unfolding heap_inv_def
      by (intro exI [of _ "((p, n), (p - 16, c)) # xs"] exI [of _ fls]) (use x in simp)
    moreover have "q = p \<and> s' = s"
      using re p16 c True by (simp add: c_realloc_def free_list_meta_size_def)
    ultimately show ?thesis by simp
  next
    case False
    have r: "(case c_malloc n s of Inl e \<Rightarrow> Inl e
        | Inr (result, s') \<Rightarrow> if result \<noteq> 0
            then Inr (result, c_free p (s'\<lparr>mem := copy_bytes result p n (mem s')\<rparr>))
            else Inr (0, s')) = Inr (q, s')"
      using re c False by (simp add: c_realloc_def c_malloc_def free_list_meta_size_def)
    then obtain r s1 where a: "c_malloc n s = Inr (r, s1)"
      by (auto split: sum.splits)
    then have nz: "r \<noteq> 0" using c_malloc_nonzero [OF inv a f] by simp
    then have "q = r" "s' = c_free p (s1\<lparr>mem := copy_bytes r p n (mem s1)\<rparr>)"
      using r a by auto
    with sm.moved_block [OF inv a f] show ?thesis by simp
  qed
qed

section \<open>Runs of a client\<close>

text \<open>
  One step of a client: an allocation of any of the four kinds, a release of a block it holds,
  any change of memory inside a block it holds, or the switch that makes \<open>free\<close> effective.
\<close>

type_synonym heap_state = "dsmalloc \<times> holding list"

inductive heap_step :: "heap_state \<Rightarrow> heap_state \<Rightarrow> bool" where
  step_malloc: "c_malloc n s = Inr (p, s') \<Longrightarrow> fits n \<Longrightarrow> heap_step (s, held) (s', (p, n) # held)"
| step_calloc: "c_calloc k n s = Inr (p, s') \<Longrightarrow> fits (k * n) \<Longrightarrow>
    heap_step (s, held) (s', (p, k * n) # held)"
| step_memalign: "c_posix_memalign a n s = Inr (0, Some p, s') \<Longrightarrow> a \<le> 16 \<Longrightarrow> fits n \<Longrightarrow>
    heap_step (s, held) (s', (p, n) # held)"
| step_realloc: "c_realloc p n s = Inr (q, s') \<Longrightarrow> (p, k) \<in> set held \<Longrightarrow> fits n \<Longrightarrow>
    heap_step (s, held) (s', (q, n) # remove1 (p, k) held)"
| step_free: "(p, k) \<in> set held \<Longrightarrow> heap_step (s, held) (c_free p s, remove1 (p, k) held)"
| step_write: "b \<in> set held \<Longrightarrow> same_on (- payload b) (mem s) m \<Longrightarrow>
    heap_step (s, held) (s\<lparr>mem := m\<rparr>, held)"
| step_enable: "heap_step (s, held) (eosio_malloc_enable_free s, held)"
| step_disable: "heap_step (s, held) (eosio_malloc_disable_free s, held)"

inductive heap_reach :: "heap_state \<Rightarrow> heap_state \<Rightarrow> bool" where
  reach_start: "heap_reach s s"
| reach_next: "heap_reach s t \<Longrightarrow> heap_step t u \<Longrightarrow> heap_reach s u"

lemma heap_inv_to_front:
  "heap_inv hb s held \<Longrightarrow> b \<in> set held \<Longrightarrow> heap_inv hb s (b # remove1 b held)"
  by (erule heap_inv_perm) simp

lemma heap_inv_irrelevant:
  "heap_inv hb s held \<Longrightarrow> heap_inv hb (s\<lparr>free_enabled := b\<rparr>) held"
  by (simp add: heap_inv_def ds_inv_def heap_geometry_def)

lemma heap_step_inv:
  "heap_step c c' \<Longrightarrow> heap_inv hb (fst c) (snd c) \<Longrightarrow> heap_inv hb (fst c') (snd c')"
proof (induction rule: heap_step.induct)
  case (step_malloc n s p s' held)
  then show ?case using c_malloc_inv [of hb s held n p s'] by simp
next
  case (step_calloc k n s p s' held)
  then show ?case using c_calloc_inv [of hb s held k n p s'] by simp
next
  case (step_memalign a n s p s' held)
  then have "c_malloc n s = Inr (p, s')"
    by (auto simp: c_posix_memalign_def c_malloc_def EINVAL_def split: if_splits sum.splits)
  then show ?case using c_malloc_inv [of hb s held n p s'] step_memalign by simp
next
  case (step_realloc p n s q s' k held)
  then show ?case using c_realloc_inv [OF heap_inv_to_front, of hb s held p k n q s'] by simp
next
  case (step_free p k held s)
  then show ?case using c_free_inv [OF heap_inv_to_front, of hb s held p k] by simp
next
  case (step_write b held s m)
  have "heap_inv hb (s\<lparr>mem := m\<rparr>) (b # remove1 b held)"
    using heap_write_inv [OF heap_inv_to_front step_write(2)] step_write by simp
  then have "heap_inv hb (s\<lparr>mem := m\<rparr>) held"
    by (rule heap_inv_perm) (use step_write(1) in simp)
  then show ?case by simp
qed (simp_all add: eosio_malloc_enable_free_def eosio_malloc_disable_free_def heap_inv_irrelevant)

lemma heap_reach_inv:
  "heap_reach c c' \<Longrightarrow> heap_inv hb (fst c) (snd c) \<Longrightarrow> heap_inv hb (fst c') (snd c')"
proof (induction rule: heap_reach.induct)
  case (reach_next s t u)
  then show ?case using heap_step_inv by blast
qed

text \<open>The heap starts at the aligned heap base, inside a memory that has room for it.\<close>

definition good_start :: "u32 \<Rightarrow> u32 \<Rightarrow> u32 \<Rightarrow> bool" where
  "good_start heap_base pages limit \<longleftrightarrow> heap_base \<noteq> 0 \<and> 16 dvd unat heap_base
     \<and> unat heap_base < unat pages * 65536 \<and> pages \<le> limit \<and> limit < 32768"

lemma ds_init_inv:
  assumes "good_start heap_base pages limit"
  shows "heap_inv (unat heap_base) (ds_init heap_base pages limit m) []"
proof -
  have "heap_geometry (unat heap_base) (ds_init heap_base pages limit m)"
    using assms by (auto simp: heap_geometry_def ds_init_def good_start_def word_le_nat_alt
      word_less_nat_alt unat_gt_0)
  moreover have "free_blocks cs (replicate n []) = []" for cs n
    by (auto simp: free_blocks_def set_zip)
  then have "heap_blocks [] (replicate 15 []) (replicate max_bigchunk_items no_chunk) = []"
    by (simp add: heap_blocks_def big_blocks_def no_chunk_def filter_empty_conv)
  ultimately have "ds_inv (unat heap_base) (ds_init heap_base pages limit m) [] (replicate 15 [])"
    by (simp add: ds_inv_def ds_init_def blocks_ok_def mem_ok_def max_bigchunk_items_def)
  then show ?thesis
    unfolding heap_inv_def by (intro exI [of _ "[]"] exI [of _ "replicate 15 []"]) simp
qed

end
