(* ===== verification/HeapProps.thy ===== *)
theory HeapProps
  imports SimpleMallocSafe
begin

text \<open>
  The properties of the contract allocator, over the runs of \<open>SimpleMallocSafe\<close>, and its
  defects at the edges of the argument range.
\<close>

section \<open>Lemmas\<close>

text \<open>A concrete heap for the instances: two blocks allocated after \<open>free\<close> was enabled.\<close>

definition demo0 :: dsmalloc where
  "demo0 = ds_init 4096 1 528 (\<lambda>_. 0)"

definition demo1 :: dsmalloc where
  "demo1 = snd (projr (c_malloc 100 (eosio_malloc_enable_free demo0)))"

definition demo2 :: dsmalloc where
  "demo2 = snd (projr (c_malloc 200 demo1))"

lemma malloc_value:
  "is_ok (c_malloc n s) \<Longrightarrow> fst (projr (c_malloc n s)) = p \<Longrightarrow>
   c_malloc n s = Inr (p, snd (projr (c_malloc n s)))"
  by (cases "c_malloc n s") auto

lemma demo1_malloc: "c_malloc 100 (eosio_malloc_enable_free demo0) = Inr (4112, demo1)"
  unfolding demo1_def by (rule malloc_value) code_simp+

lemma demo2_malloc: "c_malloc 200 demo1 = Inr (4240, demo2)"
  unfolding demo2_def by (rule malloc_value) code_simp+

lemma demo_start: "good_start 4096 1 528"
  by (simp add: good_start_def)

lemma demo2_reach: "heap_reach (ds_init 4096 1 528 (\<lambda>_. 0), []) (demo2, [(4240, 200), (4112, 100)])"
proof -
  have "heap_reach (demo0, []) (eosio_malloc_enable_free demo0, [])"
    by (rule reach_next [OF reach_start step_enable])
  then have "heap_reach (demo0, []) (demo1, [(4112, 100)])"
    by (rule reach_next) (rule step_malloc [OF demo1_malloc], simp add: fits_def)
  then show ?thesis
    unfolding demo0_def [symmetric]
    by (rule reach_next) (rule step_malloc [OF demo2_malloc], simp add: fits_def)
qed

lemma reach_heap_inv:
  assumes "good_start heap_base pages limit"
    and "heap_reach (ds_init heap_base pages limit m, []) (s, held)"
  shows "heap_inv (unat heap_base) s held"
  using heap_reach_inv [OF assms(2)] ds_init_inv [OF assms(1)] by simp




lemma ds_alloc_grows:
  assumes "n \<noteq> 0" "find_small_mem_size (align (n + free_list_meta_size) 16) = (fid, sz)"
    and "\<not> (fid \<ge> 0 \<and> free_lists s ! nat fid \<noteq> 0)"
    and "unat (mem_pages s) + unat sz div 65536 + 1 \<le> unat (max_pages s)"
  shows "\<exists>s'. ds_alloc n 16 s = Inr (last_ptr s + 16, s') \<and> last_ptr s' = align (last_ptr s + sz) 16"
proof -
  let ?up = "push_bit 16 (next_page s + drop_bit 16 sz) \<le> align (last_ptr s + sz) 16"
  have "unat (drop_bit 16 sz) = unat sz div 65536" by (simp add: unat_drop_bit32)
  moreover from this have "unat (drop_bit 16 sz + 1) = unat sz div 65536 + 1"
    by (rule_tac unat_add32 [of "drop_bit 16 sz" 1, simplified, THEN trans])
      (use unat_lt32 [of sz] in linarith, simp)
  ultimately have "unat (mem_pages s) + unat (if ?up then drop_bit 16 sz + 1 else drop_bit 16 sz)
      \<le> unat (max_pages s)"
    using assms(4) by simp
  then obtain s1 where
    "grow_memory (if ?up then drop_bit 16 sz + 1 else drop_bit 16 sz) s = Some s1"
    unfolding grow_memory_def by metis
  then show ?thesis
    using assms(1-3) by (simp add: ds_alloc_def write_header_def free_list_meta_size_def Let_def cong: conj_cong)
qed

lemma ds_alloc_reuses:
  assumes "n \<noteq> 0" "find_small_mem_size (align (n + free_list_meta_size) 16) = (fid, sz)"
    and "fid \<ge> 0" "free_lists s ! nat fid \<noteq> 0"
  shows "\<exists>s'. ds_alloc n 16 s = Inr (free_lists s ! nat fid + 16, s') \<and> last_ptr s' = last_ptr s"
  using assms by (simp add: ds_alloc_def allocate_from_free_list_def free_list_meta_size_def Let_def)

text \<open>A request that the header addition wraps is rounded to the smallest class.\<close>

lemma wrapped_request:
  assumes "4294967280 \<le> unat n"
  shows "find_small_mem_size (align (n + free_list_meta_size) 16) = (0, 64)"
proof -
  have "unat (n + 16) = (unat n + 16) mod 4294967296" by (simp add: unat_word_ariths)
  also have "\<dots> = (unat n + 16 - 4294967296) mod 4294967296"
    using assms by (intro le_mod_geq) linarith
  also have "\<dots> \<le> unat n + 16 - 4294967296" by (rule mod_less_eq_dividend)
  also have "\<dots> < 16" using unat_lt32 [of n] by linarith
  finally have "unat (n + 16) < 16" .
  then have "unat (align (n + 16) 16) = (unat (n + 16) + 15) div 16 * 16"
    by (simp add: unat_align16)
  also have "\<dots> \<le> 1 * 16"
    using \<open>unat (n + 16) < 16\<close> by (intro mult_le_mono1) (simp add: less_Suc_eq_le [symmetric] less_mult_imp_div_less)
  finally have "align (n + 16) 16 \<le> 64" by (simp add: word_le_nat_alt)
  then show ?thesis
    by (simp add: find_small_mem_size_def free_list_chunk_size_def free_list_meta_size_def)
qed

section \<open>Properties\<close>

text \<open>
  C1. In every state a contract can reach from the start of the heap by calls of malloc, calloc,
  posix_memalign (up to the natural alignment), realloc, free and writes inside its own blocks,
  the blocks it holds are pairwise disjoint, sixteen-byte aligned, above the heap base, and end
  inside the linear memory that has been grown.
\<close>

theorem heap_blocks_disjoint:
  assumes "good_start heap_base pages limit"
    and "heap_reach (ds_init heap_base pages limit m, []) (s, held)"
  shows "separate (map block_region held) \<and>
    (\<forall>(p, n) \<in> set held. 16 dvd unat p \<and> unat heap_base + 16 \<le> unat p
       \<and> unat p + unat n < unat (mem_pages s) * 65536)"
proof -
  note inv = reach_heap_inv [OF assms]
  have "unat p + unat n < unat (mem_pages s) * 65536" if "(p, n) \<in> set held" for p n
    using heap_inv_in_heap(2,4) [OF inv that] by linarith
  then show ?thesis
    using heap_inv_separate [OF inv] heap_inv_in_heap(1,3) [OF inv] by blast
qed

theorem heap_blocks_disjoint_witness:
  "clear_of (4240, 200) (4112, 100) \<and> 4240 + 200 < unat (mem_pages demo2) * 65536"
  using heap_blocks_disjoint [OF demo_start demo2_reach] by (simp add: block_region_def)

text \<open>
  C2. No call disturbs a block it was not given: allocation changes no byte of any held block,
  and a release changes no byte of any other held block (the headers and free-list links lie
  outside every payload).
\<close>

theorem calls_keep_other_blocks:
  assumes "good_start heap_base pages limit"
    and "heap_reach (ds_init heap_base pages limit m, []) (s, held)"
    and "c_malloc n s = Inr (p, s')" "fits n" "b \<in> set held"
  shows "keeps held (mem s) (mem s') \<and> keeps (remove1 b held) (mem s) (mem (c_free (fst b) s))"
proof -
  note inv = reach_heap_inv [OF assms(1,2)]
  show ?thesis
    using c_malloc_inv [OF inv assms(3,4)] c_free_inv [of "unat heap_base" s "fst b" "snd b"]
      heap_inv_to_front [OF inv assms(5)] by simp
qed

theorem calls_keep_other_blocks_witness:
  "\<exists>s'. c_malloc 200 demo1 = Inr (4240, s') \<and> keeps [(4112, 100)] (mem demo1) (mem s')
     \<and> keeps [] (mem demo1) (mem (c_free 4112 demo1))"
proof -
  have "heap_reach (ds_init 4096 1 528 (\<lambda>_. 0), []) (demo1, [(4112, 100)])"
    unfolding demo0_def [symmetric]
    by (rule reach_next [OF reach_next [OF reach_start step_enable] step_malloc [OF demo1_malloc]])
       (simp add: fits_def)
  from calls_keep_other_blocks [OF demo_start this demo2_malloc, of "(4112, 100)"]
  show ?thesis by (intro exI [of _ demo2]) (simp add: demo2_malloc fits_def)
qed

text \<open>
  realloc returns a block of the requested size whose first bytes are those of the old block
  (as many as both sizes have), the old block is given up, and the other blocks keep their bytes.
\<close>

theorem realloc_moves_contents:
  assumes "good_start heap_base pages limit"
    and "heap_reach (ds_init heap_base pages limit m, []) (s, (p, k) # held)"
    and "c_realloc p n s = Inr (q, s')" "fits n"
  shows "heap_inv (unat heap_base) s' ((q, n) # held) \<and> keeps held (mem s) (mem s')
    \<and> read_bytes (mem s') q (min (unat n) (unat k)) = read_bytes (mem s) p (min (unat n) (unat k))"
  by (rule c_realloc_inv [OF reach_heap_inv [OF assms(1,2)] assms(3,4)])

theorem realloc_moves_contents_witness:
  "\<exists>s'. c_realloc 4240 300 demo2 = Inr (4496, s')
     \<and> read_bytes (mem s') 4496 200 = read_bytes (mem demo2) 4240 200"
proof -
  have "is_ok (c_realloc 4240 300 demo2)" "fst (projr (c_realloc 4240 300 demo2)) = 4496"
    by code_simp+
  then obtain s' where "c_realloc 4240 300 demo2 = Inr (4496, s')"
    by (cases "c_realloc 4240 300 demo2") auto
  with realloc_moves_contents [OF demo_start demo2_reach this] show ?thesis
    by (simp add: fits_def)
qed

text \<open>
  calloc returns a block of \<open>count * size\<close> bytes that are all zero, disjoint from every block
  held before.
\<close>

theorem calloc_is_zeroed:
  assumes "good_start heap_base pages limit"
    and "heap_reach (ds_init heap_base pages limit m, []) (s, held)"
    and "c_calloc k n s = Inr (p, s')" "fits (k * n)"
  shows "separate (map block_region ((p, k * n) # held))
    \<and> read_bytes (mem s') p (unat (k * n)) = replicate (unat (k * n)) 0"
  using c_calloc_inv [OF reach_heap_inv [OF assms(1,2)] assms(3,4)] heap_inv_separate by blast

theorem calloc_is_zeroed_witness:
  "\<exists>s'. c_calloc 5 4 demo2 = Inr (4496, s') \<and> read_bytes (mem s') 4496 20 = replicate 20 0"
proof -
  have "is_ok (c_calloc 5 4 demo2)" "fst (projr (c_calloc 5 4 demo2)) = 4496"
    by code_simp+
  then obtain s' where "c_calloc 5 4 demo2 = Inr (4496, s')"
    by (cases "c_calloc 5 4 demo2") auto
  with calloc_is_zeroed [OF demo_start demo2_reach this] show ?thesis
    by (simp add: fits_def)
qed

text \<open>
  With free enabled, a released small block is the next one handed out: a request of the
  same size class made right after \<open>free(p)\<close> returns \<open>p\<close> again, without growing the heap.
\<close>

theorem free_then_malloc_reuses:
  assumes "good_start heap_base pages limit"
    and "heap_reach (ds_init heap_base pages limit m, []) (s, (p, k) # held)"
    and "free_enabled s" "n \<noteq> 0"
    and "find_small_mem_size (align (n + free_list_meta_size) 16) = (int i, load32 (mem s) (p - 12))"
    and "load32 (mem s) (p - 16) = of_nat i" "i < 15"
  shows "\<exists>s'. c_malloc n (c_free p s) = Inr (p, s')"
proof -
  obtain c xs fls where x: "mset (map fst xs) = mset held" "\<forall>x \<in> set xs. serves x"
      "serves ((p, k), (p - 16, c))" "ds_inv (unat heap_base) s ((p - 16, c) # map snd xs) fls"
    by (rule heap_inv_uncons [OF reach_heap_inv [OF assms(1,2)]]) simp
  have len: "length (free_lists s) = 15" using x(4) by (simp add: ds_inv_def)
  have nz: "p - 16 \<noteq> 0" using live_block_bounds(4) [OF x(4) list.set_intros(1)] .
  have "c_free p s = ds_free (p - 16 + 16) s" using assms(3) by (simp add: c_free_def)
  also have "\<dots> = (case add_to_freelist (p - 16) (int i) (free_lists s, mem s) of (fl, m) \<Rightarrow>
      s\<lparr>free_lists := fl, mem := m\<rparr>)"
    by (rule ds_free_small [OF x(4) assms(7,6)])
  finally have "free_lists (c_free p s) = (free_lists s)[i := p - 16]"
    using len assms(7) by (simp add: add_to_freelist_def)
  then have "free_lists (c_free p s) ! nat (int i) = p - 16" using len assms(7) by simp
  then show ?thesis
    using ds_alloc_reuses [OF assms(4,5), of "c_free p s"] nz by (auto simp: c_malloc_def)
qed

theorem free_then_malloc_reuses_witness:
  "\<exists>s'. c_malloc 150 (c_free 4240 demo2) = Inr (4240, s')"
  by (rule free_then_malloc_reuses [OF demo_start demo2_reach, where i = 2]) code_simp+





text \<open>
  A request within sixteen bytes of the end of the address range does not fail: adding the
  header wraps the size, and the caller is handed a block of 64 bytes, header included.
\<close>

theorem huge_malloc_returns_small_block:
  assumes "4294967280 \<le> unat n" "free_lists s ! 0 = 0"
    and "unat (mem_pages s) + 1 \<le> unat (max_pages s)"
  shows "\<exists>s'. c_malloc n s = Inr (last_ptr s + 16, s')
    \<and> find_small_mem_size (align (n + free_list_meta_size) 16) = (0, 64)"
proof -
  have n: "n \<noteq> 0" using assms(1) by auto
  have "\<not> ((0::int) \<ge> 0 \<and> free_lists s ! nat 0 \<noteq> 0)" using assms(2) by simp
  from ds_alloc_grows [OF n wrapped_request [OF assms(1)] this] assms(3) wrapped_request [OF assms(1)]
  show ?thesis by (auto simp: c_malloc_def)
qed

theorem huge_malloc_returns_small_block_witness:
  "\<exists>s'. c_malloc 4294967295 demo0 = Inr (4112, s')"
  using huge_malloc_returns_small_block [of 4294967295 demo0]
  by (simp add: demo0_def ds_init_def)

text \<open>
  posix_memalign with an alignment of 256 or more passes the alignment through a \<open>uint8_t\<close>
  as zero: the size and the end of the heap are both masked to zero, so the call succeeds with
  the smallest block and leaves the heap pointer at address zero.
\<close>

theorem memalign_256_resets_heap:
  assumes "n \<noteq> 0" "free_lists s ! 0 = 0" "unat (mem_pages s) + 1 \<le> unat (max_pages s)"
    and "256 \<le> a" "a AND (a - 1) = 0" "ucast a = (0 :: u8)"
  shows "\<exists>s'. c_posix_memalign a n s = Inr (0, Some (last_ptr s + 16), s') \<and> last_ptr s' = 0"
proof -
  have al0: "align x 0 = 0" for x by (simp add: align_def)
  have f: "find_small_mem_size 0 = (0, 64)"
    by (simp add: find_small_mem_size_def free_list_chunk_size_def)
  obtain s1 where "grow_memory (if push_bit 16 (next_page s) = 0 then 1 else 0) s = Some s1"
    using assms(3) by (fastforce simp: grow_memory_def)
  then have "\<exists>s'. ds_alloc n 0 s = Inr (last_ptr s + 16, s') \<and> last_ptr s' = 0"
    using assms(1,2)
    by (auto simp: ds_alloc_def al0 f free_list_meta_size_def Let_def write_header_def)
  moreover have "16 < a" "\<not> a < 4" using assms(4) by unat_arith+
  ultimately show ?thesis using assms(5,6) by (auto simp: c_posix_memalign_def)
qed

theorem memalign_256_resets_heap_witness:
  "\<exists>s'. c_posix_memalign 256 40 demo2 = Inr (0, Some 4496, s') \<and> last_ptr s' = 0"
proof -
  have "last_ptr demo2 = 4480" "free_lists demo2 ! 0 = 0"
    "unat (mem_pages demo2) + 1 \<le> unat (max_pages demo2)" by code_simp+
  with memalign_256_resets_heap [of 40 demo2 256] show ?thesis by simp
qed

end
