(* ===== verification/KvBase.thy ===== *)
theory KvBase
  imports Prelude "HOL-Library.List_Lexorder"
begin

text \<open>
  \<open>contracts/eosio/kv_base.hpp\<close>: the binary keys of the key-value database. A \<open>key_type\<close> is a byte
  vector; the database orders keys as \<open>memcmp\<close> does, which is the lexicographic order on lists
  of unsigned bytes. \<open>convert_to_key\<close> comes from a library outside the repository and is an
  argument of the definitions that call it.
\<close>

section \<open>key_type\<close>

type_synonym key_type = bytes

definition key_plus :: "key_type \<Rightarrow> key_type \<Rightarrow> key_type" where
  "key_plus a b = a @ b"

definition full_key :: "key_type \<Rightarrow> key_type \<Rightarrow> key_type" where
  "full_key a b = [] @ key_plus a b"

section \<open>Prefixes\<close>

text \<open>
  \<open>make_prefix\<close>: the key of the triple of a status byte (always one), the table name and the
  index name. \<open>to_key\<close> is \<open>convert_to_key\<close> on such a triple; every table relies on prefixes of
  equal length that determine the names.
\<close>

type_synonym prefix_key = "u8 \<times> u64 \<times> u64 \<Rightarrow> bytes"

definition make_prefix :: "prefix_key \<Rightarrow> u64 \<Rightarrow> u64 \<Rightarrow> key_type" where
  "make_prefix to_key table_name index_name = to_key (1, table_name, index_name)"

definition prefix_key_ok :: "prefix_key \<Rightarrow> bool" where
  "prefix_key_ok to_key \<longleftrightarrow> inj to_key \<and> (\<forall>x. length (to_key x) = 17)"

text \<open>A concrete conversion: the status byte, then both names, most significant byte first.\<close>

definition big_endian :: "u64 \<Rightarrow> bytes" where
  "big_endian w = map (\<lambda>i. ucast (drop_bit (8 * i) w)) [7, 6, 5, 4, 3, 2, 1, 0]"

definition tuple_key :: prefix_key where
  "tuple_key x = (case x of (s, t, i) \<Rightarrow> s # big_endian t @ big_endian i)"

lemma inj_big_endian: "big_endian a = big_endian b \<Longrightarrow> a = b"
proof (rule bit_word_eqI)
  fix n assume eq: "big_endian a = big_endian b" and "n < LENGTH(64)"
  then have n: "n div 8 < 8" "n mod 8 < 8" by simp_all
  have "(ucast (drop_bit (8 * i) a) :: u8) = ucast (drop_bit (8 * i) b)" if "i < 8" for i
  proof -
    have "i \<in> {7, 6, 5, 4, 3, 2, 1, 0}" using that by auto
    with eq show ?thesis by (auto simp: big_endian_def)
  qed
  from this [OF n(1)] have "bit (ucast (drop_bit (8 * (n div 8)) a) :: u8) (n mod 8)
      = bit (ucast (drop_bit (8 * (n div 8)) b) :: u8) (n mod 8)" by simp
  then show "bit a n = bit b n"
    using n(2) by (simp add: bit_ucast_iff bit_drop_bit_eq)
qed

lemma length_big_endian [simp]: "length (big_endian w) = 8"
  by (simp add: big_endian_def)

lemma tuple_key_ok: "prefix_key_ok tuple_key"
  by (auto simp: prefix_key_ok_def tuple_key_def inj_def dest: inj_big_endian)

section \<open>Keys under a prefix\<close>

lemma full_key_append [simp]: "full_key a b = a @ b"
  by (simp add: full_key_def key_plus_def)

lemma append_less_iff [simp]: "(p @ a < p @ b) \<longleftrightarrow> a < (b :: bytes)"
  by (induction p) auto

lemma append_le_iff [simp]: "(p @ a \<le> p @ b) \<longleftrightarrow> a \<le> (b :: bytes)"
  by (induction p) auto

lemma prefix_le_append: "p \<le> p @ (a :: bytes)"
  by (induction p) auto

end
