(* ===== verification/SortedWalk.thy ===== *)
theory SortedWalk
  imports Main
begin

text \<open>
  Positions in a finite set of a linear order, as database iterators have them: the least and the
  greatest element of a set, and the elements met when one walks from one position to another.
  Shared by the key-value tables, the ordered map and the tables of \<open>multi_index.hpp\<close>.
\<close>

section \<open>Least and greatest elements\<close>

definition least_in :: "'a :: linorder set \<Rightarrow> 'a option" where
  "least_in S = (if S = {} then None else Some (Min S))"

definition greatest_in :: "'a :: linorder set \<Rightarrow> 'a option" where
  "greatest_in S = (if S = {} then None else Some (Max S))"

section \<open>Ascending walks over a finite set\<close>

lemma sorted_list_of_set_least:
  assumes "finite A" "\<forall>x \<in> A. k < x"
  shows "sorted_list_of_set (insert k A) = (k :: 'a :: linorder) # sorted_list_of_set A"
proof -
  have "k \<notin> A" using assms(2) by auto
  then have "sorted_list_of_set (insert k A) = insort k (sorted_list_of_set A)"
    using assms(1) by simp
  also have "\<dots> = k # sorted_list_of_set A"
    using assms by (intro insort_is_Cons) (auto simp: less_imp_le)
  finally show ?thesis .
qed

text \<open>The keys of \<open>K\<close> from a position up to, but not including, another position.\<close>

definition walk_set :: "'a :: linorder set \<Rightarrow> 'a option \<Rightarrow> 'a option \<Rightarrow> 'a set" where
  "walk_set K from lim = (case from of None \<Rightarrow> {}
     | Some k \<Rightarrow> {x \<in> K. k \<le> x \<and> (case lim of None \<Rightarrow> True | Some e \<Rightarrow> x < e)})"

lemma finite_walk_set: "finite K \<Longrightarrow> finite (walk_set K from lim)"
  by (simp add: walk_set_def split: option.splits)

lemma least_in_Some:
  assumes "finite S" "least_in S = Some m"
  shows "m \<in> S" "\<And>x. x \<in> S \<Longrightarrow> m \<le> x"
proof -
  have "S \<noteq> {}" "m = Min S" using assms(2) by (auto simp: least_in_def split: if_splits)
  then show "m \<in> S" "\<And>x. x \<in> S \<Longrightarrow> m \<le> x" using assms(1) by simp_all
qed

lemma walk_step:
  assumes "finite K" "k \<in> K" "case lim of None \<Rightarrow> True | Some e \<Rightarrow> k < e"
  shows "sorted_list_of_set (walk_set K (Some k) lim)
    = k # sorted_list_of_set (walk_set K (least_in {x \<in> K. k < x}) lim)"
proof -
  let ?next = "least_in {x \<in> K. k < x}"
  have "walk_set K (Some k) lim = insert k (walk_set K ?next lim)"
  proof (cases ?next)
    case None
    then have "{x \<in> K. k < x} = {}" by (simp add: least_in_def split: if_splits)
    then show ?thesis
      using assms(2,3) None by (auto simp: walk_set_def not_less split: option.splits)
  next
    case (Some m)
    have "finite {x \<in> K. k < x}" using assms(1) by simp
    note m = least_in_Some [OF this Some]
    have "x \<in> K \<Longrightarrow> k \<le> x \<longleftrightarrow> x = k \<or> m \<le> x" for x
      using m by (metis (mono_tags, lifting) le_less less_le_trans mem_Collect_eq order.order_iff_strict)
    then show ?thesis
      using assms(2,3) Some by (auto simp: walk_set_def)
  qed
  moreover have "\<forall>x \<in> walk_set K ?next lim. k < x"
  proof (cases ?next)
    case (Some m)
    have "finite {x \<in> K. k < x}" using assms(1) by simp
    note m = least_in_Some [OF this Some]
    from m(1) Some show ?thesis by (auto simp: walk_set_def intro: less_le_trans)
  qed (simp add: walk_set_def)
  ultimately show ?thesis
    using sorted_list_of_set_least [of "walk_set K ?next lim" k] assms(1)
    by (simp add: finite_walk_set)
qed

lemma least_in_mem: "finite S \<Longrightarrow> least_in {x \<in> S. P x} = Some k \<Longrightarrow> k \<in> S"
  using least_in_Some(1) [of "{x \<in> S. P x}" k] by simp

lemma walk_set_bounds:
  assumes "finite K"
  shows "walk_set K (least_in {k \<in> K. b \<le> k}) (least_in {k \<in> K. e \<le> k}) = {k \<in> K. b \<le> k \<and> k < e}"
proof -
  have f: "finite {k \<in> K. b \<le> k}" "finite {k \<in> K. e \<le> k}" using assms by simp_all
  have lim: "(case least_in {k \<in> K. e \<le> k} of None \<Rightarrow> True | Some m \<Rightarrow> x < m) \<longleftrightarrow> x < e" if "x \<in> K" for x
  proof (cases "least_in {k \<in> K. e \<le> k}")
    case None
    then have "{k \<in> K. e \<le> k} = {}" by (simp add: least_in_def split: if_splits)
    with that have "x < e" by (auto simp: not_le)
    with None show ?thesis by simp
  next
    case (Some m)
    note m = least_in_Some [OF f(2) Some]
    have "x < m \<longleftrightarrow> x < e"
      using m that by (metis (mono_tags, lifting) leD leI le_less_trans less_le_trans mem_Collect_eq)
    with Some show ?thesis by simp
  qed
  show ?thesis
  proof (cases "least_in {k \<in> K. b \<le> k}")
    case None
    then have "{k \<in> K. b \<le> k} = {}" by (simp add: least_in_def split: if_splits)
    then show ?thesis unfolding walk_set_def None by (simp del: Collect_empty_eq) blast
  next
    case (Some m)
    note m = least_in_Some [OF f(1) Some]
    have "m \<le> x \<longleftrightarrow> b \<le> x" if "x \<in> K" for x
      using m that by (metis (mono_tags, lifting) mem_Collect_eq order_trans)
    with Some lim show ?thesis by (auto simp: walk_set_def)
  qed
qed

text \<open>A position that has not gone past another.\<close>

definition not_past :: "'a :: linorder option \<Rightarrow> 'a option \<Rightarrow> bool" where
  "not_past p q \<longleftrightarrow> (case q of None \<Rightarrow> True | Some e \<Rightarrow> (\<exists>k. p = Some k \<and> k \<le> e))"

lemma not_past_step:
  assumes "finite K" "not_past (Some k) q" "Some k \<noteq> q" "q = least_in {x \<in> K. P x}"
  shows "(case q of None \<Rightarrow> True | Some e \<Rightarrow> k < e)" "not_past (least_in {x \<in> K. k < x}) q"
proof -
  show lt: "case q of None \<Rightarrow> True | Some e \<Rightarrow> k < e"
    using assms(2,3) by (auto simp: not_past_def split: option.splits)
  show "not_past (least_in {x \<in> K. k < x}) q"
  proof (cases q)
    case (Some e)
    have eK: "e \<in> K" using least_in_mem [OF assms(1), of P e] assms(4) Some by simp
    have ke: "k < e" using lt Some by simp
    then have ne: "{x \<in> K. k < x} \<noteq> {}" using eK by blast
    then obtain m where m: "least_in {x \<in> K. k < x} = Some m" by (simp add: least_in_def)
    have f: "finite {x \<in> K. k < x}" using assms(1) by simp
    have "m \<le> e" by (rule least_in_Some(2) [OF f m]) (use eK ke in simp)
    with m Some show ?thesis by (simp add: not_past_def)
  qed (simp add: not_past_def)
qed

lemma walk_set_same: "finite K \<Longrightarrow> walk_set K p p = {}"
  by (auto simp: walk_set_def split: option.splits)

end
