(* ===== verification/KvHost.thy ===== *)
theory KvHost
  imports KvBase SortedWalk
begin

text \<open>
  The key-value intrinsics of the chain (declared in \<open>kv_base.hpp\<close>, implemented by the node) as a
  parameter: a record of functions over the host's state. \<open>kv_db_ok\<close> and \<open>kv_it_ok\<close> state what the
  contract library relies on, through a view of the host's state as a map from keys to values
  and a set of open iterators (\<open>kv_set_result\<close> is the number the call of \<open>kv_set\<close> returns, of which
  nothing is assumed); \<open>mem_host\<close> is a host that keeps these laws, so that statements
  about the library can be instantiated. A host call that aborts the transaction has no result.
\<close>

record 'h kv_host =
  kv_erase :: "u64 \<Rightarrow> bytes \<Rightarrow> 'h \<Rightarrow> 'h"
  kv_set :: "u64 \<Rightarrow> bytes \<Rightarrow> bytes \<Rightarrow> u64 \<Rightarrow> 'h \<Rightarrow> 'h"
  kv_get :: "u64 \<Rightarrow> bytes \<Rightarrow> 'h \<Rightarrow> (bool \<times> nat) \<times> 'h"
  kv_get_data :: "nat \<Rightarrow> nat \<Rightarrow> 'h \<Rightarrow> nat \<times> bytes"
  kv_it_create :: "u64 \<Rightarrow> bytes \<Rightarrow> 'h \<Rightarrow> u32 \<times> 'h"
  kv_it_destroy :: "u32 \<Rightarrow> 'h \<Rightarrow> 'h"
  kv_it_compare :: "u32 \<Rightarrow> u32 \<Rightarrow> 'h \<Rightarrow> int"
  kv_it_key_compare :: "u32 \<Rightarrow> bytes \<Rightarrow> 'h \<Rightarrow> int"
  kv_it_next :: "u32 \<Rightarrow> 'h \<Rightarrow> int \<times> 'h"
  kv_it_prev :: "u32 \<Rightarrow> 'h \<Rightarrow> int \<times> 'h"
  kv_it_lower_bound :: "u32 \<Rightarrow> bytes \<Rightarrow> 'h \<Rightarrow> int \<times> 'h"
  kv_it_key :: "u32 \<Rightarrow> nat \<Rightarrow> nat \<Rightarrow> 'h \<Rightarrow> int \<times> bytes \<times> nat"
  kv_it_value :: "u32 \<Rightarrow> nat \<Rightarrow> nat \<Rightarrow> 'h \<Rightarrow> int \<times> bytes \<times> nat"
  kv_it_move_to_end :: "u32 \<Rightarrow> 'h \<Rightarrow> int \<times> 'h"
  kv_set_result :: "u64 \<Rightarrow> bytes \<Rightarrow> bytes \<Rightarrow> u64 \<Rightarrow> 'h \<Rightarrow> int"

text \<open>An open iterator: the contract and prefix it ranges over, and the key it stands at, if any.\<close>

record kv_cursor =
  cur_contract :: u64
  cur_prefix :: bytes
  cur_key :: "bytes option"

record 'h kv_view =
  kv_db :: "'h \<Rightarrow> u64 \<Rightarrow> bytes \<Rightarrow> bytes option"
  kv_its :: "'h \<Rightarrow> u32 \<Rightarrow> kv_cursor option"
  kv_room :: "'h \<Rightarrow> nat"

definition has_prefix :: "bytes \<Rightarrow> bytes \<Rightarrow> bool" where
  "has_prefix p k \<longleftrightarrow> take (length p) k = p"

definition prefixed :: "(bytes \<Rightarrow> bytes option) \<Rightarrow> bytes \<Rightarrow> bytes set" where
  "prefixed m p = {k \<in> dom m. has_prefix p k}"

definition compare_keys :: "bytes \<Rightarrow> bytes \<Rightarrow> int" where
  "compare_keys a b = (if a = b then 0 else if a < b then - 1 else 1)"

text \<open>Positions in order: the end comes after every key.\<close>

definition compare_positions :: "bytes option \<Rightarrow> bytes option \<Rightarrow> int" where
  "compare_positions a b = (case (a, b) of
     (None, None) \<Rightarrow> 0 | (None, Some _) \<Rightarrow> 1 | (Some _, None) \<Rightarrow> - 1
   | (Some j, Some k) \<Rightarrow> compare_keys j k)"

definition position_status :: "bytes option \<Rightarrow> int" where
  "position_status p = (case p of None \<Rightarrow> - 2 | Some _ \<Rightarrow> 0)"

text \<open>The laws of the calls that read and write pairs.\<close>

definition kv_db_ok :: "'h kv_host \<Rightarrow> 'h kv_view \<Rightarrow> bool" where
  "kv_db_ok H V \<longleftrightarrow>
     (\<forall>h c. finite (dom (kv_db V h c))) \<and>
     (\<forall>h c k v p. kv_db V (kv_set H c k v p h) = (kv_db V h)(c := (kv_db V h c)(k \<mapsto> v))
        \<and> kv_its V (kv_set H c k v p h) = kv_its V h \<and> kv_room V (kv_set H c k v p h) = kv_room V h) \<and>
     (\<forall>h c k. kv_db V (kv_erase H c k h) = (kv_db V h)(c := (kv_db V h c)(k := None))
        \<and> kv_its V (kv_erase H c k h) = kv_its V h \<and> kv_room V (kv_erase H c k h) = kv_room V h) \<and>
     (\<forall>h c k. kv_db V (snd (kv_get H c k h)) = kv_db V h
        \<and> kv_its V (snd (kv_get H c k h)) = kv_its V h
        \<and> kv_room V (snd (kv_get H c k h)) = kv_room V h) \<and>
     (\<forall>h c k. kv_db V h c k = None \<longrightarrow> \<not> fst (fst (kv_get H c k h))) \<and>
     (\<forall>h c k v. kv_db V h c k = Some v \<longrightarrow> fst (kv_get H c k h) = (True, length v)
        \<and> kv_get_data H 0 (length v) (snd (kv_get H c k h)) = (length v, v))"

text \<open>The laws of the iterator calls. A new iterator stands past the end of its prefix.\<close>

definition moves_to :: "'h kv_view \<Rightarrow> u32 \<Rightarrow> kv_cursor \<Rightarrow> bytes option \<Rightarrow> 'h \<Rightarrow> int \<times> 'h \<Rightarrow> bool" where
  "moves_to V r cur pos h res \<longleftrightarrow> fst res = position_status pos
     \<and> kv_its V (snd res) = (kv_its V h)(r \<mapsto> cur\<lparr>cur_key := pos\<rparr>)
     \<and> kv_db V (snd res) = kv_db V h \<and> kv_room V (snd res) = kv_room V h"

definition cursor_keys :: "'h kv_view \<Rightarrow> 'h \<Rightarrow> kv_cursor \<Rightarrow> bytes set" where
  "cursor_keys V h cur = prefixed (kv_db V h (cur_contract cur)) (cur_prefix cur)"

definition position_ok :: "'h kv_view \<Rightarrow> 'h \<Rightarrow> kv_cursor \<Rightarrow> bool" where
  "position_ok V h cur \<longleftrightarrow> (\<forall>k. cur_key cur = Some k \<longrightarrow> k \<in> cursor_keys V h cur)"

definition kv_it_ok :: "'h kv_host \<Rightarrow> 'h kv_view \<Rightarrow> bool" where
  "kv_it_ok H V \<longleftrightarrow>
     (\<forall>h c p. 0 < kv_room V h \<longrightarrow> (case kv_it_create H c p h of (r, h') \<Rightarrow>
        r \<noteq> 0 \<and> kv_its V h r = None \<and> kv_db V h' = kv_db V h
        \<and> kv_its V h' = (kv_its V h)(r \<mapsto> \<lparr>cur_contract = c, cur_prefix = p, cur_key = None\<rparr>)
        \<and> kv_room V h' = kv_room V h - 1)) \<and>
     (\<forall>h r. kv_its V (kv_it_destroy H r h) = (kv_its V h)(r := None)
        \<and> kv_db V (kv_it_destroy H r h) = kv_db V h
        \<and> kv_room V (kv_it_destroy H r h) = kv_room V h) \<and>
     (\<forall>h r cur key. kv_its V h r = Some cur \<longrightarrow>
        moves_to V r cur (least_in {k \<in> cursor_keys V h cur. key \<le> k}) h
          (kv_it_lower_bound H r key h)) \<and>
     (\<forall>h r cur k. kv_its V h r = Some cur \<and> cur_key cur = Some k \<and> k \<in> cursor_keys V h cur \<longrightarrow>
        moves_to V r cur (least_in {k' \<in> cursor_keys V h cur. k < k'}) h (kv_it_next H r h)
        \<and> moves_to V r cur (greatest_in {k' \<in> cursor_keys V h cur. k' < k}) h (kv_it_prev H r h)
        \<and> (\<forall>key. kv_it_key_compare H r key h = compare_keys k key)
        \<and> (\<forall>n. kv_it_key H r 0 n h = (0, take n k, length k))
        \<and> (\<forall>n v. kv_db V h (cur_contract cur) k = Some v \<longrightarrow>
              kv_it_value H r 0 n h = (0, take n v, length v))) \<and>
     (\<forall>h r cur key. kv_its V h r = Some cur \<and> cur_key cur = None \<longrightarrow>
        moves_to V r cur (greatest_in (cursor_keys V h cur)) h (kv_it_prev H r h)
        \<and> kv_it_key_compare H r key h = 1) \<and>
     (\<forall>h a b ca cb. kv_its V h a = Some ca \<and> kv_its V h b = Some cb
        \<and> position_ok V h ca \<and> position_ok V h cb \<longrightarrow>
        kv_it_compare H a b h = compare_positions (cur_key ca) (cur_key cb)) \<and>
     (\<forall>h r cur. kv_its V h r = Some cur \<longrightarrow> moves_to V r cur None h (kv_it_move_to_end H r h))"

lemma kv_it_ok_laws:
  assumes "kv_it_ok H V"
  shows "\<forall>h c p. 0 < kv_room V h \<longrightarrow> (case kv_it_create H c p h of (r, h') \<Rightarrow>
        r \<noteq> 0 \<and> kv_its V h r = None \<and> kv_db V h' = kv_db V h
        \<and> kv_its V h' = (kv_its V h)(r \<mapsto> \<lparr>cur_contract = c, cur_prefix = p, cur_key = None\<rparr>)
        \<and> kv_room V h' = kv_room V h - 1)"
    and "\<forall>h r. kv_its V (kv_it_destroy H r h) = (kv_its V h)(r := None)
        \<and> kv_db V (kv_it_destroy H r h) = kv_db V h
        \<and> kv_room V (kv_it_destroy H r h) = kv_room V h"
    and "\<forall>h r cur key. kv_its V h r = Some cur \<longrightarrow>
        moves_to V r cur (least_in {k \<in> cursor_keys V h cur. key \<le> k}) h (kv_it_lower_bound H r key h)"
    and "\<forall>h r cur k. kv_its V h r = Some cur \<and> cur_key cur = Some k \<and> k \<in> cursor_keys V h cur \<longrightarrow>
        moves_to V r cur (least_in {k' \<in> cursor_keys V h cur. k < k'}) h (kv_it_next H r h)
        \<and> moves_to V r cur (greatest_in {k' \<in> cursor_keys V h cur. k' < k}) h (kv_it_prev H r h)
        \<and> (\<forall>key. kv_it_key_compare H r key h = compare_keys k key)
        \<and> (\<forall>n. kv_it_key H r 0 n h = (0, take n k, length k))
        \<and> (\<forall>n v. kv_db V h (cur_contract cur) k = Some v \<longrightarrow>
              kv_it_value H r 0 n h = (0, take n v, length v))"
    and "\<forall>h r cur key. kv_its V h r = Some cur \<and> cur_key cur = None \<longrightarrow>
        moves_to V r cur (greatest_in (cursor_keys V h cur)) h (kv_it_prev H r h)
        \<and> kv_it_key_compare H r key h = 1"
    and "\<forall>h a b ca cb. kv_its V h a = Some ca \<and> kv_its V h b = Some cb
        \<and> position_ok V h ca \<and> position_ok V h cb \<longrightarrow>
        kv_it_compare H a b h = compare_positions (cur_key ca) (cur_key cb)"
    and "\<forall>h r cur. kv_its V h r = Some cur \<longrightarrow> moves_to V r cur None h (kv_it_move_to_end H r h)"
  by (insert assms, unfold kv_it_ok_def, (elim conjE, assumption)+)

lemmas it_create_law = kv_it_ok_laws(1) [rule_format]
lemmas it_destroy_law = kv_it_ok_laws(2) [rule_format]
lemmas it_lower_bound_law = kv_it_ok_laws(3) [rule_format]
lemmas it_end_law = kv_it_ok_laws(5) [rule_format, OF _ conjI]
lemmas it_compare_law = kv_it_ok_laws(6) [rule_format]
lemmas it_move_to_end_law = kv_it_ok_laws(7) [rule_format]

lemma it_standing_law:
  assumes "kv_it_ok H V" "kv_its V h r = Some cur" "cur_key cur = Some k" "k \<in> cursor_keys V h cur"
  shows "moves_to V r cur (least_in {k' \<in> cursor_keys V h cur. k < k'}) h (kv_it_next H r h)"
    "moves_to V r cur (greatest_in {k' \<in> cursor_keys V h cur. k' < k}) h (kv_it_prev H r h)"
    "kv_it_key_compare H r key h = compare_keys k key"
    "kv_it_key H r 0 n h = (0, take n k, length k)"
    "kv_db V h (cur_contract cur) k = Some v \<Longrightarrow> kv_it_value H r 0 n h = (0, take n v, length v)"
  using kv_it_ok_laws(4) [OF assms(1), rule_format, OF conjI [OF assms(2) conjI [OF assms(3,4)]]]
  by blast+

section \<open>A host in memory\<close>

text \<open>
  Pairs in an association list; open iterators in a list, an iterator's number being one more
  than its place, a destroyed one leaving a hole.
\<close>

record mem_state =
  mh_pairs :: "((u64 \<times> bytes) \<times> bytes) list"
  mh_its :: "kv_cursor option list"
  mh_buf :: bytes

definition mh_slot :: "u32 \<Rightarrow> mem_state \<Rightarrow> kv_cursor option" where
  "mh_slot r h = (if r \<noteq> 0 \<and> unat r \<le> length (mh_its h) then mh_its h ! (unat r - 1) else None)"

definition mh_keys :: "kv_cursor \<Rightarrow> mem_state \<Rightarrow> bytes list" where
  "mh_keys cur h = map (snd \<circ> fst)
     (filter (\<lambda>e. fst (fst e) = cur_contract cur \<and> has_prefix (cur_prefix cur) (snd (fst e))) (mh_pairs h))"

definition mh_move :: "u32 \<Rightarrow> (kv_cursor \<Rightarrow> bytes option) \<Rightarrow> mem_state \<Rightarrow> int \<times> mem_state" where
  "mh_move r target h = (case mh_slot r h of
     None \<Rightarrow> (- 2, h)
   | Some cur \<Rightarrow> (position_status (target cur),
       h\<lparr>mh_its := (mh_its h)[unat r - 1 := Some (cur\<lparr>cur_key := target cur\<rparr>)]\<rparr>))"

definition mh_position :: "u32 \<Rightarrow> mem_state \<Rightarrow> bytes option" where
  "mh_position r h = Option.bind (mh_slot r h) cur_key"

definition mem_host :: "mem_state kv_host" where
  "mem_host = \<lparr>
     kv_erase = (\<lambda>c k h. h\<lparr>mh_pairs := filter (\<lambda>e. fst e \<noteq> (c, k)) (mh_pairs h)\<rparr>),
     kv_set = (\<lambda>c k v p h. h\<lparr>mh_pairs := ((c, k), v) # filter (\<lambda>e. fst e \<noteq> (c, k)) (mh_pairs h)\<rparr>),
     kv_get = (\<lambda>c k h. case map_of (mh_pairs h) (c, k) of
        None \<Rightarrow> ((False, 0), h) | Some v \<Rightarrow> ((True, length v), h\<lparr>mh_buf := v\<rparr>)),
     kv_get_data = (\<lambda>ofs n h. (length (mh_buf h), take n (drop ofs (mh_buf h)))),
     kv_it_create = (\<lambda>c p h. (of_nat (length (mh_its h) + 1),
        h\<lparr>mh_its := mh_its h @ [Some \<lparr>cur_contract = c, cur_prefix = p, cur_key = None\<rparr>]\<rparr>)),
     kv_it_destroy = (\<lambda>r h. if r \<noteq> 0 then h\<lparr>mh_its := (mh_its h)[unat r - 1 := None]\<rparr> else h),
     kv_it_compare = (\<lambda>a b h. compare_positions (mh_position a h) (mh_position b h)),
     kv_it_key_compare = (\<lambda>r key h. case mh_position r h of
        Some k \<Rightarrow> compare_keys k key | None \<Rightarrow> 1),
     kv_it_next = (\<lambda>r h. mh_move r (\<lambda>cur. case cur_key cur of None \<Rightarrow> None
        | Some k \<Rightarrow> least_in (set (filter ((<) k) (mh_keys cur h)))) h),
     kv_it_prev = (\<lambda>r h. mh_move r (\<lambda>cur. case cur_key cur of
          None \<Rightarrow> greatest_in (set (mh_keys cur h))
        | Some k \<Rightarrow> greatest_in (set (filter (\<lambda>k'. k' < k) (mh_keys cur h)))) h),
     kv_it_lower_bound = (\<lambda>r key h. mh_move r
        (\<lambda>cur. least_in (set (filter ((\<le>) key) (mh_keys cur h)))) h),
     kv_it_key = (\<lambda>r ofs n h. case mh_position r h of
        None \<Rightarrow> (- 2, [], 0) | Some k \<Rightarrow> (0, take n (drop ofs k), length k)),
     kv_it_value = (\<lambda>r ofs n h. case mh_slot r h of
        None \<Rightarrow> (- 2, [], 0)
      | Some cur \<Rightarrow> (case Option.bind (cur_key cur) (\<lambda>k. map_of (mh_pairs h) (cur_contract cur, k)) of
          None \<Rightarrow> (- 1, [], 0) | Some v \<Rightarrow> (0, take n (drop ofs v), length v))),
     kv_it_move_to_end = (\<lambda>r h. mh_move r (\<lambda>_. None) h),
     kv_set_result = (\<lambda>c k v p h. int (length v))\<rparr>"

definition mem_view :: "mem_state kv_view" where
  "mem_view = \<lparr>kv_db = (\<lambda>h c k. map_of (mh_pairs h) (c, k)),
     kv_its = (\<lambda>h r. mh_slot r h), kv_room = (\<lambda>h. 4294967295 - length (mh_its h))\<rparr>"

definition empty_host :: mem_state where
  "empty_host = \<lparr>mh_pairs = [], mh_its = [], mh_buf = []\<rparr>"

lemma map_of_filter_other:
  "map_of (filter (\<lambda>e. fst e \<noteq> x) l) y = (if y = x then None else map_of l y)"
  by (induction l) auto

lemma mem_host_db_ok: "kv_db_ok mem_host mem_view"
proof -
  have "finite (dom (\<lambda>k. map_of (mh_pairs h) (c, k)))" for h c
  proof -
    have "dom (\<lambda>k. map_of (mh_pairs h) (c, k)) \<subseteq> snd ` fst ` set (mh_pairs h)"
      by (force dest: map_of_SomeD)
    then show ?thesis by (rule finite_subset) simp
  qed
  then show ?thesis
    by (auto simp: kv_db_ok_def mem_host_def mem_view_def map_of_filter_other mh_slot_def
        fun_eq_iff split: option.splits)
qed

lemma mh_keys_set: "set (mh_keys cur h) = cursor_keys mem_view h cur"
proof (rule set_eqI)
  fix k
  have "map_of (mh_pairs h) (cur_contract cur, k) \<noteq> None
      \<longleftrightarrow> (cur_contract cur, k) \<in> fst ` set (mh_pairs h)"
    by (simp add: map_of_eq_None_iff)
  then show "k \<in> set (mh_keys cur h) \<longleftrightarrow> k \<in> cursor_keys mem_view h cur"
    unfolding mh_keys_def cursor_keys_def prefixed_def mem_view_def dom_def
    by (force simp: image_iff)
qed

lemma slot_index_eq: "r \<noteq> 0 \<Longrightarrow> s \<noteq> 0 \<Longrightarrow> unat s - Suc 0 = unat r - Suc 0 \<longleftrightarrow> s = (r :: u32)"
  by (metis One_nat_def Suc_pred unat_gt_0 word_unat_eq_iff)

lemma slot_bound: "r \<noteq> 0 \<Longrightarrow> unat (r :: u32) \<le> n \<Longrightarrow> unat r - Suc 0 < n"
  using unat_gt_0 [of r] by linarith

lemma mh_slot_update:
  assumes "r \<noteq> 0" "unat r \<le> length (mh_its h)"
  shows "mh_slot s (h\<lparr>mh_its := (mh_its h)[unat r - Suc 0 := x]\<rparr>) = (if s = r then x else mh_slot s h)"
proof (cases "s = 0")
  case False
  from slot_index_eq [OF assms(1) this] slot_bound [OF assms] assms False
  show ?thesis by (auto simp: mh_slot_def nth_list_update)
qed (use assms in \<open>simp add: mh_slot_def\<close>)

lemma mh_move_ok:
  assumes "mh_slot r h = Some cur" and "target cur = pos"
  shows "moves_to mem_view r cur pos h (mh_move r target h)"
proof -
  have r: "r \<noteq> 0" "unat r \<le> length (mh_its h)"
    using assms(1) by (auto simp: mh_slot_def split: if_splits)
  show ?thesis
    using assms mh_slot_update [OF r]
    by (simp add: moves_to_def mh_move_def mem_view_def fun_eq_iff)
qed

lemma mem_create:
  assumes "0 < kv_room mem_view h"
  shows "case kv_it_create mem_host c p h of (r, h') \<Rightarrow>
        r \<noteq> 0 \<and> kv_its mem_view h r = None \<and> kv_db mem_view h' = kv_db mem_view h
        \<and> kv_its mem_view h' = (kv_its mem_view h)(r \<mapsto> \<lparr>cur_contract = c, cur_prefix = p, cur_key = None\<rparr>)
        \<and> kv_room mem_view h' = kv_room mem_view h - 1"
proof -
  let ?n = "length (mh_its h)" and ?r = "of_nat (length (mh_its h) + 1) :: u32"
  have u: "unat ?r = Suc ?n"
    using assms unat_of_nat32 [of "Suc ?n"] by (simp add: mem_view_def)
  then have nz: "?r \<noteq> 0" by (metis nat.distinct(1) unat_0)
  have e: "unat s = Suc ?n \<longleftrightarrow> s = ?r" for s :: u32
    using u by (metis word_unat_eq_iff)
  have slot: "mh_slot s (h\<lparr>mh_its := mh_its h @ [x]\<rparr>) = (if s = ?r then x else mh_slot s h)" for s x
    using u nz e [of s] slot_bound [of s ?n] by (auto simp: mh_slot_def nth_append le_Suc_eq)
  have "mh_slot ?r h = None" using u by (simp add: mh_slot_def)
  then show ?thesis
    using nz unfolding mem_host_def mem_view_def by (simp add: slot fun_eq_iff)
qed

lemma mem_destroy:
  "kv_its mem_view (kv_it_destroy mem_host r h) = (kv_its mem_view h)(r := None)
   \<and> kv_db mem_view (kv_it_destroy mem_host r h) = kv_db mem_view h
   \<and> kv_room mem_view (kv_it_destroy mem_host r h) = kv_room mem_view h"
proof (cases "r = 0")
  case True
  then show ?thesis by (simp add: mem_host_def mem_view_def mh_slot_def fun_eq_iff)
next
  case False
  have "mh_slot s (h\<lparr>mh_its := (mh_its h)[unat r - Suc 0 := None]\<rparr>)
      = (if s = r then None else mh_slot s h)" for s
  proof (cases "unat r \<le> length (mh_its h)")
    case True
    then show ?thesis by (rule mh_slot_update [OF False])
  qed (auto simp: mh_slot_def list_update_beyond)
  then show ?thesis
    using False by (simp add: mem_host_def mem_view_def fun_eq_iff)
qed

lemma mem_slot [simp]: "kv_its mem_view h r = mh_slot r h"
  by (simp add: mem_view_def)

lemma mem_host_it_ok: "kv_it_ok mem_host mem_view"
  unfolding kv_it_ok_def
proof (intro conjI allI impI, goal_cases)
  case (1 h c p)
  then show ?case by (rule mem_create)
next
  case (5 h r cur key)
  then show ?case
    by (simp add: mem_host_def) (rule mh_move_ok, simp, simp add: mh_keys_set Collect_conj_eq)
next
  case (6 h r cur k)
  then show ?case
    by (simp add: mem_host_def) (rule mh_move_ok, simp, simp add: mh_keys_set Collect_conj_eq)
next
  case (7 h r cur k)
  then show ?case
    by (simp add: mem_host_def) (rule mh_move_ok, simp, simp add: mh_keys_set Collect_conj_eq)
next
  case (11 h r cur key)
  then show ?case
    by (simp add: mem_host_def) (rule mh_move_ok, simp, simp add: mh_keys_set)
next
  case (14 h r cur)
  then show ?case by (simp add: mem_host_def) (rule mh_move_ok, simp, simp)
next
  case (2 h r)
  from mem_destroy [of r h] show ?case by simp
qed (simp_all add: mem_destroy mem_host_def mh_position_def, simp_all add: mem_view_def)

end
