(* ===== verification/KvTable.thy ===== *)
theory KvTable
  imports KvHost
begin

text \<open>
  \<open>contracts/eosio/kv.hpp\<close>: tables over the key-value intrinsics. A table has a primary index and
  any number of secondary indexes; a row is stored under its primary key, and every secondary
  index holds one pair from the row's secondary key to the row's full primary key. Buffers
  (\<open>alloca\<close> or \<open>malloc\<close>, by size) hold exactly the bytes the host returns, and the value type's
  packing is an argument (\<open>kv_codec\<close>).
\<close>

section \<open>Indexes and tables\<close>

record 'v kv_index =
  idx_name :: u64
  idx_table :: u64
  idx_contract :: u64
  idx_prefix :: key_type
  idx_key_function :: "'v \<Rightarrow> key_type"

record 'v kv_table =
  tbl_contract :: u64
  tbl_name :: u64
  tbl_primary_name :: u64
  tbl_primary :: "'v kv_index"
  tbl_secondary :: "'v kv_index list"

definition new_index :: "u64 \<Rightarrow> ('v \<Rightarrow> key_type) \<Rightarrow> 'v kv_index" where
  "new_index name kf = \<lparr>idx_name = name, idx_table = 0, idx_contract = 0, idx_prefix = [],
     idx_key_function = kf\<rparr>"

definition to_table_key :: "'v kv_index \<Rightarrow> key_type \<Rightarrow> key_type" where
  "to_table_key idx k = full_key (idx_prefix idx) k"

definition index_setup :: "prefix_key \<Rightarrow> 'v kv_index \<Rightarrow> 'v kv_index" where
  "index_setup to_key idx = idx\<lparr>idx_prefix := make_prefix to_key (idx_table idx) (idx_name idx)\<rparr>"

definition setup_indices :: "prefix_key \<Rightarrow> 'v kv_table \<Rightarrow> 'v kv_index \<Rightarrow> 'v kv_table" where
  "setup_indices to_key T idx =
     T\<lparr>tbl_secondary := tbl_secondary T @
         [index_setup to_key (idx\<lparr>idx_contract := tbl_contract T, idx_table := tbl_name T\<rparr>)]\<rparr>"

definition table_init :: "prefix_key \<Rightarrow> u64 \<Rightarrow> u64 \<Rightarrow> 'v kv_index \<Rightarrow> 'v kv_index list \<Rightarrow> 'v kv_table" where
  "table_init to_key name contract prim_index indices =
     (let p = index_setup to_key (prim_index\<lparr>idx_contract := contract, idx_table := name\<rparr>)
      in foldl (setup_indices to_key)
           \<lparr>tbl_contract = contract, tbl_name = name, tbl_primary_name = idx_name p,
             tbl_primary = p, tbl_secondary = []\<rparr> indices)"

section \<open>Serialization of rows\<close>

text \<open>
  A row is a variant, packed as it is, or any other type, packed after the varint zero. Packing
  of the value and of the varint are arguments; \<open>pack_size\<close> is the length of the packed bytes.
\<close>

record 'v kv_codec =
  pack_value :: "'v \<Rightarrow> bytes"
  unpack_value :: "bytes \<Rightarrow> 'v result"
  pack_varint :: "u32 \<Rightarrow> bytes"
  unpack_varint :: "bytes \<Rightarrow> (u32 \<times> bytes) result"
  is_variant :: bool
  default_value :: 'v

definition get_size :: "'v kv_codec \<Rightarrow> 'v \<Rightarrow> nat" where
  "get_size C v = (if is_variant C then length (pack_value C v) else length (pack_value C v) + 1)"

definition serialize :: "'v kv_codec \<Rightarrow> 'v \<Rightarrow> nat \<Rightarrow> bytes result" where
  "serialize C v sz =
     (let b = (if is_variant C then pack_value C v else pack_varint C 0 @ pack_value C v)
      in if length b \<le> sz then Inr b
         else Inl (Check ''datastream attempted to write past the end''))"

definition deserialize :: "'v kv_codec \<Rightarrow> bytes \<Rightarrow> nat \<Rightarrow> 'v result" where
  "deserialize C buffer sz =
     (if is_variant C then unpack_value C (take sz buffer)
      else case unpack_varint C (take sz buffer) of
             Inl e \<Rightarrow> Inl e
           | Inr (idx, rest) \<Rightarrow>
               if idx = 0 then unpack_value C rest
               else Inl (Check ''there was an error deserializing this value.''))"

section \<open>table_base: put and erase\<close>

text \<open>
  The body of the loop over the secondary indexes in \<open>put\<close>: \<open>old\<close> is the stored row when the
  primary key was found.
\<close>

definition put_secondary :: "'h kv_host \<Rightarrow> prefix_key \<Rightarrow> 'v kv_table \<Rightarrow> key_type \<Rightarrow> 'v option \<Rightarrow> 'v
    \<Rightarrow> 'v kv_index \<Rightarrow> 'h \<Rightarrow> 'h result" where
  "put_secondary H to_key T tbl_key old value idx h =
     (let contract = tbl_contract T; payer = contract;
          sec_tbl_key = full_key (make_prefix to_key (tbl_name T) (idx_name idx)) (idx_key_function idx value)
      in case kv_get H contract sec_tbl_key h of ((sec_found, value_size), h1) \<Rightarrow>
         (case old of
            None \<Rightarrow>
              if sec_found then Inl (Check ''Attempted to store an existing secondary index.'')
              else Inr (kv_set H contract sec_tbl_key tbl_key payer h1)
          | Some old_value \<Rightarrow>
              if sec_found then
                (case kv_get_data H 0 value_size h1 of (copy_size, buffer) \<Rightarrow>
                   if copy_size = length tbl_key \<and> take copy_size buffer = take copy_size tbl_key
                   then Inr h1
                   else Inl (Check ''Attempted to update an existing secondary index.''))
              else
                let old_sec_key = full_key (make_prefix to_key (tbl_name T) (idx_name idx))
                                    (idx_key_function idx old_value);
                    h2 = kv_erase H contract old_sec_key h1
                in Inr (kv_set H contract sec_tbl_key tbl_key payer h2)))"

fun put_secondaries :: "'h kv_host \<Rightarrow> prefix_key \<Rightarrow> 'v kv_table \<Rightarrow> key_type \<Rightarrow> 'v option \<Rightarrow> 'v
    \<Rightarrow> 'v kv_index list \<Rightarrow> 'h \<Rightarrow> 'h result" where
  "put_secondaries H to_key T tbl_key old value [] h = Inr h"
| "put_secondaries H to_key T tbl_key old value (idx # idxs) h =
     (case put_secondary H to_key T tbl_key old value idx h of
        Inl e \<Rightarrow> Inl e
      | Inr h' \<Rightarrow> put_secondaries H to_key T tbl_key old value idxs h')"

definition table_key :: "prefix_key \<Rightarrow> 'v kv_table \<Rightarrow> 'v \<Rightarrow> key_type" where
  "table_key to_key T value =
     full_key (make_prefix to_key (tbl_name T) (idx_name (tbl_primary T)))
       (idx_key_function (tbl_primary T) value)"

definition put_row :: "'h kv_host \<Rightarrow> 'v kv_codec \<Rightarrow> 'v kv_table \<Rightarrow> key_type \<Rightarrow> 'v \<Rightarrow> 'h \<Rightarrow> 'h result" where
  "put_row H C T tbl_key value h =
     (let data_size = get_size C value in
      case serialize C value data_size of
        Inl e \<Rightarrow> Inl e
      | Inr data \<Rightarrow> Inr (kv_set H (tbl_contract T) tbl_key data (tbl_contract T) h))"

definition table_put :: "'h kv_host \<Rightarrow> prefix_key \<Rightarrow> 'v kv_codec \<Rightarrow> 'v kv_table \<Rightarrow> 'v \<Rightarrow> 'h \<Rightarrow> 'h result" where
  "table_put H to_key C T value h =
     (let tbl_key = table_key to_key T value in
      case kv_get H (tbl_contract T) tbl_key h of ((found, value_size), h1) \<Rightarrow>
        (case (if found then
                 (case kv_get_data H 0 value_size h1 of (copy_size, buffer) \<Rightarrow>
                    map_sum id Some (deserialize C buffer copy_size))
               else Inr None) of
           Inl e \<Rightarrow> Inl e
         | Inr old \<Rightarrow>
             (case put_secondaries H to_key T tbl_key old value (tbl_secondary T) h1 of
                Inl e \<Rightarrow> Inl e
              | Inr h2 \<Rightarrow> put_row H C T tbl_key value h2)))"

definition erase_secondary :: "'h kv_host \<Rightarrow> prefix_key \<Rightarrow> 'v kv_table \<Rightarrow> 'v \<Rightarrow> 'v kv_index \<Rightarrow> 'h \<Rightarrow> 'h" where
  "erase_secondary H to_key T value idx h =
     kv_erase H (tbl_contract T)
       (full_key (make_prefix to_key (tbl_name T) (idx_name idx)) (idx_key_function idx value)) h"

definition table_erase :: "'h kv_host \<Rightarrow> prefix_key \<Rightarrow> 'v kv_table \<Rightarrow> 'v \<Rightarrow> 'h \<Rightarrow> 'h" where
  "table_erase H to_key T value h =
     (let tbl_key = table_key to_key T value in
      case kv_get H (tbl_contract T) tbl_key h of ((found, _), h1) \<Rightarrow>
        if \<not> found then h1
        else kv_erase H (tbl_contract T) tbl_key
               (fold (erase_secondary H to_key T value) (tbl_secondary T) h1))"

section \<open>Reading through an index\<close>

definition index_get :: "'h kv_host \<Rightarrow> 'v kv_codec \<Rightarrow> 'v kv_table \<Rightarrow> 'v kv_index \<Rightarrow> key_type \<Rightarrow> 'h
    \<Rightarrow> ('v option \<times> 'h) result" where
  "index_get H C T idx key h =
     (case kv_get H (idx_contract idx) key h of ((success, value_size), h1) \<Rightarrow>
        if \<not> success then Inr (None, h1)
        else case kv_get_data H 0 value_size h1 of (copy_size, buffer) \<Rightarrow>
          if idx_name idx \<noteq> tbl_primary_name T then
            (case kv_get H (idx_contract idx) (take copy_size buffer) h1 of ((success2, actual_data_size), h2) \<Rightarrow>
               if \<not> success2 then Inl (Check ''failure getting primary key'')
               else case kv_get_data H 0 actual_data_size h2 of (pk_copy_size, pk_buffer) \<Rightarrow>
                 (case deserialize C pk_buffer pk_copy_size of
                    Inl e \<Rightarrow> Inl e | Inr v \<Rightarrow> Inr (Some v, h2)))
          else (case deserialize C buffer copy_size of Inl e \<Rightarrow> Inl e | Inr v \<Rightarrow> Inr (Some v, h1)))"

definition index_get_key :: "'h kv_host \<Rightarrow> 'v kv_codec \<Rightarrow> 'v kv_table \<Rightarrow> 'v kv_index \<Rightarrow> key_type \<Rightarrow> 'h
    \<Rightarrow> ('v option \<times> 'h) result" where
  "index_get_key H C T idx k h = index_get H C T idx (full_key (idx_prefix idx) k) h"

definition index_at :: "'h kv_host \<Rightarrow> 'v kv_codec \<Rightarrow> 'v kv_table \<Rightarrow> 'v kv_index \<Rightarrow> key_type \<Rightarrow> 'h
    \<Rightarrow> ('v \<times> 'h) result" where
  "index_at H C T idx k h =
     (case index_get H C T idx (full_key (idx_prefix idx) k) h of
        Inl e \<Rightarrow> Inl e
      | Inr (None, _) \<Rightarrow> Inl (Check ''kv.hpp:571 Key not found in `[]`'')
      | Inr (Some v, h') \<Rightarrow> Inr (v, h'))"

definition index_exists :: "'h kv_host \<Rightarrow> 'v kv_index \<Rightarrow> key_type \<Rightarrow> 'h \<Rightarrow> bool \<times> 'h" where
  "index_exists H idx k h =
     (case kv_get H (idx_contract idx) (full_key (idx_prefix idx) k) h of ((found, _), h1) \<Rightarrow> (found, h1))"

section \<open>Iterators\<close>

definition iterator_ok :: int where "iterator_ok = 0"
definition iterator_erased :: int where "iterator_erased = - 1"
definition iterator_end :: int where "iterator_end = - 2"

record 'v kv_iter =
  it_itr :: u32
  it_stat :: int
  it_index :: "'v kv_index"

definition iter_destroy :: "'h kv_host \<Rightarrow> 'v kv_iter \<Rightarrow> 'h \<Rightarrow> 'h" where
  "iter_destroy H it h = (if it_itr it \<noteq> 0 then kv_it_destroy H (it_itr it) h else h)"

text \<open>Move assignment: the result is the new value of the target, of the source, and the host.\<close>

definition iter_move_assign :: "'h kv_host \<Rightarrow> 'v kv_iter \<Rightarrow> 'v kv_iter \<Rightarrow> 'h
    \<Rightarrow> 'v kv_iter \<times> 'v kv_iter \<times> 'h" where
  "iter_move_assign H target other h =
     (let h' = (if it_itr target \<noteq> 0 then kv_it_destroy H (it_itr target) h else h)
      in (\<lparr>it_itr = it_itr other, it_stat = it_stat other, it_index = it_index other\<rparr>,
          other\<lparr>it_itr := 0\<rparr>, h'))"

definition iter_good :: "'v kv_iter \<Rightarrow> bool" where
  "iter_good it \<longleftrightarrow> it_stat it \<noteq> iterator_end"

definition iter_value :: "'h kv_host \<Rightarrow> 'v kv_codec \<Rightarrow> 'v kv_table \<Rightarrow> 'v kv_iter \<Rightarrow> 'h
    \<Rightarrow> ('v \<times> 'h) result" where
  "iter_value H C T it h =
     (if it_stat it = iterator_end then Inl (Check ''Cannot read end iterator'')
      else case kv_it_value H (it_itr it) 0 0 h of (_, _, value_size) \<Rightarrow>
        (case kv_it_value H (it_itr it) 0 value_size h of (stat, buffer, actual_value_size) \<Rightarrow>
           if stat \<noteq> iterator_ok then Inl (Check ''Error reading value'')
           else if idx_name (it_index it) \<noteq> tbl_primary_name T then
             (case kv_get H (idx_contract (it_index it)) (take actual_value_size buffer) h of
                ((success, actual_data_size), h1) \<Rightarrow>
                  if \<not> success then Inl (Check ''failure getting primary key in `value()`'')
                  else case kv_get_data H 0 actual_data_size h1 of (_, pk_buffer) \<Rightarrow>
                    (case deserialize C pk_buffer actual_data_size of
                       Inl e \<Rightarrow> Inl e | Inr v \<Rightarrow> Inr (v, h1)))
           else (case deserialize C buffer actual_value_size of
                   Inl e \<Rightarrow> Inl e | Inr v \<Rightarrow> Inr (v, h))))"

definition iter_key :: "'h kv_host \<Rightarrow> 'v kv_iter \<Rightarrow> 'h \<Rightarrow> key_type result" where
  "iter_key H it h =
     (case kv_it_key H (it_itr it) 0 0 h of (_, _, value_size) \<Rightarrow>
        (case kv_it_key H (it_itr it) 0 value_size h of (stat, buffer, actual_value_size) \<Rightarrow>
           if stat \<noteq> iterator_ok then Inl (Check ''Error getting key'')
           else Inr (take actual_value_size buffer)))"

definition iter_compare :: "'h kv_host \<Rightarrow> 'v kv_iter \<Rightarrow> 'v kv_iter \<Rightarrow> 'h \<Rightarrow> int" where
  "iter_compare H a b h =
     (let a_is_end = (it_itr a = 0 \<or> it_stat a = iterator_end);
          b_is_end = (it_itr b = 0 \<or> it_stat b = iterator_end)
      in if a_is_end \<and> b_is_end then 0
         else if a_is_end \<and> it_itr b \<noteq> 0 then 1
         else if it_itr a \<noteq> 0 \<and> b_is_end then - 1
         else kv_it_compare H (it_itr a) (it_itr b) h)"

definition iter_next :: "'h kv_host \<Rightarrow> 'v kv_iter \<Rightarrow> 'h \<Rightarrow> ('v kv_iter \<times> 'h) result" where
  "iter_next H it h =
     (if it_stat it = iterator_end then Inl (Check ''cannot increment end iterator'')
      else case kv_it_next H (it_itr it) h of (stat, h') \<Rightarrow> Inr (it\<lparr>it_stat := stat\<rparr>, h'))"

definition iter_prev :: "'h kv_host \<Rightarrow> 'v kv_iter \<Rightarrow> 'h \<Rightarrow> ('v kv_iter \<times> 'h) result" where
  "iter_prev H it h =
     (case (if it_itr it = 0
            then kv_it_create H (idx_contract (it_index it)) (idx_prefix (it_index it)) h
            else (it_itr it, h)) of (itr, h1) \<Rightarrow>
        (case kv_it_prev H itr h1 of (stat, h2) \<Rightarrow>
           if stat = iterator_end then Inl (Check ''decremented past the beginning'')
           else Inr (it\<lparr>it_itr := itr, it_stat := stat\<rparr>, h2)))"

definition iter_key_compare :: "'h kv_host \<Rightarrow> 'v kv_iter \<Rightarrow> key_type \<Rightarrow> 'h \<Rightarrow> int" where
  "iter_key_compare H it kt h =
     (if it_itr it = 0 \<or> it_stat it = iterator_end then 1
      else kv_it_key_compare H (it_itr it) kt h)"

definition riter_next :: "'h kv_host \<Rightarrow> 'v kv_iter \<Rightarrow> 'h \<Rightarrow> ('v kv_iter \<times> 'h) result" where
  "riter_next H it h =
     (if it_stat it = iterator_end then Inl (Check ''incremented past the end'')
      else case kv_it_prev H (it_itr it) h of (stat, h') \<Rightarrow> Inr (it\<lparr>it_stat := stat\<rparr>, h'))"

definition riter_prev :: "'h kv_host \<Rightarrow> 'v kv_iter \<Rightarrow> 'h \<Rightarrow> ('v kv_iter \<times> 'h) result" where
  "riter_prev H it h =
     (case (if it_itr it = 0
            then (case kv_it_create H (idx_contract (it_index it)) (idx_prefix (it_index it)) h of
                    (itr, h1) \<Rightarrow> (case kv_it_lower_bound H itr [] h1 of (_, h2) \<Rightarrow> (itr, h2)))
            else (it_itr it, h)) of (itr, h1) \<Rightarrow>
        (case kv_it_next H itr h1 of (stat, h2) \<Rightarrow>
           if stat = iterator_end then Inl (Check ''decremented past the beginning'')
           else Inr (it\<lparr>it_itr := itr, it_stat := stat\<rparr>, h2)))"

section \<open>Index operations\<close>

definition index_end :: "'v kv_index \<Rightarrow> 'v kv_iter" where
  "index_end idx = \<lparr>it_itr = 0, it_stat = iterator_end, it_index = idx\<rparr>"

definition index_lower_bound :: "'h kv_host \<Rightarrow> 'v kv_index \<Rightarrow> key_type \<Rightarrow> 'h \<Rightarrow> 'v kv_iter \<times> 'h" where
  "index_lower_bound H idx key h =
     (case kv_it_create H (idx_contract idx) (idx_prefix idx) h of (itr, h1) \<Rightarrow>
        (case kv_it_lower_bound H itr key h1 of (stat, h2) \<Rightarrow>
           (\<lparr>it_itr = itr, it_stat = stat, it_index = idx\<rparr>, h2)))"

definition index_begin :: "'h kv_host \<Rightarrow> 'v kv_index \<Rightarrow> 'h \<Rightarrow> 'v kv_iter \<times> 'h" where
  "index_begin H idx h =
     (case kv_it_create H (idx_contract idx) (idx_prefix idx) h of (itr, h1) \<Rightarrow>
        (case kv_it_lower_bound H itr [] h1 of (stat, h2) \<Rightarrow>
           (\<lparr>it_itr = itr, it_stat = stat, it_index = idx\<rparr>, h2)))"

definition index_rbegin :: "'h kv_host \<Rightarrow> 'v kv_index \<Rightarrow> 'h \<Rightarrow> 'v kv_iter \<times> 'h" where
  "index_rbegin H idx h =
     (case kv_it_create H (idx_contract idx) (idx_prefix idx) h of (itr, h1) \<Rightarrow>
        (case kv_it_prev H itr h1 of (stat, h2) \<Rightarrow>
           (\<lparr>it_itr = itr, it_stat = stat, it_index = idx\<rparr>, h2)))"

definition index_find :: "'h kv_host \<Rightarrow> 'v kv_index \<Rightarrow> key_type \<Rightarrow> 'h \<Rightarrow> 'v kv_iter \<times> 'h" where
  "index_find H idx key h =
     (case kv_it_create H (idx_contract idx) (idx_prefix idx) h of (itr, h1) \<Rightarrow>
        (case kv_it_lower_bound H itr key h1 of (stat, h2) \<Rightarrow>
           if kv_it_key_compare H itr key h2 \<noteq> 0 then (index_end idx, kv_it_destroy H itr h2)
           else (\<lparr>it_itr = itr, it_stat = stat, it_index = idx\<rparr>, h2)))"

definition index_upper_bound :: "'h kv_host \<Rightarrow> 'v kv_index \<Rightarrow> key_type \<Rightarrow> 'h
    \<Rightarrow> ('v kv_iter \<times> 'h) result" where
  "index_upper_bound H idx key h =
     (case index_lower_bound H idx key h of (it, h1) \<Rightarrow>
        if iter_key_compare H it key h1 = 0 then iter_next H it h1 else Inr (it, h1))"

text \<open>
  The loop of \<open>range\<close>. The first argument bounds the number of iterations; \<open>None\<close> means that it
  was not enough. Both iterators are destroyed when the loop is left.
\<close>

fun range_loop :: "nat \<Rightarrow> 'h kv_host \<Rightarrow> 'v kv_codec \<Rightarrow> 'v kv_table \<Rightarrow> 'v kv_iter \<Rightarrow> 'v kv_iter \<Rightarrow> 'v list
    \<Rightarrow> 'h \<Rightarrow> ('v list \<times> 'h) result option" where
  "range_loop 0 H C T itr end_itr vs h = None"
| "range_loop (Suc n) H C T itr end_itr vs h =
     (if iter_compare H itr end_itr h < 0 then
        (case iter_value H C T itr h of
           Inl e \<Rightarrow> Some (Inl e)
         | Inr (v, h1) \<Rightarrow>
             (case iter_next H itr h1 of
                Inl e \<Rightarrow> Some (Inl e)
              | Inr (itr', h2) \<Rightarrow> range_loop n H C T itr' end_itr (vs @ [v]) h2))
      else Some (Inr (vs, iter_destroy H itr (iter_destroy H end_itr h))))"

definition index_range :: "nat \<Rightarrow> 'h kv_host \<Rightarrow> 'v kv_codec \<Rightarrow> 'v kv_table \<Rightarrow> 'v kv_index \<Rightarrow> key_type \<Rightarrow> key_type
    \<Rightarrow> 'h \<Rightarrow> ('v list \<times> 'h) result option" where
  "index_range n H C T idx b_key e_key h =
     (case index_lower_bound H idx (full_key (idx_prefix idx) b_key) h of (itr, h1) \<Rightarrow>
        (case index_lower_bound H idx (full_key (idx_prefix idx) e_key) h1 of (end_itr, h2) \<Rightarrow>
           range_loop n H C T itr end_itr [] h2))"

end
