(* ===== verification/KvTableSafe.thy ===== *)
theory KvTableSafe
  imports KvTable
begin

text \<open>
  What a table of \<open>kv.hpp\<close> promises: it represents a finite map from primary keys to rows, in
  which every secondary key names at most one row. \<open>table_rep\<close> relates that map to the pairs in
  the database; \<open>put\<close>, \<open>erase\<close> and the lookups are shown to implement the operations on the map.
\<close>

section \<open>Host calls\<close>

definition same_host :: "'h kv_view \<Rightarrow> 'h \<Rightarrow> 'h \<Rightarrow> bool" where
  "same_host V h h' \<longleftrightarrow> kv_db V h' = kv_db V h \<and> kv_its V h' = kv_its V h \<and> kv_room V h' = kv_room V h"

lemma kv_get_missing:
  assumes "kv_db_ok H V" "kv_db V h c k = None"
  obtains n h1 where "kv_get H c k h = ((False, n), h1)" "same_host V h h1"
proof -
  obtain b n h1 where g: "kv_get H c k h = ((b, n), h1)" by (metis prod.collapse)
  have "\<not> fst (fst (kv_get H c k h))" "same_host V h (snd (kv_get H c k h))"
    using assms unfolding kv_db_ok_def same_host_def by blast+
  with g that show ?thesis by simp
qed

lemma kv_get_found:
  assumes "kv_db_ok H V" "kv_db V h c k = Some v"
  obtains h1 where "kv_get H c k h = ((True, length v), h1)" "same_host V h h1"
    "kv_get_data H 0 (length v) h1 = (length v, v)"
proof -
  have "fst (kv_get H c k h) = (True, length v)" "same_host V h (snd (kv_get H c k h))"
    "kv_get_data H 0 (length v) (snd (kv_get H c k h)) = (length v, v)"
    using assms unfolding kv_db_ok_def same_host_def by blast+
  then show ?thesis by (intro that [of "snd (kv_get H c k h)"]) (simp_all add: prod_eq_iff)
qed

lemma kv_set_db:
  "kv_db_ok H V \<Longrightarrow> kv_db V (kv_set H c k v p h) = (kv_db V h)(c := (kv_db V h c)(k \<mapsto> v))"
  unfolding kv_db_ok_def by blast

lemma kv_erase_db:
  "kv_db_ok H V \<Longrightarrow> kv_db V (kv_erase H c k h) = (kv_db V h)(c := (kv_db V h c)(k := None))"
  unfolding kv_db_ok_def by blast

lemma same_host_db: "same_host V h h' \<Longrightarrow> kv_db V h' = kv_db V h"
  by (simp add: same_host_def)

section \<open>Tables and rows\<close>

definition index_ok :: "prefix_key \<Rightarrow> 'v kv_table \<Rightarrow> 'v kv_index \<Rightarrow> bool" where
  "index_ok to_key T idx \<longleftrightarrow> idx_contract idx = tbl_contract T
     \<and> idx_prefix idx = make_prefix to_key (tbl_name T) (idx_name idx)"

definition table_ok :: "prefix_key \<Rightarrow> 'v kv_table \<Rightarrow> bool" where
  "table_ok to_key T \<longleftrightarrow> prefix_key_ok to_key
     \<and> distinct (map idx_name (tbl_primary T # tbl_secondary T))
     \<and> (\<forall>idx \<in> set (tbl_primary T # tbl_secondary T). index_ok to_key T idx)
     \<and> tbl_primary_name T = idx_name (tbl_primary T)"

definition packed :: "'v kv_codec \<Rightarrow> 'v \<Rightarrow> bytes" where
  "packed C v = (if is_variant C then pack_value C v else pack_varint C 0 @ pack_value C v)"

definition codec_ok :: "'v kv_codec \<Rightarrow> bool" where
  "codec_ok C \<longleftrightarrow> (\<forall>v. unpack_value C (pack_value C v) = Inr v)
     \<and> length (pack_varint C 0) = 1 \<and> (\<forall>r. unpack_varint C (pack_varint C 0 @ r) = Inr (0, r))"

definition primary_key :: "'v kv_table \<Rightarrow> 'v \<Rightarrow> key_type" where
  "primary_key T v = idx_key_function (tbl_primary T) v"

definition index_entry :: "prefix_key \<Rightarrow> 'v kv_table \<Rightarrow> 'v kv_index \<Rightarrow> key_type \<Rightarrow> key_type" where
  "index_entry to_key T idx k = full_key (make_prefix to_key (tbl_name T) (idx_name idx)) k"

text \<open>The pairs of one secondary index are exactly the rows' secondary keys.\<close>

definition secondary_rep :: "prefix_key \<Rightarrow> 'v kv_table \<Rightarrow> 'v kv_index \<Rightarrow> (bytes \<Rightarrow> bytes option)
    \<Rightarrow> (key_type \<Rightarrow> 'v option) \<Rightarrow> bool" where
  "secondary_rep to_key T idx db M \<longleftrightarrow> (\<forall>k x. db (index_entry to_key T idx k) = Some x \<longleftrightarrow>
     (\<exists>v. M (primary_key T v) = Some v \<and> idx_key_function idx v = k \<and> x = table_key to_key T v))"

definition table_rep :: "prefix_key \<Rightarrow> 'v kv_codec \<Rightarrow> 'v kv_table \<Rightarrow> (bytes \<Rightarrow> bytes option)
    \<Rightarrow> (key_type \<Rightarrow> 'v option) \<Rightarrow> bool" where
  "table_rep to_key C T db M \<longleftrightarrow>
     (\<forall>k. db (index_entry to_key T (tbl_primary T) k) = map_option (packed C) (M k))
     \<and> (\<forall>k v. M k = Some v \<longrightarrow> primary_key T v = k)
     \<and> (\<forall>idx \<in> set (tbl_secondary T). secondary_rep to_key T idx db M)"

definition conflicts :: "'v kv_table \<Rightarrow> (key_type \<Rightarrow> 'v option) \<Rightarrow> 'v \<Rightarrow> 'v kv_index \<Rightarrow> bool" where
  "conflicts T M v idx \<longleftrightarrow> (\<exists>u. M (primary_key T u) = Some u
     \<and> idx_key_function idx u = idx_key_function idx v \<and> primary_key T u \<noteq> primary_key T v)"

lemma index_entry_eq_iff:
  assumes "prefix_key_ok to_key"
  shows "index_entry to_key T i a = index_entry to_key T j b \<longleftrightarrow> idx_name i = idx_name j \<and> a = b"
proof
  assume e: "index_entry to_key T i a = index_entry to_key T j b"
  have len: "length (to_key x) = 17" for x using assms unfolding prefix_key_ok_def by blast
  from e len have "to_key (1, tbl_name T, idx_name i) = to_key (1, tbl_name T, idx_name j)" "a = b"
    by (simp_all add: index_entry_def make_prefix_def append_eq_append_conv)
  then show "idx_name i = idx_name j \<and> a = b"
    using assms by (auto simp: prefix_key_ok_def inj_eq)
qed (simp add: index_entry_def)

lemma table_key_entry:
  "table_key to_key T v = index_entry to_key T (tbl_primary T) (primary_key T v)"
  by (simp add: table_key_def index_entry_def primary_key_def)

lemma table_key_eq_iff:
  "prefix_key_ok to_key \<Longrightarrow> table_key to_key T u = table_key to_key T v \<longleftrightarrow> primary_key T u = primary_key T v"
  by (simp add: table_key_entry index_entry_eq_iff)

lemma serialize_packed: "codec_ok C \<Longrightarrow> serialize C v (get_size C v) = Inr (packed C v)"
  by (simp add: serialize_def get_size_def packed_def codec_ok_def Let_def)

lemma deserialize_packed: "codec_ok C \<Longrightarrow> deserialize C (packed C v) (length (packed C v)) = Inr v"
  by (simp add: deserialize_def packed_def codec_ok_def)

lemma setup_indices_fold:
  "foldl (setup_indices to_key) T idxs = T\<lparr>tbl_secondary := tbl_secondary T @
     map (\<lambda>idx. index_setup to_key (idx\<lparr>idx_contract := tbl_contract T, idx_table := tbl_name T\<rparr>)) idxs\<rparr>"
  by (induction idxs arbitrary: T) (simp_all add: setup_indices_def)

lemma table_init_ok:
  assumes "prefix_key_ok to_key" "distinct (map idx_name (p # idxs))"
  shows "table_ok to_key (table_init to_key name contract p idxs)"
  using assms
  by (auto simp: table_ok_def table_init_def setup_indices_fold index_ok_def index_setup_def comp_def
      Let_def)

section \<open>put\<close>

text \<open>What a change confined to some indexes leaves alone.\<close>

definition kept_outside :: "prefix_key \<Rightarrow> 'v kv_table \<Rightarrow> u64 set \<Rightarrow> 'h kv_view \<Rightarrow> 'h \<Rightarrow> 'h \<Rightarrow> bool" where
  "kept_outside to_key T names V h h' \<longleftrightarrow>
     (\<forall>c. c \<noteq> tbl_contract T \<longrightarrow> kv_db V h' c = kv_db V h c) \<and>
     (\<forall>key. (\<forall>n \<in> names. \<not> has_prefix (make_prefix to_key (tbl_name T) n) key) \<longrightarrow>
        kv_db V h' (tbl_contract T) key = kv_db V h (tbl_contract T) key)"

lemma has_prefix_append [simp]: "has_prefix p (p @ k)"
  by (simp add: has_prefix_def)

lemma entry_prefix:
  assumes "prefix_key_ok to_key"
  shows "has_prefix (make_prefix to_key (tbl_name T) n) (index_entry to_key T idx k) \<longleftrightarrow> n = idx_name idx"
proof -
  have "length (to_key x) = 17" for x using assms unfolding prefix_key_ok_def by blast
  then have "has_prefix (make_prefix to_key (tbl_name T) n) (index_entry to_key T idx k)
      \<longleftrightarrow> to_key (1, tbl_name T, idx_name idx) = to_key (1, tbl_name T, n)"
    by (simp add: has_prefix_def index_entry_def make_prefix_def)
  also have "\<dots> \<longleftrightarrow> n = idx_name idx" using assms by (auto simp: prefix_key_ok_def inj_eq)
  finally show ?thesis .
qed

lemma kept_outside_entry:
  assumes "kept_outside to_key T names V h h'" "prefix_key_ok to_key" "idx_name idx \<notin> names"
  shows "kv_db V h' (tbl_contract T) (index_entry to_key T idx k)
    = kv_db V h (tbl_contract T) (index_entry to_key T idx k)"
proof -
  have "\<forall>n \<in> names. \<not> has_prefix (make_prefix to_key (tbl_name T) n) (index_entry to_key T idx k)"
    using assms(3) by (auto simp: entry_prefix [OF assms(2)])
  with assms(1) show ?thesis unfolding kept_outside_def by blast
qed

lemma kept_outside_trans:
  "kept_outside to_key T A V h h1 \<Longrightarrow> kept_outside to_key T B V h1 h2 \<Longrightarrow>
   kept_outside to_key T (A \<union> B) V h h2"
  by (simp add: kept_outside_def)

lemma kept_outside_same: "same_host V h h1 \<Longrightarrow> kept_outside to_key T A V h h1"
  by (simp add: kept_outside_def same_host_def)

lemma secondary_rep_cong:
  "(\<And>k. db' (index_entry to_key T idx k) = db (index_entry to_key T idx k)) \<Longrightarrow>
   secondary_rep to_key T idx db' M \<longleftrightarrow> secondary_rep to_key T idx db M"
  by (simp add: secondary_rep_def)

lemma secondary_rep_put:
  "secondary_rep to_key T idx db (M(primary_key T v \<mapsto> v)) \<longleftrightarrow>
   (\<forall>k x. db (index_entry to_key T idx k) = Some x \<longleftrightarrow>
      idx_key_function idx v = k \<and> x = table_key to_key T v \<or>
      (\<exists>w. primary_key T w \<noteq> primary_key T v \<and> M (primary_key T w) = Some w
         \<and> idx_key_function idx w = k \<and> x = table_key to_key T w))"
proof -
  have "(M(primary_key T v \<mapsto> v)) (primary_key T w) = Some w \<longleftrightarrow>
      w = v \<or> primary_key T w \<noteq> primary_key T v \<and> M (primary_key T w) = Some w" for w
    by auto
  then show ?thesis unfolding secondary_rep_def by (simp only:) blast
qed

lemma put_secondary_entries:
  "put_secondary H to_key T tbl_key old value idx h =
     (case kv_get H (tbl_contract T) (index_entry to_key T idx (idx_key_function idx value)) h of
        ((sec_found, value_size), h1) \<Rightarrow>
         (case old of
            None \<Rightarrow>
              if sec_found then Inl (Check ''Attempted to store an existing secondary index.'')
              else Inr (kv_set H (tbl_contract T) (index_entry to_key T idx (idx_key_function idx value))
                          tbl_key (tbl_contract T) h1)
          | Some old_value \<Rightarrow>
              if sec_found then
                (case kv_get_data H 0 value_size h1 of (copy_size, buffer) \<Rightarrow>
                   if copy_size = length tbl_key \<and> take copy_size buffer = take copy_size tbl_key
                   then Inr h1
                   else Inl (Check ''Attempted to update an existing secondary index.''))
              else Inr (kv_set H (tbl_contract T) (index_entry to_key T idx (idx_key_function idx value))
                     tbl_key (tbl_contract T)
                     (kv_erase H (tbl_contract T)
                        (index_entry to_key T idx (idx_key_function idx old_value)) h1))))"
  unfolding put_secondary_def index_entry_def Let_def by (rule refl)

lemma put_secondary_conflict:
  assumes db: "kv_db_ok H V" and pk: "prefix_key_ok to_key"
    and rep: "secondary_rep to_key T idx (kv_db V h (tbl_contract T)) M"
    and old: "old = M (primary_key T v)" and c: "conflicts T M v idx"
  shows "\<not> is_ok (put_secondary H to_key T (table_key to_key T v) old v idx h)"
proof -
  obtain u where u: "M (primary_key T u) = Some u" "idx_key_function idx u = idx_key_function idx v"
      "primary_key T u \<noteq> primary_key T v"
    using c by (auto simp: conflicts_def)
  have "kv_db V h (tbl_contract T) (index_entry to_key T idx (idx_key_function idx v))
      = Some (table_key to_key T u)"
    using rep u unfolding secondary_rep_def by blast
  then obtain h1 where g:
    "kv_get H (tbl_contract T) (index_entry to_key T idx (idx_key_function idx v)) h
      = ((True, length (table_key to_key T u)), h1)"
    "kv_get_data H 0 (length (table_key to_key T u)) h1
      = (length (table_key to_key T u), table_key to_key T u)"
    using kv_get_found [OF db] by metis
  have "table_key to_key T u \<noteq> table_key to_key T v" using u(3) pk by (simp add: table_key_eq_iff)
  then show ?thesis
    using g by (auto simp: put_secondary_entries split: option.splits)
qed

text \<open>The three ways a secondary entry is stored: new, moved to a new key, already there.\<close>

lemma put_secondary_new:
  assumes pk: "prefix_key_ok to_key"
    and rep: "secondary_rep to_key T idx db M"
    and none: "db (index_entry to_key T idx (idx_key_function idx v)) = None"
    and old: "M (primary_key T v) = None"
  shows "secondary_rep to_key T idx (db(index_entry to_key T idx (idx_key_function idx v) \<mapsto> table_key to_key T v))
    (M(primary_key T v \<mapsto> v))"
proof -
  let ?e = "index_entry to_key T idx"
  have r: "\<And>k x. db (?e k) = Some x \<longleftrightarrow> (\<exists>w. M (primary_key T w) = Some w
      \<and> idx_key_function idx w = k \<and> x = table_key to_key T w)"
    using rep unfolding secondary_rep_def by blast
  have "primary_key T w \<noteq> primary_key T v" if "M (primary_key T w) = Some w" for w
    using that old by auto
  moreover have "idx_key_function idx w \<noteq> idx_key_function idx v" if "M (primary_key T w) = Some w" for w
    using that none r by (metis option.distinct(1))
  ultimately show ?thesis
    unfolding secondary_rep_put
    by (simp add: index_entry_eq_iff [OF pk] r) blast
qed

lemma put_secondary_move:
  assumes pk: "prefix_key_ok to_key"
    and rep: "secondary_rep to_key T idx db M"
    and none: "db (index_entry to_key T idx (idx_key_function idx v)) = None"
    and old: "M (primary_key T u) = Some u" "primary_key T u = primary_key T v"
  shows "secondary_rep to_key T idx
    (db(index_entry to_key T idx (idx_key_function idx u) := None,
        index_entry to_key T idx (idx_key_function idx v) \<mapsto> table_key to_key T v))
    (M(primary_key T v \<mapsto> v))"
proof -
  let ?e = "index_entry to_key T idx"
  have r: "\<And>k x. db (?e k) = Some x \<longleftrightarrow> (\<exists>w. M (primary_key T w) = Some w
      \<and> idx_key_function idx w = k \<and> x = table_key to_key T w)"
    using rep unfolding secondary_rep_def by blast
  have n: "idx_key_function idx w \<noteq> idx_key_function idx v" if "M (primary_key T w) = Some w" for w
    using that none r by (metis option.distinct(1))
  have same: "primary_key T w = primary_key T v"
    if "M (primary_key T w) = Some w" "idx_key_function idx w = idx_key_function idx u" for w
  proof -
    have "db (?e (idx_key_function idx u)) = Some (table_key to_key T w)"
      "db (?e (idx_key_function idx u)) = Some (table_key to_key T u)"
      using that old(1) unfolding r by blast+
    then have "table_key to_key T w = table_key to_key T u" by simp
    with old(2) show ?thesis by (simp add: table_key_eq_iff [OF pk])
  qed
  have other: "idx_key_function idx w \<noteq> idx_key_function idx u"
    if "M (primary_key T w) = Some w" "primary_key T w \<noteq> primary_key T v" for w
    using same that by blast
  have away: "primary_key T w \<noteq> primary_key T v"
    if "M (primary_key T w) = Some w" "idx_key_function idx w \<noteq> idx_key_function idx u" for w
    using that old by auto
  show ?thesis
    unfolding secondary_rep_put
  proof (intro allI)
    fix k x
    show "(db(?e (idx_key_function idx u) := None, ?e (idx_key_function idx v) \<mapsto> table_key to_key T v))
        (?e k) = Some x \<longleftrightarrow>
      idx_key_function idx v = k \<and> x = table_key to_key T v \<or>
      (\<exists>w. primary_key T w \<noteq> primary_key T v \<and> M (primary_key T w) = Some w
         \<and> idx_key_function idx w = k \<and> x = table_key to_key T w)"
      using n other away by (auto simp: index_entry_eq_iff [OF pk] r)
  qed
qed

lemma put_secondary_keep:
  assumes pk: "prefix_key_ok to_key"
    and rep: "secondary_rep to_key T idx db M"
    and u: "M (primary_key T u) = Some u" "primary_key T u = primary_key T v"
      "idx_key_function idx u = idx_key_function idx v"
    and nc: "\<not> conflicts T M v idx"
  shows "secondary_rep to_key T idx db (M(primary_key T v \<mapsto> v))"
proof -
  have r: "\<And>k x. db (index_entry to_key T idx k) = Some x \<longleftrightarrow> (\<exists>w. M (primary_key T w) = Some w
      \<and> idx_key_function idx w = k \<and> x = table_key to_key T w)"
    using rep unfolding secondary_rep_def by blast
  have tu: "table_key to_key T u = table_key to_key T v"
    using u(2) by (simp add: table_key_eq_iff [OF pk])
  show ?thesis
    unfolding secondary_rep_put
  proof (intro allI)
    fix k x
    have "(\<exists>w. M (primary_key T w) = Some w \<and> idx_key_function idx w = k \<and> x = table_key to_key T w)
      \<longleftrightarrow> M (primary_key T u) = Some u \<and> idx_key_function idx u = k \<and> x = table_key to_key T u \<or>
      (\<exists>w. primary_key T w \<noteq> primary_key T v \<and> M (primary_key T w) = Some w
         \<and> idx_key_function idx w = k \<and> x = table_key to_key T w)"
      using u(1,2) by (metis option.inject)
    with u tu show "db (index_entry to_key T idx k) = Some x \<longleftrightarrow>
      idx_key_function idx v = k \<and> x = table_key to_key T v \<or>
      (\<exists>w. primary_key T w \<noteq> primary_key T v \<and> M (primary_key T w) = Some w
         \<and> idx_key_function idx w = k \<and> x = table_key to_key T w)"
      unfolding r by simp
  qed
qed

lemma put_secondary_ok:
  assumes db: "kv_db_ok H V" and pk: "prefix_key_ok to_key"
    and rep: "secondary_rep to_key T idx (kv_db V h (tbl_contract T)) M"
    and keys: "\<And>k u. M k = Some u \<Longrightarrow> primary_key T u = k"
    and old: "old = M (primary_key T v)" and nc: "\<not> conflicts T M v idx"
  obtains h' where "put_secondary H to_key T (table_key to_key T v) old v idx h = Inr h'"
    "secondary_rep to_key T idx (kv_db V h' (tbl_contract T)) (M(primary_key T v \<mapsto> v))"
    "kept_outside to_key T {idx_name idx} V h h'"
proof -
  let ?c = "tbl_contract T" and ?e = "\<lambda>k. index_entry to_key T idx k"
    and ?kv = "idx_key_function idx v" and ?tk = "table_key to_key T v"
  show ?thesis
  proof (cases "kv_db V h ?c (?e ?kv)")
    case None
    obtain n h1 where g: "kv_get H ?c (?e ?kv) h = ((False, n), h1)" "same_host V h h1"
      by (rule kv_get_missing [OF db None])
    show ?thesis
    proof (cases old)
      case o: None
      let ?h' = "kv_set H ?c (?e ?kv) ?tk ?c h1"
      have d: "kv_db V ?h' = (kv_db V h)(?c := (kv_db V h ?c)(?e ?kv \<mapsto> ?tk))"
        using g(2) by (simp add: kv_set_db [OF db] same_host_db)
      show ?thesis
      proof (rule that)
        show "put_secondary H to_key T ?tk old v idx h = Inr ?h'"
          using g(1) o by (simp add: put_secondary_entries)
        show "secondary_rep to_key T idx (kv_db V ?h' ?c) (M(primary_key T v \<mapsto> v))"
          unfolding d fun_upd_same using old o by (intro put_secondary_new [OF pk rep None]) simp
        show "kept_outside to_key T {idx_name idx} V h ?h'"
          unfolding kept_outside_def d by (auto simp: entry_prefix [OF pk])
      qed
    next
      case o: (Some u)
      then have u: "M (primary_key T u) = Some u" "primary_key T u = primary_key T v"
        using old keys by auto
      let ?h' = "kv_set H ?c (?e ?kv) ?tk ?c (kv_erase H ?c (?e (idx_key_function idx u)) h1)"
      have d: "kv_db V ?h' = (kv_db V h)(?c := (kv_db V h ?c)
          (?e (idx_key_function idx u) := None, ?e ?kv \<mapsto> ?tk))"
        using g(2) by (simp add: kv_set_db [OF db] kv_erase_db [OF db] same_host_db)
      show ?thesis
      proof (rule that)
        show "put_secondary H to_key T ?tk old v idx h = Inr ?h'"
          using g(1) o by (simp add: put_secondary_entries)
        show "secondary_rep to_key T idx (kv_db V ?h' ?c) (M(primary_key T v \<mapsto> v))"
          unfolding d fun_upd_same by (rule put_secondary_move [OF pk rep None u])
        show "kept_outside to_key T {idx_name idx} V h ?h'"
          unfolding kept_outside_def d by (auto simp: entry_prefix [OF pk])
      qed
    qed
  next
    case (Some x)
    then obtain u where u: "M (primary_key T u) = Some u" "idx_key_function idx u = ?kv"
        "x = table_key to_key T u"
      using rep unfolding secondary_rep_def by blast
    then have pu: "primary_key T u = primary_key T v" using nc unfolding conflicts_def by blast
    then have x: "x = ?tk" using u(3) by (simp add: table_key_eq_iff [OF pk])
    obtain h1 where g: "kv_get H ?c (?e ?kv) h = ((True, length x), h1)" "same_host V h h1"
        "kv_get_data H 0 (length x) h1 = (length x, x)"
      by (rule kv_get_found [OF db Some])
    have "old = Some u" using old u(1) pu by simp
    show ?thesis
    proof (rule that)
      show "put_secondary H to_key T ?tk old v idx h = Inr h1"
        using g x \<open>old = Some u\<close> by (simp add: put_secondary_entries)
      show "secondary_rep to_key T idx (kv_db V h1 ?c) (M(primary_key T v \<mapsto> v))"
        unfolding same_host_db [OF g(2)] by (rule put_secondary_keep [OF pk rep u(1) pu u(2) nc])
      show "kept_outside to_key T {idx_name idx} V h h1" by (rule kept_outside_same [OF g(2)])
    qed
  qed
qed

lemma put_secondaries_ok:
  assumes db: "kv_db_ok H V" and pk: "prefix_key_ok to_key"
    and keys: "\<And>k u. M k = Some u \<Longrightarrow> primary_key T u = k"
    and old: "old = M (primary_key T v)"
    and d: "distinct (map idx_name idxs)"
    and rep: "\<And>idx. idx \<in> set idxs \<Longrightarrow> secondary_rep to_key T idx (kv_db V h (tbl_contract T)) M"
    and nc: "\<And>idx. idx \<in> set idxs \<Longrightarrow> \<not> conflicts T M v idx"
  shows "\<exists>h'. put_secondaries H to_key T (table_key to_key T v) old v idxs h = Inr h'
    \<and> (\<forall>idx \<in> set idxs. secondary_rep to_key T idx (kv_db V h' (tbl_contract T)) (M(primary_key T v \<mapsto> v)))
    \<and> kept_outside to_key T (idx_name ` set idxs) V h h'"
  using d rep nc
proof (induction idxs arbitrary: h)
  case Nil
  then show ?case by (simp add: kept_outside_def)
next
  case (Cons idx idxs)
  have r0: "secondary_rep to_key T idx (kv_db V h (tbl_contract T)) M" "\<not> conflicts T M v idx"
    using Cons.prems(2,3) by simp_all
  obtain h1 where 1: "put_secondary H to_key T (table_key to_key T v) old v idx h = Inr h1"
    "secondary_rep to_key T idx (kv_db V h1 (tbl_contract T)) (M(primary_key T v \<mapsto> v))"
    "kept_outside to_key T {idx_name idx} V h h1"
    by (rule put_secondary_ok [OF db pk r0(1) keys old r0(2)])
  have dd: "distinct (map idx_name idxs)" using Cons.prems(1) by simp
  have nc1: "\<not> conflicts T M v i" if "i \<in> set idxs" for i using Cons.prems(3) that by simp
  have sr: "secondary_rep to_key T i (kv_db V h1 (tbl_contract T)) M" if "i \<in> set idxs" for i
  proof -
    have "idx_name i \<notin> {idx_name idx}" by (rule distinct_Cons_neq [OF Cons.prems(1) that])
    from kept_outside_entry [OF 1(3) pk this] show ?thesis
      using Cons.prems(2) [of i] that by (simp add: secondary_rep_def)
  qed
  obtain h2 where 2: "put_secondaries H to_key T (table_key to_key T v) old v idxs h1 = Inr h2"
    "\<forall>idx \<in> set idxs. secondary_rep to_key T idx (kv_db V h2 (tbl_contract T)) (M(primary_key T v \<mapsto> v))"
    "kept_outside to_key T (idx_name ` set idxs) V h1 h2"
    using Cons.IH [OF dd sr nc1] by blast
  have "idx_name idx \<notin> idx_name ` set idxs" using Cons.prems(1) by auto
  from kept_outside_entry [OF 2(3) pk this] 1(2)
  have "secondary_rep to_key T idx (kv_db V h2 (tbl_contract T)) (M(primary_key T v \<mapsto> v))"
    by (simp add: secondary_rep_def)
  moreover have "kept_outside to_key T (idx_name ` set (idx # idxs)) V h h2"
    using kept_outside_trans [OF 1(3) 2(3)] by simp
  moreover have "put_secondaries H to_key T (table_key to_key T v) old v (idx # idxs) h = Inr h2"
    by (simp add: 1(1) 2(1))
  ultimately show ?case using 2(2) by (metis set_ConsD)
qed

lemma put_secondaries_conflict:
  assumes db: "kv_db_ok H V" and pk: "prefix_key_ok to_key"
    and keys: "\<And>k u. M k = Some u \<Longrightarrow> primary_key T u = k"
    and old: "old = M (primary_key T v)"
    and d: "distinct (map idx_name idxs)"
    and rep: "\<And>idx. idx \<in> set idxs \<Longrightarrow> secondary_rep to_key T idx (kv_db V h (tbl_contract T)) M"
    and c: "\<exists>idx \<in> set idxs. conflicts T M v idx"
  shows "\<not> is_ok (put_secondaries H to_key T (table_key to_key T v) old v idxs h)"
  using d rep c
proof (induction idxs arbitrary: h)
  case (Cons idx idxs)
  have r: "secondary_rep to_key T idx (kv_db V h (tbl_contract T)) M" using Cons.prems(2) by simp
  show ?case
  proof (cases "conflicts T M v idx")
    case True
    from put_secondary_conflict [OF db pk r old True] show ?thesis
      by (cases "put_secondary H to_key T (table_key to_key T v) old v idx h") simp_all
  next
    case False
    obtain h1 where 1: "put_secondary H to_key T (table_key to_key T v) old v idx h = Inr h1"
      "kept_outside to_key T {idx_name idx} V h h1"
      by (rule put_secondary_ok [OF db pk r keys old False])
    have "secondary_rep to_key T i (kv_db V h1 (tbl_contract T)) M" if "i \<in> set idxs" for i
    proof -
      have "idx_name i \<notin> {idx_name idx}" by (rule distinct_Cons_neq [OF Cons.prems(1) that])
      from kept_outside_entry [OF 1(2) pk this] show ?thesis
        using Cons.prems(2) [of i] that by (simp add: secondary_rep_def)
    qed
    with Cons.IH [of h1] Cons.prems False 1(1) show ?thesis by simp
  qed
qed simp

lemma put_fetches_old:
  assumes db: "kv_db_ok H V" and co: "codec_ok C" and rep: "table_rep to_key C T (kv_db V h (tbl_contract T)) M"
  obtains b n h1 where "kv_get H (tbl_contract T) (table_key to_key T v) h = ((b, n), h1)" "same_host V h h1"
    "(if b then (case kv_get_data H 0 n h1 of (copy_size, buffer) \<Rightarrow>
        map_sum id Some (deserialize C buffer copy_size)) else Inr None)
     = (Inr (M (primary_key T v)) :: 'v option result)"
proof -
  have e: "kv_db V h (tbl_contract T) (table_key to_key T v) = map_option (packed C) (M (primary_key T v))"
    using rep by (simp add: table_rep_def table_key_entry)
  show ?thesis
  proof (cases "M (primary_key T v)")
    case None
    then obtain n h1 where "kv_get H (tbl_contract T) (table_key to_key T v) h = ((False, n), h1)" "same_host V h h1"
      using kv_get_missing [OF db, of h "tbl_contract T" "table_key to_key T v"] e by auto
    with None that [of False n h1] show ?thesis by simp
  next
    case (Some u)
    then obtain h1 where "kv_get H (tbl_contract T) (table_key to_key T v) h = ((True, length (packed C u)), h1)"
      "same_host V h h1" "kv_get_data H 0 (length (packed C u)) h1 = (length (packed C u), packed C u)"
      using kv_get_found [OF db, of h "tbl_contract T" "table_key to_key T v" "packed C u"] e by auto
    with Some that [of True "length (packed C u)" h1] show ?thesis
      by (simp add: deserialize_packed [OF co])
  qed
qed

lemma table_put_unfold:
  assumes "kv_get H (tbl_contract T) (table_key to_key T v) h = ((b, n), h1)"
    and "(if b then (case kv_get_data H 0 n h1 of (copy_size, buffer) \<Rightarrow>
        map_sum id Some (deserialize C buffer copy_size)) else Inr None) = Inr old"
  shows "table_put H to_key C T v h =
    (case put_secondaries H to_key T (table_key to_key T v) old v (tbl_secondary T) h1 of
       Inl e \<Rightarrow> Inl e | Inr h2 \<Rightarrow> put_row H C T (table_key to_key T v) v h2)"
  using assms by (simp add: table_put_def Let_def)

lemma table_okD:
  assumes "table_ok to_key T"
  shows "prefix_key_ok to_key" "distinct (map idx_name (tbl_secondary T))"
    "idx_name (tbl_primary T) \<notin> idx_name ` set (tbl_secondary T)"
    "idx \<in> set (tbl_secondary T) \<Longrightarrow> index_ok to_key T idx"
    "index_ok to_key T (tbl_primary T)" "tbl_primary_name T = idx_name (tbl_primary T)"
  using assms by (simp_all add: table_ok_def)

lemma table_put_ok:
  assumes db: "kv_db_ok H V" and tok: "table_ok to_key T" and co: "codec_ok C"
    and rep: "table_rep to_key C T (kv_db V h (tbl_contract T)) M"
    and nc: "\<And>idx. idx \<in> set (tbl_secondary T) \<Longrightarrow> \<not> conflicts T M v idx"
  shows "\<exists>h'. table_put H to_key C T v h = Inr h'
    \<and> table_rep to_key C T (kv_db V h' (tbl_contract T)) (M(primary_key T v \<mapsto> v))
    \<and> kept_outside to_key T (idx_name ` set (tbl_primary T # tbl_secondary T)) V h h'"
proof -
  let ?c = "tbl_contract T" and ?tk = "table_key to_key T v"
  note t = table_okD [OF tok]
  note pk = t(1)
  have keys: "\<And>k u. M k = Some u \<Longrightarrow> primary_key T u = k" using rep by (simp add: table_rep_def)
  obtain b n h1 where g: "kv_get H ?c ?tk h = ((b, n), h1)" "same_host V h h1"
    "(if b then (case kv_get_data H 0 n h1 of (copy_size, buffer) \<Rightarrow>
        map_sum id Some (deserialize C buffer copy_size)) else Inr None) = Inr (M (primary_key T v))"
    by (rule put_fetches_old [OF db co rep])
  have "secondary_rep to_key T idx (kv_db V h1 ?c) M" if "idx \<in> set (tbl_secondary T)" for idx
    using rep that by (simp add: table_rep_def same_host_db [OF g(2)])
  from put_secondaries_ok [OF db pk keys refl t(2) this nc] obtain h2 where
    2: "put_secondaries H to_key T ?tk (M (primary_key T v)) v (tbl_secondary T) h1 = Inr h2"
    "\<forall>idx \<in> set (tbl_secondary T). secondary_rep to_key T idx (kv_db V h2 ?c) (M(primary_key T v \<mapsto> v))"
    "kept_outside to_key T (idx_name ` set (tbl_secondary T)) V h1 h2" by blast
  let ?h' = "kv_set H ?c ?tk (packed C v) ?c h2"
  have d: "kv_db V ?h' = (kv_db V h2)(?c := (kv_db V h2 ?c)(?tk \<mapsto> packed C v))"
    by (rule kv_set_db [OF db])
  have 3: "kept_outside to_key T {idx_name (tbl_primary T)} V h2 ?h'"
    unfolding kept_outside_def d by (auto simp: table_key_entry entry_prefix [OF pk])
  have "kept_outside to_key T (idx_name ` set (tbl_secondary T) \<union> {idx_name (tbl_primary T)}) V h1 ?h'"
    by (rule kept_outside_trans [OF 2(3) 3])
  then have 4: "kept_outside to_key T (idx_name ` set (tbl_primary T # tbl_secondary T)) V h ?h'"
    using kept_outside_trans [OF kept_outside_same [OF g(2), of to_key T "{}"]] by (simp add: Un_commute)
  have prim: "kv_db V h2 ?c (index_entry to_key T (tbl_primary T) k) = map_option (packed C) (M k)" for k
    using kept_outside_entry [OF 2(3) pk t(3)] rep by (simp add: table_rep_def same_host_db [OF g(2)])
  have "kv_db V ?h' ?c (index_entry to_key T (tbl_primary T) k)
      = map_option (packed C) ((M(primary_key T v \<mapsto> v)) k)" for k
    unfolding d by (simp add: table_key_entry index_entry_eq_iff [OF pk] prim)
  moreover have "secondary_rep to_key T idx (kv_db V ?h' ?c) (M(primary_key T v \<mapsto> v))"
    if "idx \<in> set (tbl_secondary T)" for idx
  proof -
    have "idx_name idx \<notin> {idx_name (tbl_primary T)}" using image_neq [OF t(3) that] by simp
    from kept_outside_entry [OF 3 pk this] 2(2) that show ?thesis by (simp add: secondary_rep_def)
  qed
  moreover have "\<forall>k u. (M(primary_key T v \<mapsto> v)) k = Some u \<longrightarrow> primary_key T u = k"
    using keys by simp
  ultimately have "table_rep to_key C T (kv_db V ?h' ?c) (M(primary_key T v \<mapsto> v))"
    unfolding table_rep_def by blast
  moreover have "table_put H to_key C T v h = Inr ?h'"
    unfolding table_put_unfold [OF g(1,3)] 2(1)
    by (simp add: put_row_def serialize_packed [OF co])
  ultimately show ?thesis using 4 by blast
qed

lemma table_put_conflict:
  assumes db: "kv_db_ok H V" and tok: "table_ok to_key T" and co: "codec_ok C"
    and rep: "table_rep to_key C T (kv_db V h (tbl_contract T)) M"
    and c: "idx \<in> set (tbl_secondary T)" "conflicts T M v idx"
  shows "\<not> is_ok (table_put H to_key C T v h)"
proof -
  let ?c = "tbl_contract T" and ?tk = "table_key to_key T v"
  note t = table_okD [OF tok]
  have keys: "\<And>k u. M k = Some u \<Longrightarrow> primary_key T u = k" using rep by (simp add: table_rep_def)
  obtain b n h1 where g: "kv_get H ?c ?tk h = ((b, n), h1)" "same_host V h h1"
    "(if b then (case kv_get_data H 0 n h1 of (copy_size, buffer) \<Rightarrow>
        map_sum id Some (deserialize C buffer copy_size)) else Inr None) = Inr (M (primary_key T v))"
    by (rule put_fetches_old [OF db co rep])
  have r: "secondary_rep to_key T idx (kv_db V h1 ?c) M" if "idx \<in> set (tbl_secondary T)" for idx
    using rep that by (simp add: table_rep_def same_host_db [OF g(2)])
  have "\<not> is_ok (put_secondaries H to_key T ?tk (M (primary_key T v)) v (tbl_secondary T) h1)"
    by (rule put_secondaries_conflict [OF db t(1) keys refl t(2) r]) (use c in auto)
  then show ?thesis unfolding table_put_unfold [OF g(1,3)] by (auto split: sum.splits)
qed

section \<open>erase\<close>

lemma erase_secondaries_db:
  assumes db: "kv_db_ok H V"
  shows "kv_db V (fold (erase_secondary H to_key T v) idxs h) = (kv_db V h)(tbl_contract T :=
    (\<lambda>k. if k \<in> (\<lambda>idx. index_entry to_key T idx (idx_key_function idx v)) ` set idxs then None
         else kv_db V h (tbl_contract T) k))"
proof (induction idxs arbitrary: h)
  case (Cons idx idxs)
  have e: "erase_secondary H to_key T v idx h
      = kv_erase H (tbl_contract T) (index_entry to_key T idx (idx_key_function idx v)) h"
    unfolding erase_secondary_def index_entry_def by (rule refl)
  show ?case
    unfolding fold_Cons o_apply Cons.IH e kv_erase_db [OF db] by (auto simp: fun_eq_iff)
qed (simp add: fun_eq_iff)

lemma table_erase_db:
  assumes db: "kv_db_ok H V" and co: "codec_ok C"
    and rep: "table_rep to_key C T (kv_db V h (tbl_contract T)) M" and m: "M (primary_key T v) = Some u"
  shows "kv_db V (table_erase H to_key T v h) = (kv_db V h)(tbl_contract T :=
    (\<lambda>k. if k = table_key to_key T v \<or>
           k \<in> (\<lambda>idx. index_entry to_key T idx (idx_key_function idx v)) ` set (tbl_secondary T) then None
         else kv_db V h (tbl_contract T) k))"
proof -
  have "kv_db V h (tbl_contract T) (table_key to_key T v) = Some (packed C u)"
    using rep m by (simp add: table_rep_def table_key_entry)
  then obtain n h1 where g: "kv_get H (tbl_contract T) (table_key to_key T v) h = ((True, n), h1)" "same_host V h h1"
    by (rule kv_get_found [OF db])
  then have "table_erase H to_key T v h = kv_erase H (tbl_contract T) (table_key to_key T v)
      (fold (erase_secondary H to_key T v) (tbl_secondary T) h1)"
    by (simp add: table_erase_def Let_def)
  then show ?thesis
    by (simp add: kv_erase_db [OF db] erase_secondaries_db [OF db] same_host_db [OF g(2)] fun_eq_iff)
qed

lemma table_erase_missing:
  assumes db: "kv_db_ok H V" and rep: "table_rep to_key C T (kv_db V h (tbl_contract T)) M"
    and m: "M (primary_key T v) = None"
  shows "kv_db V (table_erase H to_key T v h) = kv_db V h"
proof -
  have "kv_db V h (tbl_contract T) (table_key to_key T v) = None"
    using rep m by (simp add: table_rep_def table_key_entry)
  then obtain n h1 where g: "kv_get H (tbl_contract T) (table_key to_key T v) h = ((False, n), h1)" "same_host V h h1"
    by (rule kv_get_missing [OF db])
  then show ?thesis by (simp add: table_erase_def Let_def same_host_db)
qed

lemma table_erase_stored:
  assumes db: "kv_db_ok H V" and tok: "table_ok to_key T" and co: "codec_ok C"
    and rep: "table_rep to_key C T (kv_db V h (tbl_contract T)) M" and m: "M (primary_key T v) = Some v"
  shows "table_rep to_key C T (kv_db V (table_erase H to_key T v h) (tbl_contract T)) (M(primary_key T v := None))"
proof -
  note t = table_okD [OF tok]
  note pk = t(1)
  let ?db = "kv_db V h (tbl_contract T)"
  let ?db' = "kv_db V (table_erase H to_key T v h) (tbl_contract T)"
  have d: "?db' = (\<lambda>k. if k = table_key to_key T v \<or>
      k \<in> (\<lambda>idx. index_entry to_key T idx (idx_key_function idx v)) ` set (tbl_secondary T) then None else ?db k)"
    by (simp add: table_erase_db [OF db co rep m])
  have "?db' (index_entry to_key T (tbl_primary T) k) = map_option (packed C) ((M(primary_key T v := None)) k)" for k
  proof -
    have "index_entry to_key T (tbl_primary T) k \<notin>
        (\<lambda>idx. index_entry to_key T idx (idx_key_function idx v)) ` set (tbl_secondary T)"
      using t(3) by (force simp: index_entry_eq_iff [OF pk])
    then show ?thesis
      using rep by (simp add: d table_key_entry index_entry_eq_iff [OF pk] table_rep_def)
  qed
  moreover have "secondary_rep to_key T idx ?db' (M(primary_key T v := None))"
    if idx: "idx \<in> set (tbl_secondary T)" for idx
  proof -
    have r: "\<And>k x. ?db (index_entry to_key T idx k) = Some x \<longleftrightarrow> (\<exists>w. M (primary_key T w) = Some w
        \<and> idx_key_function idx w = k \<and> x = table_key to_key T w)"
      using rep idx unfolding table_rep_def secondary_rep_def by blast
    have n1: "index_entry to_key T idx k \<noteq> table_key to_key T v" for k
      using image_neq [OF t(3) idx] by (simp add: table_key_entry index_entry_eq_iff [OF pk])
    have n2: "index_entry to_key T idx k \<in> (\<lambda>i. index_entry to_key T i (idx_key_function i v)) ` set (tbl_secondary T)
        \<longleftrightarrow> k = idx_key_function idx v" for k
      using t(2) idx by (auto simp: index_entry_eq_iff [OF pk] distinct_map inj_on_def)
    have uniq: "primary_key T w = primary_key T v"
      if "M (primary_key T w) = Some w" "idx_key_function idx w = idx_key_function idx v" for w
    proof -
      have "?db (index_entry to_key T idx (idx_key_function idx v)) = Some (table_key to_key T w)"
        "?db (index_entry to_key T idx (idx_key_function idx v)) = Some (table_key to_key T v)"
        using that m unfolding r by blast+
      then show ?thesis by (simp add: table_key_eq_iff [OF pk])
    qed
    have e: "?db' (index_entry to_key T idx k)
        = (if k = idx_key_function idx v then None else ?db (index_entry to_key T idx k))" for k
      unfolding d by (simp only: n1 n2 simp_thms)
    have m': "(M(primary_key T v := None)) (primary_key T w) = Some w \<longleftrightarrow>
        primary_key T w \<noteq> primary_key T v \<and> M (primary_key T w) = Some w" for w by simp
    have away: "primary_key T w \<noteq> primary_key T v"
      if "M (primary_key T w) = Some w" "idx_key_function idx w \<noteq> idx_key_function idx v" for w
      using that m by (metis option.inject)
    show ?thesis
      unfolding secondary_rep_def e m'
    proof (intro allI)
      fix k x
      show "(if k = idx_key_function idx v then None else ?db (index_entry to_key T idx k)) = Some x \<longleftrightarrow>
        (\<exists>w. (primary_key T w \<noteq> primary_key T v \<and> M (primary_key T w) = Some w)
           \<and> idx_key_function idx w = k \<and> x = table_key to_key T w)"
      proof (cases "k = idx_key_function idx v")
        case True
        then show ?thesis using uniq by auto
      next
        case False
        then show ?thesis using away unfolding if_not_P [OF False] r by blast
      qed
    qed
  qed
  moreover have "\<forall>k u. (M(primary_key T v := None)) k = Some u \<longrightarrow> primary_key T u = k"
    using rep by (simp add: table_rep_def)
  ultimately show ?thesis unfolding table_rep_def by blast
qed
section \<open>Lookups\<close>

definition row_of :: "'v kv_table \<Rightarrow> (key_type \<Rightarrow> 'v option) \<Rightarrow> 'v kv_index \<Rightarrow> key_type \<Rightarrow> 'v \<Rightarrow> bool" where
  "row_of T M idx k v \<longleftrightarrow> M (primary_key T v) = Some v \<and> idx_key_function idx v = k"

definition table_index :: "'v kv_table \<Rightarrow> 'v kv_index \<Rightarrow> bool" where
  "table_index T idx \<longleftrightarrow> idx \<in> set (tbl_primary T # tbl_secondary T)"

lemma table_index_ok:
  assumes "table_ok to_key T" "table_index T idx"
  shows "idx_contract idx = tbl_contract T" "full_key (idx_prefix idx) k = index_entry to_key T idx k"
    "idx_prefix idx = make_prefix to_key (tbl_name T) (idx_name idx)"
    "idx_name idx = tbl_primary_name T \<longleftrightarrow> idx = tbl_primary T"
proof -
  have i: "index_ok to_key T idx"
    using assms unfolding table_ok_def table_index_def by blast
  then show "idx_contract idx = tbl_contract T" "full_key (idx_prefix idx) k = index_entry to_key T idx k"
    "idx_prefix idx = make_prefix to_key (tbl_name T) (idx_name idx)"
    by (simp_all add: index_ok_def index_entry_def)
  show "idx_name idx = tbl_primary_name T \<longleftrightarrow> idx = tbl_primary T"
    using assms unfolding table_ok_def table_index_def by (auto dest: image_neq)
qed

text \<open>What the database holds under an index: the row itself, or the key of the row.\<close>

definition index_value :: "prefix_key \<Rightarrow> 'v kv_codec \<Rightarrow> 'v kv_table \<Rightarrow> 'v kv_index \<Rightarrow> 'v \<Rightarrow> bytes" where
  "index_value to_key C T idx v = (if idx = tbl_primary T then packed C v else table_key to_key T v)"

lemma index_contents:
  assumes tok: "table_ok to_key T" and rep: "table_rep to_key C T db M" and idx: "table_index T idx"
  shows "db (index_entry to_key T idx k) = Some x \<longleftrightarrow>
    (\<exists>v. row_of T M idx k v \<and> x = index_value to_key C T idx v)"
proof (cases "idx = tbl_primary T")
  case True
  have "db (index_entry to_key T (tbl_primary T) k) = map_option (packed C) (M k)"
    and keys: "\<And>k v. M k = Some v \<Longrightarrow> primary_key T v = k"
    using rep by (simp_all add: table_rep_def)
  then show ?thesis
    using True by (auto simp: row_of_def index_value_def primary_key_def [symmetric])
next
  case False
  then have "secondary_rep to_key T idx db M"
    using rep idx by (simp add: table_rep_def table_index_def)
  then show ?thesis using False by (simp add: secondary_rep_def row_of_def index_value_def)
qed

lemma row_of_unique:
  assumes tok: "table_ok to_key T" and rep: "table_rep to_key C T db M" and idx: "table_index T idx"
    and "row_of T M idx k u" "row_of T M idx k v"
  shows "u = v"
proof (cases "idx = tbl_primary T")
  case True
  with assms(4,5) show ?thesis by (auto simp: row_of_def primary_key_def)
next
  case False
  have "db (index_entry to_key T idx k) = Some (index_value to_key C T idx u)"
    "db (index_entry to_key T idx k) = Some (index_value to_key C T idx v)"
    using index_contents [OF tok rep idx] assms(4,5) by blast+
  then have "table_key to_key T u = table_key to_key T v" using False by (simp add: index_value_def)
  then have "primary_key T u = primary_key T v"
    using table_okD(1) [OF tok] by (simp add: table_key_eq_iff)
  with assms(4,5) show ?thesis by (simp add: row_of_def)
qed

lemma index_get_row:
  assumes db: "kv_db_ok H V" and tok: "table_ok to_key T" and co: "codec_ok C"
    and rep: "table_rep to_key C T (kv_db V h (tbl_contract T)) M" and idx: "table_index T idx"
    and row: "row_of T M idx k v"
  obtains h' where "index_get_key H C T idx k h = Inr (Some v, h')" "same_host V h h'"
proof -
  note i = table_index_ok [OF tok idx]
  let ?c = "tbl_contract T" and ?e = "index_entry to_key T idx k"
  have "kv_db V h ?c ?e = Some (index_value to_key C T idx v)"
    using index_contents [OF tok rep idx] row by blast
  then obtain h1 where g: "kv_get H ?c ?e h = ((True, length (index_value to_key C T idx v)), h1)" "same_host V h h1"
    "kv_get_data H 0 (length (index_value to_key C T idx v)) h1
       = (length (index_value to_key C T idx v), index_value to_key C T idx v)"
    by (rule kv_get_found [OF db])
  show ?thesis
  proof (cases "idx = tbl_primary T")
    case True
    then show ?thesis
      using g i that [of h1]
      by (simp add: index_get_key_def index_get_def index_value_def deserialize_packed [OF co] del: full_key_append)
  next
    case False
    have "kv_db V h1 ?c (table_key to_key T v) = Some (packed C v)"
      using rep row by (simp add: same_host_db [OF g(2)] table_rep_def table_key_entry row_of_def)
    then obtain h2 where g2: "kv_get H ?c (table_key to_key T v) h1 = ((True, length (packed C v)), h2)"
      "same_host V h1 h2" "kv_get_data H 0 (length (packed C v)) h2 = (length (packed C v), packed C v)"
      by (rule kv_get_found [OF db])
    have "same_host V h h2" using g(2) g2(2) by (simp add: same_host_def)
    then show ?thesis
      using g g2 i False that [of h2]
      by (simp add: index_get_key_def index_get_def index_value_def deserialize_packed [OF co] del: full_key_append)
  qed
qed

lemma index_get_none:
  assumes db: "kv_db_ok H V" and tok: "table_ok to_key T"
    and rep: "table_rep to_key C T (kv_db V h (tbl_contract T)) M" and idx: "table_index T idx"
    and row: "\<And>v. \<not> row_of T M idx k v"
  obtains h' where "index_get_key H C T idx k h = Inr (None, h')" "same_host V h h'"
proof -
  note i = table_index_ok [OF tok idx]
  have "kv_db V h (tbl_contract T) (index_entry to_key T idx k) = None"
    using index_contents [OF tok rep idx] row by (meson not_Some_eq)
  then obtain n h1 where "kv_get H (tbl_contract T) (index_entry to_key T idx k) h = ((False, n), h1)" "same_host V h h1"
    by (rule kv_get_missing [OF db])
  then show ?thesis
    using i that [of h1] by (simp add: index_get_key_def index_get_def del: full_key_append)
qed

lemma index_exists_iff:
  assumes db: "kv_db_ok H V" and tok: "table_ok to_key T"
    and rep: "table_rep to_key C T (kv_db V h (tbl_contract T)) M" and idx: "table_index T idx"
  shows "fst (index_exists H idx k h) \<longleftrightarrow> (\<exists>v. row_of T M idx k v)"
proof -
  note i = table_index_ok [OF tok idx]
  let ?e = "index_entry to_key T idx k"
  have e: "kv_db V h (tbl_contract T) ?e = None \<longleftrightarrow> \<not> (\<exists>v. row_of T M idx k v)"
    using index_contents [OF tok rep idx] by (metis not_Some_eq)
  have x: "index_exists H idx k h = (case kv_get H (tbl_contract T) ?e h of ((found, _), h1) \<Rightarrow> (found, h1))"
    using i by (simp add: index_exists_def del: full_key_append)
  show ?thesis
  proof (cases "kv_db V h (tbl_contract T) ?e")
    case None
    then obtain n h1 where "kv_get H (tbl_contract T) ?e h = ((False, n), h1)"
      by (rule kv_get_missing [OF db])
    with e None x show ?thesis by simp
  next
    case (Some w)
    then obtain n h1 where "kv_get H (tbl_contract T) ?e h = ((True, n), h1)"
      by (rule kv_get_found [OF db])
    with e Some x show ?thesis by auto
  qed
qed

text \<open>
  Erasing with a value whose secondary key is not the stored row's leaves the stored row's
  secondary entry behind, and a lookup through it stops the transaction.
\<close>

lemma erase_stale_entry:
  assumes db: "kv_db_ok H V" and tok: "table_ok to_key T" and co: "codec_ok C"
    and rep: "table_rep to_key C T (kv_db V h (tbl_contract T)) M"
    and u: "M (primary_key T u) = Some u" "primary_key T v = primary_key T u"
    and idx: "idx \<in> set (tbl_secondary T)" "idx_key_function idx v \<noteq> idx_key_function idx u"
  shows "index_get_key H C T idx (idx_key_function idx u) (table_erase H to_key T v h)
    = Inl (Check ''failure getting primary key'')"
proof -
  note t = table_okD [OF tok]
  note pk = t(1)
  have ti: "table_index T idx" using idx(1) by (simp add: table_index_def)
  note i = table_index_ok [OF tok ti]
  let ?c = "tbl_contract T" and ?h' = "table_erase H to_key T v h"
  let ?e = "index_entry to_key T idx (idx_key_function idx u)"
  have m: "M (primary_key T v) = Some u" using u by simp
  have d: "kv_db V ?h' ?c = (\<lambda>k. if k = table_key to_key T v \<or>
      k \<in> (\<lambda>idx. index_entry to_key T idx (idx_key_function idx v)) ` set (tbl_secondary T) then None
      else kv_db V h ?c k)"
    by (simp add: table_erase_db [OF db co rep m])
  have np: "idx \<noteq> tbl_primary T" using t(3) idx(1) by auto
  have "?e \<noteq> table_key to_key T v"
    using image_neq [OF t(3) idx(1)] by (simp add: table_key_entry index_entry_eq_iff [OF pk])
  moreover have "?e \<notin> (\<lambda>idx. index_entry to_key T idx (idx_key_function idx v)) ` set (tbl_secondary T)"
    using t(2) idx by (auto simp: index_entry_eq_iff [OF pk] distinct_map inj_on_def)
  moreover have "kv_db V h ?c ?e = Some (table_key to_key T u)"
    using index_contents [OF tok rep ti] u(1) np by (auto simp: row_of_def index_value_def)
  ultimately have "kv_db V ?h' ?c ?e = Some (table_key to_key T u)" unfolding d by simp
  then obtain h1 where g: "kv_get H ?c ?e ?h' = ((True, length (table_key to_key T u)), h1)" "same_host V ?h' h1"
    "kv_get_data H 0 (length (table_key to_key T u)) h1 = (length (table_key to_key T u), table_key to_key T u)"
    by (rule kv_get_found [OF db])
  have "table_key to_key T u = table_key to_key T v" using u(2) by (simp add: table_key_eq_iff [OF pk])
  then have "kv_db V h1 ?c (table_key to_key T u) = None" unfolding same_host_db [OF g(2)] d by simp
  then obtain n h2 where g2: "kv_get H ?c (table_key to_key T u) h1 = ((False, n), h2)"
    by (rule kv_get_missing [OF db])
  show ?thesis
    using g g2 i np by (simp add: index_get_key_def index_get_def del: full_key_append)
qed
end
