(* ===== verification/KvIterSafe.thy ===== *)
theory KvIterSafe
  imports KvTableSafe
begin

text \<open>
  Iteration over an index of \<open>kv.hpp\<close>: where an iterator stands, what one step does, and the
  rows that \<open>range\<close> collects.
\<close>

section \<open>Open iterators\<close>

text \<open>An iterator object is open at a position of its index, and its status says which kind.\<close>

definition iter_at :: "'h kv_view \<Rightarrow> 'h \<Rightarrow> 'v kv_index \<Rightarrow> 'v kv_iter \<Rightarrow> bytes option \<Rightarrow> bool" where
  "iter_at V h idx it pos \<longleftrightarrow> it_itr it \<noteq> 0 \<and> it_index it = idx \<and> it_stat it = position_status pos
     \<and> kv_its V h (it_itr it)
         = Some \<lparr>cur_contract = idx_contract idx, cur_prefix = idx_prefix idx, cur_key = pos\<rparr>
     \<and> (\<forall>k. pos = Some k \<longrightarrow> k \<in> prefixed (kv_db V h (idx_contract idx)) (idx_prefix idx))"

definition index_keys :: "'h kv_view \<Rightarrow> 'h \<Rightarrow> 'v kv_index \<Rightarrow> bytes set" where
  "index_keys V h idx = prefixed (kv_db V h (idx_contract idx)) (idx_prefix idx)"

lemma finite_index_keys: "kv_db_ok H V \<Longrightarrow> finite (index_keys V h idx)"
  unfolding kv_db_ok_def index_keys_def prefixed_def by simp

lemma create_iter:
  assumes it: "kv_it_ok H V" and room: "0 < kv_room V h"
  obtains r h1 where "kv_it_create H c p h = (r, h1)" "r \<noteq> 0" "kv_its V h r = None"
    "kv_db V h1 = kv_db V h" "kv_room V h1 = kv_room V h - 1"
    "kv_its V h1 = (kv_its V h)(r \<mapsto> \<lparr>cur_contract = c, cur_prefix = p, cur_key = None\<rparr>)"
proof -
  obtain r h1 where c: "kv_it_create H c p h = (r, h1)" by (metis prod.collapse)
  have "case kv_it_create H c p h of (r, h') \<Rightarrow>
        r \<noteq> 0 \<and> kv_its V h r = None \<and> kv_db V h' = kv_db V h
        \<and> kv_its V h' = (kv_its V h)(r \<mapsto> \<lparr>cur_contract = c, cur_prefix = p, cur_key = None\<rparr>)
        \<and> kv_room V h' = kv_room V h - 1"
    by (rule it_create_law [OF it room])
  with c that show ?thesis by simp
qed

lemma lower_bound_at:
  assumes db: "kv_db_ok H V" and it: "kv_it_ok H V" and room: "0 < kv_room V h"
  obtains r pos h' where "index_lower_bound H idx key h = (r, h')"
    "iter_at V h' idx r pos" "pos = least_in {k \<in> index_keys V h idx. key \<le> k}"
    "kv_db V h' = kv_db V h" "kv_room V h' = kv_room V h - 1" "kv_its V h (it_itr r) = None"
    "\<forall>s. s \<noteq> it_itr r \<longrightarrow> kv_its V h' s = kv_its V h s"
proof -
  let ?cur = "\<lparr>cur_contract = idx_contract idx, cur_prefix = idx_prefix idx, cur_key = None\<rparr>"
  obtain r h1 where c: "kv_it_create H (idx_contract idx) (idx_prefix idx) h = (r, h1)"
    "r \<noteq> 0" "kv_its V h r = None" "kv_db V h1 = kv_db V h" "kv_room V h1 = kv_room V h - 1"
    "kv_its V h1 = (kv_its V h)(r \<mapsto> ?cur)"
    by (rule create_iter [OF it room])
  let ?pos = "least_in {k \<in> index_keys V h idx. key \<le> k}"
  have "kv_its V h1 r = Some ?cur" using c(6) by simp
  then have "moves_to V r ?cur (least_in {k \<in> cursor_keys V h1 ?cur. key \<le> k}) h1
          (kv_it_lower_bound H r key h1)"
    by (rule it_lower_bound_law [OF it])
  moreover have "cursor_keys V h1 ?cur = index_keys V h idx"
    using c(4) by (simp add: cursor_keys_def index_keys_def)
  ultimately have m: "moves_to V r ?cur ?pos h1 (kv_it_lower_bound H r key h1)" by simp
  obtain st h2 where l: "kv_it_lower_bound H r key h1 = (st, h2)" by (metis prod.collapse)
  have "k \<in> index_keys V h idx" if "?pos = Some k" for k
    by (rule least_in_mem [OF finite_index_keys [OF db] that])
  then have "iter_at V h2 idx \<lparr>it_itr = r, it_stat = st, it_index = idx\<rparr> ?pos"
    using m l c by (simp add: moves_to_def iter_at_def index_keys_def)
  moreover have lb: "index_lower_bound H idx key h = (\<lparr>it_itr = r, it_stat = st, it_index = idx\<rparr>, h2)"
    using c(1) l by (simp add: index_lower_bound_def)
  ultimately show ?thesis
    by (intro that [OF lb _ refl]) (use m l c in \<open>simp_all add: moves_to_def\<close>)
qed

lemma next_at:
  assumes db: "kv_db_ok H V" and it: "kv_it_ok H V" and at: "iter_at V h idx i (Some k)"
  obtains i' h' where "iter_next H i h = Inr (i', h')" "it_itr i' = it_itr i"
    "iter_at V h' idx i' (least_in {k' \<in> index_keys V h idx. k < k'})"
    "kv_db V h' = kv_db V h" "kv_room V h' = kv_room V h"
    "\<forall>s. s \<noteq> it_itr i \<longrightarrow> kv_its V h' s = kv_its V h s"
proof -
  let ?cur = "\<lparr>cur_contract = idx_contract idx, cur_prefix = idx_prefix idx, cur_key = Some k\<rparr>"
  let ?pos = "least_in {k' \<in> index_keys V h idx. k < k'}"
  have a: "kv_its V h (it_itr i) = Some ?cur" "k \<in> cursor_keys V h ?cur"
    using at by (simp_all add: iter_at_def cursor_keys_def)
  then have "moves_to V (it_itr i) ?cur (least_in {k' \<in> cursor_keys V h ?cur. k < k'}) h
      (kv_it_next H (it_itr i) h)"
    by (intro it_standing_law(1) [OF it]) simp_all
  moreover have "cursor_keys V h ?cur = index_keys V h idx"
    by (simp add: cursor_keys_def index_keys_def)
  ultimately have m: "moves_to V (it_itr i) ?cur ?pos h (kv_it_next H (it_itr i) h)" by simp
  obtain st h1 where n: "kv_it_next H (it_itr i) h = (st, h1)" by (metis prod.collapse)
  have "x \<in> index_keys V h idx" if "?pos = Some x" for x
    by (rule least_in_mem [OF finite_index_keys [OF db] that])
  then have "iter_at V h1 idx (i\<lparr>it_stat := st\<rparr>) ?pos"
    using m n at by (simp add: moves_to_def iter_at_def index_keys_def)
  moreover have "iter_next H i h = Inr (i\<lparr>it_stat := st\<rparr>, h1)"
    using at n by (simp add: iter_next_def iter_at_def position_status_def iterator_end_def)
  ultimately show ?thesis
    using that m n by (simp add: moves_to_def)
qed

lemma compare_at:
  assumes it: "kv_it_ok H V" and a: "iter_at V h idx i pi" and b: "iter_at V h idx j pj"
  shows "iter_compare H i j h < 0 \<longleftrightarrow>
    (\<exists>k. pi = Some k \<and> (case pj of None \<Rightarrow> True | Some e \<Rightarrow> k < e))"
proof -
  let ?cur = "\<lambda>p. \<lparr>cur_contract = idx_contract idx, cur_prefix = idx_prefix idx, cur_key = p\<rparr>"
  have "kv_its V h (it_itr i) = Some (?cur pi) \<and> kv_its V h (it_itr j) = Some (?cur pj)
      \<and> position_ok V h (?cur pi) \<and> position_ok V h (?cur pj)"
    using a b by (simp add: iter_at_def cursor_keys_def position_ok_def)
  then have cmp: "kv_it_compare H (it_itr i) (it_itr j) h = compare_positions (cur_key (?cur pi)) (cur_key (?cur pj))"
    by (rule it_compare_law [OF it])
  show ?thesis
    using a b cmp
    by (auto simp: iter_compare_def iter_at_def position_status_def iterator_end_def compare_keys_def
        compare_positions_def Let_def split: option.splits)
qed

section \<open>Reading at an iterator\<close>

lemma iter_value_at:
  assumes db: "kv_db_ok H V" and it: "kv_it_ok H V" and tok: "table_ok to_key T" and co: "codec_ok C"
    and rep: "table_rep to_key C T (kv_db V h (tbl_contract T)) M" and idx: "table_index T idx"
    and at: "iter_at V h idx i (Some (index_entry to_key T idx k))" and row: "row_of T M idx k v"
  obtains h' where "iter_value H C T i h = Inr (v, h')" "same_host V h h'"
proof -
  note ti = table_index_ok [OF tok idx]
  let ?cur = "\<lparr>cur_contract = idx_contract idx, cur_prefix = idx_prefix idx,
    cur_key = Some (index_entry to_key T idx k)\<rparr>"
  let ?x = "index_value to_key C T idx v"
  have a: "kv_its V h (it_itr i) = Some ?cur" "index_entry to_key T idx k \<in> cursor_keys V h ?cur"
    "it_index i = idx" "it_stat i = 0"
    using at by (simp_all add: iter_at_def cursor_keys_def position_status_def)
  have x: "kv_db V h (tbl_contract T) (index_entry to_key T idx k) = Some ?x"
    using index_contents [OF tok rep idx] row by blast
  have "kv_it_value H (it_itr i) 0 n h = (0, take n ?x, length ?x)" for n
    by (rule it_standing_law(5) [OF it a(1) _ a(2)]) (use x ti(1) in simp_all)
  then have v: "kv_it_value H (it_itr i) 0 0 h = (0, [], length ?x)"
    "kv_it_value H (it_itr i) 0 (length ?x) h = (0, ?x, length ?x)" by simp_all
  show ?thesis
  proof (cases "idx = tbl_primary T")
    case True
    then have "iter_value H C T i h = Inr (v, h)"
      using v a(3,4) ti by (simp add: iter_value_def iterator_end_def iterator_ok_def index_value_def
          deserialize_packed [OF co])
    then show ?thesis using that by (simp add: same_host_def)
  next
    case False
    have "kv_db V h (tbl_contract T) (table_key to_key T v) = Some (packed C v)"
      using rep row by (simp add: table_rep_def table_key_entry row_of_def)
    then obtain h2 where g2: "kv_get H (tbl_contract T) (table_key to_key T v) h = ((True, length (packed C v)), h2)"
      "same_host V h h2" "kv_get_data H 0 (length (packed C v)) h2 = (length (packed C v), packed C v)"
      by (rule kv_get_found [OF db])
    then have "iter_value H C T i h = Inr (v, h2)"
      using v a(3,4) ti False by (simp add: iter_value_def iterator_end_def iterator_ok_def index_value_def
          deserialize_packed [OF co])
    with g2(2) that show ?thesis by simp
  qed
qed

lemma index_keys_entries:
  assumes tok: "table_ok to_key T" and rep: "table_rep to_key C T (kv_db V h (tbl_contract T)) M"
    and idx: "table_index T idx"
  shows "x \<in> index_keys V h idx \<longleftrightarrow> (\<exists>k v. x = index_entry to_key T idx k \<and> row_of T M idx k v)"
proof -
  note ti = table_index_ok [OF tok idx]
  have e: "index_entry to_key T idx k = idx_prefix idx @ k" for k using ti(2) [of k] by simp
  have "x \<in> index_keys V h idx \<longleftrightarrow> has_prefix (idx_prefix idx) x \<and> kv_db V h (tbl_contract T) x \<noteq> None"
    using ti(1) by (auto simp: index_keys_def prefixed_def)
  also have "has_prefix (idx_prefix idx) x \<longleftrightarrow> (\<exists>k. x = index_entry to_key T idx k)"
    unfolding e has_prefix_def by (metis append_eq_conv_conj append_take_drop_id)
  finally show ?thesis
    using index_contents [OF tok rep idx] by (metis not_Some_eq)
qed

section \<open>range\<close>

lemma iter_at_same_host: "same_host V h h' \<Longrightarrow> iter_at V h' idx i pos \<longleftrightarrow> iter_at V h idx i pos"
  by (simp add: iter_at_def same_host_def)

lemma iter_at_frame:
  "iter_at V h idx i pos \<Longrightarrow> kv_db V h' = kv_db V h \<Longrightarrow> kv_its V h' (it_itr i) = kv_its V h (it_itr i) \<Longrightarrow>
   iter_at V h' idx i pos"
  by (simp add: iter_at_def)

lemma range_loop_rows:
  assumes db: "kv_db_ok H V" and it: "kv_it_ok H V" and tok: "table_ok to_key T" and co: "codec_ok C"
    and idx: "table_index T idx" and rep: "table_rep to_key C T (kv_db V h (tbl_contract T)) M"
    and at: "iter_at V h idx i pi" and e: "iter_at V h idx j pj" and ne: "it_itr i \<noteq> it_itr j"
    and n: "card (walk_set (index_keys V h idx) pi pj) < n"
  shows "\<exists>ws h'. range_loop n H C T i j vs h = Some (Inr (vs @ ws, h'))
    \<and> map (\<lambda>v. index_entry to_key T idx (idx_key_function idx v)) ws
        = sorted_list_of_set (walk_set (index_keys V h idx) pi pj)
    \<and> (\<forall>v \<in> set ws. row_of T M idx (idx_key_function idx v) v)
    \<and> kv_db V h' = kv_db V h"
  using rep at e ne n
proof (induction n arbitrary: h i pi vs)
  case (Suc n)
  let ?K = "index_keys V h idx"
  have fin: "finite ?K" by (rule finite_index_keys [OF db])
  show ?case
  proof (cases "iter_compare H i j h < 0")
    case True
    then obtain k where k: "pi = Some k" "case pj of None \<Rightarrow> True | Some e \<Rightarrow> k < e"
      using compare_at [OF it Suc.prems(2,3)] by blast
    have kK: "k \<in> ?K" using Suc.prems(2) k(1) by (simp add: iter_at_def index_keys_def)
    then obtain a v where a: "k = index_entry to_key T idx a" "row_of T M idx a v"
      using index_keys_entries [OF tok Suc.prems(1) idx] by blast
    have av: "idx_key_function idx v = a" using a(2) by (simp add: row_of_def)
    obtain h1 where v: "iter_value H C T i h = Inr (v, h1)" "same_host V h h1"
      using iter_value_at [OF db it tok co Suc.prems(1) idx _ a(2)] Suc.prems(2) k(1) a(1) by metis
    have at1: "iter_at V h1 idx i (Some k)"
      using Suc.prems(2) k(1) by (simp add: iter_at_same_host [OF v(2)])
    obtain i' h2 where nx: "iter_next H i h1 = Inr (i', h2)" "it_itr i' = it_itr i"
      "iter_at V h2 idx i' (least_in {k' \<in> index_keys V h1 idx. k < k'})"
      "kv_db V h2 = kv_db V h1" "kv_room V h2 = kv_room V h1"
      "\<forall>s. s \<noteq> it_itr i \<longrightarrow> kv_its V h2 s = kv_its V h1 s"
      by (rule next_at [OF db it at1])
    have same: "kv_db V h2 = kv_db V h" using nx(4) same_host_db [OF v(2)] by simp
    have K: "index_keys V h1 idx = ?K" "index_keys V h2 idx = ?K"
      using same same_host_db [OF v(2)] by (simp_all add: index_keys_def)
    let ?pi' = "least_in {k' \<in> ?K. k < k'}"
    have walk: "sorted_list_of_set (walk_set ?K pi pj) = k # sorted_list_of_set (walk_set ?K ?pi' pj)"
      using walk_step [OF fin kK k(2)] k(1) by simp
    have "length (sorted_list_of_set (walk_set ?K pi pj)) < Suc n"
      using Suc.prems(5) by simp
    then have card: "card (walk_set (index_keys V h2 idx) ?pi' pj) < n"
      unfolding walk K by simp
    have rep2: "table_rep to_key C T (kv_db V h2 (tbl_contract T)) M" using Suc.prems(1) same by simp
    have at2: "iter_at V h2 idx i' ?pi'" using nx(3) K(1) by simp
    have "kv_its V h2 (it_itr j) = kv_its V h (it_itr j)"
      using nx(6) Suc.prems(4) v(2) by (simp add: same_host_def)
    then have e2: "iter_at V h2 idx j pj" by (rule iter_at_frame [OF Suc.prems(3) same])
    have ne2: "it_itr i' \<noteq> it_itr j" using nx(2) Suc.prems(4) by simp
    from Suc.IH [OF rep2 at2 e2 ne2 card, of "vs @ [v]"] obtain ws h' where
      w: "range_loop n H C T i' j (vs @ [v]) h2 = Some (Inr ((vs @ [v]) @ ws, h'))"
      "map (\<lambda>v. index_entry to_key T idx (idx_key_function idx v)) ws = sorted_list_of_set (walk_set ?K ?pi' pj)"
      "\<forall>v \<in> set ws. row_of T M idx (idx_key_function idx v) v" "kv_db V h' = kv_db V h"
      unfolding K same by blast
    have "range_loop (Suc n) H C T i j vs h = Some (Inr (vs @ v # ws, h'))"
      using True v(1) nx(1) w(1) by simp
    moreover have "map (\<lambda>v. index_entry to_key T idx (idx_key_function idx v)) (v # ws)
        = sorted_list_of_set (walk_set ?K pi pj)"
      using walk w(2) a(1) av by simp
    ultimately show ?thesis using w(3,4) a(2) av by (intro exI [of _ "v # ws"] exI [of _ h']) simp
  next
    case False
    have "walk_set ?K pi pj = {}"
      using False compare_at [OF it Suc.prems(2,3)]
      by (auto simp: walk_set_def split: option.splits)
    moreover have "kv_db V (iter_destroy H i (iter_destroy H j h)) = kv_db V h"
      using it_destroy_law [OF it] by (simp add: iter_destroy_def)
    ultimately show ?thesis
      using False by (intro exI [of _ "[]"] exI [of _ "iter_destroy H i (iter_destroy H j h)"]) simp
  qed
qed simp

lemma table_rep_finite:
  assumes db: "kv_db_ok H V" and tok: "table_ok to_key T"
    and rep: "table_rep to_key C T (kv_db V h (tbl_contract T)) M"
  shows "finite (dom M)"
proof -
  let ?e = "index_entry to_key T (tbl_primary T)"
  have "inj ?e" using table_okD(1) [OF tok] by (auto simp: inj_def index_entry_eq_iff)
  moreover have "finite (dom (kv_db V h (tbl_contract T)))" using db unfolding kv_db_ok_def by blast
  ultimately have "finite (?e -` dom (kv_db V h (tbl_contract T)))" by (rule_tac finite_vimageI)
  moreover have "dom M \<subseteq> ?e -` dom (kv_db V h (tbl_contract T))"
    using rep by (auto simp: table_rep_def)
  ultimately show ?thesis by (rule rev_finite_subset)
qed

lemma index_range_rows:
  assumes db: "kv_db_ok H V" and it: "kv_it_ok H V" and tok: "table_ok to_key T" and co: "codec_ok C"
    and idx: "table_index T idx" and rep: "table_rep to_key C T (kv_db V h (tbl_contract T)) M"
    and room: "2 \<le> kv_room V h" and n: "card (dom M) < n"
  shows "\<exists>vs h'. index_range n H C T idx b e h = Some (Inr (vs, h'))
    \<and> sorted_wrt (<) (map (idx_key_function idx) vs)
    \<and> set vs = {v. M (primary_key T v) = Some v \<and> b \<le> idx_key_function idx v \<and> idx_key_function idx v < e}
    \<and> kv_db V h' = kv_db V h"
proof -
  note ti = table_index_ok [OF tok idx]
  let ?K = "index_keys V h idx" and ?b = "index_entry to_key T idx b" and ?e = "index_entry to_key T idx e"
  let ?f = "\<lambda>v. index_entry to_key T idx (idx_key_function idx v)"
  have fin: "finite ?K" by (rule finite_index_keys [OF db])
  have r0: "0 < kv_room V h" using room by simp
  obtain i pi h1 where i: "index_lower_bound H idx ?b h = (i, h1)" "iter_at V h1 idx i pi"
    "pi = least_in {k \<in> ?K. ?b \<le> k}" "kv_db V h1 = kv_db V h" "kv_room V h1 = kv_room V h - 1"
    "kv_its V h (it_itr i) = None" "\<forall>s. s \<noteq> it_itr i \<longrightarrow> kv_its V h1 s = kv_its V h s"
    by (rule lower_bound_at [OF db it r0])
  have r1: "0 < kv_room V h1" using i(5) room by simp
  have K1: "index_keys V h1 idx = ?K" using i(4) by (simp add: index_keys_def)
  obtain j pj h2 where j: "index_lower_bound H idx ?e h1 = (j, h2)" "iter_at V h2 idx j pj"
    "pj = least_in {k \<in> index_keys V h1 idx. ?e \<le> k}" "kv_db V h2 = kv_db V h1"
    "kv_room V h2 = kv_room V h1 - 1" "kv_its V h1 (it_itr j) = None"
    "\<forall>s. s \<noteq> it_itr j \<longrightarrow> kv_its V h2 s = kv_its V h1 s"
    by (rule lower_bound_at [OF db it r1])
  have ne: "it_itr i \<noteq> it_itr j" using i(2) j(6) by (auto simp: iter_at_def)
  have at2: "iter_at V h2 idx i pi" by (rule iter_at_frame [OF i(2) j(4) j(7) [rule_format, OF ne]])
  have K2: "index_keys V h2 idx = ?K" using i(4) j(4) by (simp add: index_keys_def)
  have walk: "walk_set ?K pi pj = {k \<in> ?K. ?b \<le> k \<and> k < ?e}"
    unfolding i(3) j(3) K1 by (rule walk_set_bounds [OF fin])
  have Kf: "?K = ?f ` {v. M (primary_key T v) = Some v}"
    using index_keys_entries [OF tok rep idx] by (auto simp: row_of_def)
  have keys: "\<And>k v. M k = Some v \<Longrightarrow> primary_key T v = k" using rep by (simp add: table_rep_def)
  then have "{v. M (primary_key T v) = Some v} = (\<lambda>k. the (M k)) ` dom M" by force
  then have "?K = (?f \<circ> (\<lambda>k. the (M k))) ` dom M" unfolding Kf by (simp add: image_comp)
  then have "card ?K \<le> card (dom M)" using table_rep_finite [OF db tok rep] by (simp add: card_image_le)
  moreover have "card (walk_set ?K pi pj) \<le> card ?K"
    unfolding walk using fin by (intro card_mono) auto
  ultimately have card: "card (walk_set (index_keys V h2 idx) pi pj) < n"
    unfolding K2 using n by simp
  have rep2: "table_rep to_key C T (kv_db V h2 (tbl_contract T)) M" using rep i(4) j(4) by simp
  from range_loop_rows [OF db it tok co idx rep2 at2 j(2) ne card, of "[]"] obtain vs h' where
    w: "range_loop n H C T i j [] h2 = Some (Inr (vs, h'))"
    "map ?f vs = sorted_list_of_set (walk_set ?K pi pj)"
    "\<forall>v \<in> set vs. row_of T M idx (idx_key_function idx v) v" "kv_db V h' = kv_db V h2"
    unfolding K2 by auto
  have less: "?f u < ?f v \<longleftrightarrow> idx_key_function idx u < idx_key_function idx v" for u v
    using ti(2) [symmetric] by simp
  have "sorted_wrt (<) (map ?f vs)" unfolding w(2) by (rule strict_sorted_list_of_set)
  then have s: "sorted_wrt (<) (map (idx_key_function idx) vs)"
    by (simp add: sorted_wrt_map less)
  have "v \<in> set vs \<longleftrightarrow> M (primary_key T v) = Some v \<and> b \<le> idx_key_function idx v \<and> idx_key_function idx v < e" for v
  proof -
    have "?f ` set vs = set (map ?f vs)" by simp
    also have "\<dots> = walk_set ?K pi pj" unfolding w(2) using fin by (simp add: finite_walk_set)
    also have "\<dots> = {k \<in> ?K. ?b \<le> k \<and> k < ?e}" by (rule walk)
    also have "\<dots> = ?f ` {v. M (primary_key T v) = Some v \<and> ?b \<le> ?f v \<and> ?f v < ?e}"
      unfolding Kf by auto
    also have "{v. M (primary_key T v) = Some v \<and> ?b \<le> ?f v \<and> ?f v < ?e}
        = {v. M (primary_key T v) = Some v \<and> b \<le> idx_key_function idx v \<and> idx_key_function idx v < e}"
      using ti(2) [symmetric] by simp
    finally have img: "?f ` set vs = ?f ` {v. M (primary_key T v) = Some v
        \<and> b \<le> idx_key_function idx v \<and> idx_key_function idx v < e}" .
    have inj: "u = v" if "?f u = ?f v" "M (primary_key T u) = Some u" "M (primary_key T v) = Some v" for u v
    proof -
      have "idx_key_function idx u = idx_key_function idx v"
        using that(1) table_okD(1) [OF tok] by (simp add: index_entry_eq_iff)
      with that(2,3) show ?thesis
        by (intro row_of_unique [OF tok rep idx, of "idx_key_function idx v"]) (simp_all add: row_of_def)
    qed
    have rows: "M (primary_key T u) = Some u" if "u \<in> set vs" for u
      using w(3) that by (simp add: row_of_def)
    show ?thesis
    proof
      assume v: "v \<in> set vs"
      then have "?f v \<in> ?f ` {v. M (primary_key T v) = Some v
        \<and> b \<le> idx_key_function idx v \<and> idx_key_function idx v < e}" unfolding img [symmetric] by (rule imageI)
      then show "M (primary_key T v) = Some v \<and> b \<le> idx_key_function idx v \<and> idx_key_function idx v < e"
        using inj rows [OF v] by blast
    next
      assume a: "M (primary_key T v) = Some v \<and> b \<le> idx_key_function idx v \<and> idx_key_function idx v < e"
      then have "?f v \<in> ?f ` set vs" unfolding img by blast
      then show "v \<in> set vs" using inj rows a by blast
    qed
  qed
  then have "set vs = {v. M (primary_key T v) = Some v \<and> b \<le> idx_key_function idx v \<and> idx_key_function idx v < e}"
    by blast
  moreover have "index_range n H C T idx b e h = Some (Inr (vs, h'))"
    using i(1) j(1) w(1) ti(2) by (simp add: index_range_def del: full_key_append)
  moreover have "kv_db V h' = kv_db V h" using w(4) i(4) j(4) by simp
  ultimately show ?thesis using s by blast
qed
section \<open>find, and a reverse iterator stepped back from its end\<close>

lemma index_find_at:
  assumes db: "kv_db_ok H V" and it: "kv_it_ok H V" and room: "0 < kv_room V h"
  obtains i h' where "index_find H idx key h = (i, h')" "kv_db V h' = kv_db V h"
    "key \<in> index_keys V h idx \<longrightarrow> iter_at V h' idx i (Some key)"
    "key \<notin> index_keys V h idx \<longrightarrow> i = index_end idx"
proof -
  let ?K = "index_keys V h idx"
  have fin: "finite {k \<in> ?K. key \<le> k}"
    by (rule finite_subset [OF _ finite_index_keys [OF db, of h idx]]) auto
  obtain i pos h1 where i: "index_lower_bound H idx key h = (i, h1)"
    "iter_at V h1 idx i pos" "pos = least_in {k \<in> ?K. key \<le> k}"
    "kv_db V h1 = kv_db V h" "kv_room V h1 = kv_room V h - 1" "kv_its V h (it_itr i) = None"
    "\<forall>s. s \<noteq> it_itr i \<longrightarrow> kv_its V h1 s = kv_its V h s"
    by (rule lower_bound_at [OF db it room])
  have f: "index_find H idx key h = (if kv_it_key_compare H (it_itr i) key h1 \<noteq> 0
      then (index_end idx, kv_it_destroy H (it_itr i) h1) else (i, h1))"
    using i(1) by (auto simp: index_find_def index_lower_bound_def split: prod.splits)
  have d: "kv_db V (kv_it_destroy H (it_itr i) h1) = kv_db V h"
    using it_destroy_law [OF it] i(4) by simp
  let ?cur = "\<lambda>p. \<lparr>cur_contract = idx_contract idx, cur_prefix = idx_prefix idx, cur_key = p\<rparr>"
  have cmp: "kv_it_key_compare H (it_itr i) key h1 = (case pos of None \<Rightarrow> 1 | Some k \<Rightarrow> compare_keys k key)"
  proof (cases pos)
    case None
    then have "kv_its V h1 (it_itr i) = Some (?cur None) \<and> cur_key (?cur None) = None"
      using i(2) by (simp add: iter_at_def)
    from kv_it_ok_laws(5) [OF it, rule_format, OF this] None show ?thesis by simp
  next
    case (Some k)
    have "kv_it_key_compare H (it_itr i) key h1 = compare_keys k key"
      by (rule it_standing_law(3) [OF it, of h1 "it_itr i" "?cur (Some k)"])
         (use i(2) Some in \<open>simp_all add: iter_at_def cursor_keys_def\<close>)
    with Some show ?thesis by simp
  qed
  show ?thesis
  proof (cases "key \<in> ?K")
    case True
    have "pos = Some key"
    proof (cases pos)
      case None
      with i(3) True show ?thesis by (auto simp: least_in_def split: if_splits)
    next
      case (Some m)
      note m = least_in_Some [OF fin, of m]
      from i(3) Some m True have "m = key" by (metis (mono_tags, lifting) antisym mem_Collect_eq order_refl)
      with Some show ?thesis by simp
    qed
    then show ?thesis
      using f cmp i(2,4) True by (intro that [of i h1]) (simp_all add: compare_keys_def)
  next
    case False
    have "kv_it_key_compare H (it_itr i) key h1 \<noteq> 0"
    proof (cases pos)
      case (Some m)
      have "m \<in> ?K" using least_in_Some(1) [OF fin, of m] i(3) Some by simp
      with False cmp Some show ?thesis by (auto simp: compare_keys_def)
    qed (use cmp in simp)
    then show ?thesis
      using f d False by (intro that [of "index_end idx" "kv_it_destroy H (it_itr i) h1"]) simp_all
  qed
qed

lemma riter_prev_end_skips:
  assumes db: "kv_db_ok H V" and it: "kv_it_ok H V" and room: "0 < kv_room V h"
    and k: "least_in (index_keys V h idx) = Some k"
  shows "case least_in {k' \<in> index_keys V h idx. k < k'} of
      None \<Rightarrow> riter_prev H (index_end idx) h = Inl (Check ''decremented past the beginning'')
    | Some k2 \<Rightarrow> (\<exists>i h'. riter_prev H (index_end idx) h = Inr (i, h') \<and> iter_at V h' idx i (Some k2))"
proof -
  let ?K = "index_keys V h idx"
  obtain i pos h1 where i: "index_lower_bound H idx [] h = (i, h1)"
    "iter_at V h1 idx i pos" "pos = least_in {k \<in> ?K. [] \<le> k}"
    "kv_db V h1 = kv_db V h" "kv_room V h1 = kv_room V h - 1" "kv_its V h (it_itr i) = None"
    "\<forall>s. s \<noteq> it_itr i \<longrightarrow> kv_its V h1 s = kv_its V h s"
    by (rule lower_bound_at [OF db it room])
  then have at: "iter_at V h1 idx i (Some k)" using k by simp
  obtain i' h2 where n: "iter_next H i h1 = Inr (i', h2)" "it_itr i' = it_itr i"
    "iter_at V h2 idx i' (least_in {k' \<in> index_keys V h1 idx. k < k'})"
    "kv_db V h2 = kv_db V h1" "kv_room V h2 = kv_room V h1"
    "\<forall>s. s \<noteq> it_itr i \<longrightarrow> kv_its V h2 s = kv_its V h1 s"
    by (rule next_at [OF db it at])
  have K: "index_keys V h1 idx = ?K" using i(4) by (simp add: index_keys_def)
  have st: "it_stat i \<noteq> iterator_end" using at by (simp add: iter_at_def position_status_def iterator_end_def)
  have "riter_prev H (index_end idx) h = (if it_stat i' = iterator_end
      then Inl (Check ''decremented past the beginning'') else Inr (i', h2))"
    using i(1) n(1) st
    by (auto simp: riter_prev_def index_end_def index_lower_bound_def iter_next_def split: prod.splits)
  then show ?thesis
    using n(3) unfolding K
    by (auto simp: iter_at_def position_status_def iterator_end_def split: option.splits)
qed
end
