(* ===== verification/KvProps.thy ===== *)
theory KvProps
  imports KvIterSafe
begin

text \<open>
  The properties of the key-value tables of \<open>kv.hpp\<close>, each with an instance on \<open>mem_host\<close> and a
  table of pairs with one secondary index.
\<close>

section \<open>A concrete table\<close>

type_synonym demo_row = "u8 \<times> u8"

definition demo_codec :: "demo_row kv_codec" where
  "demo_codec = \<lparr>pack_value = (\<lambda>(a, b). [a, b]),
     unpack_value = (\<lambda>bs. case bs of [a, b] \<Rightarrow> Inr (a, b) | _ \<Rightarrow> Inl (Check ''read'')),
     pack_varint = (\<lambda>n. [ucast n]),
     unpack_varint = (\<lambda>bs. case bs of [] \<Rightarrow> Inl (Check ''read'') | b # r \<Rightarrow> Inr (ucast b, r)),
     is_variant = False, default_value = (0, 0)\<rparr>"

definition demo_table :: "demo_row kv_table" where
  "demo_table = table_init tuple_key 7 1 (new_index 1 (\<lambda>(a, b). [a])) [new_index 2 (\<lambda>(a, b). [b])]"

definition by_second :: "demo_row kv_index" where
  "by_second = hd (tbl_secondary demo_table)"

lemma demo_codec_ok: "codec_ok demo_codec"
  by (simp add: codec_ok_def demo_codec_def split: prod.splits)

lemma demo_table_ok: "table_ok tuple_key demo_table"
  unfolding demo_table_def by (rule table_init_ok [OF tuple_key_ok]) (simp add: new_index_def)

lemma demo_primary_key: "primary_key demo_table (a, b) = [a]"
  by (simp add: primary_key_def demo_table_def table_init_def setup_indices_def index_setup_def
      new_index_def Let_def)

lemma demo_secondary: "tbl_secondary demo_table = [by_second]"
  by (simp add: by_second_def demo_table_def table_init_def setup_indices_def Let_def)

lemma by_second_key [simp]: "idx_key_function by_second (a, b) = [b]"
  by (simp add: by_second_def demo_table_def table_init_def setup_indices_def index_setup_def
      new_index_def Let_def)

lemma by_second_index: "table_index demo_table by_second"
  by (simp add: table_index_def demo_secondary)

lemma demo_empty_rep:
  "table_rep tuple_key demo_codec demo_table (kv_db mem_view empty_host (tbl_contract demo_table)) Map.empty"
  by (simp add: table_rep_def secondary_rep_def mem_view_def empty_host_def)

lemma demo_no_conflict: "\<not> conflicts T Map.empty v idx"
  by (simp add: conflicts_def)

text \<open>A host that holds the row \<open>(1, 2)\<close>, and one that holds \<open>(1, 2)\<close> and \<open>(3, 4)\<close>.\<close>

lemma demo_one_row:
  obtains h where "table_rep tuple_key demo_codec demo_table
    (kv_db mem_view h (tbl_contract demo_table)) (Map.empty([1] \<mapsto> (1, 2)))"
    "kv_room mem_view h = 4294967295"
proof -
  define h where "h = projr (table_put mem_host tuple_key demo_codec demo_table (1, 2) empty_host)"
  have put: "is_ok (table_put mem_host tuple_key demo_codec demo_table (1, 2) empty_host)"
    by code_simp
  have "\<exists>h'. table_put mem_host tuple_key demo_codec demo_table (1, 2) empty_host = Inr h'
    \<and> table_rep tuple_key demo_codec demo_table (kv_db mem_view h' (tbl_contract demo_table))
        (Map.empty(primary_key demo_table (1, 2) \<mapsto> (1, 2)))
    \<and> kept_outside tuple_key demo_table (idx_name ` set (tbl_primary demo_table # tbl_secondary demo_table))
        mem_view empty_host h'"
    by (rule table_put_ok [OF mem_host_db_ok demo_table_ok demo_codec_ok demo_empty_rep demo_no_conflict])
  then have "table_rep tuple_key demo_codec demo_table (kv_db mem_view h (tbl_contract demo_table))
      (Map.empty([1] \<mapsto> (1, 2)))"
    unfolding h_def demo_primary_key by fastforce
  moreover have "length (mh_its h) = 0" unfolding h_def by code_simp
  then have "kv_room mem_view h = 4294967295" by (simp add: mem_view_def)
  ultimately show ?thesis by (rule that)
qed

section \<open>Storing rows\<close>

text \<open>
  C4. put stores the row under its primary key and nothing else changes: if no other row has one
  of its secondary keys, the call succeeds, the table then represents the map updated at the
  primary key (with every secondary index pointing at the rows' new keys and old secondary keys
  gone), and pairs of other tables, indexes and contracts are untouched.
\<close>

theorem kv_put_updates_row:
  assumes "kv_db_ok H V" "table_ok to_key T" "codec_ok C"
    and "table_rep to_key C T (kv_db V h (tbl_contract T)) M"
    and "\<And>idx. idx \<in> set (tbl_secondary T) \<Longrightarrow> \<not> conflicts T M v idx"
  shows "\<exists>h'. table_put H to_key C T v h = Inr h'
    \<and> table_rep to_key C T (kv_db V h' (tbl_contract T)) (M(primary_key T v \<mapsto> v))
    \<and> kept_outside to_key T (idx_name ` set (tbl_primary T # tbl_secondary T)) V h h'"
  using assms by (rule table_put_ok)

theorem kv_put_updates_row_witness:
  "\<exists>h'. table_put mem_host tuple_key demo_codec demo_table (1, 2) empty_host = Inr h'
    \<and> table_rep tuple_key demo_codec demo_table (kv_db mem_view h' (tbl_contract demo_table))
        (Map.empty([1] \<mapsto> (1, 2)))"
  using kv_put_updates_row [OF mem_host_db_ok demo_table_ok demo_codec_ok demo_empty_rep
      demo_no_conflict, of "(1, 2)"]
  by (auto simp: demo_primary_key)

text \<open>
  put never breaks the uniqueness of a secondary key: when another row already has one of
  the value's secondary keys, the call is rejected.
\<close>

theorem kv_put_rejects_conflict:
  assumes "kv_db_ok H V" "table_ok to_key T" "codec_ok C"
    and "table_rep to_key C T (kv_db V h (tbl_contract T)) M"
    and "idx \<in> set (tbl_secondary T)" "conflicts T M v idx"
  shows "\<not> is_ok (table_put H to_key C T v h)"
  using assms by (rule table_put_conflict)

theorem kv_put_rejects_conflict_witness:
  "\<exists>h. \<not> is_ok (table_put mem_host tuple_key demo_codec demo_table (9, 2) h)"
proof -
  obtain h where h: "table_rep tuple_key demo_codec demo_table
      (kv_db mem_view h (tbl_contract demo_table)) (Map.empty([1] \<mapsto> (1, 2)))"
    by (rule demo_one_row)
  have "conflicts demo_table (Map.empty([1] \<mapsto> (1, 2))) (9, 2) by_second"
    unfolding conflicts_def by (rule exI [of _ "(1, 2)"]) (simp add: demo_primary_key)
  with kv_put_rejects_conflict [OF mem_host_db_ok demo_table_ok demo_codec_ok h, of by_second "(9, 2)"]
  show ?thesis by (auto simp: demo_secondary)
qed

text \<open>
  C5. erase removes exactly one row: called with the value that is stored, it leaves the table
  representing the map without that row; called with a value whose primary key is not in the
  table, it changes nothing.
\<close>

theorem kv_erase_removes_row:
  assumes "kv_db_ok H V" "table_ok to_key T" "codec_ok C"
    and "table_rep to_key C T (kv_db V h (tbl_contract T)) M"
    and "M (primary_key T v) = Some v" "M (primary_key T w) = None"
  shows "table_rep to_key C T (kv_db V (table_erase H to_key T v h) (tbl_contract T))
      (M(primary_key T v := None))
    \<and> kv_db V (table_erase H to_key T w h) = kv_db V h"
  using table_erase_stored [OF assms(1-5)] table_erase_missing [OF assms(1,4,6)] by blast

theorem kv_erase_removes_row_witness:
  "\<exists>h. table_rep tuple_key demo_codec demo_table
     (kv_db mem_view (table_erase mem_host tuple_key demo_table (1, 2) h) (tbl_contract demo_table)) Map.empty"
proof -
  obtain h where h: "table_rep tuple_key demo_codec demo_table
      (kv_db mem_view h (tbl_contract demo_table)) (Map.empty([1] \<mapsto> (1, 2)))"
    by (rule demo_one_row)
  from kv_erase_removes_row [OF mem_host_db_ok demo_table_ok demo_codec_ok h, of "(1, 2)" "(3, 4)"]
  show ?thesis by (auto simp: demo_primary_key)
qed

text \<open>
  C6. A lookup through any index of the table, primary or secondary, returns the row with that
  key when there is one and nothing otherwise, and \<open>exists\<close> agrees with it.
\<close>

theorem kv_get_finds_row:
  assumes "kv_db_ok H V" "table_ok to_key T" "codec_ok C"
    and "table_rep to_key C T (kv_db V h (tbl_contract T)) M" "table_index T idx"
  shows "(\<forall>v. row_of T M idx k v \<longrightarrow> (\<exists>h'. index_get_key H C T idx k h = Inr (Some v, h') \<and> same_host V h h'))
    \<and> ((\<forall>v. \<not> row_of T M idx k v) \<longrightarrow> (\<exists>h'. index_get_key H C T idx k h = Inr (None, h') \<and> same_host V h h'))
    \<and> (fst (index_exists H idx k h) \<longleftrightarrow> (\<exists>v. row_of T M idx k v))"
  using index_get_row [OF assms] index_get_none [OF assms(1,2,4,5)] index_exists_iff [OF assms(1,2,4,5)]
  by metis

theorem kv_get_finds_row_witness:
  "\<exists>h h'. index_get_key mem_host demo_codec demo_table by_second [2] h = Inr (Some (1, 2), h')"
proof -
  obtain h where h: "table_rep tuple_key demo_codec demo_table
      (kv_db mem_view h (tbl_contract demo_table)) (Map.empty([1] \<mapsto> (1, 2)))"
    by (rule demo_one_row)
  have "row_of demo_table (Map.empty([1] \<mapsto> (1, 2))) by_second [2] (1, 2)"
    by (simp add: row_of_def demo_primary_key)
  with kv_get_finds_row [OF mem_host_db_ok demo_table_ok demo_codec_ok h by_second_index, of "[2]"]
  show ?thesis by blast
qed

text \<open>
  C7. range returns, for any index, exactly the rows whose key is at least the first bound and
  below the second, in strictly ascending order of that key, and leaves the database as it was.
  One more iteration than there are rows is always enough.
\<close>

theorem kv_range_sorted_complete:
  assumes "kv_db_ok H V" "kv_it_ok H V" "table_ok to_key T" "codec_ok C" "table_index T idx"
    and "table_rep to_key C T (kv_db V h (tbl_contract T)) M"
    and "2 \<le> kv_room V h" "card (dom M) < n"
  shows "\<exists>vs h'. index_range n H C T idx b e h = Some (Inr (vs, h'))
    \<and> sorted_wrt (<) (map (idx_key_function idx) vs)
    \<and> set vs = {v. M (primary_key T v) = Some v \<and> b \<le> idx_key_function idx v \<and> idx_key_function idx v < e}
    \<and> kv_db V h' = kv_db V h"
  using assms by (rule index_range_rows)

theorem kv_range_sorted_complete_witness:
  "\<exists>h vs h'. index_range 2 mem_host demo_codec demo_table by_second [0] [9] h = Some (Inr (vs, h'))
    \<and> (1, 2) \<in> set vs"
proof -
  obtain h where h: "table_rep tuple_key demo_codec demo_table
      (kv_db mem_view h (tbl_contract demo_table)) (Map.empty([1] \<mapsto> (1, 2)))"
    "kv_room mem_view h = 4294967295"
    by (rule demo_one_row)
  from kv_range_sorted_complete [OF mem_host_db_ok mem_host_it_ok demo_table_ok demo_codec_ok
      by_second_index h(1), of 2 "[0]" "[9]"] h(2)
  show ?thesis by (fastforce simp: demo_primary_key)
qed

text \<open>
  find positions an iterator: at the given key when the index has it, and otherwise the result
  is the end iterator (and the host iterator it opened is destroyed).
\<close>

theorem kv_find_positions:
  assumes "kv_db_ok H V" "kv_it_ok H V" "0 < kv_room V h"
  shows "\<exists>i h'. index_find H idx key h = (i, h') \<and> kv_db V h' = kv_db V h
    \<and> (if key \<in> index_keys V h idx then iter_at V h' idx i (Some key) else i = index_end idx)"
proof -
  obtain i h' where "index_find H idx key h = (i, h')" "kv_db V h' = kv_db V h"
    "key \<in> index_keys V h idx \<longrightarrow> iter_at V h' idx i (Some key)"
    "key \<notin> index_keys V h idx \<longrightarrow> i = index_end idx"
    by (rule index_find_at [OF assms])
  then show ?thesis by auto
qed

theorem kv_find_positions_witness:
  "\<exists>h'. index_find mem_host by_second [5] empty_host = (index_end by_second, h')"
  using kv_find_positions [OF mem_host_db_ok mem_host_it_ok, of empty_host by_second "[5]"]
  by (auto simp: mem_view_def empty_host_def index_keys_def prefixed_def)

section \<open>Defects\<close>

text \<open>
  A reverse iterator stepped back from \<open>rend()\<close> should stand at the row with the lowest key, the
  last one a reverse walk visits. It opens the index at the lowest key and then moves past it:
  it stands at the second-lowest key, and aborts when the index has only one row.
\<close>

theorem kv_rend_decrement_skips_row:
  assumes "kv_db_ok H V" "kv_it_ok H V" "0 < kv_room V h"
    and "least_in (index_keys V h idx) = Some k"
  shows "case least_in {k' \<in> index_keys V h idx. k < k'} of
      None \<Rightarrow> riter_prev H (index_end idx) h = Inl (Check ''decremented past the beginning'')
    | Some k2 \<Rightarrow> (\<exists>i h'. riter_prev H (index_end idx) h = Inr (i, h') \<and> iter_at V h' idx i (Some k2))"
  using assms by (rule riter_prev_end_skips)

theorem kv_rend_decrement_skips_row_witness:
  "\<exists>h. riter_prev mem_host (index_end by_second) h = Inl (Check ''decremented past the beginning'')"
proof -
  obtain h where h: "table_rep tuple_key demo_codec demo_table
      (kv_db mem_view h (tbl_contract demo_table)) (Map.empty([1] \<mapsto> (1, 2)))"
    "kv_room mem_view h = 4294967295"
    by (rule demo_one_row)
  have "index_keys mem_view h by_second = {index_entry tuple_key demo_table by_second [2]}"
    using index_keys_entries [OF demo_table_ok h(1) by_second_index]
    by (auto simp: row_of_def demo_primary_key split: if_splits)
  with kv_rend_decrement_skips_row [OF mem_host_db_ok mem_host_it_ok, of h by_second] h(2)
  show ?thesis by (auto simp: least_in_def)
qed

text \<open>
  erase takes the secondary keys from the value it is given, not from the stored row: erasing
  with a value that has the row's primary key and a different secondary key removes the row but
  leaves its secondary entry behind, and a lookup by that entry then aborts.
\<close>

theorem kv_erase_leaves_stale_entry:
  assumes "kv_db_ok H V" "table_ok to_key T" "codec_ok C"
    and "table_rep to_key C T (kv_db V h (tbl_contract T)) M"
    and "M (primary_key T u) = Some u" "primary_key T v = primary_key T u"
    and "idx \<in> set (tbl_secondary T)" "idx_key_function idx v \<noteq> idx_key_function idx u"
  shows "index_get_key H C T idx (idx_key_function idx u) (table_erase H to_key T v h)
    = Inl (Check ''failure getting primary key'')"
  using assms by (rule erase_stale_entry)

theorem kv_erase_leaves_stale_entry_witness:
  "\<exists>h. index_get_key mem_host demo_codec demo_table by_second [2]
      (table_erase mem_host tuple_key demo_table (1, 7) h) = Inl (Check ''failure getting primary key'')"
proof -
  obtain h where h: "table_rep tuple_key demo_codec demo_table
      (kv_db mem_view h (tbl_contract demo_table)) (Map.empty([1] \<mapsto> (1, 2)))"
    by (rule demo_one_row)
  from kv_erase_leaves_stale_entry [OF mem_host_db_ok demo_table_ok demo_codec_ok h, of "(1, 2)" "(1, 7)" by_second]
  show ?thesis by (auto simp: demo_primary_key demo_secondary)
qed

end
