(* ===== verification/ByteBlocks.thy ===== *)
theory ByteBlocks
  imports Memory
begin

text \<open>
  Blocks of bytes in the linear memory: the contents of an address range, and writing a list of
  bytes, as \<open>memcpy\<close> from a source that does not overlap the target.
\<close>

section \<open>Bytes in memory\<close>

definition bytes_at :: "memory \<Rightarrow> u32 \<Rightarrow> nat \<Rightarrow> bytes" where
  "bytes_at m a n = map (\<lambda>i. m (a + of_nat i)) [0..<n]"

fun store_bytes :: "u32 \<Rightarrow> bytes \<Rightarrow> memory \<Rightarrow> memory" where
  "store_bytes a [] m = m"
| "store_bytes a (b # bs) m = store_bytes (a + 1) bs (m(a := b))"

lemma length_bytes_at [simp]: "length (bytes_at m a n) = n"
  by (simp add: bytes_at_def)

lemma bytes_at_0 [simp]: "bytes_at m a 0 = []"
  by (simp add: bytes_at_def)

lemma bytes_at_add: "bytes_at m a (n + k) = bytes_at m a n @ bytes_at m (a + of_nat n) k"
  by (rule nth_equalityI) (auto simp: bytes_at_def nth_append add.assoc simp flip: of_nat_add)

lemma bytes_at_Suc: "bytes_at m a (Suc n) = m a # bytes_at m (a + 1) n"
  using bytes_at_add [of m a 1 n] by (simp add: bytes_at_def)

lemma bytes_at_cong: "(\<And>i. i < n \<Longrightarrow> m (a + of_nat i) = m' (a + of_nat i)) \<Longrightarrow> bytes_at m a n = bytes_at m' a n"
  by (simp add: bytes_at_def)

lemma take_bytes_at: "n \<le> k \<Longrightarrow> take n (bytes_at m a k) = bytes_at m a n"
  using bytes_at_add [of m a n "k - n"] by simp

lemma drop_bytes_at: "n \<le> k \<Longrightarrow> drop n (bytes_at m a k) = bytes_at m (a + of_nat n) (k - n)"
  using bytes_at_add [of m a n "k - n"] by simp

lemma unat_addr_add: "unat (a :: u32) + i < 4294967296 \<Longrightarrow> unat (a + of_nat i) = unat a + i"
  by (simp add: w32)

lemma store_bytes_outside:
  "unat a + length bs \<le> 4294967296 \<Longrightarrow> unat x < unat a \<or> unat a + length bs \<le> unat x \<Longrightarrow> store_bytes a bs m x = m x"
proof (induction bs arbitrary: a m)
  case (Cons b bs)
  show ?case
  proof (cases "bs = []")
    case False
    then have "unat a + 1 < 4294967296" using Cons.prems(1) by (cases bs) auto
    then have "unat (a + 1) = unat a + 1" using unat_addr_add [of a 1] by simp
    moreover have "x \<noteq> a" using Cons.prems(2) by auto
    ultimately have "store_bytes (a + 1) bs (m(a := b)) x = (m(a := b)) x"
      by (intro Cons.IH) (use Cons.prems in auto)
    then show ?thesis using \<open>x \<noteq> a\<close> by simp
  qed (use Cons.prems in auto)
qed simp

lemma bytes_at_store_bytes:
  "unat a + length bs \<le> 4294967296 \<Longrightarrow> bytes_at (store_bytes a bs m) a (length bs) = bs"
proof (induction bs arbitrary: a m)
  case (Cons b bs)
  show ?case
  proof (cases "bs = []")
    case True
    then show ?thesis by (simp add: bytes_at_Suc)
  next
    case False
    then have "unat a + 1 < 4294967296" using Cons.prems by (cases bs) auto
    then have a1: "unat (a + 1) = unat a + 1" using unat_addr_add [of a 1] by simp
    have "store_bytes (a + 1) bs (m(a := b)) a = b" using store_bytes_outside [of "a + 1" bs a] a1 Cons.prems by simp
    moreover have "bytes_at (store_bytes (a + 1) bs (m(a := b))) (a + 1) (length bs) = bs"
      by (rule Cons.IH) (use a1 Cons.prems in simp)
    ultimately show ?thesis by (simp add: bytes_at_Suc)
  qed
qed simp

lemma bytes_at_store_before:
  assumes "unat a + n \<le> unat b" and "unat b + length bs \<le> 4294967296"
  shows "bytes_at (store_bytes b bs m) a n = bytes_at m a n"
proof (rule bytes_at_cong)
  fix i assume i: "i < n"
  then have "unat a + i < 4294967296" using assms unat_lt32 [of b] by linarith
  from unat_addr_add [OF this] show "store_bytes b bs m (a + of_nat i) = m (a + of_nat i)"
    using store_bytes_outside [of b bs "a + of_nat i" m] assms i by simp
qed

end
