(* ===== verification/StackBuffer.thy ===== *)
theory StackBuffer
  imports SimpleMallocSafe ByteBlocks
begin

text \<open>
  Buffers that lie on the stack up to 512 bytes and are blocks of the heap beyond, as actions, transactions
  and printed keys take them, and that taking one, filling it and giving it back keeps the heap.
\<close>

section \<open>Taking and freeing\<close>

definition max_stack_buffer_size :: u32 where
  "max_stack_buffer_size = 512"

definition take_buffer :: "u32 \<Rightarrow> u32 \<Rightarrow> dsmalloc \<Rightarrow> (u32 \<times> dsmalloc) result" where
  "take_buffer stack n s = (if max_stack_buffer_size < n then c_malloc n s else Inr (stack, s))"

definition free_memory :: "u32 \<Rightarrow> u32 \<Rightarrow> dsmalloc \<Rightarrow> dsmalloc" where
  "free_memory n buf s = (if max_stack_buffer_size < n then c_free buf s else s)"

section \<open>The cycle of a buffer\<close>

lemma heap_inv_base: "heap_inv hb s held \<Longrightarrow> hb < 2147483648"
  using heap_geometry_last [of hb s] by (auto simp: heap_inv_def ds_inv_def heap_geometry_def)

lemma heap_inv_below:
  assumes "heap_inv hb s held" and "same_on {hb..} (mem s) m"
  shows "heap_inv hb (s\<lparr>mem := m\<rparr>) held \<and> keeps held (mem s) m"
proof -
  obtain xs fls where xs: "mset (map fst xs) = mset held" "\<forall>x \<in> set xs. serves x" "ds_inv hb s (map snd xs) fls"
    using assms(1) by (auto simp: heap_inv_def)
  have hi: "unat (last_ptr s) < 2147483648" using heap_inv_in_heap heap_geometry_last [of hb s] xs(3) by (simp only: ds_inv_def)
  have ok: "block_ok hb (unat (last_ptr s)) b" if "b \<in> set (heap_blocks (map snd xs) fls (bigchunks s))" for b
    using xs(3) that by (simp add: ds_inv_def blocks_ok_def)
  have hdr: "same_on (cells (fst b) 8) (mem s) m \<and> unat (fst b) + 8 \<le> 4294967296"
    if "b \<in> set (heap_blocks (map snd xs) fls (bigchunks s))" for b
    using ok [OF that] hi assms(2)
    by (intro conjI same_on_mono [OF assms(2)])
       (auto simp: block_ok_def within_def block_region_def cells_def)
  have "mem_ok m (map snd xs) (free_lists s) fls"
  proof (rule mem_ok_frame [of "mem s"])
    show "mem_ok (mem s) (map snd xs) (free_lists s) fls" "length fls = 15" using xs(3) by (simp_all only: ds_inv_def)
  qed (rule hdr, simp only: heap_blocks_def set_append Un_iff simp_thms)+
  then have "ds_inv hb (s\<lparr>mem := m\<rparr>) (map snd xs) fls"
    using xs(3) by (simp add: ds_inv_def heap_geometry_def)
  then have "heap_inv hb (s\<lparr>mem := m\<rparr>) held" using xs unfolding heap_inv_def by blast
  moreover have "keeps held (mem s) m"
    unfolding keeps_def
  proof
    fix b assume "b \<in> set held"
    then have "hb + 16 \<le> unat (fst b)" using heap_inv_in_heap(1) [OF assms(1), of "fst b" "snd b"] by simp
    then show "same_on (payload b) (mem s) m"
      by (intro same_on_mono [OF assms(2)]) (auto simp: payload_def cells_def)
  qed
  ultimately show ?thesis by simp
qed

lemma store_same_below:
  "unat a + length bs \<le> hb \<Longrightarrow> hb \<le> 4294967296 \<Longrightarrow> same_on {hb..} m (store_bytes a bs m)"
  using store_bytes_outside [of a bs _ m] by (auto simp: same_on_def)

lemma store_same_payload:
  "unat a + length bs \<le> 4294967296 \<Longrightarrow> length bs \<le> unat n \<Longrightarrow> same_on (- payload (a, n)) m (store_bytes a bs m)"
  using store_bytes_outside [of a bs _ m] by (auto simp: same_on_def payload_def cells_def)

text \<open>Taking a buffer, filling it and giving it back keeps the heap and the blocks that were held.\<close>

lemma buffer_cycle:
  assumes "heap_inv hb s held" and "unat stack + 512 \<le> hb"
    and "take_buffer stack n s = Inr (buffer, s1)" and "unat n < 4294967265" and "length data \<le> unat n"
  defines "s2 \<equiv> s1\<lparr>mem := store_bytes buffer data (mem s1)\<rparr>"
  shows "heap_inv hb (free_memory n buffer s2) held \<and> keeps held (mem s) (mem (free_memory n buffer s2))
    \<and> unat buffer + unat n < 4294967296"
proof (cases "max_stack_buffer_size < n")
  case True
  then have "fits n" using assms(4) by (auto simp: fits_def max_stack_buffer_size_def)
  with True assms(3) have a: "heap_inv hb s1 ((buffer, n) # held)" "keeps held (mem s) (mem s1)"
    using c_malloc_inv [OF assms(1), of n buffer s1] by (simp_all add: take_buffer_def)
  have bound: "unat buffer + unat n < 4294967296" using heap_inv_in_heap(2,5) [OF a(1), of buffer n] by simp
  have "heap_inv hb s2 ((buffer, n) # held) \<and> keeps held (mem s1) (mem s2)"
    unfolding s2_def using heap_write_inv [OF a(1) store_same_payload [of buffer data n]] bound assms(5) by simp
  moreover from this have "heap_inv hb (c_free buffer s2) held \<and> keeps held (mem s2) (mem (c_free buffer s2))"
    using c_free_inv by blast
  ultimately show ?thesis
    using True a(2) bound by (auto simp: free_memory_def intro: sm.keeps_trans)
next
  case False
  have hb: "hb < 2147483648" by (rule heap_inv_base [OF assms(1)])
  from False have n: "unat n \<le> 512" by (simp add: max_stack_buffer_size_def word_le_nat_alt not_less)
  have "buffer = stack" "s1 = s" using False assms(3) by (simp_all add: take_buffer_def)
  then have "heap_inv hb s2 held \<and> keeps held (mem s) (mem s2)"
    unfolding s2_def using heap_inv_below [OF assms(1) store_same_below [of stack data hb "mem s"]] assms(2,5) hb n by simp
  then show ?thesis using False assms(2) hb n \<open>buffer = stack\<close> by (simp add: free_memory_def)
qed

end
