(* ===== verification/KvHex.thy ===== *)
theory KvHex
  imports KvBase StackBuffer HeapProps
begin

text \<open>
  Printing keys of the key-value database in hexadecimal and reading them back: \<open>to_hex\<close> and \<open>from_hex\<close> of
  \<open>contracts/eosio/kv_base.hpp\<close>. The characters are written to a buffer that is on the stack or, for keys of more than 256 bytes,
  a block of the heap; strings and vectors are values here, as in the other theories.
\<close>

section \<open>Definitions\<close>

definition hex_characters :: "u8 list" where
  "hex_characters = [48, 49, 50, 51, 52, 53, 54, 55, 56, 57, 97, 98, 99, 100, 101, 102]"

definition hex_character :: "u8 \<Rightarrow> u8" where
  "hex_character d = hex_characters ! unat d"

text \<open>The loop of \<open>to_hex\<close>: two characters for each byte, written to the memory one after the other.\<close>

fun to_hex_loop :: "key_type \<Rightarrow> u32 \<Rightarrow> memory \<Rightarrow> memory" where
  "to_hex_loop [] b m = m"
| "to_hex_loop (d # ds) b m =
     to_hex_loop ds (b + 1 + 1) ((m(b := hex_character (drop_bit 4 d)))(b + 1 := hex_character (d AND 15)))"

text \<open>The size is doubled in a \<open>uint32_t\<close>, and the wrap-around is what the check looks for.\<close>

definition to_hex :: "u32 \<Rightarrow> key_type \<Rightarrow> dsmalloc \<Rightarrow> (bytes \<times> dsmalloc) result" where
  "to_hex stack k s = (let buffer_size = 2 * of_nat (length k) :: u32 in
     res_bind (check (length k \<le> unat buffer_size) ''length passed into printhex is too large'') (\<lambda>_.
     res_bind (take_buffer stack buffer_size s) (\<lambda>(buffer, s1).
     let s2 = s1\<lparr>mem := to_hex_loop k buffer (mem s1)\<rparr> in
     Inr (bytes_at (mem s2) buffer (unat buffer_size), free_memory buffer_size buffer s2))))"

text \<open>\<open>char\<close> is signed on the target, so a byte above 127 compares below the digit nine.\<close>

definition hex_digit :: "u8 \<Rightarrow> u8" where
  "hex_digit c = (if sint c \<le> 57 then c - 48 else 10 + (c - 97))"

fun from_hex_loop :: "bytes \<Rightarrow> key_type \<Rightarrow> key_type" where
  "from_hex_loop (hic # lowc # str) out =
     from_hex_loop str (out @ [push_bit 4 (hex_digit hic) OR hex_digit lowc])"
| "from_hex_loop _ out = out"

definition from_hex :: "bytes \<Rightarrow> key_type result" where
  "from_hex str = (if even (length str) then Inr (from_hex_loop str [])
     else Inl (Check ''invalid hex string length''))"

section \<open>Texts\<close>

definition hex_text :: "key_type \<Rightarrow> bytes" where
  "hex_text k = concat (map (\<lambda>d. [hex_character (drop_bit 4 d), hex_character (d AND 15)]) k)"

lemma hex_text_simps [simp]:
  "hex_text [] = []" "hex_text (d # ds) = hex_character (drop_bit 4 d) # hex_character (d AND 15) # hex_text ds"
  by (simp_all add: hex_text_def)

lemma length_hex_text [simp]: "length (hex_text k) = 2 * length k"
  by (induction k) simp_all

lemma to_hex_loop_stores: "to_hex_loop ds b m = store_bytes b (hex_text ds) m"
  by (induction ds arbitrary: b m) (simp_all only: to_hex_loop.simps hex_text_simps store_bytes.simps)

lemma from_hex_loop_append: "from_hex_loop str out = out @ from_hex_loop str []"
proof (induction str arbitrary: out rule: induct_list012)
  case (3 hic lowc str)
  show ?case
    by (simp only: from_hex_loop.simps) (subst (1 2) 3(1), simp)
qed simp_all

lemma hex_digit_character: "unat d < 16 \<Longrightarrow> hex_digit (hex_character d) = d"
proof -
  assume "unat d < 16"
  moreover have "d = of_nat (unat d)" by simp
  ultimately obtain i where "d = of_nat i" "i < 16" by blast
  then have "i \<in> {0,1,2,3,4,5,6,7,8,9,10,11,12,13,14,15}" by simp arith
  with \<open>d = of_nat i\<close> show ?thesis
    by (auto simp: hex_digit_def hex_character_def hex_characters_def)
qed

lemma hex_byte: "push_bit 4 (drop_bit 4 d) OR (d AND 15) = (d :: u8)"
proof (rule bit_word_eqI)
  fix n assume n: "n < LENGTH(8)"
  have m: "(15 :: u8) = mask 4" by (simp add: mask_eq_exp_minus_1)
  show "bit (push_bit 4 (drop_bit 4 d) OR (d AND 15)) n = bit d n"
    unfolding m using n by (auto simp: bit_simps)
qed

lemma nibble_bounds: "unat (drop_bit 4 (d :: u8)) < 16" "unat (d AND 15) < 16"
proof -
  have "unat d < 256" using unsigned_less [of d, where 'a = nat] by simp
  then show "unat (drop_bit 4 d) < 16" unfolding unat_drop_bit_eq by (simp add: drop_bit_eq_div)
  have "d AND 15 \<le> 15" by (rule word_and_le1)
  then show "unat (d AND 15) < 16" by (simp add: word_le_nat_alt)
qed

lemma from_hex_text: "from_hex_loop (hex_text ds) [] = ds"
proof (induction ds)
  case (Cons d ds)
  have "unat (drop_bit 4 d) < 16" "unat (d AND 15) < 16" by (rule nibble_bounds)+
  then show ?case using Cons by (simp add: from_hex_loop_append [of _ "[_]"] hex_digit_character hex_byte)
qed simp

lemma hex_text_characters: "set (hex_text ds) \<subseteq> set hex_characters"
proof (induction ds)
  case (Cons d ds)
  have "hex_character x \<in> set hex_characters" if "unat x < 16" for x
    using that unfolding hex_character_def by (intro nth_mem) (simp add: hex_characters_def)
  then show ?case using Cons nibble_bounds [of d] by simp
qed simp

text \<open>Two characters of lower-case hexadecimal determine a byte that is printed as them.\<close>

lemma hex_pair:
  assumes "c \<in> set hex_characters" and "e \<in> set hex_characters"
  shows "hex_character (drop_bit 4 (push_bit 4 (hex_digit c) OR hex_digit e)) = c
    \<and> hex_character ((push_bit 4 (hex_digit c) OR hex_digit e) AND 15) = e"
proof -
  have "\<forall>c \<in> set hex_characters. \<forall>e \<in> set hex_characters. hex_character (drop_bit 4 (push_bit 4 (hex_digit c) OR hex_digit e)) = c
    \<and> hex_character ((push_bit 4 (hex_digit c) OR hex_digit e) AND 15) = e"
    by code_simp
  with assms show ?thesis by blast
qed

lemma hex_text_from:
  "even (length str) \<Longrightarrow> set str \<subseteq> set hex_characters \<Longrightarrow> hex_text (from_hex_loop str []) = str"
proof (induction str rule: induct_list012)
  case (3 c e str)
  then show ?case using hex_pair [of c e] by (simp add: from_hex_loop_append [of _ "[_]"])
qed simp_all

section \<open>The round trip\<close>

lemma double_length: "2 * length k < 4294967296 \<Longrightarrow> unat (2 * of_nat (length k) :: u32) = 2 * length k"
proof -
  assume "2 * length k < 4294967296"
  moreover have "(2 * of_nat (length k) :: u32) = of_nat (2 * length k)" by simp
  ultimately show ?thesis by (simp only: unat_of_nat32)
qed

lemma too_long:
  assumes "2147483648 \<le> length k" and "length k < 4294967296"
  shows "to_hex stack k s = Inl (Check ''length passed into printhex is too large'')"
proof -
  have eq: "(2 * of_nat (length k) :: u32) = of_nat (2 * length k)" by simp
  have "unat (2 * of_nat (length k) :: u32) = (2 * length k) mod 4294967296"
    unfolding eq by (simp only: unat_of_nat take_bit_eq_mod) simp
  also have "\<dots> = 2 * length k - 4294967296"
  proof -
    have "(2 * length k) mod 4294967296 = (2 * length k - 4294967296) mod 4294967296"
      using assms by (intro le_mod_geq) linarith
    moreover have "2 * length k - 4294967296 < 4294967296" using assms by linarith
    ultimately show ?thesis by simp
  qed
  finally have "\<not> length k \<le> unat (2 * of_nat (length k) :: u32)" using assms by linarith
  then show ?thesis by (simp add: to_hex_def)
qed

lemma to_hex_text:
  assumes "heap_inv hb s held" and "unat stack + 512 \<le> hb" and "2 * length k < 4294967265"
    and "length k \<le> 256 \<or> is_ok (c_malloc (2 * of_nat (length k)) s)"
  shows "\<exists>s'. to_hex stack k s = Inr (hex_text k, s') \<and> heap_inv hb s' held \<and> keeps held (mem s) (mem s')"
proof -
  let ?n = "2 * of_nat (length k) :: u32"
  have n: "unat ?n = 2 * length k" using assms(3) by (intro double_length) simp
  have big: "max_stack_buffer_size < ?n \<longleftrightarrow> 256 < length k" unfolding word_less_nat_alt n max_stack_buffer_size_def by simp
  have "\<exists>r. take_buffer stack ?n s = Inr r"
  proof (cases "256 < length k")
    case True
    then have "is_ok (c_malloc ?n s)" using assms(4) by simp
    then show ?thesis unfolding take_buffer_def big using True by (cases "c_malloc ?n s") simp_all
  qed (simp add: take_buffer_def big)
  then obtain buffer s1 where t: "take_buffer stack ?n s = Inr (buffer, s1)" by fastforce
  let ?s2 = "s1\<lparr>mem := store_bytes buffer (hex_text k) (mem s1)\<rparr>"
  have b: "heap_inv hb (free_memory ?n buffer ?s2) held \<and> keeps held (mem s) (mem (free_memory ?n buffer ?s2))
      \<and> unat buffer + 2 * length k < 4294967296"
    using buffer_cycle [OF assms(1,2) t, of "hex_text k"] n assms(3) by simp
  then have "bytes_at (mem ?s2) buffer (2 * length k) = hex_text k"
    using bytes_at_store_bytes [of buffer "hex_text k" "mem s1"] by simp
  then have "to_hex stack k s = Inr (hex_text k, free_memory ?n buffer ?s2)"
    using n t by (simp add: to_hex_def to_hex_loop_stores)
  then show ?thesis using b by blast
qed

lemma to_hex_out_of_memory:
  assumes "2 * length k < 4294967265" and "256 < length k" and "c_malloc (2 * of_nat (length k)) s = Inl e"
  shows "to_hex stack k s = Inl e"
proof -
  let ?n = "2 * of_nat (length k) :: u32"
  have n: "unat ?n = 2 * length k" using assms(1) by (intro double_length) simp
  have "max_stack_buffer_size < ?n" unfolding word_less_nat_alt n max_stack_buffer_size_def using assms(2) by simp
  then have "take_buffer stack ?n s = Inl e" using assms(3) by (simp add: take_buffer_def)
  then show ?thesis using n by (simp add: to_hex_def)
qed

text \<open>
  C8. Printing a key fails only when the key is of more than 256 bytes and the heap block it is printed to cannot
  be allocated, and then with the allocation's error. Otherwise the text is one that \<open>from_hex\<close> reads back to the key, the heap is left in
  order and the blocks the contract holds are unchanged. In the other direction, a text of an even number of the characters 0 to 9 and
  a to f, up to 512 of them, is read as a key that prints as the text itself. (For any other character
  \<open>from_hex\<close> has no check, so there the text is not the one that is printed.)
\<close>
theorem hex_round_trip:
  assumes "heap_inv hb s held" and "unat stack + 512 \<le> hb"
    and "2 * length k < 4294967265"
    and "even (length str)" and "set str \<subseteq> set hex_characters" and "length str \<le> 512"
  shows "(case to_hex stack k s of
        Inl e \<Rightarrow> 256 < length k \<and> c_malloc (2 * of_nat (length k)) s = Inl e
      | Inr (txt, s') \<Rightarrow> (length k \<le> 256 \<or> is_ok (c_malloc (2 * of_nat (length k)) s)) \<and> from_hex txt = Inr k
          \<and> heap_inv hb s' held \<and> keeps held (mem s) (mem s'))
    \<and> (\<exists>key s'. from_hex str = Inr key \<and> to_hex stack key s = Inr (str, s'))"
proof (rule conjI)
  show "case to_hex stack k s of
        Inl e \<Rightarrow> 256 < length k \<and> c_malloc (2 * of_nat (length k)) s = Inl e
      | Inr (txt, s') \<Rightarrow> (length k \<le> 256 \<or> is_ok (c_malloc (2 * of_nat (length k)) s)) \<and> from_hex txt = Inr k
          \<and> heap_inv hb s' held \<and> keeps held (mem s) (mem s')"
  proof (cases "length k \<le> 256 \<or> is_ok (c_malloc (2 * of_nat (length k)) s)")
    case True
    from to_hex_text [OF assms(1-3) True] obtain s' where
      "to_hex stack k s = Inr (hex_text k, s')" "heap_inv hb s' held" "keeps held (mem s) (mem s')" by blast
    moreover have "from_hex (hex_text k) = Inr k" by (simp add: from_hex_def from_hex_text)
    ultimately show ?thesis using True by simp
  next
    case False
    then obtain e where e: "c_malloc (2 * of_nat (length k)) s = Inl e" "256 < length k"
      by (cases "c_malloc (2 * of_nat (length k)) s") auto
    then show ?thesis using to_hex_out_of_memory [OF assms(3)] by simp
  qed
  let ?key = "from_hex_loop str []"
  have t: "hex_text ?key = str" by (rule hex_text_from [OF assms(4,5)])
  then have "2 * length ?key = length str" by (metis length_hex_text)
  then have "2 * length ?key < 4294967265" "length ?key \<le> 256 \<or> is_ok (c_malloc (2 * of_nat (length ?key)) s)"
    using assms(6) by linarith+
  from to_hex_text [OF assms(1,2) this] obtain s' where "to_hex stack ?key s = Inr (str, s')" unfolding t by blast
  then show "\<exists>key s'. from_hex str = Inr key \<and> to_hex stack key s = Inr (str, s')"
    using assms(4) by (intro exI [of _ ?key] exI [of _ s']) (simp add: from_hex_def)
qed

lemma hex_demo: "set [102, 48, 50, 97] \<subseteq> set hex_characters" "to_hex_loop [240, 42] b m = m(b := 102, b + 1 := 48, b + 2 := 50, b + 3 := 97)"
  by (simp_all add: hex_characters_def hex_character_def add.assoc)

theorem hex_round_trip_witness:
  "(case to_hex 64 [240, 42] demo2 of Inl e \<Rightarrow> False | Inr (txt, s') \<Rightarrow> from_hex txt = Inr [240, 42])
    \<and> (\<exists>key s'. from_hex [102, 48, 50, 97] = Inr key \<and> to_hex 64 key demo2 = Inr ([102, 48, 50, 97], s'))"
proof -
  have inv: "heap_inv (unat (4096 :: u32)) demo2 [(4240, 200), (4112, 100)]" by (rule reach_heap_inv [OF demo_start demo2_reach])
  have "(case to_hex 64 [240, 42] demo2 of
        Inl e \<Rightarrow> 256 < length [240, 42 :: u8] \<and> c_malloc (2 * of_nat (length [240, 42 :: u8])) demo2 = Inl e
      | Inr (txt, s') \<Rightarrow> (length [240, 42 :: u8] \<le> 256 \<or> is_ok (c_malloc (2 * of_nat (length [240, 42 :: u8])) demo2)) \<and> from_hex txt = Inr [240, 42]
          \<and> heap_inv (unat (4096 :: u32)) s' [(4240, 200), (4112, 100)] \<and> keeps [(4240, 200), (4112, 100)] (mem demo2) (mem s'))
    \<and> (\<exists>key s'. from_hex [102, 48, 50, 97] = Inr key \<and> to_hex 64 key demo2 = Inr ([102, 48, 50, 97], s'))"
    by (rule hex_round_trip [OF inv _ _ _ hex_demo(1)]) simp_all
  then show ?thesis by (auto split: sum.splits prod.splits)
qed

end
