(* ===== verification/KvLegacy.thy ===== *)
theory KvLegacy
  imports KvTableSafe
begin

text \<open>
  \<open>contracts/eosio/key_value.hpp\<close>: the deprecated \<open>kv_table\<close>, kept beside \<open>kv.hpp\<close> for existing
  contracts. It takes its name and an (ignored) database name as arguments of \<open>init\<close> instead of
  template parameters, and is otherwise written a second time. Each of its operations is modelled
  here and, but for the message with which \<open>operator[]\<close> aborts, shown equal to the operation of \<open>kv.hpp\<close>
  on the table without the database name.
\<close>

section \<open>Tables\<close>

record 'v legacy_table = "'v kv_table" +
  tbl_db_name :: u64

definition legacy_new_index :: "u64 \<Rightarrow> ('v \<Rightarrow> key_type) \<Rightarrow> 'v kv_index" where
  "legacy_new_index name kf = \<lparr>idx_name = name, idx_table = 0, idx_contract = 0, idx_prefix = [],
     idx_key_function = kf\<rparr>"

definition legacy_to_table_key :: "'v kv_index \<Rightarrow> key_type \<Rightarrow> key_type" where
  "legacy_to_table_key idx k = full_key (idx_prefix idx) k"

definition legacy_index_setup :: "prefix_key \<Rightarrow> 'v kv_index \<Rightarrow> 'v kv_index" where
  "legacy_index_setup to_key idx = idx\<lparr>idx_prefix := make_prefix to_key (idx_table idx) (idx_name idx)\<rparr>"

definition legacy_setup_indices :: "prefix_key \<Rightarrow> 'v legacy_table \<Rightarrow> 'v kv_index \<Rightarrow> 'v legacy_table" where
  "legacy_setup_indices to_key T idx =
     T\<lparr>tbl_secondary := tbl_secondary T @
         [legacy_index_setup to_key (idx\<lparr>idx_contract := tbl_contract T, idx_table := tbl_name T\<rparr>)]\<rparr>"

definition legacy_table_init :: "prefix_key \<Rightarrow> u64 \<Rightarrow> u64 \<Rightarrow> u64 \<Rightarrow> 'v kv_index \<Rightarrow> 'v kv_index list
    \<Rightarrow> 'v legacy_table" where
  "legacy_table_init to_key contract table db prim_index indices =
     (let p = legacy_index_setup to_key (prim_index\<lparr>idx_contract := contract, idx_table := table\<rparr>)
      in foldl (legacy_setup_indices to_key)
           \<lparr>tbl_contract = contract, tbl_name = table, tbl_primary_name = idx_name p,
             tbl_primary = p, tbl_secondary = [], tbl_db_name = db\<rparr> indices)"

section \<open>Serialization of rows\<close>

definition legacy_get_size :: "'v kv_codec \<Rightarrow> 'v \<Rightarrow> nat" where
  "legacy_get_size C v = (if is_variant C then length (pack_value C v) else length (pack_value C v) + 1)"

definition legacy_serialize :: "'v kv_codec \<Rightarrow> 'v \<Rightarrow> nat \<Rightarrow> bytes result" where
  "legacy_serialize C v sz =
     (let b = (if is_variant C then pack_value C v else pack_varint C 0 @ pack_value C v)
      in if length b \<le> sz then Inr b
         else Inl (Check ''datastream attempted to write past the end''))"

definition legacy_deserialize :: "'v kv_codec \<Rightarrow> bytes \<Rightarrow> nat \<Rightarrow> 'v result" where
  "legacy_deserialize C buffer sz =
     (if is_variant C then unpack_value C (take sz buffer)
      else case unpack_varint C (take sz buffer) of
             Inl e \<Rightarrow> Inl e
           | Inr (idx, rest) \<Rightarrow>
               if idx = 0 then unpack_value C rest
               else Inl (Check ''there was an error deserializing this value.''))"

section \<open>put and erase\<close>

definition legacy_put_secondary :: "'h kv_host \<Rightarrow> prefix_key \<Rightarrow> 'v legacy_table \<Rightarrow> key_type \<Rightarrow> 'v option \<Rightarrow> 'v
    \<Rightarrow> 'v kv_index \<Rightarrow> 'h \<Rightarrow> 'h result" where
  "legacy_put_secondary H to_key T tbl_key old value idx h =
     (let contract = tbl_contract T; payer = contract;
          sec_tbl_key = full_key (make_prefix to_key (tbl_name T) (idx_name idx)) (idx_key_function idx value)
      in case kv_get H contract sec_tbl_key h of ((sec_found, value_size), h1) \<Rightarrow>
         (case old of
            None \<Rightarrow>
              if sec_found then Inl (Check ''Attempted to store an existing secondary index.'')
              else Inr (kv_set H contract sec_tbl_key tbl_key payer h1)
          | Some old_value \<Rightarrow>
              if sec_found then
                (case kv_get_data H 0 value_size h1 of (copy_size, buffer) \<Rightarrow>
                   if copy_size = length tbl_key \<and> take copy_size buffer = take copy_size tbl_key
                   then Inr h1
                   else Inl (Check ''Attempted to update an existing secondary index.''))
              else
                let old_sec_key = full_key (make_prefix to_key (tbl_name T) (idx_name idx))
                                    (idx_key_function idx old_value);
                    h2 = kv_erase H contract old_sec_key h1
                in Inr (kv_set H contract sec_tbl_key tbl_key payer h2)))"

fun legacy_put_secondaries :: "'h kv_host \<Rightarrow> prefix_key \<Rightarrow> 'v legacy_table \<Rightarrow> key_type \<Rightarrow> 'v option \<Rightarrow> 'v
    \<Rightarrow> 'v kv_index list \<Rightarrow> 'h \<Rightarrow> 'h result" where
  "legacy_put_secondaries H to_key T tbl_key old value [] h = Inr h"
| "legacy_put_secondaries H to_key T tbl_key old value (idx # idxs) h =
     (case legacy_put_secondary H to_key T tbl_key old value idx h of
        Inl e \<Rightarrow> Inl e
      | Inr h' \<Rightarrow> legacy_put_secondaries H to_key T tbl_key old value idxs h')"

definition legacy_table_key :: "prefix_key \<Rightarrow> 'v legacy_table \<Rightarrow> 'v \<Rightarrow> key_type" where
  "legacy_table_key to_key T value =
     full_key (make_prefix to_key (tbl_name T) (idx_name (tbl_primary T)))
       (idx_key_function (tbl_primary T) value)"

definition legacy_put_row :: "'h kv_host \<Rightarrow> 'v kv_codec \<Rightarrow> 'v legacy_table \<Rightarrow> key_type \<Rightarrow> 'v \<Rightarrow> 'h \<Rightarrow> 'h result" where
  "legacy_put_row H C T tbl_key value h =
     (let data_size = legacy_get_size C value in
      case legacy_serialize C value data_size of
        Inl e \<Rightarrow> Inl e
      | Inr data \<Rightarrow> Inr (kv_set H (tbl_contract T) tbl_key data (tbl_contract T) h))"

definition legacy_table_put :: "'h kv_host \<Rightarrow> prefix_key \<Rightarrow> 'v kv_codec \<Rightarrow> 'v legacy_table \<Rightarrow> 'v \<Rightarrow> 'h \<Rightarrow> 'h result" where
  "legacy_table_put H to_key C T value h =
     (let tbl_key = legacy_table_key to_key T value in
      case kv_get H (tbl_contract T) tbl_key h of ((found, value_size), h1) \<Rightarrow>
        (case (if found then
                 (case kv_get_data H 0 value_size h1 of (copy_size, buffer) \<Rightarrow>
                    map_sum id Some (legacy_deserialize C buffer copy_size))
               else Inr None) of
           Inl e \<Rightarrow> Inl e
         | Inr old \<Rightarrow>
             (case legacy_put_secondaries H to_key T tbl_key old value (tbl_secondary T) h1 of
                Inl e \<Rightarrow> Inl e
              | Inr h2 \<Rightarrow> legacy_put_row H C T tbl_key value h2)))"

definition legacy_erase_secondary :: "'h kv_host \<Rightarrow> prefix_key \<Rightarrow> 'v legacy_table \<Rightarrow> 'v \<Rightarrow> 'v kv_index \<Rightarrow> 'h \<Rightarrow> 'h" where
  "legacy_erase_secondary H to_key T value idx h =
     kv_erase H (tbl_contract T)
       (full_key (make_prefix to_key (tbl_name T) (idx_name idx)) (idx_key_function idx value)) h"

definition legacy_table_erase :: "'h kv_host \<Rightarrow> prefix_key \<Rightarrow> 'v legacy_table \<Rightarrow> 'v \<Rightarrow> 'h \<Rightarrow> 'h" where
  "legacy_table_erase H to_key T value h =
     (let tbl_key = legacy_table_key to_key T value in
      case kv_get H (tbl_contract T) tbl_key h of ((found, _), h1) \<Rightarrow>
        if \<not> found then h1
        else kv_erase H (tbl_contract T) tbl_key
               (fold (legacy_erase_secondary H to_key T value) (tbl_secondary T) h1))"

section \<open>Reading through an index\<close>

definition legacy_index_get :: "'h kv_host \<Rightarrow> 'v kv_codec \<Rightarrow> 'v legacy_table \<Rightarrow> 'v kv_index \<Rightarrow> key_type \<Rightarrow> 'h
    \<Rightarrow> ('v option \<times> 'h) result" where
  "legacy_index_get H C T idx key h =
     (case kv_get H (idx_contract idx) key h of ((success, value_size), h1) \<Rightarrow>
        if \<not> success then Inr (None, h1)
        else case kv_get_data H 0 value_size h1 of (copy_size, buffer) \<Rightarrow>
          if idx_name idx \<noteq> tbl_primary_name T then
            (case kv_get H (idx_contract idx) (take copy_size buffer) h1 of ((success2, actual_data_size), h2) \<Rightarrow>
               if \<not> success2 then Inl (Check ''failure getting primary key'')
               else case kv_get_data H 0 actual_data_size h2 of (pk_copy_size, pk_buffer) \<Rightarrow>
                 (case legacy_deserialize C pk_buffer pk_copy_size of
                    Inl e \<Rightarrow> Inl e | Inr v \<Rightarrow> Inr (Some v, h2)))
          else (case legacy_deserialize C buffer copy_size of Inl e \<Rightarrow> Inl e | Inr v \<Rightarrow> Inr (Some v, h1)))"

definition legacy_index_get_key :: "'h kv_host \<Rightarrow> 'v kv_codec \<Rightarrow> 'v legacy_table \<Rightarrow> 'v kv_index \<Rightarrow> key_type \<Rightarrow> 'h
    \<Rightarrow> ('v option \<times> 'h) result" where
  "legacy_index_get_key H C T idx k h = legacy_index_get H C T idx (full_key (idx_prefix idx) k) h"

definition legacy_index_at :: "'h kv_host \<Rightarrow> 'v kv_codec \<Rightarrow> 'v legacy_table \<Rightarrow> 'v kv_index \<Rightarrow> key_type \<Rightarrow> 'h
    \<Rightarrow> ('v \<times> 'h) result" where
  "legacy_index_at H C T idx k h =
     (case legacy_index_get H C T idx (full_key (idx_prefix idx) k) h of
        Inl e \<Rightarrow> Inl e
      | Inr (None, _) \<Rightarrow> Inl (Check ''key_value.hpp:573 Key not found in `[]`'')
      | Inr (Some v, h') \<Rightarrow> Inr (v, h'))"

definition legacy_index_exists :: "'h kv_host \<Rightarrow> 'v kv_index \<Rightarrow> key_type \<Rightarrow> 'h \<Rightarrow> bool \<times> 'h" where
  "legacy_index_exists H idx k h =
     (case kv_get H (idx_contract idx) (full_key (idx_prefix idx) k) h of ((found, _), h1) \<Rightarrow> (found, h1))"

section \<open>Iterators\<close>

definition legacy_iter_destroy :: "'h kv_host \<Rightarrow> 'v kv_iter \<Rightarrow> 'h \<Rightarrow> 'h" where
  "legacy_iter_destroy H it h = (if it_itr it \<noteq> 0 then kv_it_destroy H (it_itr it) h else h)"

definition legacy_iter_move_assign :: "'h kv_host \<Rightarrow> 'v kv_iter \<Rightarrow> 'v kv_iter \<Rightarrow> 'h
    \<Rightarrow> 'v kv_iter \<times> 'v kv_iter \<times> 'h" where
  "legacy_iter_move_assign H target other h =
     (let h' = (if it_itr target \<noteq> 0 then kv_it_destroy H (it_itr target) h else h)
      in (\<lparr>it_itr = it_itr other, it_stat = it_stat other, it_index = it_index other\<rparr>,
          other\<lparr>it_itr := 0\<rparr>, h'))"

definition legacy_iter_good :: "'v kv_iter \<Rightarrow> bool" where
  "legacy_iter_good it \<longleftrightarrow> it_stat it \<noteq> iterator_end"

definition legacy_iter_value :: "'h kv_host \<Rightarrow> 'v kv_codec \<Rightarrow> 'v legacy_table \<Rightarrow> 'v kv_iter \<Rightarrow> 'h
    \<Rightarrow> ('v \<times> 'h) result" where
  "legacy_iter_value H C T it h =
     (if it_stat it = iterator_end then Inl (Check ''Cannot read end iterator'')
      else case kv_it_value H (it_itr it) 0 0 h of (_, _, value_size) \<Rightarrow>
        (case kv_it_value H (it_itr it) 0 value_size h of (stat, buffer, actual_value_size) \<Rightarrow>
           if stat \<noteq> iterator_ok then Inl (Check ''Error reading value'')
           else if idx_name (it_index it) \<noteq> tbl_primary_name T then
             (case kv_get H (idx_contract (it_index it)) (take actual_value_size buffer) h of
                ((success, actual_data_size), h1) \<Rightarrow>
                  if \<not> success then Inl (Check ''failure getting primary key in `value()`'')
                  else case kv_get_data H 0 actual_data_size h1 of (_, pk_buffer) \<Rightarrow>
                    (case legacy_deserialize C pk_buffer actual_data_size of
                       Inl e \<Rightarrow> Inl e | Inr v \<Rightarrow> Inr (v, h1)))
           else (case legacy_deserialize C buffer actual_value_size of
                   Inl e \<Rightarrow> Inl e | Inr v \<Rightarrow> Inr (v, h))))"

definition legacy_iter_key :: "'h kv_host \<Rightarrow> 'v kv_iter \<Rightarrow> 'h \<Rightarrow> key_type result" where
  "legacy_iter_key H it h =
     (case kv_it_key H (it_itr it) 0 0 h of (_, _, value_size) \<Rightarrow>
        (case kv_it_key H (it_itr it) 0 value_size h of (stat, buffer, actual_value_size) \<Rightarrow>
           if stat \<noteq> iterator_ok then Inl (Check ''Error getting key'')
           else Inr (take actual_value_size buffer)))"

definition legacy_iter_compare :: "'h kv_host \<Rightarrow> 'v kv_iter \<Rightarrow> 'v kv_iter \<Rightarrow> 'h \<Rightarrow> int" where
  "legacy_iter_compare H a b h =
     (let a_is_end = (it_itr a = 0 \<or> it_stat a = iterator_end);
          b_is_end = (it_itr b = 0 \<or> it_stat b = iterator_end)
      in if a_is_end \<and> b_is_end then 0
         else if a_is_end \<and> it_itr b \<noteq> 0 then 1
         else if it_itr a \<noteq> 0 \<and> b_is_end then - 1
         else kv_it_compare H (it_itr a) (it_itr b) h)"

definition legacy_iter_next :: "'h kv_host \<Rightarrow> 'v kv_iter \<Rightarrow> 'h \<Rightarrow> ('v kv_iter \<times> 'h) result" where
  "legacy_iter_next H it h =
     (if it_stat it = iterator_end then Inl (Check ''cannot increment end iterator'')
      else case kv_it_next H (it_itr it) h of (stat, h') \<Rightarrow> Inr (it\<lparr>it_stat := stat\<rparr>, h'))"

definition legacy_iter_prev :: "'h kv_host \<Rightarrow> 'v kv_iter \<Rightarrow> 'h \<Rightarrow> ('v kv_iter \<times> 'h) result" where
  "legacy_iter_prev H it h =
     (case (if it_itr it = 0
            then kv_it_create H (idx_contract (it_index it)) (idx_prefix (it_index it)) h
            else (it_itr it, h)) of (itr, h1) \<Rightarrow>
        (case kv_it_prev H itr h1 of (stat, h2) \<Rightarrow>
           if stat = iterator_end then Inl (Check ''decremented past the beginning'')
           else Inr (it\<lparr>it_itr := itr, it_stat := stat\<rparr>, h2)))"

definition legacy_iter_key_compare :: "'h kv_host \<Rightarrow> 'v kv_iter \<Rightarrow> key_type \<Rightarrow> 'h \<Rightarrow> int" where
  "legacy_iter_key_compare H it kt h =
     (if it_itr it = 0 \<or> it_stat it = iterator_end then 1
      else kv_it_key_compare H (it_itr it) kt h)"

definition legacy_riter_next :: "'h kv_host \<Rightarrow> 'v kv_iter \<Rightarrow> 'h \<Rightarrow> ('v kv_iter \<times> 'h) result" where
  "legacy_riter_next H it h =
     (if it_stat it = iterator_end then Inl (Check ''incremented past the end'')
      else case kv_it_prev H (it_itr it) h of (stat, h') \<Rightarrow> Inr (it\<lparr>it_stat := stat\<rparr>, h'))"

definition legacy_riter_prev :: "'h kv_host \<Rightarrow> 'v kv_iter \<Rightarrow> 'h \<Rightarrow> ('v kv_iter \<times> 'h) result" where
  "legacy_riter_prev H it h =
     (case (if it_itr it = 0
            then (case kv_it_create H (idx_contract (it_index it)) (idx_prefix (it_index it)) h of
                    (itr, h1) \<Rightarrow> (case kv_it_lower_bound H itr [] h1 of (_, h2) \<Rightarrow> (itr, h2)))
            else (it_itr it, h)) of (itr, h1) \<Rightarrow>
        (case kv_it_next H itr h1 of (stat, h2) \<Rightarrow>
           if stat = iterator_end then Inl (Check ''decremented past the beginning'')
           else Inr (it\<lparr>it_itr := itr, it_stat := stat\<rparr>, h2)))"

section \<open>Index operations\<close>

definition legacy_index_end :: "'v kv_index \<Rightarrow> 'v kv_iter" where
  "legacy_index_end idx = \<lparr>it_itr = 0, it_stat = iterator_end, it_index = idx\<rparr>"

definition legacy_index_lower_bound :: "'h kv_host \<Rightarrow> 'v kv_index \<Rightarrow> key_type \<Rightarrow> 'h \<Rightarrow> 'v kv_iter \<times> 'h" where
  "legacy_index_lower_bound H idx key h =
     (case kv_it_create H (idx_contract idx) (idx_prefix idx) h of (itr, h1) \<Rightarrow>
        (case kv_it_lower_bound H itr key h1 of (stat, h2) \<Rightarrow>
           (\<lparr>it_itr = itr, it_stat = stat, it_index = idx\<rparr>, h2)))"

definition legacy_index_begin :: "'h kv_host \<Rightarrow> 'v kv_index \<Rightarrow> 'h \<Rightarrow> 'v kv_iter \<times> 'h" where
  "legacy_index_begin H idx h =
     (case kv_it_create H (idx_contract idx) (idx_prefix idx) h of (itr, h1) \<Rightarrow>
        (case kv_it_lower_bound H itr [] h1 of (stat, h2) \<Rightarrow>
           (\<lparr>it_itr = itr, it_stat = stat, it_index = idx\<rparr>, h2)))"

definition legacy_index_rbegin :: "'h kv_host \<Rightarrow> 'v kv_index \<Rightarrow> 'h \<Rightarrow> 'v kv_iter \<times> 'h" where
  "legacy_index_rbegin H idx h =
     (case kv_it_create H (idx_contract idx) (idx_prefix idx) h of (itr, h1) \<Rightarrow>
        (case kv_it_prev H itr h1 of (stat, h2) \<Rightarrow>
           (\<lparr>it_itr = itr, it_stat = stat, it_index = idx\<rparr>, h2)))"

definition legacy_index_find :: "'h kv_host \<Rightarrow> 'v kv_index \<Rightarrow> key_type \<Rightarrow> 'h \<Rightarrow> 'v kv_iter \<times> 'h" where
  "legacy_index_find H idx key h =
     (case kv_it_create H (idx_contract idx) (idx_prefix idx) h of (itr, h1) \<Rightarrow>
        (case kv_it_lower_bound H itr key h1 of (stat, h2) \<Rightarrow>
           if kv_it_key_compare H itr key h2 \<noteq> 0 then (legacy_index_end idx, kv_it_destroy H itr h2)
           else (\<lparr>it_itr = itr, it_stat = stat, it_index = idx\<rparr>, h2)))"

definition legacy_index_upper_bound :: "'h kv_host \<Rightarrow> 'v kv_index \<Rightarrow> key_type \<Rightarrow> 'h
    \<Rightarrow> ('v kv_iter \<times> 'h) result" where
  "legacy_index_upper_bound H idx key h =
     (case legacy_index_lower_bound H idx key h of (it, h1) \<Rightarrow>
        if legacy_iter_key_compare H it key h1 = 0 then legacy_iter_next H it h1 else Inr (it, h1))"

fun legacy_range_loop :: "nat \<Rightarrow> 'h kv_host \<Rightarrow> 'v kv_codec \<Rightarrow> 'v legacy_table \<Rightarrow> 'v kv_iter \<Rightarrow> 'v kv_iter \<Rightarrow> 'v list
    \<Rightarrow> 'h \<Rightarrow> ('v list \<times> 'h) result option" where
  "legacy_range_loop 0 H C T itr end_itr vs h = None"
| "legacy_range_loop (Suc n) H C T itr end_itr vs h =
     (if legacy_iter_compare H itr end_itr h < 0 then
        (case legacy_iter_value H C T itr h of
           Inl e \<Rightarrow> Some (Inl e)
         | Inr (v, h1) \<Rightarrow>
             (case legacy_iter_next H itr h1 of
                Inl e \<Rightarrow> Some (Inl e)
              | Inr (itr', h2) \<Rightarrow> legacy_range_loop n H C T itr' end_itr (vs @ [v]) h2))
      else Some (Inr (vs, legacy_iter_destroy H itr (legacy_iter_destroy H end_itr h))))"

definition legacy_index_range :: "nat \<Rightarrow> 'h kv_host \<Rightarrow> 'v kv_codec \<Rightarrow> 'v legacy_table \<Rightarrow> 'v kv_index \<Rightarrow> key_type \<Rightarrow> key_type
    \<Rightarrow> 'h \<Rightarrow> ('v list \<times> 'h) result option" where
  "legacy_index_range n H C T idx b_key e_key h =
     (case legacy_index_lower_bound H idx (full_key (idx_prefix idx) b_key) h of (itr, h1) \<Rightarrow>
        (case legacy_index_lower_bound H idx (full_key (idx_prefix idx) e_key) h1 of (end_itr, h2) \<Rightarrow>
           legacy_range_loop n H C T itr end_itr [] h2))"

section \<open>Equality with kv.hpp\<close>

abbreviation modern :: "'v legacy_table \<Rightarrow> 'v kv_table" where
  "modern T \<equiv> kv_table.truncate T"

lemma modern_fields [simp]:
  "tbl_contract (modern T) = tbl_contract T" "tbl_name (modern T) = tbl_name T"
  "tbl_primary_name (modern T) = tbl_primary_name T" "tbl_primary (modern T) = tbl_primary T"
  "tbl_secondary (modern T) = tbl_secondary T"
  by (simp_all add: kv_table.truncate_def)

named_theorems legacy_eq \<open>operations of key_value.hpp as operations of kv.hpp\<close>

lemma legacy_new_index_eq [legacy_eq]: "legacy_new_index name kf = new_index name kf"
  unfolding legacy_new_index_def new_index_def by (simp only: legacy_eq modern_fields)

lemma legacy_to_table_key_eq [legacy_eq]: "legacy_to_table_key idx k = to_table_key idx k"
  unfolding legacy_to_table_key_def to_table_key_def by (simp only: legacy_eq modern_fields)

lemma legacy_index_setup_eq [legacy_eq]: "legacy_index_setup to_key idx = index_setup to_key idx"
  unfolding legacy_index_setup_def index_setup_def by (simp only: legacy_eq modern_fields)

lemma legacy_get_size_eq [legacy_eq]: "legacy_get_size C v = get_size C v"
  unfolding legacy_get_size_def get_size_def by (simp only: legacy_eq modern_fields)

lemma legacy_serialize_eq [legacy_eq]: "legacy_serialize C v sz = serialize C v sz"
  unfolding legacy_serialize_def serialize_def by (simp only: legacy_eq modern_fields)

lemma legacy_deserialize_eq [legacy_eq]: "legacy_deserialize C b sz = deserialize C b sz"
  unfolding legacy_deserialize_def deserialize_def by (simp only: legacy_eq modern_fields)

lemma legacy_put_secondary_eq [legacy_eq]: "legacy_put_secondary H to_key T tk old v idx h = put_secondary H to_key (modern T) tk old v idx h"
  unfolding legacy_put_secondary_def put_secondary_def by (simp only: legacy_eq modern_fields)

lemma legacy_put_secondaries_eq [legacy_eq]: "legacy_put_secondaries H to_key T tk old v idxs h = put_secondaries H to_key (modern T) tk old v idxs h"
  by (induction idxs arbitrary: h) (simp_all add: legacy_eq split: sum.splits)

lemma legacy_table_key_eq [legacy_eq]: "legacy_table_key to_key T v = table_key to_key (modern T) v"
  unfolding legacy_table_key_def table_key_def by (simp only: legacy_eq modern_fields)

lemma legacy_put_row_eq [legacy_eq]: "legacy_put_row H C T tk v h = put_row H C (modern T) tk v h"
  unfolding legacy_put_row_def put_row_def by (simp only: legacy_eq modern_fields)

lemma legacy_put_row_fun [legacy_eq]: "legacy_put_row H C T tk v = put_row H C (modern T) tk v"
  by (rule ext) (rule legacy_put_row_eq)

lemma legacy_table_put_eq [legacy_eq]: "legacy_table_put H to_key C T v h = table_put H to_key C (modern T) v h"
  unfolding legacy_table_put_def table_put_def by (simp only: legacy_eq modern_fields)

lemma legacy_erase_secondary_eq [legacy_eq]: "legacy_erase_secondary H to_key T v idx h = erase_secondary H to_key (modern T) v idx h"
  unfolding legacy_erase_secondary_def erase_secondary_def by (simp only: legacy_eq modern_fields)

lemma legacy_erase_secondary_fun [legacy_eq]:
  "legacy_erase_secondary H to_key T v = erase_secondary H to_key (modern T) v"
  by (rule ext)+ (rule legacy_erase_secondary_eq)

lemma legacy_table_erase_eq [legacy_eq]: "legacy_table_erase H to_key T v h = table_erase H to_key (modern T) v h"
  unfolding legacy_table_erase_def table_erase_def by (simp only: legacy_eq modern_fields)

lemma legacy_index_get_eq [legacy_eq]: "legacy_index_get H C T idx k h = index_get H C (modern T) idx k h"
  unfolding legacy_index_get_def index_get_def by (simp only: legacy_eq modern_fields)

lemma legacy_index_get_key_eq [legacy_eq]: "legacy_index_get_key H C T idx k h = index_get_key H C (modern T) idx k h"
  unfolding legacy_index_get_key_def index_get_key_def by (simp only: legacy_eq modern_fields)

lemma legacy_index_exists_eq [legacy_eq]: "legacy_index_exists H idx k h = index_exists H idx k h"
  unfolding legacy_index_exists_def index_exists_def by (simp only: legacy_eq modern_fields)

lemma legacy_iter_destroy_eq [legacy_eq]: "legacy_iter_destroy H it h = iter_destroy H it h"
  unfolding legacy_iter_destroy_def iter_destroy_def by (simp only: legacy_eq modern_fields)

lemma legacy_iter_move_assign_eq [legacy_eq]: "legacy_iter_move_assign H a b h = iter_move_assign H a b h"
  unfolding legacy_iter_move_assign_def iter_move_assign_def by (simp only: legacy_eq modern_fields)

lemma legacy_iter_good_eq [legacy_eq]: "legacy_iter_good it = iter_good it"
  unfolding legacy_iter_good_def iter_good_def by (simp only: legacy_eq modern_fields)

lemma legacy_iter_value_eq [legacy_eq]: "legacy_iter_value H C T it h = iter_value H C (modern T) it h"
  unfolding legacy_iter_value_def iter_value_def by (simp only: legacy_eq modern_fields)

lemma legacy_iter_key_eq [legacy_eq]: "legacy_iter_key H it h = iter_key H it h"
  unfolding legacy_iter_key_def iter_key_def by (simp only: legacy_eq modern_fields)

lemma legacy_iter_compare_eq [legacy_eq]: "legacy_iter_compare H a b h = iter_compare H a b h"
  unfolding legacy_iter_compare_def iter_compare_def by (simp only: legacy_eq modern_fields)

lemma legacy_iter_next_eq [legacy_eq]: "legacy_iter_next H it h = iter_next H it h"
  unfolding legacy_iter_next_def iter_next_def by (simp only: legacy_eq modern_fields)

lemma legacy_iter_prev_eq [legacy_eq]: "legacy_iter_prev H it h = iter_prev H it h"
  unfolding legacy_iter_prev_def iter_prev_def by (simp only: legacy_eq modern_fields)

lemma legacy_iter_key_compare_eq [legacy_eq]: "legacy_iter_key_compare H it k h = iter_key_compare H it k h"
  unfolding legacy_iter_key_compare_def iter_key_compare_def by (simp only: legacy_eq modern_fields)

lemma legacy_riter_next_eq [legacy_eq]: "legacy_riter_next H it h = riter_next H it h"
  unfolding legacy_riter_next_def riter_next_def by (simp only: legacy_eq modern_fields)

lemma legacy_riter_prev_eq [legacy_eq]: "legacy_riter_prev H it h = riter_prev H it h"
  unfolding legacy_riter_prev_def riter_prev_def by (simp only: legacy_eq modern_fields)

lemma legacy_index_end_eq [legacy_eq]: "legacy_index_end idx = index_end idx"
  unfolding legacy_index_end_def index_end_def by (simp only: legacy_eq modern_fields)

lemma legacy_index_lower_bound_eq [legacy_eq]: "legacy_index_lower_bound H idx k h = index_lower_bound H idx k h"
  unfolding legacy_index_lower_bound_def index_lower_bound_def by (simp only: legacy_eq modern_fields)

lemma legacy_index_begin_eq [legacy_eq]: "legacy_index_begin H idx h = index_begin H idx h"
  unfolding legacy_index_begin_def index_begin_def by (simp only: legacy_eq modern_fields)

lemma legacy_index_rbegin_eq [legacy_eq]: "legacy_index_rbegin H idx h = index_rbegin H idx h"
  unfolding legacy_index_rbegin_def index_rbegin_def by (simp only: legacy_eq modern_fields)

lemma legacy_index_find_eq [legacy_eq]: "legacy_index_find H idx k h = index_find H idx k h"
  unfolding legacy_index_find_def index_find_def by (simp only: legacy_eq modern_fields)

lemma legacy_index_upper_bound_eq [legacy_eq]: "legacy_index_upper_bound H idx k h = index_upper_bound H idx k h"
  unfolding legacy_index_upper_bound_def index_upper_bound_def by (simp only: legacy_eq modern_fields)

lemma legacy_range_loop_eq [legacy_eq]: "legacy_range_loop n H C T i j vs h = range_loop n H C (modern T) i j vs h"
  by (induction n arbitrary: i vs h) (simp_all add: legacy_eq split: sum.splits)

lemma legacy_range_loop_fun [legacy_eq]:
  "legacy_range_loop n H C T i j vs = range_loop n H C (modern T) i j vs"
  by (rule ext) (rule legacy_range_loop_eq)

lemma legacy_index_range_eq [legacy_eq]: "legacy_index_range n H C T idx b e h = index_range n H C (modern T) idx b e h"
  unfolding legacy_index_range_def index_range_def by (simp only: legacy_eq modern_fields)

lemma legacy_index_setup_fun: "legacy_index_setup to_key = index_setup to_key"
  by (rule ext) (rule legacy_index_setup_eq)

lemma legacy_setup_indices_fold:
  "modern (foldl (legacy_setup_indices to_key) T idxs) = foldl (setup_indices to_key) (modern T) idxs"
  by (induction idxs arbitrary: T)
     (simp_all add: legacy_setup_indices_def setup_indices_def legacy_index_setup_fun kv_table.truncate_def)

lemma legacy_table_init_eq:
  "modern (legacy_table_init to_key contract table db p idxs) = table_init to_key table contract p idxs"
  unfolding legacy_table_init_def table_init_def Let_def legacy_setup_indices_fold
  by (simp add: legacy_index_setup_fun kv_table.truncate_def)

section \<open>Properties\<close>

text \<open>
  The deprecated \<open>kv_table\<close> of key_value.hpp behaves as the table of kv.hpp: initialisation gives
  the same table whatever the database name, and put, erase, lookup, exists, find and range have the
  same result and the same effect on the host.
\<close>

theorem legacy_table_is_table:
  "modern (legacy_table_init to_key contract table db p idxs) = table_init to_key table contract p idxs
   \<and> legacy_table_put H to_key C T v h = table_put H to_key C (modern T) v h
   \<and> legacy_table_erase H to_key T v h = table_erase H to_key (modern T) v h
   \<and> legacy_index_get_key H C T idx k h = index_get_key H C (modern T) idx k h
   \<and> legacy_index_exists H idx k h = index_exists H idx k h
   \<and> legacy_index_find H idx k h = index_find H idx k h
   \<and> legacy_index_range n H C T idx b e h = index_range n H C (modern T) idx b e h"
  by (simp only: legacy_table_init_eq legacy_eq simp_thms)

end
