(* ===== verification/KvMap.thy ===== *)
theory KvMap
  imports KvHost
begin

text \<open>
  \<open>contracts/eosio/map.hpp\<close> and the key packing of \<open>core/eosio/key_utils.hpp\<close>: an ordered map over the
  key-value intrinsics with an interface like \<open>std::map\<close>. A map type is a table name, an index name,
  a conversion of keys and a packing of values. Elements, iterators and the map's operations follow
  the classes \<open>elem\<close>, \<open>iterator\<close> and \<open>map\<close>.
\<close>

section \<open>const_pack\<close>

text \<open>
  Each argument is copied in memory order (little-endian); arguments of integral type and names
  are then reversed, so that the packed bytes compare as the numbers do.
\<close>

definition const_pack_helper :: "bytes \<Rightarrow> bool \<Rightarrow> bytes" where
  "const_pack_helper arg integral_or_name = (if integral_or_name then rev arg else arg)"

fun const_pack :: "(bytes \<times> bool) list \<Rightarrow> bytes" where
  "const_pack [] = []"
| "const_pack ((arg, i) # args) = const_pack_helper arg i @ const_pack args"

definition memory_bytes :: "u64 \<Rightarrow> bytes" where
  "memory_bytes w = map (\<lambda>i. ucast (drop_bit (8 * i) w)) [0, 1, 2, 3, 4, 5, 6, 7]"

section \<open>Map types and keys\<close>

record ('k, 'v) map_type =
  mt_table :: u64
  mt_index :: u64
  mt_key :: "'k \<Rightarrow> bytes"
  mt_pack :: "'v \<Rightarrow> bytes"
  mt_unpack :: "bytes \<Rightarrow> 'v result"
  mt_default :: 'v

text \<open>The default template argument \<open>"map.index"_n\<close>.\<close>

definition map_index_name :: u64 where
  "map_index_name = 10496209909554085888"

definition magic :: u8 where
  "magic = 1"

definition map_prefix :: "('k, 'v) map_type \<Rightarrow> key_type" where
  "map_prefix M = const_pack [([magic], True), (memory_bytes (mt_table M), True), (memory_bytes (mt_index M), True)]"

definition map_full_key :: "('k, 'v) map_type \<Rightarrow> 'k \<Rightarrow> key_type" where
  "map_full_key M k = key_plus (map_prefix M) (mt_key M k)"

text \<open>
  \<open>self_t\<close>, the type the elements and iterators of a map are built from, leaves the index name out
  of its template arguments and so has the default one.
\<close>

definition self_t :: "('k, 'v) map_type \<Rightarrow> ('k, 'v) map_type" where
  "self_t M = M\<lparr>mt_index := map_index_name\<rparr>"

text \<open>
  \<open>increment_bytes\<close>: the loop from the last byte down. A byte is a signed \<open>char\<close>; one more than it is
  converted to \<open>uint16_t\<close>. The index is unsigned, so a loop that is not left at index zero goes on
  at \<open>2 ^ 32 - 1\<close>, outside the vector.
\<close>

fun increment_loop :: "nat \<Rightarrow> key_type \<Rightarrow> key_type result" where
  "increment_loop i kt =
     (if i < length kt then
        let v = word_of_int (sint (kt ! i) + 1) :: u16;
            kt' = kt[i := ucast v]
        in if v \<le> 255 then Inr kt'
           else (case i of 0 \<Rightarrow> Inl (Trap ''increment_bytes: index out of range'')
                 | Suc j \<Rightarrow> increment_loop j kt')
      else Inl (Trap ''increment_bytes: index out of range''))"

definition increment_bytes :: "key_type \<Rightarrow> key_type result" where
  "increment_bytes kt = (case length kt of
     0 \<Rightarrow> Inl (Trap ''increment_bytes: index out of range'') | Suc j \<Rightarrow> increment_loop j kt)"

section \<open>Elements and iterators\<close>

record 'v elem =
  el_key :: key_type
  el_value :: 'v
  el_payer :: u64

definition new_elem :: "('k, 'v) map_type \<Rightarrow> 'k \<Rightarrow> 'v \<Rightarrow> u64 \<Rightarrow> 'v elem" where
  "new_elem M k v p = \<lparr>el_key = map_full_key (self_t M) k, el_value = v, el_payer = p\<rparr>"

definition elem_eq :: "'v elem \<Rightarrow> 'v elem \<Rightarrow> bool" where
  "elem_eq a b \<longleftrightarrow> el_key a = el_key b \<and> el_value a = el_value b"

record map_iter =
  mi_handle :: u32
  mi_status :: int

definition invalidated_iterator :: u32 where
  "invalidated_iterator = - 1"

definition status_ok :: int where "status_ok = 0"
definition status_erased :: int where "status_erased = - 1"
definition status_end :: int where "status_end = - 2"

definition mi_new :: "'h kv_host \<Rightarrow> ('k, 'v) map_type \<Rightarrow> u64 \<Rightarrow> 'h \<Rightarrow> map_iter \<times> 'h" where
  "mi_new H M owner h = (case kv_it_create H owner (map_prefix (self_t M)) h of (r, h1) \<Rightarrow>
     (\<lparr>mi_handle = r, mi_status = status_ok\<rparr>, h1))"

definition mi_destroy :: "'h kv_host \<Rightarrow> map_iter \<Rightarrow> 'h \<Rightarrow> 'h" where
  "mi_destroy H it h = (if mi_handle it \<noteq> invalidated_iterator then kv_it_destroy H (mi_handle it) h else h)"

definition mi_move_assign :: "'h kv_host \<Rightarrow> map_iter \<Rightarrow> map_iter \<Rightarrow> 'h \<Rightarrow> map_iter \<times> map_iter \<times> 'h" where
  "mi_move_assign H target o' h =
     (let h1 = (if mi_handle target \<noteq> invalidated_iterator then kv_it_destroy H (mi_handle target) h else h)
      in (\<lparr>mi_handle = mi_handle o', mi_status = mi_status o'\<rparr>,
          o'\<lparr>mi_handle := invalidated_iterator\<rparr>, h1))"

definition mi_valid :: "map_iter \<Rightarrow> bool" where
  "mi_valid it \<longleftrightarrow> mi_status it = status_ok"

definition mi_set_status :: "map_iter \<Rightarrow> int \<times> 'h \<Rightarrow> map_iter \<times> 'h" where
  "mi_set_status it res = (it\<lparr>mi_status := fst res\<rparr>, snd res)"

definition seek_to_begin :: "'h kv_host \<Rightarrow> map_iter \<Rightarrow> 'h \<Rightarrow> map_iter \<times> 'h" where
  "seek_to_begin H it h = mi_set_status it (kv_it_lower_bound H (mi_handle it) [] h)"

definition seek_to_end :: "'h kv_host \<Rightarrow> map_iter \<Rightarrow> 'h \<Rightarrow> map_iter \<times> 'h" where
  "seek_to_end H it h = mi_set_status it (kv_it_move_to_end H (mi_handle it) h)"

definition seek_to_last :: "'h kv_host \<Rightarrow> map_iter \<Rightarrow> 'h \<Rightarrow> map_iter \<times> 'h" where
  "seek_to_last H it h = (case mi_set_status it (kv_it_move_to_end H (mi_handle it) h) of (it1, h1) \<Rightarrow>
     mi_set_status it1 (kv_it_prev H (mi_handle it1) h1))"

definition mi_lower_bound :: "'h kv_host \<Rightarrow> map_iter \<Rightarrow> key_type \<Rightarrow> 'h \<Rightarrow> map_iter \<times> 'h" where
  "mi_lower_bound H it k h = mi_set_status it (kv_it_lower_bound H (mi_handle it) k h)"

definition mi_find :: "'h kv_host \<Rightarrow> map_iter \<Rightarrow> key_type \<Rightarrow> 'h \<Rightarrow> map_iter \<times> 'h" where
  "mi_find H it k h = (case mi_lower_bound H it k h of (it1, h1) \<Rightarrow>
     if kv_it_key_compare H (mi_handle it1) k h1 \<noteq> 0 then seek_to_end H it1 h1 else (it1, h1))"

definition mi_settle :: "'h kv_host \<Rightarrow> map_iter \<times> 'h \<Rightarrow> map_iter \<times> 'h" where
  "mi_settle H res = (case res of (it, h) \<Rightarrow>
     if mi_status it = status_end then seek_to_end H it h else (it, h))"

definition mi_next :: "'h kv_host \<Rightarrow> bool \<Rightarrow> map_iter \<Rightarrow> 'h \<Rightarrow> (map_iter \<times> 'h) result" where
  "mi_next H rvs it h =
     (if rvs then
        (case mi_set_status it (kv_it_prev H (mi_handle it) h) of (it1, h1) \<Rightarrow>
           if mi_status it1 = status_ok then Inr (mi_settle H (it1, h1))
           else Inl (Check ''incrementing past end or an erased iterator''))
      else if mi_status it = status_ok then
        Inr (mi_settle H (mi_set_status it (kv_it_next H (mi_handle it) h)))
      else Inl (Check ''incrementing past end or an erased iterator''))"

definition mi_prev :: "'h kv_host \<Rightarrow> bool \<Rightarrow> map_iter \<Rightarrow> 'h \<Rightarrow> (map_iter \<times> 'h) result" where
  "mi_prev H rvs it h =
     (if rvs then
        (if mi_status it = status_ok then
           Inr (mi_settle H (mi_set_status it (kv_it_next H (mi_handle it) h)))
         else Inl (Check ''decrementing past end or an erased iterator''))
      else
        (case mi_set_status it (kv_it_prev H (mi_handle it) h) of (it1, h1) \<Rightarrow>
           if mi_status it1 = status_ok then Inr (mi_settle H (it1, h1))
           else Inl (Check ''decrementing past end or an erased iterator'')))"

definition mi_eq :: "'h kv_host \<Rightarrow> map_iter \<Rightarrow> map_iter \<Rightarrow> 'h \<Rightarrow> bool" where
  "mi_eq H a b h \<longleftrightarrow> (mi_handle a = mi_handle b \<and> mi_status a = mi_status b)
     \<or> (mi_status a = status_end \<and> mi_status b = status_end)
     \<or> kv_it_compare H (mi_handle a) (mi_handle b) h = 0"

text \<open>\<open>materialize\<close>: the key and the value at the iterator; the payer of the element is not set.\<close>

definition materialize :: "'h kv_host \<Rightarrow> ('k, 'v) map_type \<Rightarrow> u64 \<Rightarrow> map_iter \<Rightarrow> 'h \<Rightarrow> 'v elem result" where
  "materialize H M payer it h =
     (case kv_it_key H (mi_handle it) 0 0 h of (_, _, sz) \<Rightarrow>
        (case kv_it_key H (mi_handle it) 0 sz h of (stat, key, _) \<Rightarrow>
           if stat \<noteq> status_ok then Inl (Check ''failure getting key'')
           else case kv_it_value H (mi_handle it) 0 0 h of (_, _, vsz) \<Rightarrow>
             (case kv_it_value H (mi_handle it) 0 vsz h of (vstat, val, _) \<Rightarrow>
                if vstat \<noteq> status_ok then Inl (Check ''failure getting value'')
                else case mt_unpack M val of
                       Inl e \<Rightarrow> Inl e
                     | Inr v \<Rightarrow> Inr \<lparr>el_key = key, el_value = v, el_payer = payer\<rparr>)))"

section \<open>The map\<close>

definition map_get_packed :: "'h kv_host \<Rightarrow> ('k, 'v) map_type \<Rightarrow> u64 \<Rightarrow> key_type \<Rightarrow> 'h
    \<Rightarrow> (('v option \<times> key_type) \<times> 'h) result" where
  "map_get_packed H M owner k h = (case kv_get H owner k h of ((found, sz), h1) \<Rightarrow>
     if \<not> found then Inr ((None, k), h1)
     else case kv_get_data H 0 sz h1 of (n, val_bytes) \<Rightarrow>
       if n \<noteq> sz then Inl (Check ''kv get internal failure'')
       else case mt_unpack M val_bytes of
              Inl e \<Rightarrow> Inl e | Inr v \<Rightarrow> Inr ((Some v, k), h1))"

definition map_get :: "'h kv_host \<Rightarrow> ('k, 'v) map_type \<Rightarrow> u64 \<Rightarrow> 'k \<Rightarrow> 'h
    \<Rightarrow> (('v option \<times> key_type) \<times> 'h) result" where
  "map_get H M owner k h = map_get_packed H M owner (map_full_key M k) h"

text \<open>\<open>set\<close> returns whether the number of the host call is the size of the packed value.\<close>

definition map_set_packed :: "'h kv_host \<Rightarrow> ('k, 'v) map_type \<Rightarrow> u64 \<Rightarrow> key_type \<Rightarrow> 'v \<Rightarrow> u64 \<Rightarrow> 'h \<Rightarrow> bool \<times> 'h" where
  "map_set_packed H M owner k v payer h =
     (let packed_value = mt_pack M v
      in (kv_set_result H owner k packed_value payer h = int (length packed_value),
          kv_set H owner k packed_value payer h))"

definition map_set :: "'h kv_host \<Rightarrow> ('k, 'v) map_type \<Rightarrow> u64 \<Rightarrow> 'k \<Rightarrow> 'v \<Rightarrow> u64 \<Rightarrow> 'h \<Rightarrow> bool \<times> 'h" where
  "map_set H M owner k v payer h = map_set_packed H M owner (map_full_key M k) v payer h"

definition map_raw_write :: "'h kv_host \<Rightarrow> ('k, 'v) map_type \<Rightarrow> u64 \<Rightarrow> 'k \<Rightarrow> bytes \<Rightarrow> u64 \<Rightarrow> 'h \<Rightarrow> bool \<times> 'h" where
  "map_raw_write H M owner k raw payer h =
     (kv_set_result H owner (map_full_key M k) raw payer h = int (length raw),
      kv_set H owner (map_full_key M k) raw payer h)"

definition map_of_elems :: "'h kv_host \<Rightarrow> ('k, 'v) map_type \<Rightarrow> u64 \<Rightarrow> 'v elem list \<Rightarrow> 'h \<Rightarrow> 'h" where
  "map_of_elems H M owner es h =
     fold (\<lambda>e h. snd (map_set_packed H M owner (el_key e) (el_value e) (el_payer e) h)) es h"

record 'v writable_wrapper =
  ww_element :: "'v elem"
  ww_owner :: u64

definition map_index_op :: "'h kv_host \<Rightarrow> ('k, 'v) map_type \<Rightarrow> u64 \<Rightarrow> 'k \<Rightarrow> u64 \<Rightarrow> 'h
    \<Rightarrow> ('v writable_wrapper \<times> 'h) result" where
  "map_index_op H M owner k payer h = (case map_get H M owner k h of
     Inl e \<Rightarrow> Inl e
   | Inr ((Some v, key), h1) \<Rightarrow>
       Inr (\<lparr>ww_element = \<lparr>el_key = key, el_value = v, el_payer = payer\<rparr>, ww_owner = owner\<rparr>, h1)
   | Inr ((None, key), h1) \<Rightarrow>
       Inr (\<lparr>ww_element = \<lparr>el_key = key, el_value = mt_default M, el_payer = payer\<rparr>, ww_owner = owner\<rparr>,
         snd (map_set_packed H M owner key (mt_default M) owner h1)))"

definition map_at :: "'h kv_host \<Rightarrow> ('k, 'v) map_type \<Rightarrow> u64 \<Rightarrow> 'k \<Rightarrow> u64 \<Rightarrow> 'h
    \<Rightarrow> ('v writable_wrapper \<times> 'h) result" where
  "map_at H M owner k payer h = (case map_get H M owner k h of
     Inl e \<Rightarrow> Inl e
   | Inr ((Some v, key), h1) \<Rightarrow>
       Inr (\<lparr>ww_element = \<lparr>el_key = key, el_value = v, el_payer = payer\<rparr>, ww_owner = owner\<rparr>, h1)
   | Inr ((None, key), h1) \<Rightarrow> Inl (Check ''key not found''))"

definition wrapper_assign :: "'h kv_host \<Rightarrow> ('k, 'v) map_type \<Rightarrow> 'v writable_wrapper \<Rightarrow> 'v \<Rightarrow> 'h
    \<Rightarrow> 'v writable_wrapper \<times> 'h" where
  "wrapper_assign H M w v h =
     (w\<lparr>ww_element := (ww_element w)\<lparr>el_value := v\<rparr>\<rparr>,
      snd (map_set_packed H M (ww_owner w) (el_key (ww_element w)) v (el_payer (ww_element w)) h))"

definition map_erase :: "'h kv_host \<Rightarrow> ('k, 'v) map_type \<Rightarrow> u64 \<Rightarrow> 'k \<Rightarrow> 'h \<Rightarrow> 'h" where
  "map_erase H M owner k h = kv_erase H owner (map_full_key M k) h"

definition map_contains :: "'h kv_host \<Rightarrow> ('k, 'v) map_type \<Rightarrow> u64 \<Rightarrow> 'k \<Rightarrow> 'h \<Rightarrow> bool \<times> 'h" where
  "map_contains H M owner k h = (case kv_get H owner (map_full_key M k) h of ((found, _), h1) \<Rightarrow> (found, h1))"

definition map_begin :: "'h kv_host \<Rightarrow> ('k, 'v) map_type \<Rightarrow> u64 \<Rightarrow> 'h \<Rightarrow> map_iter \<times> 'h" where
  "map_begin H M owner h = (case mi_new H M owner h of (it, h1) \<Rightarrow> seek_to_begin H it h1)"

definition map_end :: "'h kv_host \<Rightarrow> ('k, 'v) map_type \<Rightarrow> u64 \<Rightarrow> 'h \<Rightarrow> map_iter \<times> 'h" where
  "map_end H M owner h = (case mi_new H M owner h of (it, h1) \<Rightarrow> seek_to_end H it h1)"

definition map_rbegin :: "'h kv_host \<Rightarrow> ('k, 'v) map_type \<Rightarrow> u64 \<Rightarrow> 'h \<Rightarrow> map_iter \<times> 'h" where
  "map_rbegin H M owner h = (case mi_new H M owner h of (it, h1) \<Rightarrow> seek_to_last H it h1)"

definition map_rend :: "'h kv_host \<Rightarrow> ('k, 'v) map_type \<Rightarrow> u64 \<Rightarrow> 'h \<Rightarrow> map_iter \<times> 'h" where
  "map_rend H M owner h = map_end H M owner h"

definition map_empty :: "'h kv_host \<Rightarrow> ('k, 'v) map_type \<Rightarrow> u64 \<Rightarrow> 'h \<Rightarrow> bool \<times> 'h" where
  "map_empty H M owner h = (case mi_new H M owner h of (it0, h1) \<Rightarrow>
     (case mi_lower_bound H it0 [] h1 of (it, h2) \<Rightarrow>
        (case map_end H M owner h2 of (e, h3) \<Rightarrow>
           (mi_eq H it e h3, mi_destroy H it (mi_destroy H e h3)))))"

definition map_find :: "'h kv_host \<Rightarrow> ('k, 'v) map_type \<Rightarrow> u64 \<Rightarrow> 'k \<Rightarrow> 'h \<Rightarrow> map_iter \<times> 'h" where
  "map_find H M owner k h = (case mi_new H M owner h of (it, h1) \<Rightarrow> mi_find H it (map_full_key M k) h1)"

definition map_lower_bound :: "'h kv_host \<Rightarrow> ('k, 'v) map_type \<Rightarrow> u64 \<Rightarrow> 'k \<Rightarrow> 'h \<Rightarrow> map_iter \<times> 'h" where
  "map_lower_bound H M owner k h =
     (case mi_new H M owner h of (it, h1) \<Rightarrow> mi_lower_bound H it (map_full_key M k) h1)"

definition map_upper_bound :: "'h kv_host \<Rightarrow> ('k, 'v) map_type \<Rightarrow> u64 \<Rightarrow> 'k \<Rightarrow> 'h \<Rightarrow> (map_iter \<times> 'h) result" where
  "map_upper_bound H M owner k h = (case increment_bytes (map_full_key M k) of
     Inl e \<Rightarrow> Inl e
   | Inr fk \<Rightarrow> (case mi_new H M owner h of (it, h1) \<Rightarrow> Inr (mi_lower_bound H it fk h1)))"

definition map_equal_range :: "'h kv_host \<Rightarrow> ('k, 'v) map_type \<Rightarrow> u64 \<Rightarrow> 'k \<Rightarrow> 'h
    \<Rightarrow> (map_iter \<times> map_iter \<times> 'h) result" where
  "map_equal_range H M owner k h = (case map_lower_bound H M owner k h of (a, h1) \<Rightarrow>
     (case map_upper_bound H M owner k h1 of Inl e \<Rightarrow> Inl e | Inr (b, h2) \<Rightarrow> Inr (a, b, h2)))"

text \<open>
  \<open>ranged_slice\<close>: the condition of the loop opens a new iterator at the upper bound each time and
  destroys it. The first argument bounds the iterations.
\<close>

fun slice_loop :: "nat \<Rightarrow> 'h kv_host \<Rightarrow> ('k, 'v) map_type \<Rightarrow> u64 \<Rightarrow> u64 \<Rightarrow> 'k \<Rightarrow> map_iter \<Rightarrow> 'v elem list \<Rightarrow> 'h
    \<Rightarrow> ('v elem list \<times> 'h) result option" where
  "slice_loop 0 H M owner payer hi it ret h = None"
| "slice_loop (Suc n) H M owner payer hi it ret h =
     (case map_lower_bound H M owner hi h of (e, h1) \<Rightarrow>
        let stop = mi_eq H it e h1; h2 = mi_destroy H e h1 in
        if stop then Some (Inr (ret, mi_destroy H it h2))
        else case materialize H M payer it h2 of
               Inl err \<Rightarrow> Some (Inl err)
             | Inr x \<Rightarrow> (case mi_next H False it h2 of
                   Inl err \<Rightarrow> Some (Inl err)
                 | Inr (it', h3) \<Rightarrow> slice_loop n H M owner payer hi it' (ret @ [x]) h3))"

definition ranged_slice :: "nat \<Rightarrow> 'h kv_host \<Rightarrow> ('k, 'v) map_type \<Rightarrow> u64 \<Rightarrow> u64 \<Rightarrow> 'k \<Rightarrow> 'k \<Rightarrow> 'h
    \<Rightarrow> ('v elem list \<times> 'h) result option" where
  "ranged_slice n H M owner payer lo hi h =
     (case map_lower_bound H M owner lo h of (it, h1) \<Rightarrow> slice_loop n H M owner payer hi it [] h1)"

end
