(* ===== verification/KvMapSafe.thy ===== *)
theory KvMapSafe
  imports KvMap KvIterSafe
begin

text \<open>
  What the map of \<open>map.hpp\<close> promises: it represents a finite function from keys to values, its
  iterators walk the keys in order, and a slice is the part of the function between two keys.
\<close>

section \<open>Keys\<close>

definition map_type_ok :: "('k, 'v) map_type \<Rightarrow> bool" where
  "map_type_ok M \<longleftrightarrow> inj (mt_key M) \<and> (\<forall>v. mt_unpack M (mt_pack M v) = Inr v)"

lemma map_full_key_append: "map_full_key M k = map_prefix M @ mt_key M k"
  by (simp add: map_full_key_def key_plus_def)

lemma map_full_key_eq_iff: "map_type_ok M \<Longrightarrow> map_full_key M j = map_full_key M k \<longleftrightarrow> j = k"
  by (auto simp: map_full_key_append map_type_ok_def inj_eq)

lemma memory_bytes_rev: "rev (memory_bytes w) = big_endian w"
  by (simp add: memory_bytes_def big_endian_def)

lemma map_prefix_tuple: "map_prefix M = tuple_key (magic, mt_table M, mt_index M)"
  by (simp add: map_prefix_def const_pack_helper_def memory_bytes_rev tuple_key_def)

lemma length_map_prefix: "length (map_prefix M) = 17"
  by (simp add: map_prefix_tuple tuple_key_def)

lemma map_prefix_eq_iff:
  "map_prefix M = map_prefix N \<longleftrightarrow> mt_table M = mt_table N \<and> mt_index M = mt_index N"
  using tuple_key_ok by (auto simp: map_prefix_tuple prefix_key_ok_def inj_eq)

lemma self_t_default: "mt_index M = map_index_name \<Longrightarrow> self_t M = M"
  by (simp add: self_t_def)

section \<open>The represented function\<close>

definition map_rep :: "('k, 'v) map_type \<Rightarrow> (bytes \<Rightarrow> bytes option) \<Rightarrow> ('k \<Rightarrow> 'v option) \<Rightarrow> bool" where
  "map_rep M db F \<longleftrightarrow> (\<forall>k. db (map_full_key M k) = map_option (mt_pack M) (F k))
     \<and> (\<forall>x \<in> dom db. has_prefix (map_prefix M) x \<longrightarrow> (\<exists>k. x = map_full_key M k))"

lemma map_set_rep:
  assumes db: "kv_db_ok H V" and ok: "map_type_ok M" and rep: "map_rep M (kv_db V h owner) F"
  shows "map_rep M (kv_db V (snd (map_set H M owner k v payer h)) owner) (F(k \<mapsto> v))"
  using rep
  by (auto simp: map_rep_def map_set_def map_set_packed_def kv_set_db [OF db] map_full_key_eq_iff [OF ok]
      Let_def)

lemma map_erase_rep:
  assumes db: "kv_db_ok H V" and ok: "map_type_ok M" and rep: "map_rep M (kv_db V h owner) F"
  shows "map_rep M (kv_db V (map_erase H M owner k h) owner) (F(k := None))"
  using rep
  by (auto simp: map_rep_def map_erase_def kv_erase_db [OF db] map_full_key_eq_iff [OF ok])

lemma map_get_rep:
  assumes db: "kv_db_ok H V" and ok: "map_type_ok M" and rep: "map_rep M (kv_db V h owner) F"
  obtains h' where "map_get H M owner k h = Inr ((F k, map_full_key M k), h')" "same_host V h h'"
proof (cases "F k")
  case None
  then have "kv_db V h owner (map_full_key M k) = None" using rep by (simp add: map_rep_def)
  then obtain n h1 where "kv_get H owner (map_full_key M k) h = ((False, n), h1)" "same_host V h h1"
    by (rule kv_get_missing [OF db])
  with None that show ?thesis by (simp add: map_get_def map_get_packed_def)
next
  case (Some v)
  then have "kv_db V h owner (map_full_key M k) = Some (mt_pack M v)" using rep by (simp add: map_rep_def)
  then obtain h1 where "kv_get H owner (map_full_key M k) h = ((True, length (mt_pack M v)), h1)"
    "same_host V h h1" "kv_get_data H 0 (length (mt_pack M v)) h1 = (length (mt_pack M v), mt_pack M v)"
    by (rule kv_get_found [OF db])
  with Some that ok show ?thesis by (simp add: map_get_def map_get_packed_def map_type_ok_def)
qed

lemma map_contains_rep:
  assumes db: "kv_db_ok H V" and rep: "map_rep M (kv_db V h owner) F"
  shows "fst (map_contains H M owner k h) \<longleftrightarrow> k \<in> dom F"
proof (cases "kv_db V h owner (map_full_key M k)")
  case None
  then have "F k = None" using rep by (simp add: map_rep_def)
  moreover obtain n h1 where "kv_get H owner (map_full_key M k) h = ((False, n), h1)"
    by (rule kv_get_missing [OF db None])
  ultimately show ?thesis by (simp add: map_contains_def domIff)
next
  case (Some x)
  then have "F k \<noteq> None" using rep by (auto simp: map_rep_def)
  moreover obtain n h1 where "kv_get H owner (map_full_key M k) h = ((True, n), h1)"
    by (rule kv_get_found [OF db Some])
  ultimately show ?thesis by (simp add: map_contains_def domIff)
qed

lemma map_rep_finite:
  assumes db: "kv_db_ok H V" and ok: "map_type_ok M" and rep: "map_rep M (kv_db V h owner) F"
  shows "finite (dom F)"
proof -
  have "inj (map_full_key M)" using ok by (auto simp: inj_def map_full_key_eq_iff)
  moreover have "finite (dom (kv_db V h owner))" using db unfolding kv_db_ok_def by blast
  ultimately have "finite (map_full_key M -` dom (kv_db V h owner))" by (rule_tac finite_vimageI)
  moreover have "dom F \<subseteq> map_full_key M -` dom (kv_db V h owner)"
    using rep by (auto simp: map_rep_def)
  ultimately show ?thesis by (rule rev_finite_subset)
qed

section \<open>Iterators\<close>

text \<open>The keys a map's iterators range over: those under the prefix of \<open>self_t\<close>.\<close>

definition walk_keys :: "'h kv_view \<Rightarrow> 'h \<Rightarrow> ('k, 'v) map_type \<Rightarrow> u64 \<Rightarrow> bytes set" where
  "walk_keys V h M owner = prefixed (kv_db V h owner) (map_prefix (self_t M))"

definition mi_cursor :: "('k, 'v) map_type \<Rightarrow> u64 \<Rightarrow> bytes option \<Rightarrow> kv_cursor" where
  "mi_cursor M owner pos = \<lparr>cur_contract = owner, cur_prefix = map_prefix (self_t M), cur_key = pos\<rparr>"

definition mi_at :: "'h kv_view \<Rightarrow> 'h \<Rightarrow> ('k, 'v) map_type \<Rightarrow> u64 \<Rightarrow> map_iter \<Rightarrow> bytes option \<Rightarrow> bool" where
  "mi_at V h M owner it pos \<longleftrightarrow> mi_status it = position_status pos
     \<and> kv_its V h (mi_handle it) = Some (mi_cursor M owner pos)
     \<and> (\<forall>k. pos = Some k \<longrightarrow> k \<in> walk_keys V h M owner)"

lemma finite_walk_keys: "kv_db_ok H V \<Longrightarrow> finite (walk_keys V h M owner)"
  unfolding kv_db_ok_def walk_keys_def prefixed_def by simp

lemma cursor_keys_walk [simp]: "cursor_keys V h (mi_cursor M owner pos) = walk_keys V h M owner"
  by (simp add: cursor_keys_def mi_cursor_def walk_keys_def)

lemma mi_cursor_key [simp]:
  "cur_key (mi_cursor M owner pos) = pos" "(mi_cursor M owner pos)\<lparr>cur_key := p\<rparr> = mi_cursor M owner p"
  "cur_contract (mi_cursor M owner pos) = owner"
  by (simp_all add: mi_cursor_def)

lemma walk_keys_cong: "kv_db V h' = kv_db V h \<Longrightarrow> walk_keys V h' M owner = walk_keys V h M owner"
  by (simp add: walk_keys_def)

text \<open>A call that moves the host's iterator leaves the iterator object at the new position.\<close>

lemma mi_moved:
  assumes m: "moves_to V (mi_handle it) (mi_cursor M owner p0) pos h res"
    and k: "\<And>k. pos = Some k \<Longrightarrow> k \<in> walk_keys V h M owner"
  shows "mi_at V (snd res) M owner (fst (mi_set_status it res)) pos"
    and "mi_handle (fst (mi_set_status it res)) = mi_handle it" "snd (mi_set_status it res) = snd res"
    and "kv_db V (snd res) = kv_db V h" "kv_room V (snd res) = kv_room V h"
    and "s \<noteq> mi_handle it \<Longrightarrow> kv_its V (snd res) s = kv_its V h s"
  using assms by (auto simp: moves_to_def mi_at_def mi_set_status_def walk_keys_def)

lemma mi_new_at:
  assumes it: "kv_it_ok H V" and room: "0 < kv_room V h"
  obtains i h' where "mi_new H M owner h = (i, h')"
    "kv_its V h' = (kv_its V h)(mi_handle i \<mapsto> mi_cursor M owner None)" "kv_its V h (mi_handle i) = None"
    "kv_db V h' = kv_db V h" "kv_room V h' = kv_room V h - 1"
proof -
  obtain r h1 where c: "kv_it_create H owner (map_prefix (self_t M)) h = (r, h1)" "r \<noteq> 0" "kv_its V h r = None"
    "kv_db V h1 = kv_db V h" "kv_room V h1 = kv_room V h - 1"
    "kv_its V h1 = (kv_its V h)(r \<mapsto> \<lparr>cur_contract = owner, cur_prefix = map_prefix (self_t M), cur_key = None\<rparr>)"
    by (rule create_iter [OF it room])
  show ?thesis
    by (rule that [of "\<lparr>mi_handle = r, mi_status = status_ok\<rparr>" h1])
       (use c in \<open>simp_all add: mi_new_def mi_cursor_def\<close>)
qed

lemma least_walk_mem: "kv_db_ok H V \<Longrightarrow> least_in {x \<in> walk_keys V h M owner. P x} = Some k \<Longrightarrow> k \<in> walk_keys V h M owner"
  by (rule least_in_mem [OF finite_walk_keys])

lemma mi_lower_bound_at:
  assumes db: "kv_db_ok H V" and it: "kv_it_ok H V" and i: "kv_its V h (mi_handle i) = Some (mi_cursor M owner p)"
  shows "case mi_lower_bound H i k h of (j, h') \<Rightarrow>
    mi_at V h' M owner j (least_in {x \<in> walk_keys V h M owner. k \<le> x}) \<and> mi_handle j = mi_handle i
    \<and> kv_db V h' = kv_db V h \<and> kv_room V h' = kv_room V h
    \<and> (\<forall>s. s \<noteq> mi_handle i \<longrightarrow> kv_its V h' s = kv_its V h s)"
proof -
  have "moves_to V (mi_handle i) (mi_cursor M owner p) (least_in {x \<in> walk_keys V h M owner. k \<le> x}) h
      (kv_it_lower_bound H (mi_handle i) k h)"
    using it_lower_bound_law [OF it i, of k] by simp
  note m = mi_moved [OF this least_walk_mem [OF db]]
  show ?thesis unfolding mi_lower_bound_def using m by (simp add: case_prod_beta)
qed

lemma map_lower_bound_at:
  assumes db: "kv_db_ok H V" and it: "kv_it_ok H V" and room: "0 < kv_room V h"
  obtains i h' where "map_lower_bound H M owner k h = (i, h')"
    "mi_at V h' M owner i (least_in {x \<in> walk_keys V h M owner. map_full_key M k \<le> x})"
    "kv_db V h' = kv_db V h" "kv_room V h' = kv_room V h - 1" "kv_its V h (mi_handle i) = None"
    "\<forall>s. s \<noteq> mi_handle i \<longrightarrow> kv_its V h' s = kv_its V h s"
proof -
  obtain i0 h0 where n: "mi_new H M owner h = (i0, h0)"
    "kv_its V h0 = (kv_its V h)(mi_handle i0 \<mapsto> mi_cursor M owner None)" "kv_its V h (mi_handle i0) = None"
    "kv_db V h0 = kv_db V h" "kv_room V h0 = kv_room V h - 1"
    by (rule mi_new_at [OF it room])
  obtain i h' where l: "mi_lower_bound H i0 (map_full_key M k) h0 = (i, h')" by (metis prod.collapse)
  have "kv_its V h0 (mi_handle i0) = Some (mi_cursor M owner None)" using n(2) by simp
  from mi_lower_bound_at [OF db it this, of "map_full_key M k"] l n walk_keys_cong [OF n(4), of M owner]
  show ?thesis by (intro that [of i h']) (auto simp: map_lower_bound_def)
qed

lemma mi_next_at:
  assumes db: "kv_db_ok H V" and it: "kv_it_ok H V" and at: "mi_at V h M owner i (Some k)"
  obtains j h' where "mi_next H False i h = Inr (j, h')" "mi_handle j = mi_handle i"
    "mi_at V h' M owner j (least_in {x \<in> walk_keys V h M owner. k < x})"
    "kv_db V h' = kv_db V h" "kv_room V h' = kv_room V h"
    "\<forall>s. s \<noteq> mi_handle i \<longrightarrow> kv_its V h' s = kv_its V h s"
proof -
  let ?pos = "least_in {x \<in> walk_keys V h M owner. k < x}"
  have i: "kv_its V h (mi_handle i) = Some (mi_cursor M owner (Some k))" "k \<in> walk_keys V h M owner"
    "mi_status i = status_ok"
    using at by (simp_all add: mi_at_def position_status_def status_ok_def)
  have "moves_to V (mi_handle i) (mi_cursor M owner (Some k)) ?pos h (kv_it_next H (mi_handle i) h)"
    using it_standing_law(1) [OF it i(1)] i(2) by simp
  note m = mi_moved [OF this least_walk_mem [OF db]]
  obtain j1 h1 where j1: "mi_set_status i (kv_it_next H (mi_handle i) h) = (j1, h1)" by (metis prod.collapse)
  have m': "mi_at V h1 M owner j1 ?pos" "mi_handle j1 = mi_handle i" "kv_db V h1 = kv_db V h"
    "kv_room V h1 = kv_room V h" "\<forall>s. s \<noteq> mi_handle i \<longrightarrow> kv_its V h1 s = kv_its V h s"
    using m j1 by (auto simp: mi_set_status_def)
  have nx: "mi_next H False i h = Inr (mi_settle H (j1, h1))"
    using i(3) j1 by (simp add: mi_next_def)
  show ?thesis
  proof (cases "mi_status j1 = status_end")
    case False
    then show ?thesis using that [of j1 h1] m' nx by (simp add: mi_settle_def)
  next
    case True
    then have p: "?pos = None"
      using m'(1) by (auto simp: mi_at_def position_status_def status_end_def split: option.splits)
    have i1: "kv_its V h1 (mi_handle j1) = Some (mi_cursor M owner None)"
      using m'(1) p by (simp add: mi_at_def)
    have "moves_to V (mi_handle j1) (mi_cursor M owner None) None h1 (kv_it_move_to_end H (mi_handle j1) h1)"
      by (rule it_move_to_end_law [OF it i1])
    note e = mi_moved [OF this]
    obtain j2 h2 where j2: "mi_set_status j1 (kv_it_move_to_end H (mi_handle j1) h1) = (j2, h2)"
      by (metis prod.collapse)
    have "mi_at V h2 M owner j2 None" "mi_handle j2 = mi_handle j1" "kv_db V h2 = kv_db V h1"
      "kv_room V h2 = kv_room V h1" "\<forall>s. s \<noteq> mi_handle j1 \<longrightarrow> kv_its V h2 s = kv_its V h1 s"
      using e j2 by (auto simp: mi_set_status_def)
    then show ?thesis
      using that [of j2 h2] m' nx True j2 p by (simp add: mi_settle_def seek_to_end_def)
  qed
qed

lemma mi_eq_at:
  assumes it: "kv_it_ok H V" and a: "mi_at V h M owner i p" and b: "mi_at V h M owner j q"
    and ne: "mi_handle i \<noteq> mi_handle j"
  shows "mi_eq H i j h \<longleftrightarrow> p = q"
proof -
  have "kv_its V h (mi_handle i) = Some (mi_cursor M owner p) \<and> kv_its V h (mi_handle j) = Some (mi_cursor M owner q)
      \<and> position_ok V h (mi_cursor M owner p) \<and> position_ok V h (mi_cursor M owner q)"
    using a b by (simp add: mi_at_def position_ok_def)
  from it_compare_law [OF it this]
  have "kv_it_compare H (mi_handle i) (mi_handle j) h = compare_positions p q" by simp
  then show ?thesis
    using a b ne
    by (auto simp: mi_eq_def mi_at_def position_status_def status_end_def compare_positions_def
        compare_keys_def split: option.splits)
qed

lemma materialize_at:
  assumes it: "kv_it_ok H V" and at: "mi_at V h M owner i (Some x)" and v: "kv_db V h owner x = Some (mt_pack M v)"
    and ok: "map_type_ok M"
  shows "materialize H M payer i h = Inr \<lparr>el_key = x, el_value = v, el_payer = payer\<rparr>"
proof -
  have i: "kv_its V h (mi_handle i) = Some (mi_cursor M owner (Some x))" "x \<in> walk_keys V h M owner"
    using at by (simp_all add: mi_at_def)
  have "kv_it_key H (mi_handle i) 0 n h = (0, take n x, length x)" for n
    by (rule it_standing_law(4) [OF it i(1)]) (use i(2) in simp_all)
  moreover have "kv_it_value H (mi_handle i) 0 n h = (0, take n (mt_pack M v), length (mt_pack M v))" for n
    by (rule it_standing_law(5) [OF it i(1)]) (use i(2) v in simp_all)
  ultimately show ?thesis
    using ok by (simp add: materialize_def status_ok_def map_type_ok_def)
qed


section \<open>Slices\<close>

lemma map_rep_key:
  assumes "map_rep M (kv_db V h owner) F" "mt_index M = map_index_name" "x \<in> walk_keys V h M owner"
  obtains a v where "x = map_full_key M a" "F a = Some v" "kv_db V h owner x = Some (mt_pack M v)"
proof -
  have x: "x \<in> dom (kv_db V h owner)" "has_prefix (map_prefix M) x"
    using assms(2,3) by (simp_all add: walk_keys_def prefixed_def self_t_default)
  then obtain a where a: "x = map_full_key M a" using assms(1) unfolding map_rep_def by blast
  then have "kv_db V h owner x = map_option (mt_pack M) (F a)" using assms(1) by (simp add: map_rep_def)
  with x(1) a that show ?thesis by (auto simp: domIff)
qed

lemma mi_at_frame:
  "mi_at V h M owner i p \<Longrightarrow> kv_db V h' = kv_db V h \<Longrightarrow> kv_its V h' (mi_handle i) = kv_its V h (mi_handle i) \<Longrightarrow>
   mi_at V h' M owner i p"
  by (simp add: mi_at_def walk_keys_def)

lemma mi_destroy_view:
  assumes it: "kv_it_ok H V"
  shows "kv_db V (mi_destroy H i h) = kv_db V h" "kv_room V (mi_destroy H i h) = kv_room V h"
    "s \<noteq> mi_handle i \<Longrightarrow> kv_its V (mi_destroy H i h) s = kv_its V h s"
  using it_destroy_law [OF it] by (simp_all add: mi_destroy_def)

lemma slice_loop_elems:
  assumes db: "kv_db_ok H V" and it: "kv_it_ok H V" and ok: "map_type_ok M" and mi: "mt_index M = map_index_name"
    and rep: "map_rep M (kv_db V h owner) F" and at: "mi_at V h M owner i p"
    and q: "q = least_in {x \<in> walk_keys V h M owner. map_full_key M hi \<le> x}" and np: "not_past p q"
    and n: "card (walk_set (walk_keys V h M owner) p q) < n" "n \<le> kv_room V h"
  shows "\<exists>es h'. slice_loop n H M owner payer hi i ret h = Some (Inr (ret @ es, h'))
    \<and> map el_key es = sorted_list_of_set (walk_set (walk_keys V h M owner) p q)
    \<and> (\<forall>e \<in> set es. \<exists>a. el_key e = map_full_key M a \<and> F a = Some (el_value e))
    \<and> kv_db V h' = kv_db V h"
  using rep at q np n
proof (induction n arbitrary: h i p ret)
  case (Suc n)
  let ?K = "walk_keys V h M owner"
  have fin: "finite ?K" by (rule finite_walk_keys [OF db])
  have "0 < kv_room V h" using Suc.prems(6) by simp
  then obtain e h1 where e: "map_lower_bound H M owner hi h = (e, h1)"
    "mi_at V h1 M owner e (least_in {x \<in> ?K. map_full_key M hi \<le> x})"
    "kv_db V h1 = kv_db V h" "kv_room V h1 = kv_room V h - 1" "kv_its V h (mi_handle e) = None"
    "\<forall>s. s \<noteq> mi_handle e \<longrightarrow> kv_its V h1 s = kv_its V h s"
    by (rule map_lower_bound_at [OF db it])
  have ne: "mi_handle i \<noteq> mi_handle e" using Suc.prems(2) e(5) by (auto simp: mi_at_def)
  have i1: "kv_its V h1 (mi_handle i) = kv_its V h (mi_handle i)" using e(6) ne by simp
  have at1: "mi_at V h1 M owner i p" by (rule mi_at_frame [OF Suc.prems(2) e(3) i1])
  have eq: "mi_eq H i e h1 \<longleftrightarrow> p = q"
    using mi_eq_at [OF it at1 e(2) ne] Suc.prems(3) by simp
  let ?h2 = "mi_destroy H e h1"
  have db2: "kv_db V ?h2 = kv_db V h" using e(3) mi_destroy_view(1) [OF it] by simp
  have room2: "kv_room V ?h2 = kv_room V h - 1" using e(4) mi_destroy_view(2) [OF it] by simp
  have "kv_its V ?h2 (mi_handle i) = kv_its V h1 (mi_handle i)" by (rule mi_destroy_view(3) [OF it ne])
  then have at2: "mi_at V ?h2 M owner i p"
    using mi_at_frame [OF at1] db2 e(3) by simp
  have K2: "walk_keys V ?h2 M owner = ?K" by (rule walk_keys_cong [OF db2])
  show ?case
  proof (cases "p = q")
    case True
    have "kv_db V (mi_destroy H i ?h2) = kv_db V h" using db2 mi_destroy_view(1) [OF it] by simp
    moreover have "slice_loop (Suc n) H M owner payer hi i ret h = Some (Inr (ret, mi_destroy H i ?h2))"
      using e(1) eq True by simp
    ultimately show ?thesis
      using True by (intro exI [of _ "[]"] exI [of _ "mi_destroy H i ?h2"]) (simp add: walk_set_same fin)
  next
    case False
    then obtain k where k: "p = Some k"
      using Suc.prems(4) by (auto simp: not_past_def split: option.splits)
    have kK: "k \<in> ?K" using Suc.prems(2) k by (simp add: mi_at_def)
    note st = not_past_step [OF fin Suc.prems(4) [unfolded k] False [unfolded k] Suc.prems(3)]
    obtain a v where a: "k = map_full_key M a" "F a = Some v" "kv_db V h owner k = Some (mt_pack M v)"
      by (rule map_rep_key [OF Suc.prems(1) mi kK])
    have mat: "materialize H M payer i ?h2 = Inr \<lparr>el_key = k, el_value = v, el_payer = payer\<rparr>"
      by (rule materialize_at [OF it at2 [unfolded k] _ ok]) (simp add: db2 a(3))
    obtain j h3 where j: "mi_next H False i ?h2 = Inr (j, h3)" "mi_handle j = mi_handle i"
      "mi_at V h3 M owner j (least_in {x \<in> walk_keys V ?h2 M owner. k < x})"
      "kv_db V h3 = kv_db V ?h2" "kv_room V h3 = kv_room V ?h2"
      "\<forall>s. s \<noteq> mi_handle i \<longrightarrow> kv_its V h3 s = kv_its V ?h2 s"
      by (rule mi_next_at [OF db it at2 [unfolded k]])
    let ?p' = "least_in {x \<in> ?K. k < x}"
    have db3: "kv_db V h3 = kv_db V h" using j(4) db2 by simp
    have K3: "walk_keys V h3 M owner = ?K" by (rule walk_keys_cong [OF db3])
    have walk: "sorted_list_of_set (walk_set ?K p q) = k # sorted_list_of_set (walk_set ?K ?p' q)"
      unfolding k by (rule walk_step [OF fin kK st(1)])
    have "length (sorted_list_of_set (walk_set ?K p q)) < Suc n" using Suc.prems(5) by simp
    then have card: "card (walk_set (walk_keys V h3 M owner) ?p' q) < n" unfolding walk K3 by simp
    have rep3: "map_rep M (kv_db V h3 owner) F" using Suc.prems(1) db3 by simp
    have at3: "mi_at V h3 M owner j ?p'" using j(3) K2 by simp
    have q3: "q = least_in {x \<in> walk_keys V h3 M owner. map_full_key M hi \<le> x}" using Suc.prems(3) K3 by simp
    have room3: "n \<le> kv_room V h3" using j(5) room2 Suc.prems(6) by simp
    from Suc.IH [OF rep3 at3 q3 st(2) card room3, of "ret @ [\<lparr>el_key = k, el_value = v, el_payer = payer\<rparr>]"]
    obtain es h' where es:
      "slice_loop n H M owner payer hi j (ret @ [\<lparr>el_key = k, el_value = v, el_payer = payer\<rparr>]) h3
        = Some (Inr ((ret @ [\<lparr>el_key = k, el_value = v, el_payer = payer\<rparr>]) @ es, h'))"
      "map el_key es = sorted_list_of_set (walk_set ?K ?p' q)"
      "\<forall>e \<in> set es. \<exists>a. el_key e = map_full_key M a \<and> F a = Some (el_value e)" "kv_db V h' = kv_db V h"
      unfolding K3 db3 by blast
    have "slice_loop (Suc n) H M owner payer hi i ret h
        = Some (Inr (ret @ \<lparr>el_key = k, el_value = v, el_payer = payer\<rparr> # es, h'))"
      using e(1) eq False mat j(1) es(1) by (simp add: Let_def)
    moreover have "map el_key (\<lparr>el_key = k, el_value = v, el_payer = payer\<rparr> # es)
        = sorted_list_of_set (walk_set ?K p q)"
      using walk es(2) by simp
    ultimately show ?thesis
      using es(3,4) a(1,2)
      by (intro exI [of _ "\<lparr>el_key = k, el_value = v, el_payer = payer\<rparr> # es"] exI [of _ h']) auto
  qed
qed simp

lemma ranged_slice_elems:
  assumes db: "kv_db_ok H V" and it: "kv_it_ok H V" and ok: "map_type_ok M" and mi: "mt_index M = map_index_name"
    and rep: "map_rep M (kv_db V h owner) F" and le: "mt_key M lo \<le> mt_key M hi"
    and n: "card (dom F) < n" "n < kv_room V h"
  shows "\<exists>es h'. ranged_slice n H M owner payer lo hi h = Some (Inr (es, h'))
    \<and> map el_key es = sorted_list_of_set (map_full_key M ` {a \<in> dom F. mt_key M lo \<le> mt_key M a \<and> mt_key M a < mt_key M hi})
    \<and> (\<forall>e \<in> set es. \<exists>a. el_key e = map_full_key M a \<and> F a = Some (el_value e))
    \<and> kv_db V h' = kv_db V h"
proof -
  let ?K = "walk_keys V h M owner"
  let ?q = "least_in {x \<in> ?K. map_full_key M hi \<le> x}" and ?p = "least_in {x \<in> ?K. map_full_key M lo \<le> x}"
  have fin: "finite ?K" by (rule finite_walk_keys [OF db])
  have "0 < kv_room V h" using n by simp
  then obtain i h1 where i: "map_lower_bound H M owner lo h = (i, h1)" "mi_at V h1 M owner i ?p"
    "kv_db V h1 = kv_db V h" "kv_room V h1 = kv_room V h - 1" "kv_its V h (mi_handle i) = None"
    "\<forall>s. s \<noteq> mi_handle i \<longrightarrow> kv_its V h1 s = kv_its V h s"
    by (rule map_lower_bound_at [OF db it])
  have K1: "walk_keys V h1 M owner = ?K" by (rule walk_keys_cong [OF i(3)])
  have Kf: "?K = map_full_key M ` dom F"
  proof (intro equalityI subsetI)
    fix x assume "x \<in> ?K"
    then show "x \<in> map_full_key M ` dom F" by (rule map_rep_key [OF rep mi]) auto
  next
    fix x assume "x \<in> map_full_key M ` dom F"
    then obtain a v where "x = map_full_key M a" "F a = Some v" by auto
    then show "x \<in> ?K"
      using rep mi by (simp add: walk_keys_def prefixed_def self_t_default map_rep_def domIff map_full_key_append)
  qed
  have full_le: "map_full_key M a \<le> map_full_key M b \<longleftrightarrow> mt_key M a \<le> mt_key M b"
    "map_full_key M a < map_full_key M b \<longleftrightarrow> mt_key M a < mt_key M b" for a b
    by (simp_all add: map_full_key_append)
  have np: "not_past ?p ?q"
  proof (cases ?q)
    case (Some e)
    have f: "finite {x \<in> ?K. map_full_key M hi \<le> x}" "finite {x \<in> ?K. map_full_key M lo \<le> x}"
      using fin by simp_all
    have e: "e \<in> ?K" "map_full_key M hi \<le> e" using least_in_Some(1) [OF f(1) Some] by simp_all
    then have e': "map_full_key M lo \<le> e" using le full_le by (meson order_trans)
    then have "{x \<in> ?K. map_full_key M lo \<le> x} \<noteq> {}" using e(1) by blast
    then obtain m where m: "?p = Some m" by (simp add: least_in_def)
    have "m \<le> e" by (rule least_in_Some(2) [OF f(2) m]) (use e(1) e' in simp)
    with m Some show ?thesis by (simp add: not_past_def)
  qed (simp add: not_past_def)
  have walk: "walk_set ?K ?p ?q = {x \<in> ?K. map_full_key M lo \<le> x \<and> x < map_full_key M hi}"
    by (rule walk_set_bounds [OF fin])
  also have "\<dots> = map_full_key M ` {a \<in> dom F. mt_key M lo \<le> mt_key M a \<and> mt_key M a < mt_key M hi}"
    unfolding Kf by (auto simp: full_le)
  finally have walk': "walk_set ?K ?p ?q
      = map_full_key M ` {a \<in> dom F. mt_key M lo \<le> mt_key M a \<and> mt_key M a < mt_key M hi}" .
  have "card (walk_set ?K ?p ?q) \<le> card ?K" unfolding walk using fin by (intro card_mono) auto
  also have "\<dots> \<le> card (dom F)"
    unfolding Kf using map_rep_finite [OF db ok rep] by (rule card_image_le)
  finally have card: "card (walk_set (walk_keys V h1 M owner) ?p ?q) < n" unfolding K1 using n(1) by simp
  have rep1: "map_rep M (kv_db V h1 owner) F" using rep i(3) by simp
  have q1: "?q = least_in {x \<in> walk_keys V h1 M owner. map_full_key M hi \<le> x}" using K1 by simp
  have room1: "n \<le> kv_room V h1" using i(4) n(2) by simp
  from slice_loop_elems [OF db it ok mi rep1 i(2) q1 np card room1, of payer "[]"]
  show ?thesis unfolding K1 walk' i(3) ranged_slice_def i(1) by simp
qed

section \<open>increment_bytes\<close>

lemma sint_u8: "sint (b :: u8) = (if unat b < 128 then int (unat b) else int (unat b) - 256)"
proof -
  obtain n where n: "unat b = n" "uint b = int n" "n < 256"
    using unsigned_less [of b, where 'a = nat] by (simp add: that [OF refl])
  have s: "sint b = (int n + 128) mod 256 - 128"
    unfolding sint_uint signed_take_bit_eq_take_bit_shift n(2) by (simp add: take_bit_eq_mod)
  have "(int n + 128) mod 256 = int n + 128" if "n < 128"
    by (rule mod_pos_pos_trivial) (use that in simp_all)
  moreover have "(int n + 128) mod 256 = int n - 128" if "\<not> n < 128"
    using that n(3) mod_pos_geq [of 256 "int n + 128"] mod_pos_pos_trivial [of "int n - 128" 256] by simp
  ultimately show ?thesis unfolding n(1) s by simp
qed

text \<open>One more than a byte, as the loop computes it.\<close>

definition incremented :: "u8 \<Rightarrow> u16" where
  "incremented b = word_of_int (sint b + 1)"

lemma increment_bytes_snoc:
  "increment_bytes (p @ [b]) = (if incremented b \<le> 255 then Inr (p @ [ucast (incremented b)])
     else (case length p of 0 \<Rightarrow> Inl (Trap ''increment_bytes: index out of range'')
       | Suc j \<Rightarrow> increment_loop j (p @ [ucast (incremented b)])))"
  unfolding increment_bytes_def incremented_def
  by (subst increment_loop.simps) (simp del: increment_loop.simps of_int_add add: Let_def)

lemma increment_loop_append:
  "i < length p \<Longrightarrow> increment_loop i (p @ s) = map_sum id (\<lambda>q. q @ s) (increment_loop i p)"
proof (induction i arbitrary: p)
  case (Suc i)
  have "i < length (p[Suc i := x])" for x using Suc.prems by simp
  from Suc.IH [OF this] show ?case
    using Suc.prems by (simp add: Let_def nth_append list_update_append)
qed (simp add: Let_def nth_append list_update_append)

lemma increment_bytes_carry:
  assumes "255 < incremented b"
  shows "increment_bytes (p @ [b])
     = map_sum id (\<lambda>q. q @ [ucast (incremented b)]) (increment_bytes p)"
proof -
  have "\<not> incremented b \<le> 255" using assms by (simp only: not_le)
  then show ?thesis
    unfolding increment_bytes_snoc
    by (cases "length p") (simp_all add: increment_bytes_def increment_loop_append del: increment_loop.simps)
qed

lemma incremented_low:
  assumes "unat b < 128"
  shows "incremented b \<le> 255" "ucast (incremented b) = b + 1"
proof -
  have v: "incremented b = of_nat (unat b + 1)"
    using assms by (simp add: sint_u8 incremented_def)
  show "incremented b \<le> 255" 
    unfolding v using assms by (simp add: word_le_nat_alt unat_of_nat del: of_nat_add of_nat_Suc)
  show "ucast (incremented b) = b + 1"
    unfolding v using assms by (simp add: word_unat_eq_iff unat_word_ariths unat_of_nat unsigned_ucast_eq take_bit_eq_mod)
qed

lemma incremented_255: "incremented 255 = 0"
  by (simp add: incremented_def)

lemma incremented_high:
  assumes "128 \<le> unat b" "unat b < 255"
  shows "255 < incremented b" "ucast (incremented b) = b + 1"
proof -
  have v: "uint (incremented b) = int (unat b) + 65281"
  proof -
    have "uint (incremented b) = (int (unat b) - 255) mod 65536"
      unfolding incremented_def uint_word_of_int sint_u8 using assms(1) by (simp add: not_less [symmetric] del: not_less)
    also have "\<dots> = (int (unat b) - 255 + 65536) mod 65536" by (simp only: mod_add_self2)
    also have "\<dots> = int (unat b) - 255 + 65536" by (rule mod_pos_pos_trivial) (use assms in linarith)+
    finally show ?thesis by simp
  qed
  show "255 < incremented b" unfolding word_less_alt v by (simp add: add_pos_nonneg)
  have "uint (ucast (incremented b) :: u8) = (int (unat b) + 65281) mod 256"
    using v by (simp add: unsigned_ucast_eq take_bit_eq_mod)
  also have "\<dots> = (int (unat b) + 1) mod 256"
  proof -
    have "int (unat b) + 65281 = int (unat b) + 1 + 255 * 256" by simp
    then show ?thesis by (simp only: mod_mult_self1)
  qed
  also have "\<dots> = uint (b + 1)" by (simp add: uint_word_ariths)
  finally show "ucast (incremented b) = b + 1" by (simp add: word_uint_eq_iff)
qed

text \<open>
  The effect of the whole loop, on the reversed key: bytes from 128 to 254 are stepped over, and the
  first other byte is incremented modulo 256.
\<close>

fun bump :: "bytes \<Rightarrow> bytes option" where
  "bump [] = None"
| "bump (b # bs) = (if 128 \<le> unat b \<and> unat b < 255 then map_option ((#) (b + 1)) (bump bs)
     else Some ((b + 1) # bs))"

lemma u8_range: "unat (b :: u8) < 256" using unsigned_less [of b, where 'a = nat] by simp

lemma increment_bytes_bump: "increment_bytes kt = (case bump (rev kt) of
  None \<Rightarrow> Inl (Trap ''increment_bytes: index out of range'') | Some r \<Rightarrow> Inr (rev r))"
proof (induction kt rule: rev_induct)
  case Nil
  show ?case by (simp add: increment_bytes_def)
next
  case (snoc b p)
  consider "unat b < 128" | "128 \<le> unat b" "unat b < 255" | "b = 255"
    using u8_range [of b] by (fastforce simp: word_unat_eq_iff)
  then show ?case
  proof cases
    case 1
    then show ?thesis using incremented_low [OF 1] by (simp add: increment_bytes_snoc)
  next
    case 2
    then show ?thesis
      using incremented_high [OF 2] snoc by (simp add: increment_bytes_carry split: option.splits)
  next
    case 3
    then show ?thesis by (simp add: increment_bytes_snoc incremented_255)
  qed
qed

lemma finite_walk_part: "kv_db_ok H V \<Longrightarrow> finite {x \<in> walk_keys V h M owner. P x}"
  by (rule finite_subset [OF _ finite_walk_keys]) auto

section \<open>Upper bounds\<close>

lemma bump_low: "unat b < 128 \<Longrightarrow> increment_bytes (p @ [b]) = Inr (p @ [b + 1])"
  by (simp add: increment_bytes_bump)

lemma bump_255: "increment_bytes (p @ [255]) = Inr (p @ [0])"
  by (simp add: increment_bytes_bump)

lemma next_key_le:
  assumes "unat b < 255" "length x = length (p @ [b])"
  shows "p @ [b + 1] \<le> x \<longleftrightarrow> p @ [b] < (x :: bytes)"
  using assms(2)
proof (induction p arbitrary: x)
  case Nil
  then obtain y where y: "x = [y]" by (cases x) auto
  have "unat (b + 1) = unat b + 1" using assms(1) by (simp add: unat_word_ariths)
  then have "b + 1 \<le> y \<longleftrightarrow> b < y" by (simp add: word_le_nat_alt word_less_nat_alt Suc_le_eq)
  then show ?case unfolding y by (auto simp: le_less)
next
  case (Cons a p)
  then obtain y ys where x: "x = y # ys" "length ys = length (p @ [b])" by (cases x) auto
  show ?case using Cons.IH [OF x(2)] unfolding x by auto
qed

lemma map_upper_bound_at:
  assumes db: "kv_db_ok H V" and it: "kv_it_ok H V" and room: "0 < kv_room V h"
    and fk: "increment_bytes (map_full_key M k) = Inr fk"
  obtains i h' where "map_upper_bound H M owner k h = Inr (i, h')"
    "mi_at V h' M owner i (least_in {x \<in> walk_keys V h M owner. fk \<le> x})" "kv_db V h' = kv_db V h"
proof -
  obtain i h1 where n: "mi_new H M owner h = (i, h1)"
    "kv_its V h1 = (kv_its V h)(mi_handle i \<mapsto> mi_cursor M owner None)" "kv_db V h1 = kv_db V h"
    by (rule mi_new_at [OF it room])
  have "kv_its V h1 (mi_handle i) = Some (mi_cursor M owner None)" using n(2) by simp
  note lb = mi_lower_bound_at [OF db it this, of fk]
  obtain j h2 where j: "mi_lower_bound H i fk h1 = (j, h2)" by fastforce
  show ?thesis
    by (rule that [of j h2])
       (use lb n j fk in \<open>simp_all add: map_upper_bound_def walk_keys_cong [OF n(3)]\<close>)
qed

lemma walk_keys_dom:
  assumes "map_rep M (kv_db V h owner) F" "mt_index M = map_index_name"
  shows "walk_keys V h M owner = map_full_key M ` dom F"
proof (intro equalityI subsetI)
  fix x assume "x \<in> walk_keys V h M owner"
  then show "x \<in> map_full_key M ` dom F" by (rule map_rep_key [OF assms]) auto
next
  fix x assume "x \<in> map_full_key M ` dom F"
  then obtain a v where "x = map_full_key M a" "F a = Some v" by auto
  then show "x \<in> walk_keys V h M owner"
    using assms
    by (simp add: walk_keys_def prefixed_def self_t_default map_rep_def domIff map_full_key_append
        has_prefix_def)
qed

section \<open>Reverse iterators\<close>

lemma mi_next_reverse_at:
  assumes db: "kv_db_ok H V" and it: "kv_it_ok H V" and at: "mi_at V h M owner i (Some k)"
  shows "case greatest_in {x \<in> walk_keys V h M owner. x < k} of
      None \<Rightarrow> mi_next H True i h = Inl (Check ''incrementing past end or an erased iterator'')
    | Some j \<Rightarrow> (\<exists>i' h'. mi_next H True i h = Inr (i', h') \<and> mi_at V h' M owner i' (Some j))"
proof -
  let ?K = "walk_keys V h M owner"
  let ?g = "greatest_in {x \<in> ?K. x < k}"
  have i: "kv_its V h (mi_handle i) = Some (mi_cursor M owner (Some k))" "k \<in> ?K"
    using at by (simp_all add: mi_at_def)
  have "moves_to V (mi_handle i) (mi_cursor M owner (Some k)) ?g h (kv_it_prev H (mi_handle i) h)"
    using it_standing_law(2) [OF it i(1)] i(2) by simp
  moreover have "j \<in> ?K" if "?g = Some j" for j
  proof -
    have "finite {x \<in> ?K. x < k}" by (rule finite_walk_part [OF db])
    with that have "j \<in> {x \<in> ?K. x < k}" by (auto simp: greatest_in_def split: if_splits dest: Max_in)
    then show ?thesis by simp
  qed
  ultimately have m: "mi_at V (snd (kv_it_prev H (mi_handle i) h)) M owner
      (fst (mi_set_status i (kv_it_prev H (mi_handle i) h))) ?g"
    by (rule mi_moved(1))
  obtain i' h' where r: "mi_set_status i (kv_it_prev H (mi_handle i) h) = (i', h')" by fastforce
  then have at': "mi_at V h' M owner i' ?g" using m by (auto simp: mi_set_status_def)
  show ?thesis
  proof (cases ?g)
    case None
    then show ?thesis
      using r at' by (simp add: mi_next_def mi_at_def position_status_def status_ok_def)
  next
    case (Some j)
    then have "mi_status i' = 0" using at' by (simp add: mi_at_def position_status_def)
    then show ?thesis
      using r at' Some by (simp add: mi_next_def status_ok_def mi_settle_def status_end_def)
  qed
qed

section \<open>Maps with an index name of their own\<close>

lemma foreign_prefix:
  assumes "mt_index M \<noteq> map_index_name"
  shows "map_full_key M k \<notin> walk_keys V h M owner"
proof -
  have "map_prefix (self_t M) \<noteq> map_prefix M"
    using assms by (simp add: map_prefix_eq_iff self_t_def)
  moreover have "take (length (map_prefix (self_t M))) (map_full_key M k) = map_prefix M"
    by (simp add: map_full_key_append length_map_prefix)
  ultimately show ?thesis by (simp add: walk_keys_def prefixed_def has_prefix_def)
qed

lemma mi_find_at:
  assumes db: "kv_db_ok H V" and it: "kv_it_ok H V" and i: "kv_its V h (mi_handle i) = Some (mi_cursor M owner p)"
  obtains j h' where "mi_find H i k h = (j, h')"
    "mi_at V h' M owner j (if k \<in> walk_keys V h M owner then Some k else None)" "kv_db V h' = kv_db V h"
proof -
  let ?K = "walk_keys V h M owner"
  let ?q = "least_in {x \<in> ?K. k \<le> x}"
  obtain j h1 where j: "mi_lower_bound H i k h = (j, h1)" by fastforce
  then have at: "mi_at V h1 M owner j ?q" "kv_db V h1 = kv_db V h"
    using mi_lower_bound_at [OF db it i, of k] by simp_all
  have its: "kv_its V h1 (mi_handle j) = Some (mi_cursor M owner ?q)" using at(1) by (simp add: mi_at_def)
  have K1: "walk_keys V h1 M owner = ?K" by (rule walk_keys_cong [OF at(2)])
  have fin: "finite {x \<in> ?K. k \<le> x}" by (rule finite_walk_part [OF db])
  have cmp: "kv_it_key_compare H (mi_handle j) k h1 = 0 \<longleftrightarrow> ?q = Some k"
  proof (cases ?q)
    case None
    have "kv_it_key_compare H (mi_handle j) k h1 = 1"
      using kv_it_ok_laws(5) [OF it] its None by (metis mi_cursor_key(1))
    with None show ?thesis by simp
  next
    case (Some x)
    have "x \<in> ?K" by (rule least_walk_mem [OF db Some])
    then have "kv_it_key_compare H (mi_handle j) k h1 = compare_keys x k"
      by (intro it_standing_law(3) [OF it its]) (simp_all add: Some K1)
    with Some show ?thesis by (simp add: compare_keys_def)
  qed
  have q: "?q = Some k \<longleftrightarrow> k \<in> ?K"
  proof
    assume "k \<in> ?K"
    then have "{x \<in> ?K. k \<le> x} \<noteq> {}" by blast
    then obtain m where m: "?q = Some m" by (simp add: least_in_def)
    have "m \<le> k" by (rule least_in_Some(2) [OF fin m]) (use \<open>k \<in> ?K\<close> in simp)
    moreover have "k \<le> m" using least_in_Some(1) [OF fin m] by simp
    ultimately show "?q = Some k" using m by simp
  qed (rule least_walk_mem [OF db])
  show ?thesis
  proof (cases "k \<in> ?K")
    case True
    then show ?thesis using that [of j h1] at q cmp j by (simp add: mi_find_def)
  next
    case False
    have "moves_to V (mi_handle j) (mi_cursor M owner ?q) None h1 (kv_it_move_to_end H (mi_handle j) h1)"
      by (rule it_move_to_end_law [OF it its])
    note e = mi_moved [OF this]
    obtain j2 h2 where j2: "mi_set_status j (kv_it_move_to_end H (mi_handle j) h1) = (j2, h2)"
      by (metis prod.collapse)
    show ?thesis
      by (rule that [of j2 h2])
         (use e j2 j at(2) cmp q False in \<open>auto simp: mi_find_def seek_to_end_def mi_set_status_def\<close>)
  qed
qed

lemma map_find_at:
  assumes db: "kv_db_ok H V" and it: "kv_it_ok H V" and room: "0 < kv_room V h"
  obtains j h' where "map_find H M owner k h = (j, h')"
    "mi_at V h' M owner j (if map_full_key M k \<in> walk_keys V h M owner then Some (map_full_key M k) else None)"
    "kv_db V h' = kv_db V h"
proof -
  obtain i h1 where n: "mi_new H M owner h = (i, h1)"
    "kv_its V h1 = (kv_its V h)(mi_handle i \<mapsto> mi_cursor M owner None)" "kv_db V h1 = kv_db V h"
    by (rule mi_new_at [OF it room])
  have "kv_its V h1 (mi_handle i) = Some (mi_cursor M owner None)" using n(2) by simp
  then obtain j h' where "mi_find H i (map_full_key M k) h1 = (j, h')"
    "mi_at V h' M owner j (if map_full_key M k \<in> walk_keys V h1 M owner then Some (map_full_key M k) else None)"
    "kv_db V h' = kv_db V h1"
    by (rule mi_find_at [OF db it])
  with n that show ?thesis by (simp add: map_find_def walk_keys_cong [OF n(3)])
qed

end
