(* ===== verification/KvMapProps.thy ===== *)
theory KvMapProps
  imports KvMapSafe
begin

text \<open>
  The properties of the ordered map of \<open>map.hpp\<close>, each with an instance on \<open>mem_host\<close> and a map
  from bytes to bytes: where the map keeps its contract, and the operations that do not.
\<close>

section \<open>A concrete map\<close>

definition byte_map :: "(u8, u8) map_type" where
  "byte_map = \<lparr>mt_table = 7, mt_index = map_index_name, mt_key = (\<lambda>k. [k]), mt_pack = (\<lambda>v. [v]),
     mt_unpack = (\<lambda>bs. case bs of [v] \<Rightarrow> Inr v | _ \<Rightarrow> Inl (Check ''read'')), mt_default = 0\<rparr>"

lemma byte_map_ok: "map_type_ok byte_map"
  by (simp add: map_type_ok_def byte_map_def inj_def)

lemma byte_map_sel [simp]:
  "mt_index byte_map = map_index_name" "mt_key byte_map k = [k]" "self_t byte_map = byte_map"
  by (simp_all add: byte_map_def self_t_def)

lemma byte_map_empty_rep: "map_rep byte_map (kv_db mem_view empty_host owner) Map.empty"
  by (simp add: map_rep_def mem_view_def empty_host_def)

text \<open>A host that holds the pair \<open>(k, v)\<close>.\<close>

definition one_pair_host :: "u8 \<Rightarrow> u8 \<Rightarrow> mem_state" where
  "one_pair_host k v = snd (map_set mem_host byte_map 1 k v 1 empty_host)"

lemma one_pair_rep: "map_rep byte_map (kv_db mem_view (one_pair_host k v) 1) [k \<mapsto> v]"
  unfolding one_pair_host_def
  by (rule map_set_rep [OF mem_host_db_ok byte_map_ok byte_map_empty_rep])

lemma one_pair_room: "kv_room mem_view (one_pair_host k v) = 4294967295"
  unfolding one_pair_host_def map_set_def map_set_packed_def
  by (simp add: mem_host_def mem_view_def empty_host_def)

section \<open>The map is a function\<close>

text \<open>
  C10. A map represents a finite function from keys to values: \<open>set\<close> updates it, \<open>erase\<close> removes the
  key, \<open>get\<close> returns what it holds and changes no pair or iterator of the host, and \<open>contains\<close>
  tells whether the key is there.
\<close>
theorem map_is_function:
  assumes "kv_db_ok H V" and "map_type_ok M" and "map_rep M (kv_db V h owner) F"
  shows "map_rep M (kv_db V (snd (map_set H M owner k v payer h)) owner) (F(k \<mapsto> v))
    \<and> map_rep M (kv_db V (map_erase H M owner k h) owner) (F(k := None))
    \<and> (\<exists>h'. map_get H M owner k h = Inr ((F k, map_full_key M k), h') \<and> same_host V h h')
    \<and> (fst (map_contains H M owner k h) \<longleftrightarrow> k \<in> dom F) \<and> finite (dom F)"
proof (intro conjI)
  show "\<exists>h'. map_get H M owner k h = Inr ((F k, map_full_key M k), h') \<and> same_host V h h'"
    by (rule map_get_rep [OF assms]) blast
qed (rule map_set_rep [OF assms] map_erase_rep [OF assms] map_contains_rep [OF assms(1,3)]
  map_rep_finite [OF assms])+

theorem map_is_function_witness:
  "map_rep byte_map (kv_db mem_view (map_erase mem_host byte_map 1 5 (one_pair_host 5 9)) 1) Map.empty
    \<and> fst (map_contains mem_host byte_map 1 5 (one_pair_host 5 9))"
  using map_is_function [OF mem_host_db_ok byte_map_ok one_pair_rep [of 5 9], of 5] by simp

section \<open>Slices and bounds\<close>

text \<open>
  \<open>ranged_slice(l, h)\<close> with \<open>l\<close> at most \<open>h\<close> returns exactly the elements with keys from \<open>l\<close> up
  to but not including \<open>h\<close>, in ascending order of their keys, for a map with the default index
  name; its loop ends after at most one iteration more than the map has elements.
\<close>
theorem map_slice_sorted_complete:
  assumes "kv_db_ok H V" and "kv_it_ok H V" and "map_type_ok M" and "mt_index M = map_index_name"
    and "map_rep M (kv_db V h owner) F" and "mt_key M lo \<le> mt_key M hi"
    and "card (dom F) < n" and "n < kv_room V h"
  shows "\<exists>es h'. ranged_slice n H M owner payer lo hi h = Some (Inr (es, h'))
    \<and> map el_key es = sorted_list_of_set
        (map_full_key M ` {a \<in> dom F. mt_key M lo \<le> mt_key M a \<and> mt_key M a < mt_key M hi})
    \<and> (\<forall>e \<in> set es. \<exists>a. el_key e = map_full_key M a \<and> F a = Some (el_value e))
    \<and> kv_db V h' = kv_db V h"
  by (rule ranged_slice_elems [OF assms])

theorem map_slice_sorted_complete_witness:
  "\<exists>es h'. ranged_slice 2 mem_host byte_map 1 1 0 9 (one_pair_host 5 9) = Some (Inr (es, h'))
    \<and> map el_key es = [map_full_key byte_map 5]"
proof -
  have S: "map_full_key byte_map ` {a \<in> dom [5 \<mapsto> 9 :: u8]. mt_key byte_map 0 \<le> mt_key byte_map a
      \<and> mt_key byte_map a < mt_key byte_map 9} = {map_full_key byte_map 5}" by auto
  have "mt_key byte_map 0 \<le> mt_key byte_map 9" "card (dom [5 :: u8 \<mapsto> 9 :: u8]) < 2"
    "2 < kv_room mem_view (one_pair_host 5 9)" by (simp_all add: one_pair_room)
  from map_slice_sorted_complete [OF mem_host_db_ok mem_host_it_ok byte_map_ok byte_map_sel(1)
      one_pair_rep this, of 1, unfolded S]
  obtain es h' where r: "ranged_slice 2 mem_host byte_map 1 1 0 9 (one_pair_host 5 9) = Some (Inr (es, h'))"
    "map el_key es = sorted_list_of_set {map_full_key byte_map 5}" by blast
  have "sorted_list_of_set {map_full_key byte_map 5} = [map_full_key byte_map 5]" by simp
  with r(2) have "map el_key es = [map_full_key byte_map 5]" by (rule trans)
  with r(1) show ?thesis by (intro exI conjI)
qed

text \<open>
  For keys of one length whose last byte is below 128, \<open>upper_bound\<close> yields an iterator at the
  first element above the key, or at the end.
\<close>
theorem map_upper_bound_next:
  assumes "kv_db_ok H V" and "kv_it_ok H V" and "0 < kv_room V h" and "mt_index M = map_index_name"
    and "map_rep M (kv_db V h owner) F" and "\<forall>a. length (mt_key M a) = length (mt_key M k)"
    and "mt_key M k = p @ [b]" and "b < 128"
  shows "\<exists>i h'. map_upper_bound H M owner k h = Inr (i, h') \<and> kv_db V h' = kv_db V h
    \<and> mi_at V h' M owner i (least_in (map_full_key M ` {a \<in> dom F. mt_key M k < mt_key M a}))"
proof -
  have b: "unat b < 128" using assms(8) by (simp add: word_less_nat_alt)
  have fk: "increment_bytes (map_full_key M k) = Inr (map_prefix M @ p @ [b + 1])"
    using bump_low [OF b, of "map_prefix M @ p"] by (simp add: map_full_key_append assms(7))
  have "p @ [b + 1] \<le> mt_key M a \<longleftrightarrow> mt_key M k < mt_key M a" for a
    using next_key_le [of b "mt_key M a" p] b assms(6,7) by simp
  then have le: "map_prefix M @ p @ [b + 1] \<le> map_full_key M a \<longleftrightarrow> mt_key M k < mt_key M a" for a
    by (simp add: map_full_key_append)
  have S: "{x \<in> walk_keys V h M owner. map_prefix M @ p @ [b + 1] \<le> x}
      = map_full_key M ` {a \<in> dom F. mt_key M k < mt_key M a}"
    unfolding walk_keys_dom [OF assms(5,4)] using le by blast
  obtain i h' where "map_upper_bound H M owner k h = Inr (i, h')"
    "mi_at V h' M owner i (least_in {x \<in> walk_keys V h M owner. map_prefix M @ p @ [b + 1] \<le> x})"
    "kv_db V h' = kv_db V h"
    by (rule map_upper_bound_at [OF assms(1-3) fk])
  then show ?thesis unfolding S by blast
qed

theorem map_upper_bound_next_witness:
  "\<exists>i h'. map_upper_bound mem_host byte_map 1 5 (one_pair_host 7 9) = Inr (i, h')
    \<and> mi_at mem_view h' byte_map 1 i (Some (map_full_key byte_map 7))"
proof -
  have S: "map_full_key byte_map ` {a \<in> dom [7 \<mapsto> 9 :: u8]. mt_key byte_map 5 < mt_key byte_map a}
      = {map_full_key byte_map 7}" by auto
  have r: "0 < kv_room mem_view (one_pair_host 7 9)" by (simp add: one_pair_room)
  have k: "\<forall>a. length (mt_key byte_map a) = length (mt_key byte_map 5)" "mt_key byte_map 5 = [] @ [5]"
    "(5 :: u8) < 128" by simp_all
  have l: "least_in {map_full_key byte_map 7} = Some (map_full_key byte_map 7)" by (simp add: least_in_def)
  from map_upper_bound_next [OF mem_host_db_ok mem_host_it_ok r byte_map_sel(1) one_pair_rep k, unfolded S l]
  show ?thesis by blast
qed

text \<open>
  What \<open>increment_bytes\<close> computes: on the bytes from the last one down it increments every byte
  from 128 to 254 and goes on, and stops at the first other byte, which it increments modulo
  256; the loop leaves the vector only when no byte stops it. So 255 does not carry and 128 to 254
  do.
\<close>
theorem map_increment_bytes_carry:
  "increment_bytes kt = (case bump (rev kt) of
     None \<Rightarrow> Inl (Trap ''increment_bytes: index out of range'') | Some r \<Rightarrow> Inr (rev r))"
  by (rule increment_bytes_bump)

text \<open>
  A key of the map whose last byte is 255 is its own upper bound or lies above it: \<open>upper_bound\<close>
  yields an iterator at an element with a key that is at most the given one.
\<close>
theorem map_upper_bound_not_above:
  assumes "kv_db_ok H V" and "kv_it_ok H V" and "0 < kv_room V h" and "mt_index M = map_index_name"
    and "map_rep M (kv_db V h owner) F" and "mt_key M k = p @ [255]" and "k \<in> dom F"
  shows "\<exists>i h' x. map_upper_bound H M owner k h = Inr (i, h') \<and> mi_at V h' M owner i (Some x)
    \<and> x \<le> map_full_key M k"
proof -
  let ?K = "walk_keys V h M owner" and ?fk = "map_prefix M @ p @ [0]"
  have fk: "increment_bytes (map_full_key M k) = Inr ?fk"
    using bump_255 [of "map_prefix M @ p"] by (simp add: map_full_key_append assms(6))
  have k: "map_full_key M k \<in> {x \<in> ?K. ?fk \<le> x}"
    using assms(7) unfolding walk_keys_dom [OF assms(5,4)] by (force simp: map_full_key_append assms(6))
  then have "{x \<in> ?K. ?fk \<le> x} \<noteq> {}" by blast
  then obtain x where x: "least_in {x \<in> ?K. ?fk \<le> x} = Some x" by (simp add: least_in_def)
  have "x \<le> map_full_key M k" by (rule least_in_Some(2) [OF finite_walk_part [OF assms(1)] x k])
  moreover obtain i h' where "map_upper_bound H M owner k h = Inr (i, h')"
    "mi_at V h' M owner i (least_in {x \<in> ?K. ?fk \<le> x})"
    by (rule map_upper_bound_at [OF assms(1-3) fk])
  ultimately show ?thesis unfolding x by blast
qed

theorem map_upper_bound_not_above_witness:
  "\<exists>i h' x. map_upper_bound mem_host byte_map 1 255 (one_pair_host 255 9) = Inr (i, h')
    \<and> mi_at mem_view h' byte_map 1 i (Some x) \<and> x \<le> map_full_key byte_map 255"
  by (rule map_upper_bound_not_above [OF mem_host_db_ok mem_host_it_ok _ _ one_pair_rep, of 255 9 255 "[]"])
     (simp_all add: one_pair_room)

section \<open>Iterators\<close>

text \<open>
  Incrementing a reverse iterator that stands at an element moves it to the next lower one; at
  the lowest element it aborts the contract instead of reaching \<open>rend()\<close>.
\<close>
theorem map_reverse_increment:
  assumes "kv_db_ok H V" and "kv_it_ok H V" and "mi_at V h M owner i (Some k)"
  shows "case greatest_in {x \<in> walk_keys V h M owner. x < k} of
      None \<Rightarrow> mi_next H True i h = Inl (Check ''incrementing past end or an erased iterator'')
    | Some j \<Rightarrow> (\<exists>i' h'. mi_next H True i h = Inr (i', h') \<and> mi_at V h' M owner i' (Some j))"
  by (rule mi_next_reverse_at [OF assms])

lemma one_pair_found:
  obtains i h' where "map_find mem_host byte_map 1 5 (one_pair_host 5 9) = (i, h')"
    "mi_at mem_view h' byte_map 1 i (Some (map_full_key byte_map 5))"
    "walk_keys mem_view h' byte_map 1 = {map_full_key byte_map 5}"
proof -
  have K: "walk_keys mem_view (one_pair_host 5 9) byte_map 1 = {map_full_key byte_map 5}"
    using walk_keys_dom [OF one_pair_rep [of 5 9]] by simp
  have "0 < kv_room mem_view (one_pair_host 5 9)" by (simp add: one_pair_room)
  then obtain i h' where f: "map_find mem_host byte_map 1 5 (one_pair_host 5 9) = (i, h')"
    "mi_at mem_view h' byte_map 1 i (if map_full_key byte_map 5 \<in> walk_keys mem_view (one_pair_host 5 9) byte_map 1
       then Some (map_full_key byte_map 5) else None)" "kv_db mem_view h' = kv_db mem_view (one_pair_host 5 9)"
    by (rule map_find_at [OF mem_host_db_ok mem_host_it_ok])
  have K': "walk_keys mem_view h' byte_map 1 = {map_full_key byte_map 5}"
    by (simp only: walk_keys_cong [OF f(3)] K)
  have "mi_at mem_view h' byte_map 1 i (Some (map_full_key byte_map 5))"
    using f(2) unfolding K by simp
  then show ?thesis by (rule that [OF f(1) _ K'])
qed

theorem map_reverse_increment_witness:
  "\<exists>i h'. map_find mem_host byte_map 1 5 (one_pair_host 5 9) = (i, h')
    \<and> mi_next mem_host True i h' = Inl (Check ''incrementing past end or an erased iterator'')"
proof -
  obtain i h' where f: "map_find mem_host byte_map 1 5 (one_pair_host 5 9) = (i, h')"
    "mi_at mem_view h' byte_map 1 i (Some (map_full_key byte_map 5))"
    "walk_keys mem_view h' byte_map 1 = {map_full_key byte_map 5}"
    by (rule one_pair_found)
  have "{x \<in> walk_keys mem_view h' byte_map 1. x < map_full_key byte_map 5} = {}" unfolding f(3) by auto
  with map_reverse_increment [OF mem_host_db_ok mem_host_it_ok f(2)] f(1) show ?thesis
    by (simp add: greatest_in_def)
qed

text \<open>
  \<open>find\<close> yields an iterator at the key when the map holds it and one at the end otherwise, if
  the map has the default index name. With any other index name it yields the end for every key
  the map holds, because iterators are built from \<open>self_t\<close>.
\<close>
theorem map_find_custom_index:
  assumes "kv_db_ok H V" and "kv_it_ok H V" and "0 < kv_room V h" and "map_type_ok M"
    and "map_rep M (kv_db V h owner) F"
  shows "\<exists>i h'. map_find H M owner k h = (i, h') \<and> kv_db V h' = kv_db V h
    \<and> mi_at V h' M owner i (if mt_index M = map_index_name \<and> k \<in> dom F then Some (map_full_key M k) else None)"
proof -
  have "map_full_key M k \<in> walk_keys V h M owner \<longleftrightarrow> mt_index M = map_index_name \<and> k \<in> dom F"
  proof (cases "mt_index M = map_index_name")
    case True
    then show ?thesis
      unfolding walk_keys_dom [OF assms(5) True] by (auto simp: map_full_key_eq_iff [OF assms(4)])
  next
    case False
    then show ?thesis using False foreign_prefix [OF False, of k V h owner] by blast
  qed
  note k = this
  obtain i h' where "map_find H M owner k h = (i, h')"
    "mi_at V h' M owner i (if map_full_key M k \<in> walk_keys V h M owner then Some (map_full_key M k) else None)"
    "kv_db V h' = kv_db V h"
    by (rule map_find_at [OF assms(1-3)])
  then show ?thesis unfolding k by blast
qed

theorem map_find_custom_index_witness:
  "\<exists>i h'. map_find mem_host (byte_map\<lparr>mt_index := 5\<rparr>) 1 5
        (snd (map_set mem_host (byte_map\<lparr>mt_index := 5\<rparr>) 1 5 9 1 empty_host)) = (i, h')
    \<and> mi_status i = status_end"
proof -
  let ?M = "byte_map\<lparr>mt_index := 5\<rparr>"
  let ?h = "snd (map_set mem_host ?M 1 5 9 1 empty_host)"
  have ok: "map_type_ok ?M" by (simp add: map_type_ok_def byte_map_def inj_def)
  have e: "map_rep ?M (kv_db mem_view empty_host 1) Map.empty"
    by (simp add: map_rep_def mem_view_def empty_host_def)
  have r: "0 < kv_room mem_view ?h"
    unfolding map_set_def map_set_packed_def by (simp add: mem_host_def mem_view_def empty_host_def)
  have i: "mt_index ?M \<noteq> map_index_name" by (simp add: map_index_name_def)
  have "\<exists>i h'. map_find mem_host ?M 1 5 ?h = (i, h') \<and> kv_db mem_view h' = kv_db mem_view ?h
    \<and> mi_at mem_view h' ?M 1 i (if mt_index ?M = map_index_name \<and> (5 :: u8) \<in> dom [5 \<mapsto> 9 :: u8]
        then Some (map_full_key ?M 5) else None)"
    by (rule map_find_custom_index [OF mem_host_db_ok mem_host_it_ok r ok map_set_rep [OF mem_host_db_ok ok e]])
  then obtain i h' where f: "map_find mem_host ?M 1 5 ?h = (i, h')" "mi_at mem_view h' ?M 1 i None"
    using i by (simp only: simp_thms if_False) blast
  then have "mi_status i = status_end" by (simp add: mi_at_def position_status_def status_end_def)
  with f(1) show ?thesis by blast
qed

end
