(* ===== verification/DbHost.thy ===== *)
theory DbHost
  imports Prelude SortedWalk "HOL-Library.Product_Lexorder"
begin

text \<open>
  The table intrinsics of the chain (declared in \<open>contracts/eosio/multi_index.hpp\<close> and documented in
  \<open>capi/eosio/db.h\<close>) as a parameter: a record of functions over the host's state. \<open>db_ok\<close> states what
  the contract library relies on, through a view of the host's state as tables of rows, secondary
  tables, and the rows that iterator numbers stand for. The five families of secondary intrinsics
  have the same shape and are one family here, over a linearly ordered type of secondary keys.
  \<open>mem_db\<close> is a host that keeps these laws. A call that aborts the transaction has no result.
\<close>

type_synonym table_id = "u64 \<times> u64 \<times> u64"

record ('h, 's) db_host =
  current_receiver :: u64
  db_store :: "u64 \<Rightarrow> u64 \<Rightarrow> u64 \<Rightarrow> u64 \<Rightarrow> bytes \<Rightarrow> 'h \<Rightarrow> int \<times> 'h"
  db_update :: "int \<Rightarrow> u64 \<Rightarrow> bytes \<Rightarrow> 'h \<Rightarrow> 'h"
  db_remove :: "int \<Rightarrow> 'h \<Rightarrow> 'h"
  db_get :: "int \<Rightarrow> nat \<Rightarrow> 'h \<Rightarrow> int \<times> bytes"
  db_next :: "int \<Rightarrow> 'h \<Rightarrow> (int \<times> u64) \<times> 'h"
  db_previous :: "int \<Rightarrow> 'h \<Rightarrow> (int \<times> u64) \<times> 'h"
  db_find :: "u64 \<Rightarrow> u64 \<Rightarrow> u64 \<Rightarrow> u64 \<Rightarrow> 'h \<Rightarrow> int \<times> 'h"
  db_lowerbound :: "u64 \<Rightarrow> u64 \<Rightarrow> u64 \<Rightarrow> u64 \<Rightarrow> 'h \<Rightarrow> int \<times> 'h"
  db_upperbound :: "u64 \<Rightarrow> u64 \<Rightarrow> u64 \<Rightarrow> u64 \<Rightarrow> 'h \<Rightarrow> int \<times> 'h"
  db_end :: "u64 \<Rightarrow> u64 \<Rightarrow> u64 \<Rightarrow> 'h \<Rightarrow> int \<times> 'h"
  idx_store :: "u64 \<Rightarrow> u64 \<Rightarrow> u64 \<Rightarrow> u64 \<Rightarrow> 's \<Rightarrow> 'h \<Rightarrow> int \<times> 'h"
  idx_update :: "int \<Rightarrow> u64 \<Rightarrow> 's \<Rightarrow> 'h \<Rightarrow> 'h"
  idx_remove :: "int \<Rightarrow> 'h \<Rightarrow> 'h"
  idx_next :: "int \<Rightarrow> 'h \<Rightarrow> (int \<times> u64) \<times> 'h"
  idx_previous :: "int \<Rightarrow> 'h \<Rightarrow> (int \<times> u64) \<times> 'h"
  idx_find_primary :: "u64 \<Rightarrow> u64 \<Rightarrow> u64 \<Rightarrow> u64 \<Rightarrow> 'h \<Rightarrow> int \<times> 'h"
  idx_lowerbound :: "u64 \<Rightarrow> u64 \<Rightarrow> u64 \<Rightarrow> 's \<Rightarrow> 'h \<Rightarrow> (int \<times> u64) \<times> 'h"
  idx_upperbound :: "u64 \<Rightarrow> u64 \<Rightarrow> u64 \<Rightarrow> 's \<Rightarrow> 'h \<Rightarrow> (int \<times> u64) \<times> 'h"
  idx_end :: "u64 \<Rightarrow> u64 \<Rightarrow> u64 \<Rightarrow> 'h \<Rightarrow> int \<times> 'h"

record ('h, 's) db_view =
  dv_rows :: "'h \<Rightarrow> table_id \<Rightarrow> u64 \<Rightarrow> bytes option"
  dv_ids :: "'h \<Rightarrow> int \<Rightarrow> (table_id \<times> u64) option"
  dv_ends :: "'h \<Rightarrow> int \<Rightarrow> table_id option"
  dv_secs :: "'h \<Rightarrow> table_id \<Rightarrow> u64 \<Rightarrow> 's option"
  dv_sids :: "'h \<Rightarrow> int \<Rightarrow> (table_id \<times> u64) option"
  dv_sends :: "'h \<Rightarrow> int \<Rightarrow> table_id option"

text \<open>A lookup changes no row and closes no iterator.\<close>

definition same_db :: "('h, 's) db_view \<Rightarrow> 'h \<Rightarrow> 'h \<Rightarrow> bool" where
  "same_db V h h' \<longleftrightarrow> dv_rows V h' = dv_rows V h \<and> dv_secs V h' = dv_secs V h
     \<and> dv_ids V h \<subseteq>\<^sub>m dv_ids V h' \<and> dv_sids V h \<subseteq>\<^sub>m dv_sids V h'"

definition lands :: "(int \<Rightarrow> (table_id \<times> u64) option) \<Rightarrow> table_id \<Rightarrow> u64 option \<Rightarrow> int \<Rightarrow> bool" where
  "lands ids t pos r \<longleftrightarrow> (case pos of None \<Rightarrow> r < 0 | Some k \<Rightarrow> ids r = Some (t, k))"

definition row_lands :: "('h, 's) db_view \<Rightarrow> 'h \<Rightarrow> table_id \<Rightarrow> u64 option \<Rightarrow> int \<times> 'h \<Rightarrow> bool" where
  "row_lands V h t pos res \<longleftrightarrow> same_db V h (snd res) \<and> lands (dv_ids V (snd res)) t pos (fst res)"

text \<open>The entries of a secondary table in their order: by secondary key, then by primary key.\<close>

definition sec_entries :: "('h, 's) db_view \<Rightarrow> 'h \<Rightarrow> table_id \<Rightarrow> ('s \<times> u64) set" where
  "sec_entries V h t = {(s, k). dv_secs V h t k = Some s}"

definition sec_lands :: "('h, 's) db_view \<Rightarrow> 'h \<Rightarrow> table_id \<Rightarrow> ('s \<times> u64) option \<Rightarrow> (int \<times> u64) \<times> 'h \<Rightarrow> bool" where
  "sec_lands V h t pos res \<longleftrightarrow> same_db V h (snd res)
     \<and> lands (dv_sids V (snd res)) t (map_option snd pos) (fst (fst res))
     \<and> (\<forall>e. pos = Some e \<longrightarrow> snd (fst res) = snd e)"

text \<open>Iterator numbers stand for existing rows, one for each row.\<close>

definition ids_ok :: "(int \<Rightarrow> (table_id \<times> u64) option) \<Rightarrow> (table_id \<Rightarrow> u64 \<Rightarrow> 'a option) \<Rightarrow> bool" where
  "ids_ok ids rows \<longleftrightarrow> (\<forall>r x. ids r = Some x \<longrightarrow> 0 \<le> r \<and> rows (fst x) (snd x) \<noteq> None)
     \<and> (\<forall>r r' x. ids r = Some x \<and> ids r' = Some x \<longrightarrow> r = r') \<and> (\<forall>t. finite (dom (rows t)))"

text \<open>The writes: one entry of one table changes, and only the iterator of a removed row closes.\<close>

definition put_row :: "('h, 's) db_view \<Rightarrow> 'h \<Rightarrow> 'h \<Rightarrow> table_id \<Rightarrow> u64 \<Rightarrow> bytes \<Rightarrow> bool" where
  "put_row V h h' t k d \<longleftrightarrow> dv_rows V h' = (dv_rows V h)(t := (dv_rows V h t)(k \<mapsto> d))
     \<and> dv_ids V h \<subseteq>\<^sub>m dv_ids V h' \<and> dv_secs V h' = dv_secs V h \<and> dv_sids V h \<subseteq>\<^sub>m dv_sids V h'"

definition put_sec :: "('h, 's) db_view \<Rightarrow> 'h \<Rightarrow> 'h \<Rightarrow> table_id \<Rightarrow> u64 \<Rightarrow> 's \<Rightarrow> bool" where
  "put_sec V h h' t k x \<longleftrightarrow> dv_secs V h' = (dv_secs V h)(t := (dv_secs V h t)(k \<mapsto> x))
     \<and> dv_sids V h \<subseteq>\<^sub>m dv_sids V h' \<and> dv_rows V h' = dv_rows V h \<and> dv_ids V h \<subseteq>\<^sub>m dv_ids V h'"

definition delete_row :: "('h, 's) db_view \<Rightarrow> 'h \<Rightarrow> 'h \<Rightarrow> int \<Rightarrow> table_id \<Rightarrow> u64 \<Rightarrow> bool" where
  "delete_row V h h' r t k \<longleftrightarrow> dv_rows V h' = (dv_rows V h)(t := (dv_rows V h t)(k := None))
     \<and> (dv_ids V h)(r := None) \<subseteq>\<^sub>m dv_ids V h' \<and> dv_secs V h' = dv_secs V h \<and> dv_sids V h \<subseteq>\<^sub>m dv_sids V h'"

definition delete_sec :: "('h, 's) db_view \<Rightarrow> 'h \<Rightarrow> 'h \<Rightarrow> int \<Rightarrow> table_id \<Rightarrow> u64 \<Rightarrow> bool" where
  "delete_sec V h h' r t k \<longleftrightarrow> dv_secs V h' = (dv_secs V h)(t := (dv_secs V h t)(k := None))
     \<and> (dv_sids V h)(r := None) \<subseteq>\<^sub>m dv_sids V h' \<and> dv_rows V h' = dv_rows V h \<and> dv_ids V h \<subseteq>\<^sub>m dv_ids V h'"

definition db_rows_ok :: "('h, 's :: linorder) db_host \<Rightarrow> ('h, 's) db_view \<Rightarrow> bool" where
  "db_rows_ok H V \<longleftrightarrow>
     (\<forall>h. ids_ok (dv_ids V h) (dv_rows V h)) \<and>
     (\<forall>h s t p k d. dv_rows V h (current_receiver H, s, t) k = None \<longrightarrow>
        put_row V h (snd (db_store H s t p k d h)) (current_receiver H, s, t) k d
        \<and> dv_ids V (snd (db_store H s t p k d h)) (fst (db_store H s t p k d h)) = Some ((current_receiver H, s, t), k)) \<and>
     (\<forall>h r t k p d. dv_ids V h r = Some (t, k) \<longrightarrow> fst t = current_receiver H \<longrightarrow> put_row V h (db_update H r p d h) t k d) \<and>
     (\<forall>h r t k. dv_ids V h r = Some (t, k) \<longrightarrow> fst t = current_receiver H \<longrightarrow> delete_row V h (db_remove H r h) r t k) \<and>
     (\<forall>h r t k d n. dv_ids V h r = Some (t, k) \<longrightarrow> dv_rows V h t k = Some d \<longrightarrow>
        fst (db_get H r 0 h) = int (length d) \<and> snd (db_get H r n h) = take n d) \<and>
     (\<forall>h r t k. dv_ids V h r = Some (t, k) \<longrightarrow>
        row_lands V h t (least_in {k' \<in> dom (dv_rows V h t). k < k'}) (apfst fst (db_next H r h))) \<and>
     (\<forall>h r t k. dv_ids V h r = Some (t, k) \<longrightarrow>
        row_lands V h t (greatest_in {k' \<in> dom (dv_rows V h t). k' < k}) (apfst fst (db_previous H r h))) \<and>
     (\<forall>h c s t k. row_lands V h (c, s, t) (if k \<in> dom (dv_rows V h (c, s, t)) then Some k else None) (db_find H c s t k h)) \<and>
     (\<forall>h c s t k. row_lands V h (c, s, t) (least_in {k' \<in> dom (dv_rows V h (c, s, t)). k \<le> k'}) (db_lowerbound H c s t k h)) \<and>
     (\<forall>h c s t k. row_lands V h (c, s, t) (least_in {k' \<in> dom (dv_rows V h (c, s, t)). k < k'}) (db_upperbound H c s t k h)) \<and>
     (\<forall>h c s t. same_db V h (snd (db_end H c s t h))
        \<and> (if fst (db_end H c s t h) = - 1 then dv_rows V h (c, s, t) = Map.empty
            else dv_ends V (snd (db_end H c s t h)) (fst (db_end H c s t h)) = Some (c, s, t))) \<and>
     (\<forall>h r t. dv_ends V h r = Some t \<longrightarrow> row_lands V h t (greatest_in (dom (dv_rows V h t))) (apfst fst (db_previous H r h)))"

definition db_secs_ok :: "('h, 's :: linorder) db_host \<Rightarrow> ('h, 's) db_view \<Rightarrow> bool" where
  "db_secs_ok H V \<longleftrightarrow>
     (\<forall>h. ids_ok (dv_sids V h) (dv_secs V h)) \<and>
     (\<forall>h s t p k x. dv_secs V h (current_receiver H, s, t) k = None \<longrightarrow>
        put_sec V h (snd (idx_store H s t p k x h)) (current_receiver H, s, t) k x
        \<and> dv_sids V (snd (idx_store H s t p k x h)) (fst (idx_store H s t p k x h)) = Some ((current_receiver H, s, t), k)) \<and>
     (\<forall>h r t k p x. dv_sids V h r = Some (t, k) \<longrightarrow> fst t = current_receiver H \<longrightarrow> put_sec V h (idx_update H r p x h) t k x) \<and>
     (\<forall>h r t k. dv_sids V h r = Some (t, k) \<longrightarrow> fst t = current_receiver H \<longrightarrow> delete_sec V h (idx_remove H r h) r t k) \<and>
     (\<forall>h r t k x. dv_sids V h r = Some (t, k) \<longrightarrow> dv_secs V h t k = Some x \<longrightarrow>
        sec_lands V h t (least_in {e \<in> sec_entries V h t. (x, k) < e}) (idx_next H r h)) \<and>
     (\<forall>h r t k x. dv_sids V h r = Some (t, k) \<longrightarrow> dv_secs V h t k = Some x \<longrightarrow>
        sec_lands V h t (greatest_in {e \<in> sec_entries V h t. e < (x, k)}) (idx_previous H r h)) \<and>
     (\<forall>h c s t k. same_db V h (snd (idx_find_primary H c s t k h))
        \<and> lands (dv_sids V (snd (idx_find_primary H c s t k h))) (c, s, t)
             (if k \<in> dom (dv_secs V h (c, s, t)) then Some k else None) (fst (idx_find_primary H c s t k h))) \<and>
     (\<forall>h c s t x. sec_lands V h (c, s, t) (least_in {e \<in> sec_entries V h (c, s, t). x \<le> fst e}) (idx_lowerbound H c s t x h)) \<and>
     (\<forall>h c s t x. sec_lands V h (c, s, t) (least_in {e \<in> sec_entries V h (c, s, t). x < fst e}) (idx_upperbound H c s t x h)) \<and>
     (\<forall>h c s t. same_db V h (snd (idx_end H c s t h))
        \<and> (if fst (idx_end H c s t h) = - 1 then dv_secs V h (c, s, t) = Map.empty
            else dv_sends V (snd (idx_end H c s t h)) (fst (idx_end H c s t h)) = Some (c, s, t))) \<and>
     (\<forall>h r t. dv_sends V h r = Some t \<longrightarrow> sec_lands V h t (greatest_in (sec_entries V h t)) (idx_previous H r h))"

definition db_ok :: "('h, 's :: linorder) db_host \<Rightarrow> ('h, 's) db_view \<Rightarrow> bool" where
  "db_ok H V \<longleftrightarrow> db_rows_ok H V \<and> db_secs_ok H V"

lemma db_rows_laws:
  assumes "db_ok H V"
  shows "\<forall>h. ids_ok (dv_ids V h) (dv_rows V h)"
    and "\<forall>h s t p k d. dv_rows V h (current_receiver H, s, t) k = None \<longrightarrow>
        put_row V h (snd (db_store H s t p k d h)) (current_receiver H, s, t) k d
        \<and> dv_ids V (snd (db_store H s t p k d h)) (fst (db_store H s t p k d h)) = Some ((current_receiver H, s, t), k)"
    and "\<forall>h r t k p d. dv_ids V h r = Some (t, k) \<longrightarrow> fst t = current_receiver H \<longrightarrow> put_row V h (db_update H r p d h) t k d"
    and "\<forall>h r t k. dv_ids V h r = Some (t, k) \<longrightarrow> fst t = current_receiver H \<longrightarrow> delete_row V h (db_remove H r h) r t k"
    and "\<forall>h r t k d n. dv_ids V h r = Some (t, k) \<longrightarrow> dv_rows V h t k = Some d \<longrightarrow>
        fst (db_get H r 0 h) = int (length d) \<and> snd (db_get H r n h) = take n d"
    and "\<forall>h r t k. dv_ids V h r = Some (t, k) \<longrightarrow>
        row_lands V h t (least_in {k' \<in> dom (dv_rows V h t). k < k'}) (apfst fst (db_next H r h))"
    and "\<forall>h r t k. dv_ids V h r = Some (t, k) \<longrightarrow>
        row_lands V h t (greatest_in {k' \<in> dom (dv_rows V h t). k' < k}) (apfst fst (db_previous H r h))"
    and "\<forall>h c s t k. row_lands V h (c, s, t) (if k \<in> dom (dv_rows V h (c, s, t)) then Some k else None) (db_find H c s t k h)"
    and "\<forall>h c s t k. row_lands V h (c, s, t) (least_in {k' \<in> dom (dv_rows V h (c, s, t)). k \<le> k'}) (db_lowerbound H c s t k h)"
    and "\<forall>h c s t k. row_lands V h (c, s, t) (least_in {k' \<in> dom (dv_rows V h (c, s, t)). k < k'}) (db_upperbound H c s t k h)"
    and "\<forall>h c s t. same_db V h (snd (db_end H c s t h))
        \<and> (if fst (db_end H c s t h) = - 1 then dv_rows V h (c, s, t) = Map.empty
            else dv_ends V (snd (db_end H c s t h)) (fst (db_end H c s t h)) = Some (c, s, t))"
    and "\<forall>h r t. dv_ends V h r = Some t \<longrightarrow> row_lands V h t (greatest_in (dom (dv_rows V h t))) (apfst fst (db_previous H r h))"
  by (insert assms, unfold db_ok_def db_rows_ok_def, (elim conjE, assumption)+)

lemma db_secs_laws:
  assumes "db_ok H V"
  shows "\<forall>h. ids_ok (dv_sids V h) (dv_secs V h)"
    and "\<forall>h s t p k x. dv_secs V h (current_receiver H, s, t) k = None \<longrightarrow>
        put_sec V h (snd (idx_store H s t p k x h)) (current_receiver H, s, t) k x
        \<and> dv_sids V (snd (idx_store H s t p k x h)) (fst (idx_store H s t p k x h)) = Some ((current_receiver H, s, t), k)"
    and "\<forall>h r t k p x. dv_sids V h r = Some (t, k) \<longrightarrow> fst t = current_receiver H \<longrightarrow> put_sec V h (idx_update H r p x h) t k x"
    and "\<forall>h r t k. dv_sids V h r = Some (t, k) \<longrightarrow> fst t = current_receiver H \<longrightarrow> delete_sec V h (idx_remove H r h) r t k"
    and "\<forall>h r t k x. dv_sids V h r = Some (t, k) \<longrightarrow> dv_secs V h t k = Some x \<longrightarrow>
        sec_lands V h t (least_in {e \<in> sec_entries V h t. (x, k) < e}) (idx_next H r h)"
    and "\<forall>h r t k x. dv_sids V h r = Some (t, k) \<longrightarrow> dv_secs V h t k = Some x \<longrightarrow>
        sec_lands V h t (greatest_in {e \<in> sec_entries V h t. e < (x, k)}) (idx_previous H r h)"
    and "\<forall>h c s t k. same_db V h (snd (idx_find_primary H c s t k h))
        \<and> lands (dv_sids V (snd (idx_find_primary H c s t k h))) (c, s, t)
             (if k \<in> dom (dv_secs V h (c, s, t)) then Some k else None) (fst (idx_find_primary H c s t k h))"
    and "\<forall>h c s t x. sec_lands V h (c, s, t) (least_in {e \<in> sec_entries V h (c, s, t). x \<le> fst e}) (idx_lowerbound H c s t x h)"
    and "\<forall>h c s t x. sec_lands V h (c, s, t) (least_in {e \<in> sec_entries V h (c, s, t). x < fst e}) (idx_upperbound H c s t x h)"
    and "\<forall>h c s t. same_db V h (snd (idx_end H c s t h))
        \<and> (if fst (idx_end H c s t h) = - 1 then dv_secs V h (c, s, t) = Map.empty
            else dv_sends V (snd (idx_end H c s t h)) (fst (idx_end H c s t h)) = Some (c, s, t))"
    and "\<forall>h r t. dv_sends V h r = Some t \<longrightarrow> sec_lands V h t (greatest_in (sec_entries V h t)) (idx_previous H r h)"
  by (insert assms, unfold db_ok_def db_secs_ok_def, (elim conjE, assumption)+)

lemmas row_ids_law = db_rows_laws(1) [rule_format]
lemmas store_law = db_rows_laws(2) [rule_format]
lemmas update_law = db_rows_laws(3) [rule_format]
lemmas remove_law = db_rows_laws(4) [rule_format]
lemmas get_law = db_rows_laws(5) [rule_format]
lemmas next_law = db_rows_laws(6) [rule_format]
lemmas previous_law = db_rows_laws(7) [rule_format]
lemmas find_law = db_rows_laws(8) [rule_format]
lemmas lowerbound_law = db_rows_laws(9) [rule_format]
lemmas upperbound_law = db_rows_laws(10) [rule_format]
lemmas end_law = db_rows_laws(11) [rule_format]
lemmas end_previous_law = db_rows_laws(12) [rule_format]
lemmas sec_ids_law = db_secs_laws(1) [rule_format]
lemmas idx_store_law = db_secs_laws(2) [rule_format]
lemmas idx_update_law = db_secs_laws(3) [rule_format]
lemmas idx_remove_law = db_secs_laws(4) [rule_format]
lemmas idx_next_law = db_secs_laws(5) [rule_format]
lemmas idx_previous_law = db_secs_laws(6) [rule_format]
lemmas idx_find_primary_law = db_secs_laws(7) [rule_format]
lemmas idx_lowerbound_law = db_secs_laws(8) [rule_format]
lemmas idx_upperbound_law = db_secs_laws(9) [rule_format]
lemmas idx_end_law = db_secs_laws(10) [rule_format]
lemmas idx_end_previous_law = db_secs_laws(11) [rule_format]

lemma ids_okD:
  assumes "ids_ok ids rows"
  shows "ids r = Some (t, k) \<Longrightarrow> 0 \<le> r" "ids r = Some (t, k) \<Longrightarrow> rows t k \<noteq> None"
    "ids r = Some x \<Longrightarrow> ids r' = Some x \<Longrightarrow> r = r'" "finite (dom (rows t))"
  using assms unfolding ids_ok_def by (metis, metis fst_conv snd_conv, metis, metis)

end
