(* ===== verification/MultiIndex.thy ===== *)
theory MultiIndex
  imports DbHost
begin

text \<open>
  \<open>contracts/eosio/multi_index.hpp\<close>: tables with a primary key and up to sixteen secondary indices,
  over the table intrinsics of the host. The object caches the rows it has loaded; iterators and
  object references point to cached items.

  An item is known by the number of its allocation (the address its \<open>unique_ptr\<close> holds); a
  reference to an object is that number with the table the item belongs to (\<open>__idx\<close>). An iterator
  is an optional item, \<open>None\<close> being the end. A use of an item that is no longer cached is a trap.
  Constructors and updaters are functions on rows. All secondary keys of a table have one type, as
  the secondary intrinsics have one family in \<open>DbHost\<close>.
\<close>

section \<open>Row types\<close>

record ('v, 's) row_type =
  rt_table :: u64
  rt_pk :: "'v \<Rightarrow> u64"
  rt_pack :: "'v \<Rightarrow> bytes"
  rt_unpack :: "bytes \<Rightarrow> 'v result"
  rt_default :: 'v
  rt_extract :: "('v \<Rightarrow> 's) list"
  rt_lowest :: 's

definition name_length_ok :: "(u64 \<Rightarrow> nat) \<Rightarrow> u64 \<Rightarrow> bool" where
  "name_length_ok name_length n \<longleftrightarrow> name_length n < 13"

definition validate_index_name :: "u64 \<Rightarrow> u64 \<Rightarrow> bool" where
  "validate_index_name primary_name n \<longleftrightarrow> n \<noteq> 0 \<and> n \<noteq> primary_name"

text \<open>The table of the secondary index with the given number.\<close>

definition index_table_name :: "u64 \<Rightarrow> nat \<Rightarrow> u64" where
  "index_table_name table n = (table AND 0xFFFFFFFFFFFFFFF0) OR (of_nat n AND 0xF)"

section \<open>State\<close>

record 'v item =
  item_obj :: 'v
  item_idx :: nat
  primary_itr :: int
  sec_iters :: "int list"

record 'v item_ptr =
  ptr_id :: nat
  ptr_item :: "'v item"
  ptr_pk :: u64
  ptr_itr :: int

record 'v multi_index =
  mx_self :: nat
  mx_code :: u64
  mx_scope :: u64
  mx_next_pk :: u64
  mx_items :: "'v item_ptr list"
  mx_alloc :: nat

definition no_available_primary_key :: u64 where
  "no_available_primary_key = - 2"

definition unset_next_primary_key :: u64 where
  "unset_next_primary_key = - 1"

definition new_multi_index :: "nat \<Rightarrow> u64 \<Rightarrow> u64 \<Rightarrow> 'v multi_index" where
  "new_multi_index self code scope = \<lparr>mx_self = self, mx_code = code, mx_scope = scope,
     mx_next_pk = unset_next_primary_key, mx_items = [], mx_alloc = 0\<rparr>"

type_synonym obj_ref = "nat \<times> nat"
type_synonym const_iterator = "nat option"

definition deref :: "'v multi_index \<Rightarrow> nat \<Rightarrow> 'v item result" where
  "deref m i = (case find (\<lambda>p. ptr_id p = i) (mx_items m) of
     None \<Rightarrow> Inl (Trap ''dangling item'') | Some p \<Rightarrow> Inr (ptr_item p))"

definition set_item :: "nat \<Rightarrow> ('v item \<Rightarrow> 'v item) \<Rightarrow> 'v multi_index \<Rightarrow> 'v multi_index" where
  "set_item i f m = m\<lparr>mx_items :=
     map (\<lambda>p. if ptr_id p = i then p\<lparr>ptr_item := f (ptr_item p)\<rparr> else p) (mx_items m)\<rparr>"

definition set_iter :: "nat \<Rightarrow> nat \<Rightarrow> int \<Rightarrow> 'v multi_index \<Rightarrow> 'v multi_index" where
  "set_iter i n r = set_item i (\<lambda>it. it\<lparr>sec_iters := (sec_iters it)[n := r]\<rparr>)"

definition add_item :: "'v item \<Rightarrow> u64 \<Rightarrow> 'v multi_index \<Rightarrow> nat \<times> 'v multi_index" where
  "add_item it pk m = (mx_alloc m,
     m\<lparr>mx_items := mx_items m @ [\<lparr>ptr_id = mx_alloc m, ptr_item = it, ptr_pk = pk, ptr_itr = primary_itr it\<rparr>],
       mx_alloc := Suc (mx_alloc m)\<rparr>)"

section \<open>Loading and finding rows\<close>

definition load_object_by_primary_iterator :: "('v, 's) row_type \<Rightarrow> ('h, 's) db_host \<Rightarrow> int
    \<Rightarrow> 'v multi_index \<Rightarrow> 'h \<Rightarrow> (nat \<times> 'v multi_index \<times> 'h) result" where
  "load_object_by_primary_iterator T H itr m h =
     (case find (\<lambda>p. ptr_itr p = itr) (rev (mx_items m)) of
        Some p \<Rightarrow> Inr (ptr_id p, m, h)
      | None \<Rightarrow>
          (case fst (db_get H itr 0 h) of sz \<Rightarrow>
           res_bind (check (0 \<le> sz) ''error reading iterator'') (\<lambda>_.
           res_bind (rt_unpack T (snd (db_get H itr (nat sz) h))) (\<lambda>v.
             (case add_item \<lparr>item_obj = v, item_idx = mx_self m, primary_itr = itr,
                 sec_iters = map (\<lambda>_. - 1) (rt_extract T)\<rparr> (rt_pk T v) m of (i, m1) \<Rightarrow> Inr (i, m1, h))))))"

definition iterator_to :: "'v multi_index \<Rightarrow> obj_ref \<Rightarrow> const_iterator result" where
  "iterator_to m r = res_bind (check (fst r = mx_self m) ''object passed to iterator_to is not in multi_index'')
     (\<lambda>_. Inr (Some (snd r)))"

definition cached :: "('v, 's) row_type \<Rightarrow> u64 \<Rightarrow> 'v multi_index \<Rightarrow> 'v item_ptr option" where
  "cached T pk m = find (\<lambda>p. rt_pk T (item_obj (ptr_item p)) = pk) (rev (mx_items m))"

definition land :: "('v, 's) row_type \<Rightarrow> ('h, 's) db_host \<Rightarrow> 'v multi_index \<Rightarrow> int \<times> 'h
    \<Rightarrow> (const_iterator \<times> 'v multi_index \<times> 'h) result" where
  "land T H m res = (case res of (itr, h) \<Rightarrow>
     if itr < 0 then Inr (None, m, h)
     else res_bind (load_object_by_primary_iterator T H itr m h) (\<lambda>(i, m1, h1). Inr (Some i, m1, h1)))"

definition mx_find :: "('v, 's) row_type \<Rightarrow> ('h, 's) db_host \<Rightarrow> u64 \<Rightarrow> 'v multi_index \<Rightarrow> 'h
    \<Rightarrow> (const_iterator \<times> 'v multi_index \<times> 'h) result" where
  "mx_find T H pk m h = (case cached T pk m of
     Some p \<Rightarrow> res_bind (iterator_to m (item_idx (ptr_item p), ptr_id p)) (\<lambda>it. Inr (it, m, h))
   | None \<Rightarrow> (case db_find H (mx_code m) (mx_scope m) (rt_table T) pk h of (itr, h1) \<Rightarrow>
       if itr < 0 then Inr (None, m, h1)
       else res_bind (load_object_by_primary_iterator T H itr m h1) (\<lambda>(i, m1, h2).
         res_bind (deref m1 i) (\<lambda>x. res_bind (iterator_to m1 (item_idx x, i)) (\<lambda>it. Inr (it, m1, h2))))))"

definition mx_require_find :: "('v, 's) row_type \<Rightarrow> ('h, 's) db_host \<Rightarrow> u64 \<Rightarrow> string \<Rightarrow> 'v multi_index \<Rightarrow> 'h
    \<Rightarrow> (const_iterator \<times> 'v multi_index \<times> 'h) result" where
  "mx_require_find T H pk msg m h = (case cached T pk m of
     Some p \<Rightarrow> res_bind (iterator_to m (item_idx (ptr_item p), ptr_id p)) (\<lambda>it. Inr (it, m, h))
   | None \<Rightarrow> (case db_find H (mx_code m) (mx_scope m) (rt_table T) pk h of (itr, h1) \<Rightarrow>
       res_bind (check (0 \<le> itr) msg) (\<lambda>_.
       res_bind (load_object_by_primary_iterator T H itr m h1) (\<lambda>(i, m1, h2).
         res_bind (deref m1 i) (\<lambda>x. res_bind (iterator_to m1 (item_idx x, i)) (\<lambda>it. Inr (it, m1, h2)))))))"

definition mx_get :: "('v, 's) row_type \<Rightarrow> ('h, 's) db_host \<Rightarrow> u64 \<Rightarrow> string \<Rightarrow> 'v multi_index \<Rightarrow> 'h
    \<Rightarrow> (nat \<times> 'v multi_index \<times> 'h) result" where
  "mx_get T H pk msg m h = res_bind (mx_find T H pk m h) (\<lambda>(it, m1, h1).
     case it of None \<Rightarrow> Inl (Check msg) | Some i \<Rightarrow> Inr (i, m1, h1))"

definition mx_lower_bound :: "('v, 's) row_type \<Rightarrow> ('h, 's) db_host \<Rightarrow> u64 \<Rightarrow> 'v multi_index \<Rightarrow> 'h
    \<Rightarrow> (const_iterator \<times> 'v multi_index \<times> 'h) result" where
  "mx_lower_bound T H pk m h = land T H m (db_lowerbound H (mx_code m) (mx_scope m) (rt_table T) pk h)"

definition mx_upper_bound :: "('v, 's) row_type \<Rightarrow> ('h, 's) db_host \<Rightarrow> u64 \<Rightarrow> 'v multi_index \<Rightarrow> 'h
    \<Rightarrow> (const_iterator \<times> 'v multi_index \<times> 'h) result" where
  "mx_upper_bound T H pk m h = land T H m (db_upperbound H (mx_code m) (mx_scope m) (rt_table T) pk h)"

definition mx_begin :: "('v, 's) row_type \<Rightarrow> ('h, 's) db_host \<Rightarrow> 'v multi_index \<Rightarrow> 'h
    \<Rightarrow> (const_iterator \<times> 'v multi_index \<times> 'h) result" where
  "mx_begin T H m h = mx_lower_bound T H 0 m h"

definition mx_end :: const_iterator where
  "mx_end = None"

section \<open>Moving iterators\<close>

definition mx_next :: "('v, 's) row_type \<Rightarrow> ('h, 's) db_host \<Rightarrow> const_iterator \<Rightarrow> 'v multi_index \<Rightarrow> 'h
    \<Rightarrow> (const_iterator \<times> 'v multi_index \<times> 'h) result" where
  "mx_next T H it m h = (case it of
     None \<Rightarrow> Inl (Check ''cannot increment end iterator'')
   | Some i \<Rightarrow> res_bind (deref m i) (\<lambda>x. land T H m (apfst fst (db_next H (primary_itr x) h))))"

definition mx_prev :: "('v, 's) row_type \<Rightarrow> ('h, 's) db_host \<Rightarrow> const_iterator \<Rightarrow> 'v multi_index \<Rightarrow> 'h
    \<Rightarrow> (const_iterator \<times> 'v multi_index \<times> 'h) result" where
  "mx_prev T H it m h = (case it of
     None \<Rightarrow>
       (case db_end H (mx_code m) (mx_scope m) (rt_table T) h of (ei, h1) \<Rightarrow>
        res_bind (check (ei \<noteq> - 1) ''cannot decrement end iterator when the table is empty'') (\<lambda>_.
          (case db_previous H ei h1 of ((r, _), h2) \<Rightarrow>
           res_bind (check (0 \<le> r) ''cannot decrement end iterator when the table is empty'') (\<lambda>_.
             land T H m (r, h2)))))
   | Some i \<Rightarrow> res_bind (deref m i) (\<lambda>x.
       (case db_previous H (primary_itr x) h of ((r, _), h2) \<Rightarrow>
        res_bind (check (0 \<le> r) ''cannot decrement iterator at beginning of table'') (\<lambda>_.
          land T H m (r, h2)))))"

definition available_primary_key :: "('v, 's) row_type \<Rightarrow> ('h, 's) db_host \<Rightarrow> 'v multi_index \<Rightarrow> 'h
    \<Rightarrow> (u64 \<times> 'v multi_index \<times> 'h) result" where
  "available_primary_key T H m h =
     res_bind
       (if mx_next_pk m = unset_next_primary_key then
          res_bind (mx_begin T H m h) (\<lambda>(b, m1, h1).
            if b = mx_end then Inr (m1\<lparr>mx_next_pk := 0\<rparr>, h1)
            else res_bind (mx_prev T H mx_end m1 h1) (\<lambda>(it, m2, h2).
              (case it of None \<Rightarrow> Inl (Trap ''end iterator dereferenced'')
               | Some i \<Rightarrow> res_bind (deref m2 i) (\<lambda>x.
                   let pk = rt_pk T (item_obj x)
                   in Inr (m2\<lparr>mx_next_pk := if no_available_primary_key \<le> pk then no_available_primary_key
                        else pk + 1\<rparr>, h2)))))
        else Inr (m, h))
       (\<lambda>(m1, h1). res_bind (check (mx_next_pk m1 < no_available_primary_key)
            ''next primary key in table is at autoincrement limit'')
          (\<lambda>_. Inr (mx_next_pk m1, m1, h1)))"

section \<open>Writing rows\<close>

definition note_key :: "u64 \<Rightarrow> 'v multi_index \<Rightarrow> 'v multi_index" where
  "note_key pk m = (if mx_next_pk m \<le> pk
     then m\<lparr>mx_next_pk := if no_available_primary_key \<le> pk then no_available_primary_key else pk + 1\<rparr>
     else m)"

fun store_secondaries :: "('h, 's) db_host \<Rightarrow> u64 \<Rightarrow> u64 \<Rightarrow> u64 \<Rightarrow> u64 \<Rightarrow> nat \<Rightarrow> 's list \<Rightarrow> 'h \<Rightarrow> int list \<times> 'h" where
  "store_secondaries H scope table payer pk n [] h = ([], h)"
| "store_secondaries H scope table payer pk n (x # xs) h =
     (case idx_store H scope (index_table_name table n) payer pk x h of (r, h1) \<Rightarrow>
        (case store_secondaries H scope table payer pk (Suc n) xs h1 of (rs, h2) \<Rightarrow> (r # rs, h2)))"

definition extracted :: "('v, 's) row_type \<Rightarrow> 'v \<Rightarrow> 's list" where
  "extracted T v = map (\<lambda>ex. ex v) (rt_extract T)"

definition mx_emplace :: "('v, 's) row_type \<Rightarrow> ('h, 's) db_host \<Rightarrow> u64 \<Rightarrow> ('v \<Rightarrow> 'v) \<Rightarrow> 'v multi_index \<Rightarrow> 'h
    \<Rightarrow> (const_iterator \<times> 'v multi_index \<times> 'h) result" where
  "mx_emplace T H payer constructor m h =
     res_bind (check (mx_code m = current_receiver H) ''cannot create objects in table of another contract'') (\<lambda>_.
       let v = constructor (rt_default T); pk = rt_pk T v in
       (case db_store H (mx_scope m) (rt_table T) payer pk (rt_pack T v) h of (r, h1) \<Rightarrow>
        (case store_secondaries H (mx_scope m) (rt_table T) payer pk 0 (extracted T v) h1 of (rs, h2) \<Rightarrow>
         (case add_item \<lparr>item_obj = v, item_idx = mx_self m, primary_itr = r, sec_iters = rs\<rparr> pk (note_key pk m)
          of (i, m1) \<Rightarrow> Inr (Some i, m1, h2)))))"

text \<open>The loop over the secondary indices of \<open>modify\<close>: old and new keys, the iterators of the item.\<close>

fun update_secondaries :: "('h, 's) db_host \<Rightarrow> u64 \<Rightarrow> u64 \<Rightarrow> u64 \<Rightarrow> u64 \<Rightarrow> u64 \<Rightarrow> nat \<Rightarrow> ('s \<times> 's \<times> int) list \<Rightarrow> 'h
    \<Rightarrow> int list \<times> 'h" where
  "update_secondaries H code scope table payer pk n [] h = ([], h)"
| "update_secondaries H code scope table payer pk n ((old, new, r) # xs) h =
     (case (if old \<noteq> new then
              (case (if r < 0 then idx_find_primary H code scope (index_table_name table n) pk h else (r, h))
               of (r1, h1) \<Rightarrow> (r1, idx_update H r1 payer new h1))
            else (r, h)) of (r2, h2) \<Rightarrow>
        (case update_secondaries H code scope table payer pk (Suc n) xs h2 of (rs, h3) \<Rightarrow> (r2 # rs, h3)))"

definition mx_modify :: "('v, 's) row_type \<Rightarrow> ('h, 's) db_host \<Rightarrow> obj_ref \<Rightarrow> u64 \<Rightarrow> ('v \<Rightarrow> 'v) \<Rightarrow> 'v multi_index \<Rightarrow> 'h
    \<Rightarrow> ('v multi_index \<times> 'h) result" where
  "mx_modify T H obj payer updater m h =
     res_bind (check (fst obj = mx_self m) ''object passed to modify is not in multi_index'') (\<lambda>_.
     res_bind (check (mx_code m = current_receiver H) ''cannot modify objects in table of another contract'') (\<lambda>_.
     res_bind (deref m (snd obj)) (\<lambda>x.
       let v = item_obj x; pk = rt_pk T v; v' = updater v in
       res_bind (check (pk = rt_pk T v') ''updater cannot change primary key when modifying an object'') (\<lambda>_.
         let h1 = db_update H (primary_itr x) payer (rt_pack T v') h in
         (case update_secondaries H (mx_code m) (mx_scope m) (rt_table T) payer pk 0
             (zip (extracted T v) (zip (extracted T v') (sec_iters x))) h1 of (rs, h2) \<Rightarrow>
            Inr (set_item (snd obj) (\<lambda>x. x\<lparr>item_obj := v', sec_iters := rs\<rparr>) (note_key pk m), h2))))))"

definition mx_modify_at :: "('v, 's) row_type \<Rightarrow> ('h, 's) db_host \<Rightarrow> const_iterator \<Rightarrow> u64 \<Rightarrow> ('v \<Rightarrow> 'v)
    \<Rightarrow> 'v multi_index \<Rightarrow> 'h \<Rightarrow> ('v multi_index \<times> 'h) result" where
  "mx_modify_at T H it payer updater m h = (case it of
     None \<Rightarrow> Inl (Check ''cannot pass end iterator to modify'')
   | Some i \<Rightarrow> res_bind (deref m i) (\<lambda>x. mx_modify T H (item_idx x, i) payer updater m h))"

fun remove_secondaries :: "('h, 's) db_host \<Rightarrow> u64 \<Rightarrow> u64 \<Rightarrow> u64 \<Rightarrow> u64 \<Rightarrow> nat \<Rightarrow> int list \<Rightarrow> 'h \<Rightarrow> 'h" where
  "remove_secondaries H code scope table pk n [] h = h"
| "remove_secondaries H code scope table pk n (r # rs) h =
     (case (if r < 0 then idx_find_primary H code scope (index_table_name table n) pk h else (r, h)) of (r1, h1) \<Rightarrow>
        remove_secondaries H code scope table pk (Suc n) rs (if 0 \<le> r1 then idx_remove H r1 h1 else h1))"

text \<open>\<open>_items_vector.erase\<close> at the last element that satisfies the condition.\<close>

fun drop_first :: "('a \<Rightarrow> bool) \<Rightarrow> 'a list \<Rightarrow> 'a list" where
  "drop_first P [] = []"
| "drop_first P (x # xs) = (if P x then xs else x # drop_first P xs)"

definition drop_last :: "('a \<Rightarrow> bool) \<Rightarrow> 'a list \<Rightarrow> 'a list" where
  "drop_last P xs = rev (drop_first P (rev xs))"

definition mx_erase :: "('v, 's) row_type \<Rightarrow> ('h, 's) db_host \<Rightarrow> obj_ref \<Rightarrow> 'v multi_index \<Rightarrow> 'h
    \<Rightarrow> ('v multi_index \<times> 'h) result" where
  "mx_erase T H obj m h =
     res_bind (check (fst obj = mx_self m) ''object passed to erase is not in multi_index'') (\<lambda>_.
     res_bind (check (mx_code m = current_receiver H) ''cannot erase objects in table of another contract'') (\<lambda>_.
     res_bind (deref m (snd obj)) (\<lambda>x.
       let pk = rt_pk T (item_obj x) in
       res_bind (check (cached T pk m \<noteq> None) ''attempt to remove object that was not in multi_index'') (\<lambda>_.
         let h1 = db_remove H (primary_itr x) h;
             h2 = remove_secondaries H (mx_code m) (mx_scope m) (rt_table T) pk 0 (sec_iters x) h1
         in Inr (m\<lparr>mx_items := drop_last (\<lambda>p. rt_pk T (item_obj (ptr_item p)) = pk) (mx_items m)\<rparr>, h2)))))"

definition mx_erase_at :: "('v, 's) row_type \<Rightarrow> ('h, 's) db_host \<Rightarrow> const_iterator \<Rightarrow> 'v multi_index \<Rightarrow> 'h
    \<Rightarrow> (const_iterator \<times> 'v multi_index \<times> 'h) result" where
  "mx_erase_at T H it m h = (case it of
     None \<Rightarrow> Inl (Check ''cannot pass end iterator to erase'')
   | Some i \<Rightarrow> res_bind (deref m i) (\<lambda>x.
       res_bind (mx_next T H it m h) (\<lambda>(it', m1, h1).
       res_bind (mx_erase T H (item_idx x, i) m1 h1) (\<lambda>(m2, h2). Inr (it', m2, h2)))))"

section \<open>Secondary indices\<close>

text \<open>The item of the row a secondary lookup names, with its iterator in the index recorded.\<close>

definition sx_land :: "('v, 's) row_type \<Rightarrow> ('h, 's) db_host \<Rightarrow> nat \<Rightarrow> 'v multi_index \<Rightarrow> (int \<times> u64) \<times> 'h
    \<Rightarrow> (const_iterator \<times> 'v multi_index \<times> 'h) result" where
  "sx_land T H n m res = (case res of ((itr, pk), h) \<Rightarrow>
     if itr < 0 then Inr (None, m, h)
     else res_bind (mx_find T H pk m h) (\<lambda>(it, m1, h1). case it of
        None \<Rightarrow> Inl (Trap ''end iterator dereferenced'')
      | Some i \<Rightarrow> Inr (Some i, set_iter i n itr m1, h1)))"

definition sx_lower_bound :: "('v, 's) row_type \<Rightarrow> ('h, 's) db_host \<Rightarrow> nat \<Rightarrow> 's \<Rightarrow> 'v multi_index \<Rightarrow> 'h
    \<Rightarrow> (const_iterator \<times> 'v multi_index \<times> 'h) result" where
  "sx_lower_bound T H n x m h =
     sx_land T H n m (idx_lowerbound H (mx_code m) (mx_scope m) (index_table_name (rt_table T) n) x h)"

definition sx_upper_bound :: "('v, 's) row_type \<Rightarrow> ('h, 's) db_host \<Rightarrow> nat \<Rightarrow> 's \<Rightarrow> 'v multi_index \<Rightarrow> 'h
    \<Rightarrow> (const_iterator \<times> 'v multi_index \<times> 'h) result" where
  "sx_upper_bound T H n x m h =
     sx_land T H n m (idx_upperbound H (mx_code m) (mx_scope m) (index_table_name (rt_table T) n) x h)"

definition sx_begin :: "('v, 's) row_type \<Rightarrow> ('h, 's) db_host \<Rightarrow> nat \<Rightarrow> 'v multi_index \<Rightarrow> 'h
    \<Rightarrow> (const_iterator \<times> 'v multi_index \<times> 'h) result" where
  "sx_begin T H n m h = sx_lower_bound T H n (rt_lowest T) m h"

definition sx_end :: const_iterator where
  "sx_end = None"

definition sx_find :: "('v, 's) row_type \<Rightarrow> ('h, 's) db_host \<Rightarrow> nat \<Rightarrow> 's \<Rightarrow> 'v multi_index \<Rightarrow> 'h
    \<Rightarrow> (const_iterator \<times> 'v multi_index \<times> 'h) result" where
  "sx_find T H n x m h = res_bind (sx_lower_bound T H n x m h) (\<lambda>(lb, m1, h1). case lb of
     None \<Rightarrow> Inr (sx_end, m1, h1)
   | Some i \<Rightarrow> res_bind (deref m1 i) (\<lambda>it.
       Inr (if x \<noteq> (rt_extract T ! n) (item_obj it) then sx_end else lb, m1, h1)))"

definition sx_require_find :: "('v, 's) row_type \<Rightarrow> ('h, 's) db_host \<Rightarrow> nat \<Rightarrow> 's \<Rightarrow> string \<Rightarrow> 'v multi_index \<Rightarrow> 'h
    \<Rightarrow> (const_iterator \<times> 'v multi_index \<times> 'h) result" where
  "sx_require_find T H n x msg m h = res_bind (sx_lower_bound T H n x m h) (\<lambda>(lb, m1, h1). case lb of
     None \<Rightarrow> Inl (Check msg)
   | Some i \<Rightarrow> res_bind (deref m1 i) (\<lambda>it.
       res_bind (check (x = (rt_extract T ! n) (item_obj it)) msg) (\<lambda>_. Inr (lb, m1, h1))))"

definition sx_get :: "('v, 's) row_type \<Rightarrow> ('h, 's) db_host \<Rightarrow> nat \<Rightarrow> 's \<Rightarrow> string \<Rightarrow> 'v multi_index \<Rightarrow> 'h
    \<Rightarrow> (nat \<times> 'v multi_index \<times> 'h) result" where
  "sx_get T H n x msg m h = res_bind (sx_find T H n x m h) (\<lambda>(it, m1, h1).
     case it of None \<Rightarrow> Inl (Check msg) | Some i \<Rightarrow> Inr (i, m1, h1))"

text \<open>The item's iterator in the index, looked up by its primary key when it is not known.\<close>

definition sx_iter :: "('v, 's) row_type \<Rightarrow> ('h, 's) db_host \<Rightarrow> nat \<Rightarrow> nat \<Rightarrow> 'v multi_index \<Rightarrow> 'h
    \<Rightarrow> (int \<times> 'v multi_index \<times> 'h) result" where
  "sx_iter T H n i m h = res_bind (deref m i) (\<lambda>x.
     if sec_iters x ! n = - 1 then
       (case idx_find_primary H (mx_code m) (mx_scope m) (index_table_name (rt_table T) n) (rt_pk T (item_obj x)) h
        of (r, h1) \<Rightarrow> Inr (r, set_iter i n r m, h1))
     else Inr (sec_iters x ! n, m, h))"

definition sx_next :: "('v, 's) row_type \<Rightarrow> ('h, 's) db_host \<Rightarrow> nat \<Rightarrow> const_iterator \<Rightarrow> 'v multi_index \<Rightarrow> 'h
    \<Rightarrow> (const_iterator \<times> 'v multi_index \<times> 'h) result" where
  "sx_next T H n it m h = (case it of
     None \<Rightarrow> Inl (Check ''cannot increment end iterator'')
   | Some i \<Rightarrow> res_bind (sx_iter T H n i m h) (\<lambda>(r, m1, h1). sx_land T H n m1 (idx_next H r h1)))"

definition sx_prev :: "('v, 's) row_type \<Rightarrow> ('h, 's) db_host \<Rightarrow> nat \<Rightarrow> const_iterator \<Rightarrow> 'v multi_index \<Rightarrow> 'h
    \<Rightarrow> (const_iterator \<times> 'v multi_index \<times> 'h) result" where
  "sx_prev T H n it m h = (case it of
     None \<Rightarrow>
       (case idx_end H (mx_code m) (mx_scope m) (index_table_name (rt_table T) n) h of (ei, h1) \<Rightarrow>
        res_bind (check (ei \<noteq> - 1) ''cannot decrement end iterator when the index is empty'') (\<lambda>_.
          (case idx_previous H ei h1 of ((r, pk), h2) \<Rightarrow>
           res_bind (check (0 \<le> r) ''cannot decrement end iterator when the index is empty'') (\<lambda>_.
             sx_land T H n m ((r, pk), h2)))))
   | Some i \<Rightarrow> res_bind (sx_iter T H n i m h) (\<lambda>(r0, m1, h1).
       (case idx_previous H r0 h1 of ((r, pk), h2) \<Rightarrow>
        res_bind (check (0 \<le> r) ''cannot decrement iterator at beginning of index'') (\<lambda>_.
          sx_land T H n m1 ((r, pk), h2)))))"

definition sx_iterator_to :: "('v, 's) row_type \<Rightarrow> ('h, 's) db_host \<Rightarrow> nat \<Rightarrow> obj_ref \<Rightarrow> 'v multi_index \<Rightarrow> 'h
    \<Rightarrow> (const_iterator \<times> 'v multi_index \<times> 'h) result" where
  "sx_iterator_to T H n obj m h =
     res_bind (check (fst obj = mx_self m) ''object passed to iterator_to is not in multi_index'') (\<lambda>_.
     res_bind (sx_iter T H n (snd obj) m h) (\<lambda>(r, m1, h1). Inr (Some (snd obj), m1, h1)))"

definition sx_modify_at :: "('v, 's) row_type \<Rightarrow> ('h, 's) db_host \<Rightarrow> const_iterator \<Rightarrow> u64 \<Rightarrow> ('v \<Rightarrow> 'v)
    \<Rightarrow> 'v multi_index \<Rightarrow> 'h \<Rightarrow> ('v multi_index \<times> 'h) result" where
  "sx_modify_at T H it payer updater m h = (case it of
     None \<Rightarrow> Inl (Check ''cannot pass end iterator to modify'')
   | Some i \<Rightarrow> res_bind (deref m i) (\<lambda>x. mx_modify T H (item_idx x, i) payer updater m h))"

definition sx_erase_at :: "('v, 's) row_type \<Rightarrow> ('h, 's) db_host \<Rightarrow> nat \<Rightarrow> const_iterator \<Rightarrow> 'v multi_index \<Rightarrow> 'h
    \<Rightarrow> (const_iterator \<times> 'v multi_index \<times> 'h) result" where
  "sx_erase_at T H n it m h = (case it of
     None \<Rightarrow> Inl (Check ''cannot pass end iterator to erase'')
   | Some i \<Rightarrow> res_bind (deref m i) (\<lambda>x.
       res_bind (sx_next T H n it m h) (\<lambda>(it', m1, h1).
       res_bind (mx_erase T H (item_idx x, i) m1 h1) (\<lambda>(m2, h2). Inr (it', m2, h2)))))"

end
