(* ===== verification/MultiIndexSafe.thy ===== *)
theory MultiIndexSafe
  imports MultiIndex
begin

text \<open>
  What a table of \<open>multi_index.hpp\<close> keeps true: the rows and the secondary entries of the host
  represent one finite function from primary keys to rows, every cached item is the current row with
  live iterator numbers, and the next primary key is above all keys. Every lookup and every write
  preserves this; \<open>lookup_ok\<close> says where a lookup ends.
\<close>

section \<open>Invariant\<close>

definition row_type_ok :: "('v, 's :: linorder) row_type \<Rightarrow> bool" where
  "row_type_ok T \<longleftrightarrow> (\<forall>v. rt_unpack T (rt_pack T v) = Inr v) \<and> length (rt_extract T) \<le> 16 \<and> (\<forall>x. rt_lowest T \<le> x)"

definition row_table :: "('v, 's) row_type \<Rightarrow> 'v multi_index \<Rightarrow> table_id" where
  "row_table T m = (mx_code m, mx_scope m, rt_table T)"

definition sec_table :: "('v, 's) row_type \<Rightarrow> 'v multi_index \<Rightarrow> nat \<Rightarrow> table_id" where
  "sec_table T m n = (mx_code m, mx_scope m, index_table_name (rt_table T) n)"

definition rows_rep :: "('v, 's) row_type \<Rightarrow> ('h, 's) db_view \<Rightarrow> 'v multi_index \<Rightarrow> 'h \<Rightarrow> (u64 \<Rightarrow> 'v option) \<Rightarrow> bool" where
  "rows_rep T V m h F \<longleftrightarrow> dv_rows V h (row_table T m) = (\<lambda>k. map_option (rt_pack T) (F k))
     \<and> (\<forall>k v. F k = Some v \<longrightarrow> rt_pk T v = k)
     \<and> (\<forall>n < length (rt_extract T). dv_secs V h (sec_table T m n) = (\<lambda>k. map_option (rt_extract T ! n) (F k)))"

definition item_ok :: "('v, 's) row_type \<Rightarrow> ('h, 's) db_view \<Rightarrow> 'v multi_index \<Rightarrow> 'h \<Rightarrow> (u64 \<Rightarrow> 'v option)
    \<Rightarrow> 'v item_ptr \<Rightarrow> bool" where
  "item_ok T V m h F p \<longleftrightarrow> (let x = ptr_item p; k = rt_pk T (item_obj x) in
     item_idx x = mx_self m \<and> ptr_itr p = primary_itr x \<and> ptr_pk p = k \<and> F k = Some (item_obj x)
     \<and> dv_ids V h (primary_itr x) = Some (row_table T m, k)
     \<and> length (sec_iters x) = length (rt_extract T)
     \<and> (\<forall>n < length (rt_extract T). sec_iters x ! n = - 1 \<or> dv_sids V h (sec_iters x ! n) = Some (sec_table T m n, k)))"

definition next_key_ok :: "'v multi_index \<Rightarrow> (u64 \<Rightarrow> 'v option) \<Rightarrow> bool" where
  "next_key_ok m F \<longleftrightarrow> mx_next_pk m = unset_next_primary_key \<or> mx_next_pk m = no_available_primary_key
     \<or> (mx_next_pk m < no_available_primary_key \<and> (\<forall>k \<in> dom F. k < mx_next_pk m))"

definition mx_inv :: "('v, 's) row_type \<Rightarrow> ('h, 's) db_view \<Rightarrow> 'v multi_index \<Rightarrow> 'h \<Rightarrow> (u64 \<Rightarrow> 'v option) \<Rightarrow> bool" where
  "mx_inv T V m h F \<longleftrightarrow> rows_rep T V m h F \<and> (\<forall>p \<in> set (mx_items m). item_ok T V m h F p)
     \<and> distinct (map ptr_id (mx_items m)) \<and> distinct (map ptr_pk (mx_items m))
     \<and> (\<forall>p \<in> set (mx_items m). ptr_id p < mx_alloc m) \<and> next_key_ok m F"

text \<open>An item is cached under a number; what stays of a table when only the cache grows.\<close>

definition ref_at :: "'v multi_index \<Rightarrow> nat \<Rightarrow> 'v \<Rightarrow> bool" where
  "ref_at m i v \<longleftrightarrow> (\<exists>p \<in> set (mx_items m). ptr_id p = i \<and> item_obj (ptr_item p) = v)"

definition mx_ext :: "'v multi_index \<Rightarrow> 'v multi_index \<Rightarrow> bool" where
  "mx_ext m m' \<longleftrightarrow> mx_self m' = mx_self m \<and> mx_code m' = mx_code m \<and> mx_scope m' = mx_scope m
     \<and> mx_next_pk m' = mx_next_pk m \<and> (\<forall>i v. ref_at m i v \<longrightarrow> ref_at m' i v)"

definition it_at :: "'v multi_index \<Rightarrow> (u64 \<Rightarrow> 'v option) \<Rightarrow> const_iterator \<Rightarrow> u64 option \<Rightarrow> bool" where
  "it_at m F it pos \<longleftrightarrow> (case it of None \<Rightarrow> pos = None
     | Some i \<Rightarrow> (\<exists>k v. pos = Some k \<and> F k = Some v \<and> ref_at m i v))"

definition lookup_ok :: "('v, 's) row_type \<Rightarrow> ('h, 's) db_view \<Rightarrow> 'v multi_index \<Rightarrow> 'h \<Rightarrow> (u64 \<Rightarrow> 'v option)
    \<Rightarrow> u64 option \<Rightarrow> (const_iterator \<times> 'v multi_index \<times> 'h) result \<Rightarrow> bool" where
  "lookup_ok T V m h F pos r \<longleftrightarrow> (\<exists>it m' h'. r = Inr (it, m', h') \<and> mx_inv T V m' h' F \<and> it_at m' F it pos
     \<and> mx_ext m m' \<and> same_db V h h')"

lemma same_db_refl [simp]: "same_db V h h"
  by (simp add: same_db_def)

lemma same_db_trans: "same_db V h h' \<Longrightarrow> same_db V h' h'' \<Longrightarrow> same_db V h h''"
  by (auto simp: same_db_def intro: map_le_trans)

lemma mx_ext_refl [simp]: "mx_ext m m"
  by (simp add: mx_ext_def)

lemma mx_ext_trans: "mx_ext m m' \<Longrightarrow> mx_ext m' m'' \<Longrightarrow> mx_ext m m''"
  by (simp add: mx_ext_def)

lemma mx_ext_tables: "mx_ext m m' \<Longrightarrow> row_table T m' = row_table T m \<and> sec_table T m' n = sec_table T m n"
  by (simp add: mx_ext_def row_table_def sec_table_def)

lemma map_le_Some: "f \<subseteq>\<^sub>m g \<Longrightarrow> f x = Some y \<Longrightarrow> g x = Some y"
  by (auto simp: map_le_def dom_def)

lemma item_ok_mono:
  "item_ok T V m h F p \<Longrightarrow> dv_ids V h \<subseteq>\<^sub>m dv_ids V h' \<Longrightarrow> dv_sids V h \<subseteq>\<^sub>m dv_sids V h' \<Longrightarrow> item_ok T V m h' F p"
  by (auto simp: item_ok_def Let_def dest: map_le_Some)

lemma mx_inv_same_db: "mx_inv T V m h F \<Longrightarrow> same_db V h h' \<Longrightarrow> mx_inv T V m h' F"
  by (auto simp: mx_inv_def same_db_def rows_rep_def intro: item_ok_mono)

lemma mx_inv_items:
  assumes "mx_inv T V m h F" "p \<in> set (mx_items m)"
  shows "item_ok T V m h F p" "ptr_pk p = rt_pk T (item_obj (ptr_item p))" "ptr_itr p = primary_itr (ptr_item p)"
    "F (ptr_pk p) = Some (item_obj (ptr_item p))" "dv_ids V h (primary_itr (ptr_item p)) = Some (row_table T m, ptr_pk p)"
    "item_idx (ptr_item p) = mx_self m"
  using assms by (auto simp: mx_inv_def item_ok_def Let_def)

lemma find_distinct:
  assumes "distinct (map f xs)" "p \<in> set xs"
  shows "find (\<lambda>q. f q = f p) xs = Some p"
  using assms by (induction xs) (auto simp: image_iff)

lemma find_revD: "find P (rev xs) = Some p \<Longrightarrow> p \<in> set xs \<and> P p"
  unfolding find_Some_iff by (metis nth_mem set_rev)

lemma deref_ref:
  assumes "mx_inv T V m h F" "p \<in> set (mx_items m)"
  shows "deref m (ptr_id p) = Inr (ptr_item p)"
  using assms find_distinct [of ptr_id "mx_items m" p] by (simp add: deref_def mx_inv_def)

lemma ref_atE:
  assumes "mx_inv T V m h F" "ref_at m i v"
  obtains p where "p \<in> set (mx_items m)" "ptr_id p = i" "item_obj (ptr_item p) = v" "deref m i = Inr (ptr_item p)"
    "F (rt_pk T v) = Some v" "dv_ids V h (primary_itr (ptr_item p)) = Some (row_table T m, rt_pk T v)"
    "item_idx (ptr_item p) = mx_self m"
  using assms deref_ref [OF assms(1)] mx_inv_items [OF assms(1)]
  unfolding ref_at_def by metis

lemma cached_Some:
  assumes "cached T k m = Some p" 
  shows "p \<in> set (mx_items m)" "rt_pk T (item_obj (ptr_item p)) = k"
  using find_revD [OF assms [unfolded cached_def]] by simp_all

lemma cached_None: "cached T k m = None \<longleftrightarrow> (\<forall>p \<in> set (mx_items m). rt_pk T (item_obj (ptr_item p)) \<noteq> k)"
  by (auto simp: cached_def find_None_iff)

lemma rows_rep_dom: "rows_rep T V m h F \<Longrightarrow> dom (dv_rows V h (row_table T m)) = dom F"
  by (auto simp: rows_rep_def)

section \<open>Loading\<close>

lemma add_item_inv:
  assumes inv: "mx_inv T V m h F" and ok: "item_ok T V m h F \<lparr>ptr_id = mx_alloc m, ptr_item = x, ptr_pk = k, ptr_itr = primary_itr x\<rparr>"
    and new: "\<forall>p \<in> set (mx_items m). ptr_pk p \<noteq> k" and a: "add_item x k m = (i, m')"
  shows "mx_inv T V m' h F" "ref_at m' i (item_obj x)" "mx_ext m m'"
proof -
  have i: "i = mx_alloc m" and m': "m' = m\<lparr>mx_items := mx_items m @ [\<lparr>ptr_id = mx_alloc m, ptr_item = x, ptr_pk = k, ptr_itr = primary_itr x\<rparr>],
       mx_alloc := Suc (mx_alloc m)\<rparr>"
    using a by (auto simp: add_item_def)
  have "rows_rep T V m' h F = rows_rep T V m h F" "item_ok T V m' h F p = item_ok T V m h F p" for p
    unfolding m' by (simp_all add: rows_rep_def item_ok_def row_table_def sec_table_def Let_def)
  moreover have "ptr_id p \<noteq> mx_alloc m" if "p \<in> set (mx_items m)" for p
    using inv that by (auto simp: mx_inv_def)
  ultimately show "mx_inv T V m' h F"
    using inv ok new unfolding mx_inv_def m' by (auto simp: next_key_ok_def less_Suc_eq)
  show "ref_at m' i (item_obj x)" by (simp add: ref_at_def m' i)
  show "mx_ext m m'" by (auto simp: mx_ext_def ref_at_def m')
qed

lemma load_ok:
  assumes db: "db_ok H V" and T: "row_type_ok T" and inv: "mx_inv T V m h F"
    and r: "dv_ids V h r = Some (row_table T m, k)"
  obtains i m' v where "load_object_by_primary_iterator T H r m h = Inr (i, m', h)" "mx_inv T V m' h F"
    "F k = Some v" "ref_at m' i v" "mx_ext m m'"
proof (cases "find (\<lambda>p. ptr_itr p = r) (rev (mx_items m))")
  case (Some p)
  then have p: "p \<in> set (mx_items m)" "ptr_itr p = r"
    using find_revD [OF Some] by simp_all
  have "ptr_pk p = k" using mx_inv_items(3,5) [OF inv p(1)] p(2) r by simp
  then have "F k = Some (item_obj (ptr_item p))" using mx_inv_items(4) [OF inv p(1)] by simp
  moreover have "ref_at m (ptr_id p) (item_obj (ptr_item p))" using p(1) by (auto simp: ref_at_def)
  ultimately show ?thesis
    using that [of "ptr_id p" m] Some inv by (simp add: load_object_by_primary_iterator_def)
next
  case None
  have rep: "rows_rep T V m h F" using inv by (simp add: mx_inv_def)
  have "dv_rows V h (row_table T m) k \<noteq> None"
    using ids_okD(2) [OF row_ids_law [OF db] r] .
  then obtain v where v: "F k = Some v" using rep by (auto simp: rows_rep_def)
  then have d: "dv_rows V h (row_table T m) k = Some (rt_pack T v)" and k: "rt_pk T v = k"
    using rep by (simp_all add: rows_rep_def)
  let ?x = "\<lparr>item_obj = v, item_idx = mx_self m, primary_itr = r, sec_iters = map (\<lambda>_. - 1) (rt_extract T)\<rparr>"
  obtain i m' where a: "add_item ?x k m = (i, m')" by fastforce
  have "ptr_pk p \<noteq> k" if "p \<in> set (mx_items m)" for p
  proof
    assume "ptr_pk p = k"
    then have "dv_ids V h (ptr_itr p) = Some (row_table T m, k)" using mx_inv_items(3,5) [OF inv that] by simp
    then have "ptr_itr p = r" using ids_okD(3) [OF row_ids_law [OF db]] r by blast
    with None that show False by (simp add: find_None_iff)
  qed
  moreover have "item_ok T V m h F \<lparr>ptr_id = mx_alloc m, ptr_item = ?x, ptr_pk = k, ptr_itr = primary_itr ?x\<rparr>"
    using v k r by (simp add: item_ok_def)
  ultimately have m': "mx_inv T V m' h F" "ref_at m' i v" "mx_ext m m'"
    using add_item_inv [OF inv _ _ a] by simp_all
  have "load_object_by_primary_iterator T H r m h = Inr (i, m', h)"
    using None get_law [OF db r d] T a k
    by (simp add: load_object_by_primary_iterator_def row_type_ok_def)
  with that m' v show ?thesis by blast
qed

lemma land_ok:
  assumes db: "db_ok H V" and T: "row_type_ok T" and inv: "mx_inv T V m h F"
    and l: "row_lands V h (row_table T m) pos res"
  shows "lookup_ok T V m h F pos (land T H m res)"
proof -
  obtain r h' where res: "res = (r, h')" by fastforce
  have same: "same_db V h h'" and at: "lands (dv_ids V h') (row_table T m) pos r"
    using l by (simp_all add: row_lands_def res)
  have inv': "mx_inv T V m h' F" by (rule mx_inv_same_db [OF inv same])
  show ?thesis
  proof (cases pos)
    case None
    then show ?thesis
      using at inv' same unfolding lookup_ok_def res by (simp add: land_def lands_def it_at_def)
  next
    case (Some k)
    then have r: "dv_ids V h' r = Some (row_table T m, k)" using at by (simp add: lands_def)
    then have "0 \<le> r" using ids_okD(1) [OF row_ids_law [OF db]] by blast
    moreover obtain i m' v where "load_object_by_primary_iterator T H r m h' = Inr (i, m', h')" "mx_inv T V m' h' F"
      "F k = Some v" "ref_at m' i v" "mx_ext m m'"
      by (rule load_ok [OF db T inv' r])
    ultimately show ?thesis
      using same unfolding lookup_ok_def res Some by (auto simp: land_def it_at_def)
  qed
qed

section \<open>Lookups by primary key\<close>

lemma lookup_okE:
  assumes "lookup_ok T V m h F pos r"
  obtains it m' h' where "r = Inr (it, m', h')" "mx_inv T V m' h' F" "it_at m' F it pos" "mx_ext m m'" "same_db V h h'"
  using assms unfolding lookup_ok_def by blast

lemma lookup_ok_trans:
  assumes "lookup_ok T V m1 h1 F pos r" "mx_ext m m1" "same_db V h h1"
  shows "lookup_ok T V m h F pos r"
  using assms unfolding lookup_ok_def by (blast intro: mx_ext_trans same_db_trans)

lemma it_at_deref:
  assumes "mx_inv T V m h F" "it_at m F (Some i) (Some k)"
  obtains x where "deref m i = Inr x" "F k = Some (item_obj x)" "rt_pk T (item_obj x) = k"
    "dv_ids V h (primary_itr x) = Some (row_table T m, k)" "item_idx x = mx_self m"
proof -
  obtain v where v: "F k = Some v" "ref_at m i v" using assms(2) by (auto simp: it_at_def)
  obtain p where p: "deref m i = Inr (ptr_item p)" "item_obj (ptr_item p) = v" "p \<in> set (mx_items m)"
    "dv_ids V h (primary_itr (ptr_item p)) = Some (row_table T m, rt_pk T v)" "item_idx (ptr_item p) = mx_self m"
    by (rule ref_atE [OF assms(1) v(2)]) blast
  have "rt_pk T v = k" using assms(1) v(1) by (simp add: mx_inv_def rows_rep_def)
  with that [OF p(1)] p v(1) show ?thesis by simp
qed

lemma it_at_None [simp]: "it_at m F None pos \<longleftrightarrow> pos = None" "it_at m F it None \<longleftrightarrow> it = None"
  by (auto simp: it_at_def split: option.splits)

lemma iterator_to_own [simp]: "iterator_to m (mx_self m, i) = Inr (Some i)"
  by (simp add: iterator_to_def)

lemma cached_at:
  assumes inv: "mx_inv T V m h F" and c: "cached T k m = Some p"
  shows "it_at m F (Some (ptr_id p)) (Some k)" "item_idx (ptr_item p) = mx_self m" "k \<in> dom F"
  using cached_Some [OF c] mx_inv_items [OF inv cached_Some(1) [OF c]]
  by (auto simp: it_at_def ref_at_def)

lemma mx_find_ok:
  assumes db: "db_ok H V" and T: "row_type_ok T" and inv: "mx_inv T V m h F"
  shows "lookup_ok T V m h F (if k \<in> dom F then Some k else None) (mx_find T H k m h)"
proof (cases "cached T k m")
  case (Some p)
  note c = cached_at [OF inv Some]
  show ?thesis
    unfolding lookup_ok_def using Some c inv by (auto simp: mx_find_def)
next
  case None
  let ?pos = "if k \<in> dom F then Some k else None"
  obtain r h1 where f: "db_find H (mx_code m) (mx_scope m) (rt_table T) k h = (r, h1)" by fastforce
  have l: "row_lands V h (row_table T m) ?pos (r, h1)"
    using find_law [OF db, of h "mx_code m" "mx_scope m" "rt_table T" k] rows_rep_dom [of T V m h F] inv f
    by (simp add: row_table_def mx_inv_def)
  obtain it m' h' where L: "land T H m (r, h1) = Inr (it, m', h')" "mx_inv T V m' h' F" "it_at m' F it ?pos"
    "mx_ext m m'" "same_db V h h'"
    by (rule lookup_okE [OF land_ok [OF db T inv l]])
  have "mx_find T H k m h = Inr (it, m', h')"
  proof (cases "r < 0")
    case True
    then show ?thesis using L(1) None f by (simp add: mx_find_def land_def)
  next
    case False
    then obtain i where i: "load_object_by_primary_iterator T H r m h1 = Inr (i, m', h')" "it = Some i"
      using L(1) by (auto simp: land_def res_bind_Inr)
    then obtain k' where "it_at m' F (Some i) (Some k')" using L(3) by (auto simp: it_at_def)
    then obtain x where "deref m' i = Inr x" "item_idx x = mx_self m'" by (rule it_at_deref [OF L(2)])
    then show ?thesis using None f False i by (simp add: mx_find_def)
  qed
  with L show ?thesis unfolding lookup_ok_def by blast
qed

lemma mx_require_find_eq:
  "mx_require_find T H k msg m h = res_bind (mx_find T H k m h)
     (\<lambda>(it, m1, h1). if it = None then Inl (Check msg) else Inr (it, m1, h1))"
  by (auto simp: mx_require_find_def mx_find_def iterator_to_def res_bind_def check_def
      split: option.splits prod.splits sum.splits if_splits)

lemma mx_bounds_ok:
  assumes db: "db_ok H V" and T: "row_type_ok T" and inv: "mx_inv T V m h F"
  shows "lookup_ok T V m h F (least_in {k' \<in> dom F. k \<le> k'}) (mx_lower_bound T H k m h)"
    "lookup_ok T V m h F (least_in {k' \<in> dom F. k < k'}) (mx_upper_bound T H k m h)"
proof -
  have d: "dom (dv_rows V h (mx_code m, mx_scope m, rt_table T)) = dom F"
    using rows_rep_dom [of T V m h F] inv by (simp add: mx_inv_def row_table_def)
  have "row_lands V h (row_table T m) (least_in {k' \<in> dom F. k \<le> k'})
      (db_lowerbound H (mx_code m) (mx_scope m) (rt_table T) k h)"
    "row_lands V h (row_table T m) (least_in {k' \<in> dom F. k < k'})
      (db_upperbound H (mx_code m) (mx_scope m) (rt_table T) k h)"
    using lowerbound_law [OF db, of h "mx_code m" "mx_scope m" "rt_table T" k]
      upperbound_law [OF db, of h "mx_code m" "mx_scope m" "rt_table T" k]
    unfolding row_table_def d .
  from land_ok [OF db T inv this(1)] land_ok [OF db T inv this(2)]
  show "lookup_ok T V m h F (least_in {k' \<in> dom F. k \<le> k'}) (mx_lower_bound T H k m h)"
    "lookup_ok T V m h F (least_in {k' \<in> dom F. k < k'}) (mx_upper_bound T H k m h)"
    by (simp_all add: mx_lower_bound_def mx_upper_bound_def)
qed

lemma mx_begin_ok:
  assumes db: "db_ok H V" and T: "row_type_ok T" and inv: "mx_inv T V m h F"
  shows "lookup_ok T V m h F (least_in (dom F)) (mx_begin T H m h)"
proof -
  have "{k' \<in> dom F. (0 :: u64) \<le> k'} = dom F" by simp
  with mx_bounds_ok(1) [OF assms, of 0] show ?thesis by (simp add: mx_begin_def)
qed

section \<open>Moving by primary key\<close>

lemma mx_next_ok:
  assumes db: "db_ok H V" and T: "row_type_ok T" and inv: "mx_inv T V m h F" and at: "it_at m F (Some i) (Some k)"
  shows "lookup_ok T V m h F (least_in {k' \<in> dom F. k < k'}) (mx_next T H (Some i) m h)"
proof -
  obtain x where x: "deref m i = Inr x" "dv_ids V h (primary_itr x) = Some (row_table T m, k)"
    by (rule it_at_deref [OF inv at])
  have d: "dom (dv_rows V h (row_table T m)) = dom F" using rows_rep_dom [of T V m h F] inv by (simp add: mx_inv_def)
  have "row_lands V h (row_table T m) (least_in {k' \<in> dom F. k < k'}) (apfst fst (db_next H (primary_itr x) h))"
    using next_law [OF db x(2)] unfolding d .
  from land_ok [OF db T inv this] show ?thesis by (simp add: mx_next_def x(1))
qed

text \<open>Stepping back: to the greatest key below, or an abort when there is none.\<close>

definition step_back_ok :: "('v, 's) row_type \<Rightarrow> ('h, 's) db_view \<Rightarrow> 'v multi_index \<Rightarrow> 'h \<Rightarrow> (u64 \<Rightarrow> 'v option)
    \<Rightarrow> u64 option \<Rightarrow> (const_iterator \<times> 'v multi_index \<times> 'h) result \<Rightarrow> bool" where
  "step_back_ok T V m h F pos r \<longleftrightarrow> (if pos = None then (\<exists>msg. r = Inl (Check msg)) else lookup_ok T V m h F pos r)"

lemma step_back:
  assumes db: "db_ok H V" and T: "row_type_ok T" and inv: "mx_inv T V m h F" and s: "same_db V h h1"
    and l: "row_lands V h1 (row_table T m) pos (apfst fst (db_previous H r h1))"
  shows "step_back_ok T V m h F pos (case db_previous H r h1 of ((r', _), h2) \<Rightarrow>
     res_bind (check (0 \<le> r') msg) (\<lambda>_. land T H m (r', h2)))"
proof -
  obtain r' k' h2 where p: "db_previous H r h1 = ((r', k'), h2)" by (metis prod.collapse)
  have l': "row_lands V h1 (row_table T m) pos (r', h2)" using l p by simp
  have inv1: "mx_inv T V m h1 F" by (rule mx_inv_same_db [OF inv s])
  show ?thesis
  proof (cases pos)
    case None
    then have "r' < 0" using l' by (simp add: row_lands_def lands_def)
    then show ?thesis using None p by (simp add: step_back_ok_def check_def)
  next
    case (Some k)
    then have "dv_ids V h2 r' = Some (row_table T m, k)" using l' by (simp add: row_lands_def lands_def)
    then have "0 \<le> r'" using ids_okD(1) [OF row_ids_law [OF db]] by blast
    moreover have "lookup_ok T V m h F pos (land T H m (r', h2))"
      by (rule lookup_ok_trans [OF land_ok [OF db T inv1 l'] mx_ext_refl s])
    ultimately show ?thesis using Some p by (simp add: step_back_ok_def)
  qed
qed

lemma mx_prev_ok:
  assumes db: "db_ok H V" and T: "row_type_ok T" and inv: "mx_inv T V m h F" and at: "it_at m F it pos"
  shows "step_back_ok T V m h F (greatest_in {k' \<in> dom F. \<forall>k. pos = Some k \<longrightarrow> k' < k}) (mx_prev T H it m h)"
proof (cases it)
  case None
  then have pos: "pos = None" using at by simp
  obtain e h1 where e: "db_end H (mx_code m) (mx_scope m) (rt_table T) h = (e, h1)" by fastforce
  have s: "same_db V h h1" and
    ee: "if e = - 1 then dv_rows V h (row_table T m) = Map.empty else dv_ends V h1 e = Some (row_table T m)"
    using end_law [OF db, of h "mx_code m" "mx_scope m" "rt_table T"]
    unfolding e fst_conv snd_conv row_table_def by blast+
  have d: "dom (dv_rows V h (row_table T m)) = dom F" "dom (dv_rows V h1 (row_table T m)) = dom F"
    using rows_rep_dom [of T V m h F] inv s by (simp_all add: mx_inv_def same_db_def)
  show ?thesis
  proof (cases "e = - 1")
    case True
    then have "dom F = {}" using ee d(1) by simp
    then have "F = Map.empty" by simp
    then show ?thesis using True None e by (simp add: step_back_ok_def greatest_in_def mx_prev_def)
  next
    case False
    then have "row_lands V h1 (row_table T m) (greatest_in (dom F)) (apfst fst (db_previous H e h1))"
      using end_previous_law [OF db] ee d(2) by metis
    from step_back [OF db T inv s this] show ?thesis
      using False None e pos by (simp add: mx_prev_def)
  qed
next
  case (Some i)
  then obtain k where k: "pos = Some k" using at by (auto simp: it_at_def)
  obtain x where x: "deref m i = Inr x" "dv_ids V h (primary_itr x) = Some (row_table T m, k)"
    by (rule it_at_deref [OF inv at [unfolded Some k]])
  have d: "dom (dv_rows V h (row_table T m)) = dom F" using rows_rep_dom [of T V m h F] inv by (simp add: mx_inv_def)
  have "row_lands V h (row_table T m) (greatest_in {k' \<in> dom F. k' < k}) (apfst fst (db_previous H (primary_itr x) h))"
    using previous_law [OF db x(2)] unfolding d .
  from step_back [OF db T inv same_db_refl this] show ?thesis
    by (simp add: mx_prev_def Some x(1) k)
qed

section \<open>Secondary indices\<close>

text \<open>The entries of a secondary index, in order: secondary key first, then primary key.\<close>

definition index_entries :: "('v, 's) row_type \<Rightarrow> nat \<Rightarrow> (u64 \<Rightarrow> 'v option) \<Rightarrow> ('s \<times> u64) set" where
  "index_entries T n F = {(s, k). \<exists>v. F k = Some v \<and> s = (rt_extract T ! n) v}"

lemma sec_entries_index:
  "mx_inv T V m h F \<Longrightarrow> n < length (rt_extract T) \<Longrightarrow> sec_entries V h (sec_table T m n) = index_entries T n F"
  by (auto simp: sec_entries_def index_entries_def mx_inv_def rows_rep_def)

lemma ref_at_unique:
  assumes "mx_inv T V m h F" "ref_at m i v" "ref_at m i w"
  shows "v = w"
proof -
  obtain p where "p \<in> set (mx_items m)" "item_obj (ptr_item p) = v" "deref m i = Inr (ptr_item p)"
    by (rule ref_atE [OF assms(1,2)]) blast
  moreover obtain q where "q \<in> set (mx_items m)" "item_obj (ptr_item q) = w" "deref m i = Inr (ptr_item q)"
    by (rule ref_atE [OF assms(1,3)]) blast
  ultimately show ?thesis by simp
qed

lemma set_iter_inv:
  assumes inv: "mx_inv T V m h F" and i: "ref_at m i v" and n: "n < length (rt_extract T)"
    and r: "dv_sids V h r = Some (sec_table T m n, rt_pk T v)"
  shows "mx_inv T V (set_iter i n r m) h F" "mx_ext m (set_iter i n r m)"
proof -
  let ?g = "\<lambda>p. if ptr_id p = i then p\<lparr>ptr_item := (ptr_item p)\<lparr>sec_iters := (sec_iters (ptr_item p))[n := r]\<rparr>\<rparr> else p"
  let ?m = "set_iter i n r m"
  have items: "mx_items ?m = map ?g (mx_items m)" by (simp add: set_iter_def set_item_def)
  have ok: "item_ok T V ?m h F (?g p)" if p: "p \<in> set (mx_items m)" for p
  proof -
    have "item_ok T V m h F p" by (rule mx_inv_items(1) [OF inv p])
    moreover have "item_obj (ptr_item p) = v" if "ptr_id p = i"
      using ref_at_unique [OF inv i] p that by (auto simp: ref_at_def)
    ultimately show ?thesis
      using r n by (auto simp: item_ok_def Let_def row_table_def sec_table_def set_iter_def set_item_def nth_list_update)
  qed
  have keys: "map ptr_id (mx_items ?m) = map ptr_id (mx_items m)" "map ptr_pk (mx_items ?m) = map ptr_pk (mx_items m)"
    unfolding items by simp_all
  have "\<forall>p \<in> set (mx_items ?m). item_ok T V ?m h F p" 
    unfolding items set_map by (intro ballI, erule imageE, simp only: ok)
  moreover have "\<forall>p \<in> set (mx_items ?m). ptr_id p < mx_alloc ?m"
    using inv unfolding items by (auto simp: mx_inv_def set_iter_def set_item_def)
  moreover have "rows_rep T V ?m h F" "next_key_ok ?m F"
    using inv by (simp_all add: mx_inv_def rows_rep_def next_key_ok_def row_table_def sec_table_def set_iter_def set_item_def)
  ultimately show "mx_inv T V ?m h F" using inv keys by (simp add: mx_inv_def)
  have "ref_at ?m j w" if ref: "ref_at m j w" for j w
  proof -
    obtain p where p: "p \<in> set (mx_items m)" "ptr_id p = j" "item_obj (ptr_item p) = w"
      using ref by (auto simp: ref_at_def)
    then have "?g p \<in> set (mx_items ?m)" "ptr_id (?g p) = j" "item_obj (ptr_item (?g p)) = w"
      using p(2,3) unfolding items set_map by (simp_all only: imageI) simp_all
    then show ?thesis unfolding ref_at_def by blast
  qed
  then show "mx_ext m ?m"
    by (simp add: mx_ext_def set_iter_def set_item_def)
qed

lemma it_at_ext: "it_at m F it pos \<Longrightarrow> mx_ext m m' \<Longrightarrow> it_at m' F it pos"
  by (auto simp: it_at_def mx_ext_def split: option.splits)

lemma sx_land_ok:
  assumes db: "db_ok H V" and T: "row_type_ok T" and inv: "mx_inv T V m h F" and n: "n < length (rt_extract T)"
    and l: "sec_lands V h (sec_table T m n) pos res"
  shows "lookup_ok T V m h F (map_option snd pos) (sx_land T H n m res)"
proof -
  obtain r k h1 where res: "res = ((r, k), h1)" by (metis prod.collapse)
  have same: "same_db V h h1" and at: "lands (dv_sids V h1) (sec_table T m n) (map_option snd pos) r"
    and k: "\<And>e. pos = Some e \<Longrightarrow> k = snd e"
    using l by (simp_all add: sec_lands_def res)
  have inv1: "mx_inv T V m h1 F" by (rule mx_inv_same_db [OF inv same])
  show ?thesis
  proof (cases pos)
    case None
    then show ?thesis
      using at inv1 same unfolding lookup_ok_def res by (simp add: sx_land_def lands_def)
  next
    case (Some e)
    then have r: "dv_sids V h1 r = Some (sec_table T m n, k)" using at k by (simp add: lands_def)
    have r0: "0 \<le> r" by (rule ids_okD(1) [OF sec_ids_law [OF db] r])
    have "dv_secs V h1 (sec_table T m n) k \<noteq> None" by (rule ids_okD(2) [OF sec_ids_law [OF db] r])
    then have kF: "k \<in> dom F" using inv1 n by (auto simp: mx_inv_def rows_rep_def)
    obtain it m' h' where f: "mx_find T H k m h1 = Inr (it, m', h')" "mx_inv T V m' h' F" "it_at m' F it (Some k)"
      "mx_ext m m'" "same_db V h1 h'"
      using mx_find_ok [OF db T inv1, of k] kF by (auto elim: lookup_okE)
    then obtain i v where i: "it = Some i" "F k = Some v" "ref_at m' i v"
      by (auto simp: it_at_def split: option.splits)
    have "rt_pk T v = k" using f(2) i(2) by (simp add: mx_inv_def rows_rep_def)
    then have "dv_sids V h' r = Some (sec_table T m' n, rt_pk T v)"
      using r f(4,5) by (auto simp: same_db_def mx_ext_tables dest: map_le_Some)
    note s = set_iter_inv [OF f(2) i(3) n this]
    have "it_at (set_iter i n r m') F (Some i) (Some k)" using it_at_ext [OF f(3) s(2)] i(1) by simp
    then show ?thesis
      using f(1) i(1) r0 s(1) mx_ext_trans [OF f(4) s(2)] same_db_trans [OF same f(5)] Some k [OF Some]
      unfolding lookup_ok_def res by (simp add: sx_land_def)
  qed
qed

lemma sx_bounds_ok:
  assumes db: "db_ok H V" and T: "row_type_ok T" and inv: "mx_inv T V m h F" and n: "n < length (rt_extract T)"
  shows "lookup_ok T V m h F (map_option snd (least_in {e \<in> index_entries T n F. x \<le> fst e})) (sx_lower_bound T H n x m h)"
    "lookup_ok T V m h F (map_option snd (least_in {e \<in> index_entries T n F. x < fst e})) (sx_upper_bound T H n x m h)"
  unfolding sx_lower_bound_def sx_upper_bound_def sec_entries_index [OF inv n, symmetric] unfolding sec_table_def
  by (rule sx_land_ok [OF assms], simp add: sec_table_def idx_lowerbound_law [OF db] idx_upperbound_law [OF db])+

lemma sx_begin_ok:
  assumes db: "db_ok H V" and T: "row_type_ok T" and inv: "mx_inv T V m h F" and n: "n < length (rt_extract T)"
  shows "lookup_ok T V m h F (map_option snd (least_in (index_entries T n F))) (sx_begin T H n m h)"
proof -
  have "{e \<in> index_entries T n F. rt_lowest T \<le> fst e} = index_entries T n F"
    using T by (simp add: row_type_ok_def)
  with sx_bounds_ok(1) [OF assms, of "rt_lowest T"] show ?thesis by (simp add: sx_begin_def)
qed

lemma sx_iter_ok:
  assumes db: "db_ok H V" and inv: "mx_inv T V m h F" and n: "n < length (rt_extract T)"
    and at: "it_at m F (Some i) (Some k)"
  obtains r m1 h1 where "sx_iter T H n i m h = Inr (r, m1, h1)" "mx_inv T V m1 h1 F" "mx_ext m m1" "same_db V h h1"
    "dv_sids V h1 r = Some (sec_table T m1 n, k)"
proof -
  obtain v where v: "F k = Some v" "ref_at m i v" using at by (auto simp: it_at_def)
  obtain p where p: "p \<in> set (mx_items m)" "ptr_id p = i" "item_obj (ptr_item p) = v" "deref m i = Inr (ptr_item p)"
    "F (rt_pk T v) = Some v" "dv_ids V h (primary_itr (ptr_item p)) = Some (row_table T m, rt_pk T v)"
    "item_idx (ptr_item p) = mx_self m"
    by (rule ref_atE [OF inv v(2)])
  have pk: "rt_pk T v = k" using inv v(1) by (simp add: mx_inv_def rows_rep_def)
  show ?thesis
  proof (cases "sec_iters (ptr_item p) ! n = - 1")
    case True
    obtain r h1 where f: "idx_find_primary H (mx_code m) (mx_scope m) (index_table_name (rt_table T) n) k h = (r, h1)"
      by fastforce
    have "k \<in> dom (dv_secs V h (sec_table T m n))" using inv n v(1) by (auto simp: mx_inv_def rows_rep_def)
    then have r: "same_db V h h1" "dv_sids V h1 r = Some (sec_table T m n, rt_pk T v)"
      using idx_find_primary_law [OF db, of h "mx_code m" "mx_scope m" "index_table_name (rt_table T) n" k]
      unfolding f fst_conv snd_conv by (auto simp: sec_table_def lands_def pk)
    have inv1: "mx_inv T V m h1 F" by (rule mx_inv_same_db [OF inv r(1)])
    note s = set_iter_inv [OF inv1 v(2) n r(2)]
    show ?thesis
      by (rule that [of r "set_iter i n r m" h1])
         (use True f p(3,4) pk s r in \<open>simp_all add: sx_iter_def mx_ext_tables\<close>)
  next
    case False
    moreover have "item_ok T V m h F p" by (rule mx_inv_items(1) [OF inv p(1)])
    ultimately have "dv_sids V h (sec_iters (ptr_item p) ! n) = Some (sec_table T m n, k)"
      using n p(3) pk by (auto simp: item_ok_def Let_def)
    with that [of "sec_iters (ptr_item p) ! n" m h] False p(4) inv show ?thesis by (simp add: sx_iter_def)
  qed
qed

lemma sx_next_ok:
  assumes db: "db_ok H V" and T: "row_type_ok T" and inv: "mx_inv T V m h F" and n: "n < length (rt_extract T)"
    and at: "it_at m F (Some i) (Some k)" and v: "F k = Some v"
  shows "lookup_ok T V m h F (map_option snd (least_in {e \<in> index_entries T n F. ((rt_extract T ! n) v, k) < e}))
    (sx_next T H n (Some i) m h)"
proof -
  obtain r m1 h1 where s: "sx_iter T H n i m h = Inr (r, m1, h1)" "mx_inv T V m1 h1 F" "mx_ext m m1" "same_db V h h1"
    "dv_sids V h1 r = Some (sec_table T m1 n, k)"
    by (rule sx_iter_ok [OF db inv n at])
  have "dv_secs V h1 (sec_table T m1 n) k = Some ((rt_extract T ! n) v)"
    using s(2) n v by (simp add: mx_inv_def rows_rep_def)
  from idx_next_law [OF db s(5) this]
  have "sec_lands V h1 (sec_table T m1 n) (least_in {e \<in> index_entries T n F. ((rt_extract T ! n) v, k) < e})
      (idx_next H r h1)"
    unfolding sec_entries_index [OF s(2) n] .
  from lookup_ok_trans [OF sx_land_ok [OF db T s(2) n this] s(3,4)] show ?thesis
    using s(1) by (simp add: sx_next_def)
qed

lemma sx_step_back:
  assumes db: "db_ok H V" and T: "row_type_ok T" and inv: "mx_inv T V m1 h1 F" and n: "n < length (rt_extract T)"
    and s: "same_db V h h1" "mx_ext m m1"
    and l: "sec_lands V h1 (sec_table T m1 n) pos (idx_previous H r h1)"
  shows "step_back_ok T V m h F (map_option snd pos) (case idx_previous H r h1 of ((r', k), h2) \<Rightarrow>
     res_bind (check (0 \<le> r') msg) (\<lambda>_. sx_land T H n m1 ((r', k), h2)))"
proof -
  obtain r' k' h2 where p: "idx_previous H r h1 = ((r', k'), h2)" by (metis prod.collapse)
  show ?thesis
  proof (cases pos)
    case None
    then have "r' < 0" using l p by (simp add: sec_lands_def lands_def)
    then show ?thesis using None p by (simp add: step_back_ok_def check_def)
  next
    case (Some e)
    then have "dv_sids V h2 r' = Some (sec_table T m1 n, snd e)" using l p by (simp add: sec_lands_def lands_def)
    then have "0 \<le> r'" using ids_okD(1) [OF sec_ids_law [OF db]] by blast
    moreover have "lookup_ok T V m h F (map_option snd pos) (sx_land T H n m1 ((r', k'), h2))"
      by (rule lookup_ok_trans [OF sx_land_ok [OF db T inv n l [unfolded p]] s(2,1)])
    ultimately show ?thesis using Some p by (simp add: step_back_ok_def)
  qed
qed

lemma sx_prev_ok:
  assumes db: "db_ok H V" and T: "row_type_ok T" and inv: "mx_inv T V m h F" and n: "n < length (rt_extract T)"
    and at: "it_at m F it pos"
  shows "step_back_ok T V m h F (map_option snd (greatest_in {e \<in> index_entries T n F.
      \<forall>k v. pos = Some k \<and> F k = Some v \<longrightarrow> e < ((rt_extract T ! n) v, k)})) (sx_prev T H n it m h)"
proof (cases it)
  case None
  then have pos: "pos = None" using at by simp
  obtain e h1 where e: "idx_end H (mx_code m) (mx_scope m) (index_table_name (rt_table T) n) h = (e, h1)" by fastforce
  have s: "same_db V h h1" and
    ee: "if e = - 1 then dv_secs V h (sec_table T m n) = Map.empty else dv_sends V h1 e = Some (sec_table T m n)"
    using idx_end_law [OF db, of h "mx_code m" "mx_scope m" "index_table_name (rt_table T) n"]
    unfolding e fst_conv snd_conv sec_table_def by blast+
  have inv1: "mx_inv T V m h1 F" by (rule mx_inv_same_db [OF inv s])
  show ?thesis
  proof (cases "e = - 1")
    case True
    then have "sec_entries V h (sec_table T m n) = {}" using ee by (simp add: sec_entries_def)
    then have "index_entries T n F = {}" using sec_entries_index [OF inv n] by simp
    then show ?thesis using True None e by (simp add: step_back_ok_def greatest_in_def sx_prev_def)
  next
    case False
    then have "sec_lands V h1 (sec_table T m n) (greatest_in (index_entries T n F)) (idx_previous H e h1)"
      using idx_end_previous_law [OF db] ee sec_entries_index [OF inv1 n] by metis
    from sx_step_back [OF db T inv1 n s mx_ext_refl this] show ?thesis
      using False None e pos by (simp add: sx_prev_def)
  qed
next
  case (Some i)
  then obtain k v where k: "pos = Some k" "F k = Some v" using at by (auto simp: it_at_def)
  obtain r m1 h1 where x: "sx_iter T H n i m h = Inr (r, m1, h1)" "mx_inv T V m1 h1 F" "mx_ext m m1" "same_db V h h1"
    "dv_sids V h1 r = Some (sec_table T m1 n, k)"
    by (rule sx_iter_ok [OF db inv n at [unfolded Some k(1)]])
  have "dv_secs V h1 (sec_table T m1 n) k = Some ((rt_extract T ! n) v)"
    using x(2) n k(2) by (simp add: mx_inv_def rows_rep_def)
  from idx_previous_law [OF db x(5) this]
  have "sec_lands V h1 (sec_table T m1 n) (greatest_in {e \<in> index_entries T n F. e < ((rt_extract T ! n) v, k)})
      (idx_previous H r h1)"
    unfolding sec_entries_index [OF x(2) n] .
  from sx_step_back [OF db T x(2) n x(4,3) this] show ?thesis
    using k by (simp add: sx_prev_def Some x(1))
qed

lemma least_fst:
  assumes fin: "finite E" and l: "least_in {e \<in> E. x \<le> fst e} = Some (s, k)"
  shows "(\<exists>k. (x, k) \<in> E) \<longleftrightarrow> s = x" "s = x \<Longrightarrow> Some k = least_in {k. (x, k) \<in> E}"
proof -
  have f: "finite {e \<in> E. x \<le> fst e}" using fin by simp
  note m = least_in_Some [OF f l]
  show "(\<exists>k. (x, k) \<in> E) \<longleftrightarrow> s = x"
  proof
    assume "\<exists>k. (x, k) \<in> E"
    then obtain k' where "(x, k') \<in> E" ..
    with m(2) [of "(x, k')"] m(1) show "s = x" by (auto simp: less_eq_prod_def)
  qed (use m(1) in auto)
  assume "s = x"
  then have k: "(x, k) \<in> E" using m(1) by simp
  have "finite {k. (x, k) \<in> E}"
    by (rule finite_subset [OF _ finite_imageI [OF fin, of snd]]) force
  moreover have "k \<le> k'" if "(x, k') \<in> E" for k' using m(2) [of "(x, k')"] that \<open>s = x\<close> by simp
  ultimately have "Min {k. (x, k) \<in> E} = k" using k by (intro Min_eqI) auto
  then show "Some k = least_in {k. (x, k) \<in> E}" using k by (auto simp: least_in_def)
qed

end
