(* ===== verification/MultiIndexWrite.thy ===== *)
theory MultiIndexWrite
  imports MultiIndexSafe
begin

text \<open>
  The writes of \<open>multi_index.hpp\<close>: \<open>emplace\<close>, \<open>modify\<close> and \<open>erase\<close> change the represented function at
  one key, keep the invariant, and touch no other table. The three loops over the secondary indices
  share the description \<open>sec_written\<close> of what they leave.
\<close>

declare split_paired_All [simp del] split_paired_Ex [simp del]

section \<open>Index tables\<close>

lemma index_table_low: "index_table_name t n AND mask 4 = of_nat n AND mask 4"
proof -
  have m: "(0xF :: u64) = mask 4" "(0xFFFFFFFFFFFFFFF0 :: u64) = NOT (mask 4)"
    by (simp_all add: mask_eq_exp_minus_1)
  show ?thesis
    unfolding index_table_name_def m by (rule bit_word_eqI) (auto simp: bit_simps)
qed

lemma index_table_inj:
  assumes "index_table_name t n = index_table_name t n'" "n < 16" "n' < 16"
  shows "n = n'"
proof -
  have "take_bit 4 (of_nat n :: u64) = take_bit 4 (of_nat n')"
    using index_table_low [of t n] index_table_low [of t n'] assms(1) by (simp add: take_bit_eq_mask)
  then have eq: "unat (take_bit 4 (of_nat n :: u64)) = unat (take_bit 4 (of_nat n' :: u64))" by simp
  have "unat (take_bit 4 (of_nat i :: u64)) = i" if "i < 16" for i
    unfolding unsigned_take_bit_eq unat_of_nat using that by (simp add: take_bit_eq_mod)
  then show ?thesis using eq assms(2,3) by metis
qed

section \<open>Loops over the secondary indices\<close>

text \<open>One entry of the table \<open>t\<close> set or, with \<open>None\<close>, removed.\<close>

definition sec_step :: "('h, 's) db_view \<Rightarrow> 'h \<Rightarrow> 'h \<Rightarrow> table_id \<Rightarrow> u64 \<Rightarrow> 's option \<Rightarrow> bool" where
  "sec_step V h h' t pk y \<longleftrightarrow> dv_rows V h' = dv_rows V h \<and> dv_ids V h \<subseteq>\<^sub>m dv_ids V h'
     \<and> dv_secs V h' = (dv_secs V h)(t := (dv_secs V h t)(pk := y))
     \<and> (\<forall>r t' k. dv_sids V h r = Some (t', k) \<and> ((t', k) \<noteq> (t, pk) \<or> y \<noteq> None) \<longrightarrow> dv_sids V h' r = Some (t', k))"

definition sec_written :: "('h, 's) db_view \<Rightarrow> 'h \<Rightarrow> 'h \<Rightarrow> (nat \<Rightarrow> table_id) \<Rightarrow> nat \<Rightarrow> u64 \<Rightarrow> 's option list \<Rightarrow> bool" where
  "sec_written V h h' tab n pk ys \<longleftrightarrow> dv_rows V h' = dv_rows V h \<and> dv_ids V h \<subseteq>\<^sub>m dv_ids V h'
     \<and> (\<forall>j < length ys. dv_secs V h' (tab (n + j)) = (dv_secs V h (tab (n + j)))(pk := ys ! j))
     \<and> (\<forall>t. (\<forall>j < length ys. t \<noteq> tab (n + j)) \<longrightarrow> dv_secs V h' t = dv_secs V h t)
     \<and> (\<forall>r t k. dv_sids V h r = Some (t, k) \<and> (k \<noteq> pk \<or> (\<forall>j < length ys. t \<noteq> tab (n + j)) \<or> None \<notin> set ys)
          \<longrightarrow> dv_sids V h' r = Some (t, k))"

lemma sec_written_Nil: "sec_written V h h tab n pk []"
  by (simp add: sec_written_def)

lemma all_less_Suc_split: "(\<forall>j < Suc l. P j) \<longleftrightarrow> P 0 \<and> (\<forall>j < l. P (Suc j))"
  using less_Suc_eq_0_disj by auto

lemma sec_written_Cons:
  assumes s: "sec_step V h h1 (tab n) pk y" and w: "sec_written V h1 h' tab (Suc n) pk ys"
    and inj: "\<forall>j < length ys. tab n \<noteq> tab (Suc n + j)"
  shows "sec_written V h h' tab n pk (y # ys)"
proof -
  have rows: "dv_rows V h' = dv_rows V h" "dv_ids V h \<subseteq>\<^sub>m dv_ids V h'"
    using s w by (auto simp: sec_step_def sec_written_def intro: map_le_trans)
  have at: "\<forall>j < length (y # ys). dv_secs V h' (tab (n + j)) = (dv_secs V h (tab (n + j)))(pk := (y # ys) ! j)"
    unfolding length_Cons all_less_Suc_split using s w inj by (auto simp: sec_step_def sec_written_def)
  have off: "\<forall>t. (\<forall>j < length (y # ys). t \<noteq> tab (n + j)) \<longrightarrow> dv_secs V h' t = dv_secs V h t"
    unfolding length_Cons all_less_Suc_split using s w by (auto simp: sec_step_def sec_written_def)
  have sids: "dv_sids V h' r = Some (t, k)"
    if r: "dv_sids V h r = Some (t, k)" and c: "k \<noteq> pk \<or> (\<forall>j < length (y # ys). t \<noteq> tab (n + j)) \<or> None \<notin> set (y # ys)"
    for r t k
  proof -
    have "(t, k) \<noteq> (tab n, pk) \<or> y \<noteq> None"
      using c unfolding length_Cons all_less_Suc_split by (cases y) auto
    then have "dv_sids V h1 r = Some (t, k)" using s r unfolding sec_step_def by blast
    moreover have "k \<noteq> pk \<or> (\<forall>j < length ys. t \<noteq> tab (Suc n + j)) \<or> None \<notin> set ys"
      using c unfolding length_Cons all_less_Suc_split by auto
    ultimately show ?thesis using w unfolding sec_written_def by blast
  qed
  show ?thesis unfolding sec_written_def using rows at off sids by blast
qed

definition index_tables :: "u64 \<Rightarrow> u64 \<Rightarrow> u64 \<Rightarrow> nat \<Rightarrow> table_id" where
  "index_tables code scope table n = (code, scope, index_table_name table n)"

lemma index_tables_neq:
  "n + Suc l \<le> 16 \<Longrightarrow> \<forall>j < l. index_tables c s t n \<noteq> index_tables c s t (Suc n + j)"
  by (auto simp: index_tables_def dest!: index_table_inj)

lemma put_sec_step: "put_sec V h h' t k x \<Longrightarrow> sec_step V h h' t k (Some x)"
  by (auto simp: put_sec_def sec_step_def dest: map_le_Some)

lemma sec_step_same: "dv_secs V h t k = y \<Longrightarrow> same_db V h h' \<Longrightarrow> sec_step V h h' t k y"
  by (auto simp: sec_step_def same_db_def fun_eq_iff dest: map_le_Some)

lemma sec_step_trans_same: "same_db V h h1 \<Longrightarrow> sec_step V h1 h' t k y \<Longrightarrow> sec_step V h h' t k y"
  by (auto simp: same_db_def sec_step_def intro: map_le_trans dest: map_le_Some)

lemma delete_sec_step:
  assumes "delete_sec V h h' r t k" "dv_sids V h r = Some (t, k)"
  shows "sec_step V h h' t k None"
proof -
  have "dv_sids V h' r' = Some (t', k')" if "dv_sids V h r' = Some (t', k')" "(t', k') \<noteq> (t, k)" for r' t' k'
  proof -
    have "((dv_sids V h)(r := None)) r' = Some (t', k')" using that assms(2) by auto
    then show ?thesis using assms(1) unfolding delete_sec_def by (blast dest: map_le_Some)
  qed
  then show ?thesis using assms(1) by (simp add: delete_sec_def sec_step_def)
qed

lemma store_secondaries_ok:
  assumes db: "db_ok H V"
  shows "n + length xs \<le> 16 \<Longrightarrow> tab = index_tables (current_receiver H) scope table \<Longrightarrow>
    \<forall>j < length xs. dv_secs V h (tab (n + j)) pk = None \<Longrightarrow>
    store_secondaries H scope table payer pk n xs h = (rs, h') \<Longrightarrow>
    sec_written V h h' tab n pk (map Some xs) \<and> length rs = length xs
    \<and> (\<forall>j < length xs. dv_sids V h' (rs ! j) = Some (tab (n + j), pk))"
proof (induction xs arbitrary: n h rs h')
  case Nil
  then show ?case by (simp add: sec_written_Nil)
next
  case (Cons x xs)
  obtain r h1 where st: "idx_store H scope (index_table_name table n) payer pk x h = (r, h1)" by fastforce
  obtain rs' where rs: "store_secondaries H scope table payer pk (Suc n) xs h1 = (rs', h')" "rs = r # rs'"
    using Cons.prems(4) st by (auto split: prod.splits)
  have tabn: "tab n = (current_receiver H, scope, index_table_name table n)"
    by (simp add: Cons.prems(2) index_tables_def)
  have none: "dv_secs V h (tab n) pk = None" using Cons.prems(3) by auto
  have p: "put_sec V h h1 (tab n) pk x" "dv_sids V h1 r = Some (tab n, pk)"
    using idx_store_law [OF db, of h scope "index_table_name table n" pk payer x] none
    unfolding tabn st by simp_all
  have ne: "\<forall>j < length xs. tab n \<noteq> tab (Suc n + j)"
    using index_tables_neq [of n "length xs"] Cons.prems(1,2) by simp
  have s: "sec_step V h h1 (tab n) pk (Some x)" by (rule put_sec_step [OF p(1)])
  have "dv_secs V h1 (tab (Suc n + j)) pk = None" if "j < length xs" for j
    using Cons.prems(3) ne that p(1) by (auto simp: put_sec_def)
  then have IH: "sec_written V h1 h' tab (Suc n) pk (map Some xs)" "length rs' = length xs"
    "\<forall>j < length xs. dv_sids V h' (rs' ! j) = Some (tab (Suc n + j), pk)"
    using Cons.IH [OF _ Cons.prems(2) _ rs(1)] Cons.prems(1) by auto
  have "dv_sids V h' r = Some (tab n, pk)"
    using IH(1) p(2) unfolding sec_written_def by auto
  then have "\<forall>j < length (x # xs). dv_sids V h' (rs ! j) = Some (tab (n + j), pk)"
    unfolding length_Cons all_less_Suc_split rs(2) using IH(3) by simp
  moreover have "sec_written V h h' tab n pk (Some x # map Some xs)"
    by (rule sec_written_Cons [OF s IH(1)]) (use ne in simp)
  ultimately show ?case using IH(2) rs(2) by simp
qed

lemma find_primary_known:
  assumes db: "db_ok H V" and "tab = index_tables code scope table" and k: "dv_secs V h (tab n) pk \<noteq> None"
    and r: "r = - 1 \<or> dv_sids V h r = Some (tab n, pk)"
    and f: "(if r < 0 then idx_find_primary H code scope (index_table_name table n) pk h else (r, h)) = (r1, h1)"
  shows "same_db V h h1" "dv_sids V h1 r1 = Some (tab n, pk)"
proof -
  have "same_db V h h1 \<and> dv_sids V h1 r1 = Some (tab n, pk)"
  proof (cases "r < 0")
    case True
    have "pk \<in> dom (dv_secs V h (tab n))" using k by auto
    then show ?thesis
      using idx_find_primary_law [OF db, of h code scope "index_table_name table n" pk] f True assms(2)
      by (simp add: index_tables_def lands_def)
  next
    case False
    then show ?thesis using f r by auto
  qed
  then show "same_db V h h1" "dv_sids V h1 r1 = Some (tab n, pk)" by simp_all
qed

lemma update_secondaries_ok:
  assumes db: "db_ok H V"
  shows "n + length xs \<le> 16 \<Longrightarrow> tab = index_tables (current_receiver H) scope table \<Longrightarrow>
    \<forall>j < length xs. case xs ! j of (old, new, r) \<Rightarrow> dv_secs V h (tab (n + j)) pk = Some old
        \<and> (r = - 1 \<or> dv_sids V h r = Some (tab (n + j), pk)) \<Longrightarrow>
    update_secondaries H (current_receiver H) scope table payer pk n xs h = (rs, h') \<Longrightarrow>
    sec_written V h h' tab n pk (map (\<lambda>(_, new, _). Some new) xs) \<and> length rs = length xs
    \<and> (\<forall>j < length xs. rs ! j = - 1 \<or> dv_sids V h' (rs ! j) = Some (tab (n + j), pk))"
proof (induction xs arbitrary: n h rs h')
  case Nil
  then show ?case by (simp add: sec_written_Nil)
next
  case (Cons x xs)
  obtain old new r where x: "x = (old, new, r)" by (metis prod.collapse)
  let ?first = "if old \<noteq> new then (case (if r < 0 then idx_find_primary H (current_receiver H) scope (index_table_name table n) pk h
      else (r, h)) of (r1, h1) \<Rightarrow> (r1, idx_update H r1 payer new h1)) else (r, h)"
  obtain r2 h2 where f: "?first = (r2, h2)" by fastforce
  obtain rs' where rs: "update_secondaries H (current_receiver H) scope table payer pk (Suc n) xs h2 = (rs', h')" "rs = r2 # rs'"
    using Cons.prems(4) f unfolding x by (auto split: prod.splits)
  have old: "dv_secs V h (tab n) pk = Some old" and r: "r = - 1 \<or> dv_sids V h r = Some (tab n, pk)"
    and rest: "\<forall>j < length xs. case xs ! j of (old, new, r) \<Rightarrow> dv_secs V h (tab (Suc n + j)) pk = Some old
        \<and> (r = - 1 \<or> dv_sids V h r = Some (tab (Suc n + j), pk))"
    using Cons.prems(3) unfolding length_Cons all_less_Suc_split x by simp_all
  have s: "sec_step V h h2 (tab n) pk (Some new)" and r2: "r2 = - 1 \<or> dv_sids V h2 r2 = Some (tab n, pk)"
  proof -
    have "sec_step V h h2 (tab n) pk (Some new) \<and> (r2 = - 1 \<or> dv_sids V h2 r2 = Some (tab n, pk))"
    proof (cases "old = new")
      case True
      then show ?thesis using f r old sec_step_same [OF old same_db_refl] by auto
    next
      case False
      then obtain h1 where g: "(if r < 0 then idx_find_primary H (current_receiver H) scope (index_table_name table n) pk h
          else (r, h)) = (r2, h1)" "h2 = idx_update H r2 payer new h1"
        using f by (auto split: prod.splits)
      have "dv_secs V h (tab n) pk \<noteq> None" using old by simp
      note k = find_primary_known [OF db Cons.prems(2) this r g(1)]
      have "fst (tab n) = current_receiver H" by (simp add: Cons.prems(2) index_tables_def)
      then have p: "put_sec V h1 h2 (tab n) pk new" unfolding g(2) by (rule idx_update_law [OF db k(2)])
      then have "dv_sids V h2 r2 = Some (tab n, pk)" using k(2) by (auto simp: put_sec_def dest: map_le_Some)
      with sec_step_trans_same [OF k(1) put_sec_step [OF p]] show ?thesis by simp
    qed
    then show "sec_step V h h2 (tab n) pk (Some new)" "r2 = - 1 \<or> dv_sids V h2 r2 = Some (tab n, pk)" by simp_all
  qed
  have ne: "\<forall>j < length xs. tab n \<noteq> tab (Suc n + j)"
    using index_tables_neq [of n "length xs"] Cons.prems(1,2) by simp
  have "\<forall>j < length xs. case xs ! j of (old, new, r) \<Rightarrow> dv_secs V h2 (tab (Suc n + j)) pk = Some old
        \<and> (r = - 1 \<or> dv_sids V h2 r = Some (tab (Suc n + j), pk))"
  proof (intro allI impI)
    fix j assume j: "j < length xs"
    have "dv_secs V h2 (tab (Suc n + j)) = dv_secs V h (tab (Suc n + j))"
      using s ne j by (auto simp: sec_step_def)
    moreover have "dv_sids V h q = Some (tab (Suc n + j), pk) \<Longrightarrow> dv_sids V h2 q = Some (tab (Suc n + j), pk)" for q
      using s by (auto simp: sec_step_def)
    ultimately show "case xs ! j of (old, new, r) \<Rightarrow> dv_secs V h2 (tab (Suc n + j)) pk = Some old
        \<and> (r = - 1 \<or> dv_sids V h2 r = Some (tab (Suc n + j), pk))"
      using rest [rule_format, OF j] by (cases "xs ! j") auto
  qed
  then have IH: "sec_written V h2 h' tab (Suc n) pk (map (\<lambda>(_, new, _). Some new) xs)" "length rs' = length xs"
    "\<forall>j < length xs. rs' ! j = - 1 \<or> dv_sids V h' (rs' ! j) = Some (tab (Suc n + j), pk)"
    using Cons.IH [OF _ Cons.prems(2) _ rs(1)] Cons.prems(1) by auto
  have "r2 = - 1 \<or> dv_sids V h' r2 = Some (tab n, pk)"
  proof -
    have "None \<notin> set (map (\<lambda>(_, new, _). Some new) xs)" by auto
    then show ?thesis using IH(1) r2 unfolding sec_written_def by blast
  qed
  then have "\<forall>j < length (x # xs). rs ! j = - 1 \<or> dv_sids V h' (rs ! j) = Some (tab (n + j), pk)"
    unfolding length_Cons all_less_Suc_split rs(2) using IH(3) by simp
  moreover have "sec_written V h h' tab n pk (Some new # map (\<lambda>(_, new, _). Some new) xs)"
    by (rule sec_written_Cons [OF s IH(1)]) (use ne in simp)
  ultimately show ?case using IH(2) rs(2) x by simp
qed

lemma remove_secondaries_ok:
  assumes db: "db_ok H V"
  shows "n + length rs \<le> 16 \<Longrightarrow> tab = index_tables (current_receiver H) scope table \<Longrightarrow>
    \<forall>j < length rs. dv_secs V h (tab (n + j)) pk \<noteq> None
        \<and> (rs ! j = - 1 \<or> dv_sids V h (rs ! j) = Some (tab (n + j), pk)) \<Longrightarrow>
    sec_written V h (remove_secondaries H (current_receiver H) scope table pk n rs h) tab n pk (map (\<lambda>_. None) rs)"
proof (induction rs arbitrary: n h)
  case Nil
  then show ?case by (simp add: sec_written_Nil)
next
  case (Cons r rs)
  obtain r1 h1 where f: "(if r < 0 then idx_find_primary H (current_receiver H) scope (index_table_name table n) pk h
      else (r, h)) = (r1, h1)" by fastforce
  have k: "dv_secs V h (tab n) pk \<noteq> None" "r = - 1 \<or> dv_sids V h r = Some (tab n, pk)"
    and rest: "\<forall>j < length rs. dv_secs V h (tab (Suc n + j)) pk \<noteq> None
        \<and> (rs ! j = - 1 \<or> dv_sids V h (rs ! j) = Some (tab (Suc n + j), pk))"
    using Cons.prems(3) unfolding length_Cons all_less_Suc_split by simp_all
  note g = find_primary_known [OF db Cons.prems(2) k f]
  have r1: "0 \<le> r1" by (rule ids_okD(1) [OF sec_ids_law [OF db] g(2)])
  let ?h2 = "idx_remove H r1 h1"
  have "fst (tab n) = current_receiver H" by (simp add: Cons.prems(2) index_tables_def)
  then have "delete_sec V h1 ?h2 r1 (tab n) pk" by (rule idx_remove_law [OF db g(2)])
  then have s: "sec_step V h ?h2 (tab n) pk None"
    by (rule sec_step_trans_same [OF g(1) delete_sec_step [OF _ g(2)]])
  have ne: "\<forall>j < length rs. tab n \<noteq> tab (Suc n + j)"
    using index_tables_neq [of n "length rs"] Cons.prems(1,2) by simp
  have "\<forall>j < length rs. dv_secs V ?h2 (tab (Suc n + j)) pk \<noteq> None
        \<and> (rs ! j = - 1 \<or> dv_sids V ?h2 (rs ! j) = Some (tab (Suc n + j), pk))"
  proof (intro allI impI)
    fix j assume j: "j < length rs"
    then have t: "tab (Suc n + j) \<noteq> tab n" using ne by metis
    then have "dv_secs V ?h2 (tab (Suc n + j)) = dv_secs V h (tab (Suc n + j))"
      using s by (simp add: sec_step_def)
    moreover have "dv_sids V h q = Some (tab (Suc n + j), pk) \<Longrightarrow> dv_sids V ?h2 q = Some (tab (Suc n + j), pk)" for q
      using s t unfolding sec_step_def by blast
    ultimately show "dv_secs V ?h2 (tab (Suc n + j)) pk \<noteq> None
        \<and> (rs ! j = - 1 \<or> dv_sids V ?h2 (rs ! j) = Some (tab (Suc n + j), pk))"
      using rest j by auto
  qed
  then have IH: "sec_written V ?h2 (remove_secondaries H (current_receiver H) scope table pk (Suc n) rs ?h2)
      tab (Suc n) pk (map (\<lambda>_. None) rs)"
    using Cons.IH [OF _ Cons.prems(2)] Cons.prems(1) by auto
  have "remove_secondaries H (current_receiver H) scope table pk n (r # rs) h
      = remove_secondaries H (current_receiver H) scope table pk (Suc n) rs ?h2"
    using f r1 by simp
  with sec_written_Cons [OF s IH] ne show ?case by simp
qed

section \<open>The represented function after a write\<close>

definition other_tables_same :: "('v, 's) row_type \<Rightarrow> ('h, 's) db_view \<Rightarrow> 'v multi_index \<Rightarrow> 'h \<Rightarrow> 'h \<Rightarrow> bool" where
  "other_tables_same T V m h h' \<longleftrightarrow> (\<forall>t. t \<noteq> row_table T m \<longrightarrow> dv_rows V h' t = dv_rows V h t)
     \<and> (\<forall>t. (\<forall>n < length (rt_extract T). t \<noteq> sec_table T m n) \<longrightarrow> dv_secs V h' t = dv_secs V h t)"

lemma rows_rep_write:
  assumes "rows_rep T V m h F"
    and "dv_rows V h' (row_table T m) = (dv_rows V h (row_table T m))(k := map_option (rt_pack T) y)"
    and "\<forall>n < length (rt_extract T). dv_secs V h' (sec_table T m n)
      = (dv_secs V h (sec_table T m n))(k := map_option (rt_extract T ! n) y)"
    and "\<forall>v. y = Some v \<longrightarrow> rt_pk T v = k"
  shows "rows_rep T V m h' (F(k := y))"
  using assms by (auto simp: rows_rep_def)

lemma rows_rep_sec:
  "rows_rep T V m h F \<Longrightarrow> n < length (rt_extract T) \<Longrightarrow> F k = Some v \<Longrightarrow>
   dv_secs V h (sec_table T m n) k = Some ((rt_extract T ! n) v)"
  by (simp add: rows_rep_def)

lemma next_key_bounds: "unat (no_available_primary_key) = 18446744073709551614" "unat (unset_next_primary_key) = 18446744073709551615"
  unfolding no_available_primary_key_def unset_next_primary_key_def
  by (simp, simp add: unsigned_minus_1_eq_mask mask_eq_exp_minus_1)

lemma note_key_ok:
  assumes "next_key_ok m F"
  shows "next_key_ok (note_key k m) (F(k \<mapsto> v))"
proof (cases "mx_next_pk m \<le> k")
  case False
  then show ?thesis using assms by (auto simp: note_key_def next_key_ok_def not_le)
next
  case True
  show ?thesis
  proof (cases "no_available_primary_key \<le> k")
    case True
    then show ?thesis using \<open>mx_next_pk m \<le> k\<close> by (simp add: note_key_def next_key_ok_def)
  next
    case False
    then have k: "k < no_available_primary_key" by simp
    then have u: "unat (k + 1) = unat k + 1"
      using next_key_bounds by (simp add: word_less_nat_alt unat_word_ariths)
    have "mx_next_pk m < no_available_primary_key" using True k by (rule le_less_trans)
    moreover have "mx_next_pk m \<noteq> unset_next_primary_key"
      using calculation by (auto simp: no_available_primary_key_def unset_next_primary_key_def)
    ultimately have old: "\<forall>j \<in> dom F. j < mx_next_pk m" using assms by (auto simp: next_key_ok_def)
    have "k < k + 1" using u by (simp add: word_less_nat_alt)
    then have all: "\<forall>j \<in> dom (F(k \<mapsto> v)). j < k + 1"
      using old True by (auto intro: less_trans less_le_trans)
    have "k + 1 \<le> no_available_primary_key" using k u by (simp add: word_le_nat_alt word_less_nat_alt)
    then have "k + 1 = no_available_primary_key \<or> k + 1 < no_available_primary_key" by (auto simp: le_less)
    then show ?thesis using True False all by (auto simp: note_key_def next_key_ok_def)
  qed
qed

text \<open>The next key gets to the autoincrement limit only with a key next to it.\<close>

lemma note_key_limit:
  assumes "mx_next_pk (note_key k m) = no_available_primary_key"
  shows "mx_next_pk m = no_available_primary_key \<or> - 3 \<le> k"
proof (cases "mx_next_pk m \<le> k")
  case True
  have least: "(- 3 :: u64) \<le> no_available_primary_key" by (simp add: no_available_primary_key_def)
  show ?thesis
  proof (cases "no_available_primary_key \<le> k")
    case True
    then show ?thesis using least by (blast intro: order_trans)
  next
    case False
    then have "k = no_available_primary_key - 1" using assms \<open>mx_next_pk m \<le> k\<close> by (simp add: note_key_def eq_diff_eq)
    then show ?thesis by (simp add: no_available_primary_key_def)
  qed
qed (use assms in \<open>simp add: note_key_def\<close>)

lemma note_key_same [simp]:
  "mx_self (note_key k m) = mx_self m" "mx_code (note_key k m) = mx_code m" "mx_scope (note_key k m) = mx_scope m"
  "mx_items (note_key k m) = mx_items m" "mx_alloc (note_key k m) = mx_alloc m" "row_table T (note_key k m) = row_table T m"
  "sec_table T (note_key k m) n = sec_table T m n" "ref_at (note_key k m) i v = ref_at m i v"
  "deref (note_key k m) i = deref m i"
  by (simp_all add: note_key_def row_table_def sec_table_def ref_at_def deref_def)

lemma rows_rep_note [simp]: "rows_rep T V (note_key k m) h F = rows_rep T V m h F"
  by (simp add: rows_rep_def)

lemma item_ok_note [simp]: "item_ok T V (note_key k m) h F p = item_ok T V m h F p"
  by (simp add: item_ok_def)

lemma sec_table_index: "sec_table T m = index_tables (mx_code m) (mx_scope m) (rt_table T)"
  by (simp add: fun_eq_iff sec_table_def index_tables_def)

lemma length_extracted [simp]: "length (extracted T v) = length (rt_extract T)"
  by (simp add: extracted_def)

lemma nth_extracted: "n < length (rt_extract T) \<Longrightarrow> extracted T v ! n = (rt_extract T ! n) v"
  by (simp add: extracted_def)

section \<open>emplace\<close>

lemma mx_emplace_ok:
  assumes db: "db_ok H V" and T: "row_type_ok T" and inv: "mx_inv T V m h F" and recv: "mx_code m = current_receiver H"
    and v: "v = constructor (rt_default T)" and new: "rt_pk T v \<notin> dom F"
  obtains i m' h' where "mx_emplace T H payer constructor m h = Inr (Some i, m', h')"
    "mx_inv T V m' h' (F(rt_pk T v \<mapsto> v))" "ref_at m' i v" "\<forall>j w. ref_at m j w \<longrightarrow> ref_at m' j w"
    "mx_self m' = mx_self m" "row_table T m' = row_table T m" "mx_code m' = mx_code m" "other_tables_same T V m h h'"
    "mx_next_pk m' = mx_next_pk (note_key (rt_pk T v) m)"
proof -
  let ?k = "rt_pk T v" and ?F = "F(rt_pk T v \<mapsto> v)"
  have rep: "rows_rep T V m h F" using inv by (simp add: mx_inv_def)
  have tab: "row_table T m = (current_receiver H, mx_scope m, rt_table T)" by (simp add: row_table_def recv)
  obtain r h1 where st: "db_store H (mx_scope m) (rt_table T) payer ?k (rt_pack T v) h = (r, h1)" by fastforce
  have "dv_rows V h (row_table T m) ?k = None" using rep new by (simp add: rows_rep_def domIff)
  then have p: "put_row V h h1 (row_table T m) ?k (rt_pack T v)" "dv_ids V h1 r = Some (row_table T m, ?k)"
    using store_law [OF db, of h "mx_scope m" "rt_table T" ?k payer "rt_pack T v"] unfolding tab st by simp_all
  obtain rs h2 where ss: "store_secondaries H (mx_scope m) (rt_table T) payer ?k 0 (extracted T v) h1 = (rs, h2)" by fastforce
  have "dv_secs V h1 (sec_table T m n) ?k = None" if "n < length (rt_extract T)" for n
    using that rep new p(1) by (simp add: rows_rep_def put_row_def domIff)
  then have w: "sec_written V h1 h2 (sec_table T m) 0 ?k (map Some (extracted T v))" "length rs = length (rt_extract T)"
    "\<forall>j < length (rt_extract T). dv_sids V h2 (rs ! j) = Some (sec_table T m j, ?k)"
    using store_secondaries_ok [OF db _ sec_table_index [of T m, unfolded recv] _ ss] T by (simp_all add: row_type_ok_def)
  have ids: "dv_ids V h \<subseteq>\<^sub>m dv_ids V h2" "dv_sids V h \<subseteq>\<^sub>m dv_sids V h2"
  proof -
    show "dv_ids V h \<subseteq>\<^sub>m dv_ids V h2" using p(1) w(1) by (auto simp: put_row_def sec_written_def intro: map_le_trans)
    have "None \<notin> set (map Some (extracted T v))" by auto
    then have "dv_sids V h1 \<subseteq>\<^sub>m dv_sids V h2" using w(1) unfolding sec_written_def map_le_def by (metis domD prod.collapse)
    then show "dv_sids V h \<subseteq>\<^sub>m dv_sids V h2" using p(1) by (auto simp: put_row_def intro: map_le_trans)
  qed
  have rep2: "rows_rep T V m h2 ?F"
  proof (rule rows_rep_write [OF rep])
    show "dv_rows V h2 (row_table T m) = (dv_rows V h (row_table T m))(?k := map_option (rt_pack T) (Some v))"
      using p(1) w(1) by (simp add: put_row_def sec_written_def)
    show "\<forall>n < length (rt_extract T). dv_secs V h2 (sec_table T m n)
      = (dv_secs V h (sec_table T m n))(?k := map_option (rt_extract T ! n) (Some v))"
      using p(1) w(1) by (simp add: put_row_def sec_written_def nth_extracted)
  qed simp
  have old: "item_ok T V m h2 ?F q" if q: "q \<in> set (mx_items m)" for q
  proof -
    have "item_ok T V m h F q" by (rule mx_inv_items(1) [OF inv q])
    then have "item_ok T V m h2 F q" by (rule item_ok_mono) (rule ids)+
    moreover have "rt_pk T (item_obj (ptr_item q)) \<noteq> ?k" using mx_inv_items(2,4) [OF inv q] new by auto
    ultimately show ?thesis by (simp add: item_ok_def Let_def)
  qed
  have inv2: "mx_inv T V (note_key ?k m) h2 ?F"
    using inv rep2 old note_key_ok [of m F ?k v] by (simp add: mx_inv_def)
  let ?x = "\<lparr>item_obj = v, item_idx = mx_self m, primary_itr = r, sec_iters = rs\<rparr>"
  obtain i m' where a: "add_item ?x ?k (note_key ?k m) = (i, m')" by fastforce
  have "dv_ids V h2 r = Some (row_table T m, ?k)" using p(2) w(1) by (auto simp: sec_written_def dest: map_le_Some)
  then have xok: "item_ok T V (note_key ?k m) h2 ?F \<lparr>ptr_id = mx_alloc (note_key ?k m), ptr_item = ?x, ptr_pk = ?k, ptr_itr = primary_itr ?x\<rparr>"
    using w(2,3) by (simp add: item_ok_def)
  have "\<forall>q \<in> set (mx_items (note_key ?k m)). ptr_pk q \<noteq> ?k" using mx_inv_items(4) [OF inv] new by force
  note m' = add_item_inv [OF inv2 xok this a]
  have e: "mx_emplace T H payer constructor m h = Inr (Some i, m', h2)"
    using recv v st ss a by (simp add: mx_emplace_def Let_def)
  have "other_tables_same T V m h h2"
    using p(1) w(1) by (simp add: other_tables_same_def put_row_def sec_written_def)
  with that [OF e m'(1)] m'(2,3) show ?thesis by (simp add: mx_ext_def row_table_def)
qed

section \<open>modify\<close>

lemma mx_modify_ok:
  assumes db: "db_ok H V" and T: "row_type_ok T" and inv: "mx_inv T V m h F" and recv: "mx_code m = current_receiver H"
    and ref: "ref_at m i v" and pk: "rt_pk T (updater v) = rt_pk T v"
  obtains m' h' where "mx_modify T H (mx_self m, i) payer updater m h = Inr (m', h')"
    "mx_inv T V m' h' (F(rt_pk T v \<mapsto> updater v))" "ref_at m' i (updater v)"
    "\<forall>j w. j \<noteq> i \<longrightarrow> ref_at m j w \<longrightarrow> ref_at m' j w" "mx_self m' = mx_self m" "row_table T m' = row_table T m"
    "mx_code m' = mx_code m" "other_tables_same T V m h h'" "mx_next_pk m' = mx_next_pk (note_key (rt_pk T v) m)"
proof -
  let ?k = "rt_pk T v" and ?w = "updater v" and ?F = "F(rt_pk T v \<mapsto> updater v)" and ?N = "length (rt_extract T)"
  have rep: "rows_rep T V m h F" using inv by (simp add: mx_inv_def)
  obtain p where p: "p \<in> set (mx_items m)" "ptr_id p = i" "item_obj (ptr_item p) = v" "deref m i = Inr (ptr_item p)"
    "F ?k = Some v" "dv_ids V h (primary_itr (ptr_item p)) = Some (row_table T m, ?k)" "item_idx (ptr_item p) = mx_self m"
    by (rule ref_atE [OF inv ref])
  let ?x = "ptr_item p"
  have iters: "length (sec_iters ?x) = ?N"
    "\<forall>n < ?N. sec_iters ?x ! n = - 1 \<or> dv_sids V h (sec_iters ?x ! n) = Some (sec_table T m n, ?k)"
    using mx_inv_items(1) [OF inv p(1)] p(3) by (simp_all add: item_ok_def Let_def)
  let ?h1 = "db_update H (primary_itr ?x) payer (rt_pack T ?w) h"
  have "fst (row_table T m) = current_receiver H" by (simp add: row_table_def recv)
  then have u: "put_row V h ?h1 (row_table T m) ?k (rt_pack T ?w)" by (rule update_law [OF db p(6)])
  let ?xs = "zip (extracted T v) (zip (extracted T ?w) (sec_iters ?x))"
  have lxs: "length ?xs = ?N" using iters(1) by simp
  obtain rs h2 where us: "update_secondaries H (current_receiver H) (mx_scope m) (rt_table T) payer ?k 0 ?xs ?h1 = (rs, h2)"
    by fastforce
  have "\<forall>j < length ?xs. case ?xs ! j of (old, new, r) \<Rightarrow> dv_secs V ?h1 (sec_table T m (0 + j)) ?k = Some old
        \<and> (r = - 1 \<or> dv_sids V ?h1 r = Some (sec_table T m (0 + j), ?k))"
  proof (intro allI impI)
    fix j assume "j < length ?xs"
    then have j: "j < ?N" using lxs by simp
    have nth: "?xs ! j = ((rt_extract T ! j) v, (rt_extract T ! j) ?w, sec_iters ?x ! j)"
      using j iters(1) by (simp add: nth_extracted)
    have "dv_secs V ?h1 (sec_table T m j) ?k = Some ((rt_extract T ! j) v)"
      using u rows_rep_sec [OF rep j p(5)] by (simp add: put_row_def)
    moreover have "sec_iters ?x ! j = - 1 \<or> dv_sids V ?h1 (sec_iters ?x ! j) = Some (sec_table T m j, ?k)"
      using iters(2) j u unfolding put_row_def by (blast dest: map_le_Some)
    ultimately show "case ?xs ! j of (old, new, r) \<Rightarrow> dv_secs V ?h1 (sec_table T m (0 + j)) ?k = Some old
        \<and> (r = - 1 \<or> dv_sids V ?h1 r = Some (sec_table T m (0 + j), ?k))"
      unfolding nth by simp
  qed
  moreover have "0 + length ?xs \<le> 16" using lxs T by (simp add: row_type_ok_def)
  ultimately have w: "sec_written V ?h1 h2 (sec_table T m) 0 ?k (map (\<lambda>(_, new, _). Some new) ?xs)" "length rs = length ?xs"
    "\<forall>j < length ?xs. rs ! j = - 1 \<or> dv_sids V h2 (rs ! j) = Some (sec_table T m (0 + j), ?k)"
    using update_secondaries_ok [OF db _ sec_table_index [of T m, unfolded recv] _ us] by blast+
  have news: "map (\<lambda>(_, new, _). Some new) ?xs = map Some (extracted T ?w)"
    by (rule nth_equalityI) (use iters(1) in simp_all)
  have ids: "dv_ids V h \<subseteq>\<^sub>m dv_ids V h2" "dv_sids V h \<subseteq>\<^sub>m dv_sids V h2"
  proof -
    show "dv_ids V h \<subseteq>\<^sub>m dv_ids V h2" using u w(1) by (auto simp: put_row_def sec_written_def intro: map_le_trans)
    have "None \<notin> set (map Some (extracted T ?w))" by auto
    then have "dv_sids V ?h1 \<subseteq>\<^sub>m dv_sids V h2"
      using w(1) unfolding news sec_written_def map_le_def by (metis domD prod.collapse)
    then show "dv_sids V h \<subseteq>\<^sub>m dv_sids V h2" using u by (auto simp: put_row_def intro: map_le_trans)
  qed
  have rep2: "rows_rep T V m h2 ?F"
  proof (rule rows_rep_write [OF rep])
    show "dv_rows V h2 (row_table T m) = (dv_rows V h (row_table T m))(?k := map_option (rt_pack T) (Some ?w))"
      using u w(1) by (simp add: put_row_def sec_written_def)
    show "\<forall>n < ?N. dv_secs V h2 (sec_table T m n) = (dv_secs V h (sec_table T m n))(?k := map_option (rt_extract T ! n) (Some ?w))"
      using u w(1) unfolding news by (simp add: put_row_def sec_written_def nth_extracted)
  qed (simp add: pk)
  let ?f = "\<lambda>x. x\<lparr>item_obj := ?w, sec_iters := rs\<rparr>"
  let ?m' = "set_item i ?f (note_key ?k m)"
  let ?g = "\<lambda>q. if ptr_id q = i then q\<lparr>ptr_item := ?f (ptr_item q)\<rparr> else q"
  have items: "mx_items ?m' = map ?g (mx_items m)" by (simp add: set_item_def)
  have tabs: "row_table T ?m' = row_table T m" "sec_table T ?m' n = sec_table T m n" "mx_self ?m' = mx_self m"
    "mx_code ?m' = mx_code m" "mx_alloc ?m' = mx_alloc m" for n
    by (simp_all add: set_item_def row_table_def sec_table_def)
  have ok: "item_ok T V ?m' h2 ?F (?g q)" if q: "q \<in> set (mx_items m)" for q
  proof (cases "ptr_id q = i")
    case True
    have "deref m (ptr_id q) = Inr (ptr_item q)" by (rule deref_ref [OF inv q])
    then have qp: "ptr_item q = ptr_item p" using p(4) True by simp
    have "item_ok T V m h F q" by (rule mx_inv_items(1) [OF inv q])
    then show ?thesis
      using True qp p(3) pk w(2,3) lxs ids by (auto simp: item_ok_def Let_def tabs dest: map_le_Some)
  next
    case False
    have "ptr_pk q \<noteq> ?k"
    proof
      assume "ptr_pk q = ?k"
      moreover have "ptr_pk p = ?k" using mx_inv_items(2) [OF inv p(1)] p(3) by simp
      ultimately have "q = p" using inv q p(1) unfolding mx_inv_def distinct_map inj_on_def by metis
      with False p(2) show False by simp
    qed
    moreover have "item_ok T V m h2 F q" by (rule item_ok_mono [OF mx_inv_items(1) [OF inv q]]) (rule ids)+
    ultimately show ?thesis using False mx_inv_items(2) [OF inv q] by (simp add: item_ok_def Let_def tabs)
  qed
  have keys: "map ptr_id (mx_items ?m') = map ptr_id (mx_items m)" "map ptr_pk (mx_items ?m') = map ptr_pk (mx_items m)"
    unfolding items by simp_all
  have "\<forall>q \<in> set (mx_items ?m'). item_ok T V ?m' h2 ?F q"
    unfolding items set_map by (intro ballI, erule imageE, simp only: ok)
  moreover have "\<forall>q \<in> set (mx_items ?m'). ptr_id q < mx_alloc ?m'"
    using inv unfolding items tabs by (auto simp: mx_inv_def)
  moreover have "rows_rep T V ?m' h2 ?F" using rep2 unfolding rows_rep_def tabs .
  moreover have "next_key_ok ?m' ?F"
    using note_key_ok [of m F ?k ?w] inv by (simp add: mx_inv_def next_key_ok_def set_item_def)
  ultimately have inv': "mx_inv T V ?m' h2 ?F" using inv keys by (simp add: mx_inv_def)
  have ref': "ref_at ?m' (ptr_id q) (item_obj (ptr_item (?g q)))" if "q \<in> set (mx_items m)" for q
    unfolding ref_at_def items set_map using that by (intro bexI [of _ "?g q"] imageI) simp_all
  have "ref_at ?m' i ?w" using ref' [OF p(1)] p(2) by simp
  moreover have "\<forall>j w. j \<noteq> i \<longrightarrow> ref_at m j w \<longrightarrow> ref_at ?m' j w"
  proof (intro allI impI)
    fix j w assume j: "j \<noteq> i" and "ref_at m j w"
    then obtain q where "q \<in> set (mx_items m)" "ptr_id q = j" "item_obj (ptr_item q) = w" by (auto simp: ref_at_def)
    with ref' [of q] j show "ref_at ?m' j w" by simp
  qed
  moreover have "mx_modify T H (mx_self m, i) payer updater m h = Inr (?m', h2)"
    using recv p(3,4) pk us by (simp add: mx_modify_def Let_def)
  moreover have "other_tables_same T V m h h2"
    using u w(1) iters(1) unfolding news by (simp add: other_tables_same_def put_row_def sec_written_def)
  moreover have "mx_next_pk ?m' = mx_next_pk (note_key ?k m)" by (simp add: set_item_def)
  ultimately show ?thesis using that [of ?m' h2] inv' tabs by simp
qed

section \<open>erase\<close>

lemma drop_first_set: "set (drop_first P xs) \<subseteq> set xs"
  by (induction xs) auto

lemma drop_first_map_distinct: "distinct (map f xs) \<Longrightarrow> distinct (map f (drop_first P xs))"
  by (induction xs) (auto simp: image_iff dest: drop_first_set [THEN subsetD])

lemma drop_first_other: "x \<in> set xs \<Longrightarrow> \<not> P x \<Longrightarrow> x \<in> set (drop_first P xs)"
  by (induction xs) auto

lemma drop_first_gone: "(\<And>x y. x \<in> set xs \<Longrightarrow> y \<in> set xs \<Longrightarrow> P x \<Longrightarrow> P y \<Longrightarrow> x = y) \<Longrightarrow> distinct xs \<Longrightarrow>
  x \<in> set (drop_first P xs) \<Longrightarrow> \<not> P x"
proof (induction xs)
  case (Cons a xs)
  show ?case
  proof (cases "P a")
    case True
    then show ?thesis using Cons.prems by auto
  next
    case False
    then show ?thesis using Cons.IH Cons.prems by (auto simp: Ball_def)
  qed
qed simp

lemma drop_last_props:
  "set (drop_last P xs) \<subseteq> set xs" "distinct (map f xs) \<Longrightarrow> distinct (map f (drop_last P xs))"
  "x \<in> set xs \<Longrightarrow> \<not> P x \<Longrightarrow> x \<in> set (drop_last P xs)"
  unfolding drop_last_def
  using drop_first_set [of P "rev xs"] drop_first_map_distinct [of f "rev xs" P] drop_first_other [of x "rev xs" P]
  by (simp_all add: rev_map [symmetric])

lemma drop_last_gone:
  assumes "distinct (map f xs)" "\<forall>x \<in> set xs. P x \<longleftrightarrow> f x = k" "x \<in> set (drop_last P xs)"
  shows "f x \<noteq> k"
proof -
  have d: "distinct (rev xs)" using assms(1) by (simp add: distinct_map)
  have x: "x \<in> set (drop_first P (rev xs))" using assms(3) by (simp only: drop_last_def set_rev)
  have inj: "y = z" if "y \<in> set (rev xs)" "z \<in> set (rev xs)" "P y" "P z" for y z
  proof -
    have "y \<in> set xs" "z \<in> set xs" using that by simp_all
    moreover have "f y = k" "f z = k" using calculation that(3,4) assms(2) by blast+
    ultimately show ?thesis using assms(1) by (metis distinct_map inj_on_eq_iff)
  qed
  have "\<not> P x" by (rule drop_first_gone [OF inj d x])
  moreover have "x \<in> set xs" using drop_first_set [of P "rev xs"] x by auto
  ultimately show ?thesis using assms(2) by blast
qed

lemma mx_erase_ok:
  assumes db: "db_ok H V" and T: "row_type_ok T" and inv: "mx_inv T V m h F" and recv: "mx_code m = current_receiver H"
    and ref: "ref_at m i v"
  obtains m' h' where "mx_erase T H (mx_self m, i) m h = Inr (m', h')" "mx_inv T V m' h' (F(rt_pk T v := None))"
    "\<forall>j w. rt_pk T w \<noteq> rt_pk T v \<longrightarrow> ref_at m j w \<longrightarrow> ref_at m' j w" "mx_self m' = mx_self m" "mx_next_pk m' = mx_next_pk m"
    "row_table T m' = row_table T m" "mx_code m' = mx_code m" "other_tables_same T V m h h'"
proof -
  let ?k = "rt_pk T v" and ?F = "F(rt_pk T v := None)" and ?N = "length (rt_extract T)"
  have rep: "rows_rep T V m h F" using inv by (simp add: mx_inv_def)
  obtain p where p: "p \<in> set (mx_items m)" "ptr_id p = i" "item_obj (ptr_item p) = v" "deref m i = Inr (ptr_item p)"
    "F ?k = Some v" "dv_ids V h (primary_itr (ptr_item p)) = Some (row_table T m, ?k)" "item_idx (ptr_item p) = mx_self m"
    by (rule ref_atE [OF inv ref])
  let ?x = "ptr_item p"
  have iters: "length (sec_iters ?x) = ?N"
    "\<forall>n < ?N. sec_iters ?x ! n = - 1 \<or> dv_sids V h (sec_iters ?x ! n) = Some (sec_table T m n, ?k)"
    using mx_inv_items(1) [OF inv p(1)] p(3) by (simp_all add: item_ok_def Let_def)
  let ?h1 = "db_remove H (primary_itr ?x) h"
  have "fst (row_table T m) = current_receiver H" by (simp add: row_table_def recv)
  then have d: "delete_row V h ?h1 (primary_itr ?x) (row_table T m) ?k" by (rule remove_law [OF db p(6)])
  let ?h2 = "remove_secondaries H (current_receiver H) (mx_scope m) (rt_table T) ?k 0 (sec_iters ?x) ?h1"
  have "\<forall>j < length (sec_iters ?x). dv_secs V ?h1 (sec_table T m (0 + j)) ?k \<noteq> None
        \<and> (sec_iters ?x ! j = - 1 \<or> dv_sids V ?h1 (sec_iters ?x ! j) = Some (sec_table T m (0 + j), ?k))"
  proof (intro allI impI conjI)
    fix j assume "j < length (sec_iters ?x)"
    then have j: "j < ?N" using iters(1) by simp
    show "dv_secs V ?h1 (sec_table T m (0 + j)) ?k \<noteq> None"
      using d rows_rep_sec [OF rep j p(5)] by (simp add: delete_row_def)
    show "sec_iters ?x ! j = - 1 \<or> dv_sids V ?h1 (sec_iters ?x ! j) = Some (sec_table T m (0 + j), ?k)"
      using iters(2) j d unfolding delete_row_def by (auto dest: map_le_Some)
  qed
  moreover have "0 + length (sec_iters ?x) \<le> 16" using iters(1) T by (simp add: row_type_ok_def)
  ultimately have w: "sec_written V ?h1 ?h2 (sec_table T m) 0 ?k (map (\<lambda>_. None) (sec_iters ?x))"
    using remove_secondaries_ok [OF db _ sec_table_index [of T m, unfolded recv]] by blast
  have rep2: "rows_rep T V m ?h2 ?F"
  proof (rule rows_rep_write [OF rep])
    show "dv_rows V ?h2 (row_table T m) = (dv_rows V h (row_table T m))(?k := map_option (rt_pack T) None)"
      using d w by (simp add: delete_row_def sec_written_def)
    show "\<forall>n < ?N. dv_secs V ?h2 (sec_table T m n) = (dv_secs V h (sec_table T m n))(?k := map_option (rt_extract T ! n) None)"
      using d w iters(1) by (simp add: delete_row_def sec_written_def)
  qed simp
  let ?P = "\<lambda>q. rt_pk T (item_obj (ptr_item q)) = ?k"
  let ?m' = "m\<lparr>mx_items := drop_last ?P (mx_items m)\<rparr>"
  have tabs: "row_table T ?m' = row_table T m" "sec_table T ?m' n = sec_table T m n" "mx_self ?m' = mx_self m" for n
    by (simp_all add: row_table_def sec_table_def)
  have left: "q \<in> set (mx_items m) \<and> ptr_pk q \<noteq> ?k" if "q \<in> set (drop_last ?P (mx_items m))" for q
  proof
    show "q \<in> set (mx_items m)" by (rule subsetD [OF drop_last_props(1) that])
    have "distinct (map ptr_pk (mx_items m))" using inv by (simp add: mx_inv_def)
    moreover have "\<forall>q \<in> set (mx_items m). ?P q \<longleftrightarrow> ptr_pk q = ?k" using mx_inv_items(2) [OF inv] by metis
    ultimately show "ptr_pk q \<noteq> ?k" using that by (rule drop_last_gone)
  qed
  have ok: "item_ok T V ?m' ?h2 ?F q" if "q \<in> set (drop_last ?P (mx_items m))" for q
  proof -
    have q: "q \<in> set (mx_items m)" "ptr_pk q \<noteq> ?k" using left [OF that] by simp_all
    have o: "item_ok T V m h F q" by (rule mx_inv_items(1) [OF inv q(1)])
    have pk: "rt_pk T (item_obj (ptr_item q)) = ptr_pk q" by (rule mx_inv_items(2) [OF inv q(1), symmetric])
    have o': "item_idx (ptr_item q) = mx_self m" "ptr_itr q = primary_itr (ptr_item q)" "F (ptr_pk q) = Some (item_obj (ptr_item q))"
      "dv_ids V h (primary_itr (ptr_item q)) = Some (row_table T m, ptr_pk q)" "length (sec_iters (ptr_item q)) = ?N"
      "\<forall>n < ?N. sec_iters (ptr_item q) ! n = - 1 \<or> dv_sids V h (sec_iters (ptr_item q) ! n) = Some (sec_table T m n, ptr_pk q)"
      using o unfolding item_ok_def Let_def pk by blast+
    have "primary_itr (ptr_item q) \<noteq> primary_itr ?x" using o'(4) p(6) q(2) by auto
    then have "dv_ids V ?h1 (primary_itr (ptr_item q)) = Some (row_table T m, ptr_pk q)"
      using d o'(4) unfolding delete_row_def by (auto dest: map_le_Some)
    then have id2: "dv_ids V ?h2 (primary_itr (ptr_item q)) = Some (row_table T m, ptr_pk q)"
      using w unfolding sec_written_def by (blast dest: map_le_Some)
    have "dv_sids V ?h2 r = Some (t, ptr_pk q)" if "dv_sids V h r = Some (t, ptr_pk q)" for r t
    proof -
      have "dv_sids V ?h1 r = Some (t, ptr_pk q)" using d that unfolding delete_row_def by (blast dest: map_le_Some)
      then show ?thesis using w q(2) unfolding sec_written_def by blast
    qed
    then have sid2: "\<forall>n < ?N. sec_iters (ptr_item q) ! n = - 1
        \<or> dv_sids V ?h2 (sec_iters (ptr_item q) ! n) = Some (sec_table T m n, ptr_pk q)"
      using o'(6) by blast
    have "?F (ptr_pk q) = Some (item_obj (ptr_item q))" using o'(3) q(2) by simp
    then show ?thesis unfolding item_ok_def Let_def pk tabs using o'(1,2,5) id2 sid2 by blast
  qed
  have inv': "mx_inv T V ?m' ?h2 ?F"
    unfolding mx_inv_def
  proof (intro conjI)
    show "rows_rep T V ?m' ?h2 ?F" using rep2 unfolding rows_rep_def tabs .
    show "\<forall>q \<in> set (mx_items ?m'). item_ok T V ?m' ?h2 ?F q" using ok by simp
    show "distinct (map ptr_id (mx_items ?m'))" "distinct (map ptr_pk (mx_items ?m'))"
      using inv by (simp_all add: mx_inv_def drop_last_props(2))
    show "\<forall>q \<in> set (mx_items ?m'). ptr_id q < mx_alloc ?m'" using inv left by (simp add: mx_inv_def)
    show "next_key_ok ?m' ?F" using inv by (auto simp: mx_inv_def next_key_ok_def)
  qed
  have "cached T ?k m \<noteq> None" using p(1,3) by (auto simp: cached_None)
  then have e: "mx_erase T H (mx_self m, i) m h = Inr (?m', ?h2)"
    using recv p(3,4) by (simp add: mx_erase_def Let_def)
  have o: "other_tables_same T V m h ?h2"
    using d w iters(1) by (simp add: other_tables_same_def delete_row_def sec_written_def)
  have "\<forall>j w. rt_pk T w \<noteq> ?k \<longrightarrow> ref_at m j w \<longrightarrow> ref_at ?m' j w"
    using drop_last_props(3) [of _ "mx_items m" ?P] by (auto simp: ref_at_def)
  then show ?thesis by (rule that [OF e inv']) (use o in \<open>simp_all add: row_table_def\<close>)
qed

section \<open>available_primary_key\<close>

lemma available_primary_key_ok:
  assumes db: "db_ok H V" and T: "row_type_ok T" and inv: "mx_inv T V m h F"
  shows "case available_primary_key T H m h of
      Inr (k, m', h') \<Rightarrow> k < no_available_primary_key \<and> (\<forall>j \<in> dom F. j < k) \<and> mx_inv T V m' h' F \<and> same_db V h h'
        \<and> (\<forall>i v. ref_at m i v \<longrightarrow> ref_at m' i v) \<and> mx_next_pk m' = k
    | Inl e \<Rightarrow> e = Check ''next primary key in table is at autoincrement limit''
        \<and> (if mx_next_pk m = unset_next_primary_key then \<exists>j \<in> dom F. - 3 \<le> j else mx_next_pk m = no_available_primary_key)"
proof -
  define r where "r = (if mx_next_pk m = unset_next_primary_key then
          res_bind (mx_begin T H m h) (\<lambda>(b, m1, h1).
            if b = mx_end then Inr (m1\<lparr>mx_next_pk := 0\<rparr>, h1)
            else res_bind (mx_prev T H mx_end m1 h1) (\<lambda>(it, m2, h2).
              (case it of None \<Rightarrow> Inl (Trap ''end iterator dereferenced'')
               | Some i \<Rightarrow> res_bind (deref m2 i) (\<lambda>x.
                   let pk = rt_pk T (item_obj x)
                   in Inr (m2\<lparr>mx_next_pk := if no_available_primary_key \<le> pk then no_available_primary_key
                        else pk + 1\<rparr>, h2)))))
        else Inr (m, h))"
  have set_next: "mx_inv T V (m\<lparr>mx_next_pk := k\<rparr>) h F" if "mx_inv T V m h F" "next_key_ok (m\<lparr>mx_next_pk := k\<rparr>) F" for m h k
    using that by (simp add: mx_inv_def rows_rep_def item_ok_def row_table_def sec_table_def)
  have "\<exists>m' h'. r = Inr (m', h') \<and> mx_inv T V m' h' F \<and> same_db V h h' \<and> mx_next_pk m' \<noteq> unset_next_primary_key
      \<and> (\<forall>i v. ref_at m i v \<longrightarrow> ref_at m' i v)
      \<and> (mx_next_pk m = unset_next_primary_key \<longrightarrow> no_available_primary_key \<le> mx_next_pk m' \<longrightarrow> (\<exists>j \<in> dom F. - 3 \<le> j))
      \<and> (mx_next_pk m \<noteq> unset_next_primary_key \<longrightarrow> mx_next_pk m' = mx_next_pk m)"
  proof (cases "mx_next_pk m = unset_next_primary_key")
    case False
    then show ?thesis using inv by (simp add: r_def)
  next
    case True
    obtain b m1 h1 where b: "mx_begin T H m h = Inr (b, m1, h1)" "mx_inv T V m1 h1 F" "it_at m1 F b (least_in (dom F))"
      "mx_ext m m1" "same_db V h h1"
      by (rule lookup_okE [OF mx_begin_ok [OF db T inv]])
    show ?thesis
    proof (cases "F = Map.empty")
      case True
      then have "b = None" using b(3) by (simp add: least_in_def)
      moreover have "mx_inv T V (m1\<lparr>mx_next_pk := 0\<rparr>) h1 F"
        by (rule set_next [OF b(2)]) (simp add: next_key_ok_def True no_available_primary_key_def word_less_nat_alt)
      ultimately show ?thesis
        using b \<open>mx_next_pk m = unset_next_primary_key\<close>
        by (simp add: r_def mx_end_def mx_ext_def ref_at_def unset_next_primary_key_def no_available_primary_key_def)
    next
      case False
      then have bn: "b \<noteq> None" using b(3) by (auto simp: least_in_def split: if_splits)
      have fin: "finite (dom F)"
        using ids_okD(4) [OF row_ids_law [OF db], of h "row_table T m"] rows_rep_dom [of T V m h F] inv
        by (simp add: mx_inv_def)
      have g: "greatest_in {k' \<in> dom F. \<forall>k. (None :: u64 option) = Some k \<longrightarrow> k' < k} = Some (Max (dom F))"
        using False by (simp add: greatest_in_def)
      have "step_back_ok T V m1 h1 F (Some (Max (dom F))) (mx_prev T H None m1 h1)"
        using mx_prev_ok [OF db T b(2), of None None] unfolding g by simp
      then obtain it m2 h2 where p: "mx_prev T H None m1 h1 = Inr (it, m2, h2)" "mx_inv T V m2 h2 F"
        "it_at m2 F it (Some (Max (dom F)))" "mx_ext m1 m2" "same_db V h1 h2"
        by (auto simp: step_back_ok_def lookup_ok_def)
      then obtain i where i: "it = Some i" by (cases it) simp_all
      obtain x where x: "deref m2 i = Inr x" "rt_pk T (item_obj x) = Max (dom F)"
        by (rule it_at_deref [OF p(2) p(3) [unfolded i]])
      let ?n = "if no_available_primary_key \<le> Max (dom F) then no_available_primary_key else Max (dom F) + 1"
      have max: "Max (dom F) \<in> dom F" "\<forall>j \<in> dom F. j \<le> Max (dom F)" using fin False by simp_all
      have n: "next_key_ok (m2\<lparr>mx_next_pk := ?n\<rparr>) F \<and> ?n \<noteq> unset_next_primary_key
          \<and> (no_available_primary_key \<le> ?n \<longrightarrow> - 3 \<le> Max (dom F))"
      proof (cases "no_available_primary_key \<le> Max (dom F)")
        case True
        have "(- 3 :: u64) \<le> no_available_primary_key" by (simp add: no_available_primary_key_def)
        then have "- 3 \<le> Max (dom F)" using True by (rule order_trans)
        then show ?thesis
          using True by (simp add: next_key_ok_def no_available_primary_key_def unset_next_primary_key_def)
      next
        case False
        then have k: "Max (dom F) < no_available_primary_key" by simp
        then have u: "unat (Max (dom F) + 1) = unat (Max (dom F)) + 1"
          using next_key_bounds by (simp add: word_less_nat_alt unat_word_ariths)
        have "\<forall>j \<in> dom F. j < Max (dom F) + 1"
          using max(2) u by (simp add: word_le_nat_alt word_less_nat_alt less_Suc_eq_le)
        moreover have "Max (dom F) + 1 \<le> no_available_primary_key"
          using k u by (simp add: word_le_nat_alt word_less_nat_alt)
        ultimately have "next_key_ok (m2\<lparr>mx_next_pk := ?n\<rparr>) F \<and> ?n \<le> no_available_primary_key"
          using False by (auto simp: next_key_ok_def le_less)
        moreover have "no_available_primary_key < unset_next_primary_key"
          using next_key_bounds by (simp add: word_less_nat_alt)
        moreover have "- 3 \<le> Max (dom F)" if "no_available_primary_key \<le> Max (dom F) + 1"
        proof -
          have "unat (- 3 :: u64) = 18446744073709551613" by simp
          then show ?thesis using that u next_key_bounds by (simp add: word_le_nat_alt)
        qed
        ultimately show ?thesis using False by auto
      qed
      have "r = Inr (m2\<lparr>mx_next_pk := ?n\<rparr>, h2)"
        using True b(1) bn p(1) i x by (auto simp: r_def mx_end_def Let_def)
      moreover have "mx_inv T V (m2\<lparr>mx_next_pk := ?n\<rparr>) h2 F" by (rule set_next [OF p(2)]) (use n in blast)
      moreover have "same_db V h h2" by (rule same_db_trans [OF b(5) p(5)])
      moreover have "mx_ext m m2" by (rule mx_ext_trans [OF b(4) p(4)])
      ultimately show ?thesis using n max(1) \<open>mx_next_pk m = unset_next_primary_key\<close> by (auto simp: mx_ext_def ref_at_def)
    qed
  qed
  then obtain m' h' where m': "r = Inr (m', h')" "mx_inv T V m' h' F" "same_db V h h'" "mx_next_pk m' \<noteq> unset_next_primary_key"
    "\<forall>i v. ref_at m i v \<longrightarrow> ref_at m' i v"
    "mx_next_pk m = unset_next_primary_key \<longrightarrow> no_available_primary_key \<le> mx_next_pk m' \<longrightarrow> (\<exists>j \<in> dom F. - 3 \<le> j)"
    "mx_next_pk m \<noteq> unset_next_primary_key \<longrightarrow> mx_next_pk m' = mx_next_pk m" by blast
  have "available_primary_key T H m h = res_bind r (\<lambda>(m1, h1). res_bind (check (mx_next_pk m1 < no_available_primary_key)
            ''next primary key in table is at autoincrement limit'') (\<lambda>_. Inr (mx_next_pk m1, m1, h1)))"
    by (simp add: available_primary_key_def r_def)
  then show ?thesis
    using m' by (cases "mx_next_pk m' < no_available_primary_key") (auto simp: mx_inv_def next_key_ok_def not_less)
qed

end
