(* ===== verification/MultiIndexScan.thy ===== *)
theory MultiIndexScan
  imports MultiIndexWrite
begin

text \<open>
  Using a table: the loop of a contract that walks from an iterator to the end, in the order of the
  primary keys or of a secondary index, and the states a table reaches by its operations.
\<close>

section \<open>Walking to the end\<close>

fun scan :: "nat \<Rightarrow> (const_iterator \<Rightarrow> 'v multi_index \<Rightarrow> 'h \<Rightarrow> (const_iterator \<times> 'v multi_index \<times> 'h) result)
    \<Rightarrow> const_iterator \<Rightarrow> 'v multi_index \<Rightarrow> 'h \<Rightarrow> ('v list \<times> 'v multi_index \<times> 'h) result option" where
  "scan 0 nxt it m h = None"
| "scan (Suc n) nxt it m h = (case it of
     None \<Rightarrow> Some (Inr ([], m, h))
   | Some i \<Rightarrow> (case deref m i of Inl e \<Rightarrow> Some (Inl e) | Inr x \<Rightarrow>
       (case nxt it m h of Inl e \<Rightarrow> Some (Inl e) | Inr (it', m', h') \<Rightarrow>
          (case scan n nxt it' m' h' of None \<Rightarrow> None | Some (Inl e) \<Rightarrow> Some (Inl e)
             | Some (Inr (vs, s)) \<Rightarrow> Some (Inr (item_obj x # vs, s))))))"

lemma scan_rows:
  assumes fin: "finite K"
    and nxt: "\<forall>m h i e. mx_inv T V m h F \<and> it_at m F (Some i) (Some (key e)) \<and> e \<in> K \<longrightarrow>
      lookup_ok T V m h F (map_option key (least_in {e' \<in> K. e < e'})) (nxt (Some i) m h)"
  shows "mx_inv T V m h F \<Longrightarrow> it_at m F it (map_option key p) \<Longrightarrow> \<forall>e. p = Some e \<longrightarrow> e \<in> K \<Longrightarrow>
    card (walk_set K p None) < n \<Longrightarrow>
    \<exists>m' h'. scan n nxt it m h = Some (Inr (map (\<lambda>e. the (F (key e))) (sorted_list_of_set (walk_set K p None)), m', h'))
      \<and> mx_inv T V m' h' F \<and> same_db V h h'"
proof (induction n arbitrary: m h it p)
  case (Suc n)
  show ?case
  proof (cases p)
    case None
    then show ?thesis using Suc.prems(1,2) by (auto simp: walk_set_def)
  next
    case (Some e)
    then obtain i where i: "it = Some i" using Suc.prems(2) by (cases it) simp_all
    have eK: "e \<in> K" using Suc.prems(3) Some by simp
    have at: "it_at m F (Some i) (Some (key e))" using Suc.prems(2) i Some by simp
    obtain x where x: "deref m i = Inr x" "F (key e) = Some (item_obj x)" by (rule it_at_deref [OF Suc.prems(1) at])
    let ?q = "least_in {e' \<in> K. e < e'}"
    have "lookup_ok T V m h F (map_option key ?q) (nxt (Some i) m h)" using nxt Suc.prems(1) at eK by blast
    then obtain it' m' h' where s: "nxt (Some i) m h = Inr (it', m', h')" "mx_inv T V m' h' F"
      "it_at m' F it' (map_option key ?q)" "mx_ext m m'" "same_db V h h'"
      by (rule lookup_okE)
    have qK: "\<forall>e'. ?q = Some e' \<longrightarrow> e' \<in> K" using least_in_mem [OF fin] by blast
    have walk: "sorted_list_of_set (walk_set K p None) = e # sorted_list_of_set (walk_set K ?q None)"
      unfolding Some by (rule walk_step [OF fin eK]) simp
    have "length (sorted_list_of_set (walk_set K p None)) < Suc n" using Suc.prems(4) by simp
    then have "card (walk_set K ?q None) < n" unfolding walk by simp
    from Suc.IH [OF s(2,3) qK this] obtain m2 h2 where r:
      "scan n nxt it' m' h' = Some (Inr (map (\<lambda>e. the (F (key e))) (sorted_list_of_set (walk_set K ?q None)), m2, h2))"
      "mx_inv T V m2 h2 F" "same_db V h' h2" by blast
    show ?thesis
      using i x s(1) r same_db_trans [OF s(5) r(3)] unfolding walk by simp
  qed
qed simp

lemma walk_all: "finite K \<Longrightarrow> walk_set K (least_in K) None = K"
  using walk_set_bounds [of K] by (auto simp: walk_set_def least_in_def)

lemma finite_rows:
  assumes "db_ok H V" "mx_inv T V m h F"
  shows "finite (dom F)" "finite (index_entries T n F)"
proof -
  show f: "finite (dom F)"
    using ids_okD(4) [OF row_ids_law [OF assms(1)], of h "row_table T m"] rows_rep_dom [of T V m h F] assms(2)
    by (simp add: mx_inv_def)
  have "index_entries T n F = (\<lambda>k. ((rt_extract T ! n) (the (F k)), k)) ` dom F"
    by (force simp: index_entries_def)
  then show "finite (index_entries T n F)" using f by simp
qed

section \<open>Reachable states\<close>

text \<open>One call of the contract on the table; a failed call aborts the transaction and has no next state.\<close>

inductive mx_step :: "('v, 's :: linorder) row_type \<Rightarrow> ('h, 's) db_host \<Rightarrow> ('h, 's) db_view
    \<Rightarrow> 'v multi_index \<times> 'h \<Rightarrow> 'v multi_index \<times> 'h \<Rightarrow> bool" for T H V where
  find: "mx_find T H k m h = Inr (it, m', h') \<Longrightarrow> mx_step T H V (m, h) (m', h')"
| lower: "mx_lower_bound T H k m h = Inr (it, m', h') \<Longrightarrow> mx_step T H V (m, h) (m', h')"
| upper: "mx_upper_bound T H k m h = Inr (it, m', h') \<Longrightarrow> mx_step T H V (m, h) (m', h')"
| advance: "mx_next T H it m h = Inr (it', m', h') \<Longrightarrow> mx_step T H V (m, h) (m', h')"
| retreat: "mx_prev T H it m h = Inr (it', m', h') \<Longrightarrow> mx_step T H V (m, h) (m', h')"
| available: "available_primary_key T H m h = Inr (k, m', h') \<Longrightarrow> mx_step T H V (m, h) (m', h')"
| emplace: "mx_emplace T H payer c m h = Inr (it, m', h') \<Longrightarrow>
    dv_rows V h (row_table T m) (rt_pk T (c (rt_default T))) = None \<Longrightarrow> mx_step T H V (m, h) (m', h')"
| modify: "mx_modify T H obj payer u m h = Inr (m', h') \<Longrightarrow> mx_step T H V (m, h) (m', h')"
| erase: "mx_erase T H obj m h = Inr (m', h') \<Longrightarrow> mx_step T H V (m, h) (m', h')"
| sec_lower: "n < length (rt_extract T) \<Longrightarrow> sx_lower_bound T H n x m h = Inr (it, m', h') \<Longrightarrow> mx_step T H V (m, h) (m', h')"
| sec_upper: "n < length (rt_extract T) \<Longrightarrow> sx_upper_bound T H n x m h = Inr (it, m', h') \<Longrightarrow> mx_step T H V (m, h) (m', h')"
| sec_advance: "n < length (rt_extract T) \<Longrightarrow> sx_next T H n it m h = Inr (it', m', h') \<Longrightarrow> mx_step T H V (m, h) (m', h')"
| sec_retreat: "n < length (rt_extract T) \<Longrightarrow> sx_prev T H n it m h = Inr (it', m', h') \<Longrightarrow> mx_step T H V (m, h) (m', h')"
| sec_iterator: "n < length (rt_extract T) \<Longrightarrow> sx_iterator_to T H n obj m h = Inr (it, m', h') \<Longrightarrow> mx_step T H V (m, h) (m', h')"

inductive_cases mx_stepE: "mx_step T H V (m, h) s"

text \<open>A call takes the next key to the autoincrement limit only when a row has a key next to it.\<close>

definition limit_kept :: "'v multi_index \<Rightarrow> 'v multi_index \<Rightarrow> (u64 \<Rightarrow> 'v option) \<Rightarrow> bool" where
  "limit_kept m m' F' \<longleftrightarrow> mx_next_pk m' = no_available_primary_key \<longrightarrow>
     mx_next_pk m = no_available_primary_key \<or> (\<exists>j \<in> dom F'. - 3 \<le> j)"

lemma limit_kept_same [intro]: "mx_next_pk m' = mx_next_pk m \<Longrightarrow> limit_kept m m' F"
  by (simp add: limit_kept_def)

lemma limit_kept_note: "mx_next_pk m' = mx_next_pk (note_key k m) \<Longrightarrow> k \<in> dom F \<Longrightarrow> limit_kept m m' F"
  unfolding limit_kept_def using note_key_limit [of k m] by metis

lemma lookup_keeps: "lookup_ok T V m h F pos r \<Longrightarrow> r = Inr (it, m', h') \<Longrightarrow> mx_inv T V m' h' F \<and> limit_kept m m' F"
  by (auto simp: lookup_ok_def mx_ext_def)

lemma step_back_keeps: "step_back_ok T V m h F pos r \<Longrightarrow> r = Inr (it, m', h') \<Longrightarrow> mx_inv T V m' h' F \<and> limit_kept m m' F"
  by (auto simp: step_back_ok_def lookup_ok_def mx_ext_def split: if_splits)

lemma deref_at:
  assumes "mx_inv T V m h F" "deref m i = Inr x"
  shows "ref_at m i (item_obj x)" "it_at m F (Some i) (Some (rt_pk T (item_obj x)))"
proof -
  obtain p where p: "find (\<lambda>p. ptr_id p = i) (mx_items m) = Some p" "ptr_item p = x"
    using assms(2) by (auto simp: deref_def split: option.splits)
  have "find (\<lambda>p. ptr_id p = i) (rev (rev (mx_items m))) = Some p" using p(1) by simp
  then have "p \<in> set (rev (mx_items m)) \<and> ptr_id p = i" by (rule find_revD)
  then show "ref_at m i (item_obj x)" using p(2) by (auto simp: ref_at_def)
  then show "it_at m F (Some i) (Some (rt_pk T (item_obj x)))"
    using ref_atE [OF assms(1), of i "item_obj x"] by (auto simp: it_at_def)
qed

lemma mx_step_keeps:
  assumes db: "db_ok H V" and T: "row_type_ok T" and s: "mx_step T H V s s'" and inv: "mx_inv T V (fst s) (snd s) F"
  shows "\<exists>F'. mx_inv T V (fst s') (snd s') F' \<and> limit_kept (fst s) (fst s') F'"
  using s
proof cases
  case (find k m h it m' h')
  show ?thesis using lookup_keeps [OF mx_find_ok [OF db T] find(3)] inv find(1,2) by auto
next
  case (lower k m h it m' h')
  show ?thesis using lookup_keeps [OF mx_bounds_ok(1) [OF db T] lower(3)] inv lower(1,2) by auto
next
  case (upper k m h it m' h')
  show ?thesis using lookup_keeps [OF mx_bounds_ok(2) [OF db T] upper(3)] inv upper(1,2) by auto
next
  case (advance it m h it' m' h')
  then have inv': "mx_inv T V m h F" using inv by simp
  obtain i x where i: "it = Some i" "deref m i = Inr x"
    using advance(3) by (auto simp: mx_next_def res_bind_Inr split: option.splits)
  from mx_next_ok [OF db T inv' deref_at(2) [OF inv' i(2)]] advance show ?thesis
    unfolding i(1) using lookup_keeps by fastforce
next
  case (retreat it m h it' m' h')
  then have inv': "mx_inv T V m h F" using inv by simp
  have "\<exists>pos. it_at m F it pos"
  proof (cases it)
    case (Some i)
    then obtain x where "deref m i = Inr x" using retreat(3) by (auto simp: mx_prev_def res_bind_Inr)
    then show ?thesis using deref_at(2) [OF inv'] Some by blast
  qed simp
  then obtain pos where "it_at m F it pos" ..
  from step_back_keeps [OF mx_prev_ok [OF db T inv' this] retreat(3)] retreat(1,2) show ?thesis by auto
next
  case (available m h k m' h')
  have "mx_inv T V m' h' F \<and> mx_next_pk m' < no_available_primary_key"
    using available_primary_key_ok [OF db T, of m h F] inv available by simp
  then show ?thesis using available(1,2) by (auto simp: limit_kept_def)
next
  case (emplace payer c m h it m' h')
  then have inv': "mx_inv T V m h F" and recv: "mx_code m = current_receiver H"
    using inv by (auto simp: mx_emplace_def res_bind_Inr check_Inr)
  have "rt_pk T (c (rt_default T)) \<notin> dom F"
    using emplace(4) inv' by (auto simp: mx_inv_def rows_rep_def)
  then obtain i m2 h2 where "mx_emplace T H payer c m h = Inr (Some i, m2, h2)"
    "mx_inv T V m2 h2 (F(rt_pk T (c (rt_default T)) \<mapsto> c (rt_default T)))"
    "mx_next_pk m2 = mx_next_pk (note_key (rt_pk T (c (rt_default T))) m)"
    by (rule mx_emplace_ok [OF db T inv' recv refl])
  moreover have "limit_kept m m2 (F(rt_pk T (c (rt_default T)) \<mapsto> c (rt_default T)))"
    by (rule limit_kept_note [OF calculation(3)]) simp
  ultimately show ?thesis using emplace(1-3) by auto
next
  case (modify obj payer u m h m' h')
  then have inv': "mx_inv T V m h F" using inv by simp
  obtain x where x: "fst obj = mx_self m" "mx_code m = current_receiver H" "deref m (snd obj) = Inr x"
    "rt_pk T (u (item_obj x)) = rt_pk T (item_obj x)"
    using modify(3) by (auto simp: mx_modify_def res_bind_Inr check_Inr Let_def)
  have obj: "obj = (mx_self m, snd obj)" using x(1) by (metis prod.collapse)
  obtain m2 h2 where "mx_modify T H (mx_self m, snd obj) payer u m h = Inr (m2, h2)"
    "mx_inv T V m2 h2 (F(rt_pk T (item_obj x) \<mapsto> u (item_obj x)))"
    "mx_next_pk m2 = mx_next_pk (note_key (rt_pk T (item_obj x)) m)"
    by (rule mx_modify_ok [OF db T inv' x(2) deref_at(1) [OF inv' x(3)], of u]) (rule x(4))
  moreover have "limit_kept m m2 (F(rt_pk T (item_obj x) \<mapsto> u (item_obj x)))"
    by (rule limit_kept_note [OF calculation(3)]) simp
  ultimately show ?thesis using modify(1-3) obj by auto
next
  case (erase obj m h m' h')
  then have inv': "mx_inv T V m h F" using inv by simp
  obtain x where x: "fst obj = mx_self m" "mx_code m = current_receiver H" "deref m (snd obj) = Inr x"
    using erase(3) by (auto simp: mx_erase_def res_bind_Inr check_Inr Let_def)
  have obj: "obj = (mx_self m, snd obj)" using x(1) by (metis prod.collapse)
  obtain m2 h2 where "mx_erase T H (mx_self m, snd obj) m h = Inr (m2, h2)"
    "mx_inv T V m2 h2 (F(rt_pk T (item_obj x) := None))" "mx_next_pk m2 = mx_next_pk m"
    by (rule mx_erase_ok [OF db T inv' x(2) deref_at(1) [OF inv' x(3)]])
  then show ?thesis using erase(1-3) obj by auto
next
  case (sec_lower n x m h it m' h')
  show ?thesis using lookup_keeps [OF sx_bounds_ok(1) [OF db T _ sec_lower(3)] sec_lower(4)] inv sec_lower(1,2) by auto
next
  case (sec_upper n x m h it m' h')
  show ?thesis using lookup_keeps [OF sx_bounds_ok(2) [OF db T _ sec_upper(3)] sec_upper(4)] inv sec_upper(1,2) by auto
next
  case (sec_advance n it m h it' m' h')
  then have inv': "mx_inv T V m h F" using inv by simp
  obtain i x where i: "it = Some i" "deref m i = Inr x"
    using sec_advance(4) by (auto simp: sx_next_def sx_iter_def res_bind_Inr split: option.splits)
  have "F (rt_pk T (item_obj x)) = Some (item_obj x)"
    using deref_at(1) [OF inv' i(2)] by (rule ref_atE [OF inv'])
  from sx_next_ok [OF db T inv' sec_advance(3) deref_at(2) [OF inv' i(2)] this] sec_advance show ?thesis
    unfolding i(1) using lookup_keeps by fastforce
next
  case (sec_retreat n it m h it' m' h')
  then have inv': "mx_inv T V m h F" using inv by simp
  have "\<exists>pos. it_at m F it pos"
  proof (cases it)
    case (Some i)
    then obtain x where "deref m i = Inr x" using sec_retreat(4) by (auto simp: sx_prev_def sx_iter_def res_bind_Inr)
    then show ?thesis using deref_at(2) [OF inv'] Some by blast
  qed simp
  then obtain pos where "it_at m F it pos" ..
  from step_back_keeps [OF sx_prev_ok [OF db T inv' sec_retreat(3) this] sec_retreat(4)] sec_retreat(1,2)
  show ?thesis by auto
next
  case (sec_iterator n obj m h it m' h')
  then have inv': "mx_inv T V m h F" using inv by simp
  obtain x r where x: "deref m (snd obj) = Inr x" "sx_iter T H n (snd obj) m h = Inr (r, m', h')"
    using sec_iterator(4) by (auto simp: sx_iterator_to_def sx_iter_def res_bind_Inr)
  obtain r' m2 h2 where "sx_iter T H n (snd obj) m h = Inr (r', m2, h2)" "mx_inv T V m2 h2 F" "mx_ext m m2"
    by (rule sx_iter_ok [OF db inv' sec_iterator(3) deref_at(2) [OF inv' x(1)]])
  with x(2) sec_iterator(1,2) show ?thesis by (auto simp: mx_ext_def)
qed

lemma mx_reach_inv:
  assumes "db_ok H V" "row_type_ok T" "(mx_step T H V)\<^sup>*\<^sup>* s s'" "mx_inv T V (fst s) (snd s) F"
  shows "\<exists>F'. mx_inv T V (fst s') (snd s') F'"
  using assms(3,4) by (induction arbitrary: F rule: rtranclp_induct) (use mx_step_keeps [OF assms(1,2)] in blast)+

text \<open>An object whose next key is at the limit has seen a key next to it.\<close>

lemma limit_reached:
  assumes "db_ok H V" "row_type_ok T" "(mx_step T H V)\<^sup>*\<^sup>* s s'" "mx_inv T V (fst s) (snd s) F"
    and "mx_next_pk (fst s) = unset_next_primary_key" and "mx_next_pk (fst s') = no_available_primary_key"
  shows "\<exists>t G. (mx_step T H V)\<^sup>*\<^sup>* s t \<and> (mx_step T H V)\<^sup>*\<^sup>* t s' \<and> mx_inv T V (fst t) (snd t) G \<and> (\<exists>j \<in> dom G. - 3 \<le> j)"
  using assms(3,6)
proof (induction rule: rtranclp_induct)
  case base
  then show ?case using assms(5) by (simp add: unset_next_primary_key_def no_available_primary_key_def)
next
  case (step u s')
  obtain F1 where "mx_inv T V (fst u) (snd u) F1" using mx_reach_inv [OF assms(1,2) step(1) assms(4)] ..
  from mx_step_keeps [OF assms(1,2) step(2) this] obtain G where
    G: "mx_inv T V (fst s') (snd s') G" "limit_kept (fst u) (fst s') G" by blast
  show ?case
  proof (cases "mx_next_pk (fst u) = no_available_primary_key")
    case True
    from step(3) [OF this] step(2) show ?thesis by (meson rtranclp.rtrancl_into_rtrancl)
  next
    case False
    then have "\<exists>j \<in> dom G. - 3 \<le> j" using G(2) step(4) by (simp add: limit_kept_def)
    then show ?thesis using G(1) rtranclp.rtrancl_into_rtrancl [OF step(1,2)] by blast
  qed
qed

lemma new_multi_index_inv:
  "rows_rep T V (new_multi_index s c sc) h F \<Longrightarrow> mx_inv T V (new_multi_index s c sc) h F"
  by (simp add: mx_inv_def new_multi_index_def next_key_ok_def)

end
