(* ===== verification/DbMem.thy ===== *)
theory DbMem
  imports DbHost
begin

text \<open>
  A table host in memory that keeps the laws of \<open>DbHost\<close>: rows and secondary entries in association
  lists; the number of an iterator is the row it stands for, written as a natural number, and the
  end iterator of a table a negative number below minus one.
\<close>

record 's mem_tables =
  mt_rows :: "((table_id \<times> u64) \<times> bytes) list"
  mt_secs :: "((table_id \<times> u64) \<times> 's) list"

fun row_number :: "table_id \<times> u64 \<Rightarrow> int" where
  "row_number ((c, s, t), k) = uint k + 2 ^ 64 * (uint t + 2 ^ 64 * (uint s + 2 ^ 64 * uint c))"

definition numbered_row :: "int \<Rightarrow> table_id \<times> u64" where
  "numbered_row r = ((word_of_int (r div 2 ^ 64 div 2 ^ 64 div 2 ^ 64), word_of_int (r div 2 ^ 64 div 2 ^ 64),
     word_of_int (r div 2 ^ 64)), word_of_int r)"

lemma word_digit:
  "word_of_int (uint (k :: u64) + 2 ^ 64 * n) = k" "(uint (k :: u64) + 2 ^ 64 * n) div 2 ^ 64 = n"
proof -
  have b: "0 \<le> uint k" "uint k < 2 ^ 64" using uint_bounded [of k] by simp_all
  show "(uint k + 2 ^ 64 * n) div 2 ^ 64 = n" using b by (simp add: div_pos_pos_trivial)
  have "uint (word_of_int (uint k + 2 ^ 64 * n) :: u64) = uint k"
    unfolding uint_word_of_int using b by (simp add: mod_pos_pos_trivial)
  then show "word_of_int (uint k + 2 ^ 64 * n) = k" by (simp only: word_uint_eq_iff)
qed

lemma numbered_row_number: "numbered_row (row_number x) = x"
proof -
  obtain c s t k where x: "x = ((c, s, t), k)" by (metis prod.collapse)
  show ?thesis
    unfolding x numbered_row_def row_number.simps word_digit by (simp del: of_int_add)
qed

lemma row_number_nonneg: "0 \<le> row_number x"
proof -
  obtain c s t k where "x = ((c, s, t), k)" by (metis prod.collapse)
  then show ?thesis by simp
qed

declare row_number.simps [simp del]

definition mem_id :: "((table_id \<times> u64) \<times> 'a) list \<Rightarrow> int \<Rightarrow> (table_id \<times> u64) option" where
  "mem_id es r = (if row_number (numbered_row r) = r \<and> map_of es (numbered_row r) \<noteq> None
     then Some (numbered_row r) else None)"

definition end_number :: "table_id \<Rightarrow> int" where
  "end_number t = - 2 - row_number (t, 0)"

definition mem_end :: "int \<Rightarrow> table_id option" where
  "mem_end r = (if end_number (fst (numbered_row (- 2 - r))) = r then Some (fst (numbered_row (- 2 - r))) else None)"

definition mem_keys :: "((table_id \<times> u64) \<times> 'a) list \<Rightarrow> table_id \<Rightarrow> u64 list" where
  "mem_keys es t = map (snd \<circ> fst) (filter (\<lambda>e. fst (fst e) = t) es)"

definition mem_entries :: "((table_id \<times> u64) \<times> 's) list \<Rightarrow> table_id \<Rightarrow> ('s \<times> u64) list" where
  "mem_entries es t = map (\<lambda>k. (the (map_of es (t, k)), k)) (mem_keys es t)"

definition mem_at :: "table_id \<Rightarrow> u64 option \<Rightarrow> int" where
  "mem_at t pos = (case pos of None \<Rightarrow> - 1 | Some k \<Rightarrow> row_number (t, k))"

definition mem_sec_at :: "table_id \<Rightarrow> ('s \<times> u64) option \<Rightarrow> int \<times> u64" where
  "mem_sec_at t pos = (case pos of None \<Rightarrow> (- 1, 0) | Some (s, k) \<Rightarrow> (row_number (t, k), k))"

definition put_entry :: "'k \<Rightarrow> 'a \<Rightarrow> ('k \<times> 'a) list \<Rightarrow> ('k \<times> 'a) list" where
  "put_entry k v es = (k, v) # filter (\<lambda>e. fst e \<noteq> k) es"

definition delete_entry :: "'k \<Rightarrow> ('k \<times> 'a) list \<Rightarrow> ('k \<times> 'a) list" where
  "delete_entry k es = filter (\<lambda>e. fst e \<noteq> k) es"

definition mem_db :: "u64 \<Rightarrow> ('s :: linorder mem_tables, 's) db_host" where
  "mem_db recv = \<lparr>
     current_receiver = recv,
     db_store = (\<lambda>s t p k d h. (row_number ((recv, s, t), k), h\<lparr>mt_rows := put_entry ((recv, s, t), k) d (mt_rows h)\<rparr>)),
     db_update = (\<lambda>r p d h. h\<lparr>mt_rows := put_entry (numbered_row r) d (mt_rows h)\<rparr>),
     db_remove = (\<lambda>r h. h\<lparr>mt_rows := delete_entry (numbered_row r) (mt_rows h)\<rparr>),
     db_get = (\<lambda>r n h. case map_of (mt_rows h) (numbered_row r) of None \<Rightarrow> (- 1, [])
        | Some d \<Rightarrow> (if n = 0 then int (length d) else int (min n (length d)), take n d)),
     db_next = (\<lambda>r h. case numbered_row r of (t, k) \<Rightarrow>
        ((mem_at t (least_in (set (filter ((<) k) (mem_keys (mt_rows h) t)))), 0), h)),
     db_previous = (\<lambda>r h. if r < - 1 then
          (case fst (numbered_row (- 2 - r)) of t \<Rightarrow> ((mem_at t (greatest_in (set (mem_keys (mt_rows h) t))), 0), h))
        else (case numbered_row r of (t, k) \<Rightarrow>
          ((mem_at t (greatest_in (set (filter (\<lambda>k'. k' < k) (mem_keys (mt_rows h) t)))), 0), h))),
     db_find = (\<lambda>c s t k h. (mem_at (c, s, t) (if k \<in> set (mem_keys (mt_rows h) (c, s, t)) then Some k else None), h)),
     db_lowerbound = (\<lambda>c s t k h. (mem_at (c, s, t) (least_in (set (filter ((\<le>) k) (mem_keys (mt_rows h) (c, s, t))))), h)),
     db_upperbound = (\<lambda>c s t k h. (mem_at (c, s, t) (least_in (set (filter ((<) k) (mem_keys (mt_rows h) (c, s, t))))), h)),
     db_end = (\<lambda>c s t h. (if mem_keys (mt_rows h) (c, s, t) = [] then - 1 else end_number (c, s, t), h)),
     idx_store = (\<lambda>s t p k x h. (row_number ((recv, s, t), k), h\<lparr>mt_secs := put_entry ((recv, s, t), k) x (mt_secs h)\<rparr>)),
     idx_update = (\<lambda>r p x h. h\<lparr>mt_secs := put_entry (numbered_row r) x (mt_secs h)\<rparr>),
     idx_remove = (\<lambda>r h. h\<lparr>mt_secs := delete_entry (numbered_row r) (mt_secs h)\<rparr>),
     idx_next = (\<lambda>r h. case numbered_row r of (t, k) \<Rightarrow> (mem_sec_at t (least_in
        (set (filter ((<) (the (map_of (mt_secs h) (t, k)), k)) (mem_entries (mt_secs h) t)))), h)),
     idx_previous = (\<lambda>r h. if r < - 1 then
          (case fst (numbered_row (- 2 - r)) of t \<Rightarrow> (mem_sec_at t (greatest_in (set (mem_entries (mt_secs h) t))), h))
        else (case numbered_row r of (t, k) \<Rightarrow> (mem_sec_at t (greatest_in
          (set (filter (\<lambda>e. e < (the (map_of (mt_secs h) (t, k)), k)) (mem_entries (mt_secs h) t)))), h))),
     idx_find_primary = (\<lambda>c s t k h. (mem_at (c, s, t) (if k \<in> set (mem_keys (mt_secs h) (c, s, t)) then Some k else None), h)),
     idx_lowerbound = (\<lambda>c s t x h. (mem_sec_at (c, s, t) (least_in
        (set (filter (\<lambda>e. x \<le> fst e) (mem_entries (mt_secs h) (c, s, t))))), h)),
     idx_upperbound = (\<lambda>c s t x h. (mem_sec_at (c, s, t) (least_in
        (set (filter (\<lambda>e. x < fst e) (mem_entries (mt_secs h) (c, s, t))))), h)),
     idx_end = (\<lambda>c s t h. (if mem_keys (mt_secs h) (c, s, t) = [] then - 1 else end_number (c, s, t), h)) \<rparr>"

definition mem_db_view :: "('s mem_tables, 's) db_view" where
  "mem_db_view = \<lparr>
     dv_rows = (\<lambda>h t k. map_of (mt_rows h) (t, k)), dv_ids = (\<lambda>h. mem_id (mt_rows h)), dv_ends = (\<lambda>h. mem_end),
     dv_secs = (\<lambda>h t k. map_of (mt_secs h) (t, k)), dv_sids = (\<lambda>h. mem_id (mt_secs h)), dv_sends = (\<lambda>h. mem_end)\<rparr>"

section \<open>The laws hold\<close>

lemma mem_id_Some: "mem_id es r = Some x \<longleftrightarrow> r = row_number x \<and> map_of es x \<noteq> None"
  by (auto simp: mem_id_def numbered_row_number)

lemma mem_id_number [simp]: "mem_id es (row_number x) = (if map_of es x = None then None else Some x)"
  by (simp add: mem_id_def numbered_row_number)

lemma mem_end_number [simp]: "mem_end (end_number t) = Some t"
  by (simp add: mem_end_def end_number_def numbered_row_number)

lemma mem_end_Some: "mem_end r = Some t \<Longrightarrow> r = end_number t"
  by (auto simp: mem_end_def split: if_splits)

lemma end_number_neg: "end_number t < - 1"
  using row_number_nonneg [of "(t, 0)"] by (simp add: end_number_def)

lemma set_mem_keys: "set (mem_keys es t) = dom (\<lambda>k. map_of es (t, k))"
proof -
  have "k \<in> set (mem_keys es t) \<longleftrightarrow> (t, k) \<in> fst ` set es" for k
    by (force simp: mem_keys_def)
  then show ?thesis by (auto simp: dom_map_of_conv_image_fst [symmetric])
qed

lemma set_mem_entries: "set (mem_entries es t) = {(s, k). map_of es (t, k) = Some s}"
  by (force simp: mem_entries_def set_mem_keys)

lemma map_of_put: "map_of (put_entry k v es) = (map_of es)(k \<mapsto> v)"
proof -
  have "map_of (filter (\<lambda>e. fst e \<noteq> k) es) x = (if x = k then None else map_of es x)" for x
    by (induction es) auto
  then show ?thesis by (auto simp: put_entry_def)
qed

lemma map_of_delete: "map_of (delete_entry k es) = (map_of es)(k := None)"
proof -
  have "map_of (filter (\<lambda>e. fst e \<noteq> k) es) x = (if x = k then None else map_of es x)" for x
    by (induction es) auto
  then show ?thesis by (auto simp: delete_entry_def)
qed

lemma mem_ids_ok: "ids_ok (mem_id es) (\<lambda>t k. map_of es (t, k))"
proof -
  have "finite (dom (\<lambda>k. map_of es (t, k)))" for t unfolding set_mem_keys [symmetric] by simp
  then show ?thesis by (auto simp: ids_ok_def mem_id_Some row_number_nonneg)
qed

lemma mem_id_put: "mem_id es \<subseteq>\<^sub>m mem_id (put_entry k v es)"
  by (auto simp: map_le_def dom_def mem_id_Some map_of_put)

lemma mem_id_delete: "(mem_id es)(row_number k := None) \<subseteq>\<^sub>m mem_id (delete_entry k es)"
  by (auto simp: map_le_def dom_def mem_id_Some map_of_delete split: if_splits)

lemma mem_row_lands:
  "row_lands mem_db_view h t pos (mem_at t pos, h) \<longleftrightarrow> (\<forall>k. pos = Some k \<longrightarrow> k \<in> dom (dv_rows mem_db_view h t))"
  by (auto simp: row_lands_def same_db_def lands_def mem_at_def mem_db_view_def mem_id_Some split: option.splits)

lemma mem_sec_lands:
  "sec_lands mem_db_view h t pos (mem_sec_at t pos, h)
     \<longleftrightarrow> (\<forall>e. pos = Some e \<longrightarrow> snd e \<in> dom (dv_secs mem_db_view h t))"
  by (auto simp: sec_lands_def same_db_def lands_def mem_sec_at_def mem_db_view_def mem_id_Some split: option.splits)

lemma chosen_mem:
  assumes "finite S"
  shows "least_in S = Some k \<Longrightarrow> k \<in> S" "greatest_in S = Some k \<Longrightarrow> k \<in> S"
  using Min_in [OF assms] Max_in [OF assms] by (auto simp: least_in_def greatest_in_def split: if_splits)

lemma mem_view_sel [simp]:
  "dv_rows mem_db_view h = (\<lambda>t k. map_of (mt_rows h) (t, k))" "dv_secs mem_db_view h = (\<lambda>t k. map_of (mt_secs h) (t, k))"
  "dv_ids mem_db_view h = mem_id (mt_rows h)" "dv_sids mem_db_view h = mem_id (mt_secs h)"
  "dv_ends mem_db_view h = mem_end" "dv_sends mem_db_view h = mem_end"
  by (simp_all add: mem_db_view_def)

lemma mem_keys_part: "{k \<in> set (mem_keys es t). P k} = {k \<in> dom (\<lambda>k. map_of es (t, k)). P k}"
  by (simp add: set_mem_keys)

lemma finite_keys [simp]: "finite (dom (\<lambda>k. map_of (es :: ((table_id \<times> u64) \<times> 'a) list) (t, k)))"
  using mem_ids_ok [of es] by (simp add: ids_ok_def)

lemma mem_entries_part: "{e \<in> set (mem_entries (mt_secs h) t). P e} = {e \<in> sec_entries mem_db_view h t. P e}"
  by (auto simp: set_mem_entries sec_entries_def)

lemma finite_entries: "finite (sec_entries mem_db_view h t)"
proof -
  have "sec_entries mem_db_view h t = set (mem_entries (mt_secs h) t)"
    by (simp add: set_mem_entries sec_entries_def)
  then show ?thesis by (simp only: finite_set)
qed

lemma entries_dom: "e \<in> sec_entries mem_db_view h t \<Longrightarrow> snd e \<in> dom (dv_secs mem_db_view h t)"
  by (auto simp: sec_entries_def)

lemma mem_row_chosen:
  "row_lands mem_db_view h t (least_in {k \<in> dom (\<lambda>k. map_of (mt_rows h) (t, k)). P k})
     (mem_at t (least_in {k \<in> dom (\<lambda>k. map_of (mt_rows h) (t, k)). P k}), h)"
  "row_lands mem_db_view h t (greatest_in {k \<in> dom (\<lambda>k. map_of (mt_rows h) (t, k)). P k})
     (mem_at t (greatest_in {k \<in> dom (\<lambda>k. map_of (mt_rows h) (t, k)). P k}), h)"
proof -
  have f: "finite {k \<in> dom (\<lambda>k. map_of (mt_rows h) (t, k)). P k}"
    by (rule finite_subset [OF _ finite_keys [of "mt_rows h" t]]) blast
  show "row_lands mem_db_view h t (least_in {k \<in> dom (\<lambda>k. map_of (mt_rows h) (t, k)). P k})
     (mem_at t (least_in {k \<in> dom (\<lambda>k. map_of (mt_rows h) (t, k)). P k}), h)"
    unfolding mem_row_lands mem_view_sel using chosen_mem(1) [OF f] by blast
  show "row_lands mem_db_view h t (greatest_in {k \<in> dom (\<lambda>k. map_of (mt_rows h) (t, k)). P k})
     (mem_at t (greatest_in {k \<in> dom (\<lambda>k. map_of (mt_rows h) (t, k)). P k}), h)"
    unfolding mem_row_lands mem_view_sel using chosen_mem(2) [OF f] by blast
qed

lemma mem_sec_chosen:
  "sec_lands mem_db_view h t (least_in {e \<in> sec_entries mem_db_view h t. P e})
     (mem_sec_at t (least_in {e \<in> sec_entries mem_db_view h t. P e}), h)"
  "sec_lands mem_db_view h t (greatest_in {e \<in> sec_entries mem_db_view h t. P e})
     (mem_sec_at t (greatest_in {e \<in> sec_entries mem_db_view h t. P e}), h)"
proof -
  have f: "finite {e \<in> sec_entries mem_db_view h t. P e}"
    by (rule finite_subset [OF _ finite_entries [of h t]]) blast
  show "sec_lands mem_db_view h t (least_in {e \<in> sec_entries mem_db_view h t. P e})
     (mem_sec_at t (least_in {e \<in> sec_entries mem_db_view h t. P e}), h)"
    unfolding mem_sec_lands using chosen_mem(1) [OF f] entries_dom by blast
  show "sec_lands mem_db_view h t (greatest_in {e \<in> sec_entries mem_db_view h t. P e})
     (mem_sec_at t (greatest_in {e \<in> sec_entries mem_db_view h t. P e}), h)"
    unfolding mem_sec_lands using chosen_mem(2) [OF f] entries_dom by blast
qed

lemma row_number_lt [simp]: "\<not> row_number x < - 1"
  using row_number_nonneg [of x] by simp

lemma end_numbered [simp]: "fst (numbered_row (- 2 - end_number t)) = t"
  by (simp add: end_number_def numbered_row_number)

lemma mem_keys_Nil: "mem_keys es t = [] \<longleftrightarrow> (\<lambda>k. map_of es (t, k)) = Map.empty"
proof -
  have "mem_keys es t = [] \<longleftrightarrow> set (mem_keys es t) = {}" by simp
  then show ?thesis by (simp only: set_mem_keys dom_eq_empty_conv)
qed

lemma Collect_dom: "dom m = {k \<in> dom m. True}"
  by simp

lemma mem_db_rows_ok: "db_rows_ok (mem_db recv) mem_db_view"
  unfolding db_rows_ok_def
proof (intro conjI allI impI, goal_cases)
  case (1 h) show ?case using mem_ids_ok by simp
next
  case (14 h c s t)
  show ?case using end_number_neg [of "(c, s, t)"]
    by (auto simp: mem_db_def same_db_def mem_keys_Nil)
next
  case (15 h r t)
  then have "r = end_number t" by (simp add: mem_end_Some)
  then show ?case
    using mem_row_chosen(2) [of h t "\<lambda>_. True"] end_number_neg [of t]
    by (simp add: mem_db_def set_mem_keys)
qed (auto simp: mem_db_def put_row_def delete_row_def fun_eq_iff map_of_put map_of_delete mem_id_put mem_id_delete
  mem_id_Some numbered_row_number mem_row_chosen set_mem_keys mem_row_lands [of _ _ None] mem_row_lands [of _ _ "Some k" for k] same_db_def)

lemma mem_db_secs_ok: "db_secs_ok (mem_db recv) mem_db_view"
  unfolding db_secs_ok_def
proof (intro conjI allI impI, goal_cases)
  case (1 h) show ?case using mem_ids_ok by simp
next
  case (13 h c s t)
  show ?case using end_number_neg [of "(c, s, t)"]
    by (auto simp: mem_db_def same_db_def mem_keys_Nil)
next
  case (14 h r t)
  then have "r = end_number t" by (simp add: mem_end_Some)
  then show ?case
    using mem_sec_chosen(2) [of h t "\<lambda>_. True"] mem_entries_part [of h t "\<lambda>_. True"] end_number_neg [of t]
    by (simp add: mem_db_def)
qed (auto simp: mem_db_def put_sec_def delete_sec_def fun_eq_iff map_of_put map_of_delete mem_id_put mem_id_delete
  mem_id_Some numbered_row_number mem_sec_chosen mem_entries_part set_mem_keys lands_def mem_at_def same_db_def)

lemma mem_db_ok: "db_ok (mem_db recv) mem_db_view"
  by (simp add: db_ok_def mem_db_rows_ok mem_db_secs_ok)

end
