(* ===== verification/MultiIndexProps.thy ===== *)
theory MultiIndexProps
  imports MultiIndexScan DbMem
begin

text \<open>
  The properties of the tables of \<open>multi_index.hpp\<close>, each with an instance on \<open>mem_db\<close> and a table of
  pairs of bytes with the first as primary and the second as secondary key.
\<close>

section \<open>A concrete table\<close>

definition pair_rows :: "(u8 \<times> u8, u8) row_type" where
  "pair_rows = \<lparr>rt_table = 256, rt_pk = (\<lambda>(a, b). ucast a), rt_pack = (\<lambda>(a, b). [a, b]),
     rt_unpack = (\<lambda>bs. case bs of [a, b] \<Rightarrow> Inr (a, b) | _ \<Rightarrow> Inl (Check ''read'')),
     rt_default = (0, 0), rt_extract = [snd], rt_lowest = 0\<rparr>"

abbreviation pair_table :: "(u8 \<times> u8) multi_index" where
  "pair_table \<equiv> new_multi_index 0 9 1"

abbreviation no_tables :: "u8 mem_tables" where
  "no_tables \<equiv> \<lparr>mt_rows = [], mt_secs = []\<rparr>"

lemma pair_rows_sel [simp]:
  "rt_pk pair_rows (a, b) = ucast a" "rt_extract pair_rows = [snd]"
  by (simp_all add: pair_rows_def)

lemma pair_rows_ok: "row_type_ok pair_rows"
  by (auto simp: row_type_ok_def pair_rows_def)

lemma pair_table_inv: "mx_inv pair_rows mem_db_view pair_table no_tables Map.empty"
  by (rule new_multi_index_inv) (simp add: rows_rep_def)

lemma pair_table_code: "mx_code pair_table = current_receiver (mem_db 9)"
  by (simp add: new_multi_index_def mem_db_def)

text \<open>The table that holds one row.\<close>

lemma pair_one_row:
  obtains i m h where "mx_inv pair_rows mem_db_view m h [5 \<mapsto> (5, 7)]" "ref_at m i (5, 7)" "mx_self m = 0"
    "mx_code m = current_receiver (mem_db 9 :: (u8 mem_tables, u8) db_host)"
    "mx_emplace pair_rows (mem_db 9) 1 (\<lambda>_. (5, 7)) pair_table no_tables = Inr (Some i, m, h)"
proof -
  have n: "rt_pk pair_rows (5, 7) \<notin> dom Map.empty" by simp
  obtain i m h where e: "mx_emplace pair_rows (mem_db 9) 1 (\<lambda>_. (5, 7)) pair_table no_tables = Inr (Some i, m, h)"
    "mx_inv pair_rows mem_db_view m h (Map.empty(rt_pk pair_rows (5, 7) \<mapsto> (5, 7)))" "ref_at m i (5, 7)"
    "mx_self m = mx_self pair_table" "mx_code m = mx_code pair_table"
    by (rule mx_emplace_ok [OF mem_db_ok pair_rows_ok pair_table_inv pair_table_code refl n]) blast
  show ?thesis
    by (rule that [OF _ e(3) _ _ e(1)]) (use e(2,4,5) in \<open>simp_all add: new_multi_index_def mem_db_def\<close>)
qed

section \<open>The invariant\<close>

text \<open>
  C11. Starting from a new table object over tables of the host that represent a function from primary
  keys to rows, every state that calls on the table reach (lookups, moves of iterators, emplace with
  a key that is free, modify, erase, and the lookups and moves of the secondary indices) represents
  such a function: every secondary index agrees with the rows, every cached object is the stored row
  with iterator numbers that stand for it, and the next primary key is unset, spent or above all keys.
\<close>
theorem table_invariant:
  assumes "db_ok H V" and "row_type_ok T" and "rows_rep T V (new_multi_index self code scope) h F"
    and "(mx_step T H V)\<^sup>*\<^sup>* (new_multi_index self code scope, h) (m', h')"
  shows "\<exists>F'. mx_inv T V m' h' F'"
  using mx_reach_inv [OF assms(1,2,4)] new_multi_index_inv [OF assms(3)] by simp

theorem table_invariant_witness:
  "\<exists>i m h F'. mx_emplace pair_rows (mem_db 9) 1 (\<lambda>_. (5, 7)) pair_table no_tables = Inr (Some i, m, h)
     \<and> mx_inv pair_rows mem_db_view m h F'"
proof -
  obtain i m h where e: "mx_emplace pair_rows (mem_db 9) 1 (\<lambda>_. (5, 7)) pair_table no_tables = Inr (Some i, m, h)"
    by (rule pair_one_row)
  have "dv_rows mem_db_view no_tables (row_table pair_rows pair_table) (rt_pk pair_rows ((\<lambda>_. (5, 7)) (rt_default pair_rows))) = None"
    by simp
  then have "(mx_step pair_rows (mem_db 9) mem_db_view)\<^sup>*\<^sup>* (pair_table, no_tables) (m, h)"
    by (intro r_into_rtranclp mx_step.emplace [OF e])
  moreover have "rows_rep pair_rows mem_db_view pair_table no_tables Map.empty"
    using pair_table_inv by (simp only: mx_inv_def)
  ultimately have "\<exists>F'. mx_inv pair_rows mem_db_view m h F'"
    by (intro table_invariant [OF mem_db_ok pair_rows_ok])
  with e show ?thesis by blast
qed

section \<open>Writing\<close>

text \<open>
  C12. \<open>emplace\<close> of a row with a free primary key, in a table of the contract itself, stores it: the
  represented function is updated at its key, the result is an iterator at the new object, objects
  cached before stay where they are, and no other table of the host changes.
\<close>
theorem table_emplace:
  assumes "db_ok H V" and "row_type_ok T" and "mx_inv T V m h F" and "mx_code m = current_receiver H"
    and "v = constructor (rt_default T)" and "rt_pk T v \<notin> dom F"
  shows "\<exists>i m' h'. mx_emplace T H payer constructor m h = Inr (Some i, m', h')
    \<and> mx_inv T V m' h' (F(rt_pk T v \<mapsto> v)) \<and> ref_at m' i v
    \<and> (\<forall>j w. ref_at m j w \<longrightarrow> ref_at m' j w) \<and> other_tables_same T V m h h'"
  by (rule mx_emplace_ok [OF assms(1-4), of v constructor]) (use assms(5,6) in blast)+

theorem table_emplace_witness:
  "\<exists>i m' h'. mx_emplace pair_rows (mem_db 9) 1 (\<lambda>_. (5, 7)) pair_table no_tables = Inr (Some i, m', h')
    \<and> mx_inv pair_rows mem_db_view m' h' [5 \<mapsto> (5, 7)]"
proof -
  have n: "rt_pk pair_rows (5, 7) \<notin> dom Map.empty" by simp
  from table_emplace [OF mem_db_ok pair_rows_ok pair_table_inv pair_table_code refl n, of 1]
  show ?thesis by (simp only: pair_rows_sel) auto
qed

text \<open>
  C13. \<open>modify\<close> of a cached object with an updater that keeps the primary key stores the updated row:
  the represented function is updated at the key, the object holds the new row, the other objects are
  untouched, and no other table of the host changes.
\<close>
theorem table_modify:
  assumes "db_ok H V" and "row_type_ok T" and "mx_inv T V m h F" and "mx_code m = current_receiver H"
    and "ref_at m i v" and "rt_pk T (updater v) = rt_pk T v"
  shows "\<exists>m' h'. mx_modify T H (mx_self m, i) payer updater m h = Inr (m', h')
    \<and> mx_inv T V m' h' (F(rt_pk T v \<mapsto> updater v)) \<and> ref_at m' i (updater v)
    \<and> (\<forall>j w. j \<noteq> i \<longrightarrow> ref_at m j w \<longrightarrow> ref_at m' j w) \<and> other_tables_same T V m h h'"
  by (rule mx_modify_ok [OF assms(1-5), of updater]) (use assms(6) in blast)+

theorem table_modify_witness:
  "\<exists>i m h m' h'. mx_inv pair_rows mem_db_view m h [5 \<mapsto> (5, 7)]
    \<and> mx_modify pair_rows (mem_db 9) (mx_self m, i) 1 (\<lambda>(a, b). (a, 8)) m h = Inr (m', h')
    \<and> mx_inv pair_rows mem_db_view m' h' [5 \<mapsto> (5, 8)]"
proof -
  obtain i m h where s: "mx_inv pair_rows mem_db_view m h [5 \<mapsto> (5, 7)]" "ref_at m i (5, 7)"
    "mx_code m = current_receiver (mem_db 9 :: (u8 mem_tables, u8) db_host)" by (rule pair_one_row)
  from table_modify [OF mem_db_ok pair_rows_ok s(1,3,2), where updater = "\<lambda>(a, b). (a, 8)" and payer = 1]
  obtain m' h' where "mx_modify pair_rows (mem_db 9) (mx_self m, i) 1 (\<lambda>(a, b). (a, 8)) m h = Inr (m', h')"
    "mx_inv pair_rows mem_db_view m' h' [5 \<mapsto> (5, 8)]" by auto
  with s(1) show ?thesis by blast
qed

text \<open>
  C14. \<open>erase\<close> of a cached object removes its row: the represented function loses the key, with its
  entries in all secondary indices; other objects are untouched, and no other table changes.
\<close>
theorem table_erase_row:
  assumes "db_ok H V" and "row_type_ok T" and "mx_inv T V m h F" and "mx_code m = current_receiver H"
    and "ref_at m i v"
  shows "\<exists>m' h'. mx_erase T H (mx_self m, i) m h = Inr (m', h') \<and> mx_inv T V m' h' (F(rt_pk T v := None))
    \<and> (\<forall>j w. rt_pk T w \<noteq> rt_pk T v \<longrightarrow> ref_at m j w \<longrightarrow> ref_at m' j w) \<and> other_tables_same T V m h h'"
  by (rule mx_erase_ok [OF assms]) blast

theorem table_erase_row_witness:
  "\<exists>i m h m' h'. mx_inv pair_rows mem_db_view m h [5 \<mapsto> (5, 7)]
    \<and> mx_erase pair_rows (mem_db 9) (mx_self m, i) m h = Inr (m', h')
    \<and> mx_inv pair_rows mem_db_view m' h' ([5 \<mapsto> (5, 7)](5 := None))"
proof -
  obtain i m h where s: "mx_inv pair_rows mem_db_view m h [5 \<mapsto> (5, 7)]" "ref_at m i (5, 7)"
    "mx_code m = current_receiver (mem_db 9 :: (u8 mem_tables, u8) db_host)" by (rule pair_one_row)
  from table_erase_row [OF mem_db_ok pair_rows_ok s(1,3,2)] s(1) show ?thesis
    by (simp only: pair_rows_sel) (auto intro!: exI)
qed

section \<open>Looking up\<close>

text \<open>
  C15. \<open>find\<close> yields an iterator at the row with the key, loaded or cached, or the end when there is
  none; \<open>get\<close> and \<open>require_find\<close> then abort with the given message instead. None of them changes
  a row.
\<close>
theorem table_find:
  assumes "db_ok H V" and "row_type_ok T" and "mx_inv T V m h F"
  shows "\<exists>it m' h'. mx_find T H k m h = Inr (it, m', h') \<and> mx_inv T V m' h' F \<and> same_db V h h'
    \<and> (case F k of None \<Rightarrow> it = mx_end | Some v \<Rightarrow> (\<exists>i. it = Some i \<and> ref_at m' i v))
    \<and> mx_require_find T H k msg m h = (if F k = None then Inl (Check msg) else Inr (it, m', h'))
    \<and> mx_get T H k msg m h = (if F k = None then Inl (Check msg) else Inr (the it, m', h'))"
proof -
  obtain it m' h' where f: "mx_find T H k m h = Inr (it, m', h')" "mx_inv T V m' h' F"
    "it_at m' F it (if k \<in> dom F then Some k else None)" "mx_ext m m'" "same_db V h h'"
    by (rule lookup_okE [OF mx_find_ok [OF assms]])
  then show ?thesis
    by (cases "F k") (auto simp: mx_require_find_eq mx_get_def mx_end_def it_at_def domIff split: option.splits)
qed

theorem table_find_witness:
  "\<exists>m h it m' h'. mx_inv pair_rows mem_db_view m h [5 \<mapsto> (5, 7)]
    \<and> mx_find pair_rows (mem_db 9) 5 m h = Inr (Some it, m', h') \<and> ref_at m' it (5, 7)
    \<and> mx_get pair_rows (mem_db 9) 6 ''none'' m h = Inl (Check ''none'')"
proof -
  obtain i m h where s: "mx_inv pair_rows mem_db_view m h [5 \<mapsto> (5, 7)]" by (rule pair_one_row)
  obtain it m' h' where "mx_find pair_rows (mem_db 9) 5 m h = Inr (Some it, m', h')" "ref_at m' it (5, 7)"
    using table_find [OF mem_db_ok [of 9] pair_rows_ok s, where k = 5 and msg = "''none''"] by auto
  moreover have "mx_get pair_rows (mem_db 9) 6 ''none'' m h = Inl (Check ''none'')"
    using table_find [OF mem_db_ok [of 9] pair_rows_ok s, where k = 6 and msg = "''none''"] by auto
  ultimately show ?thesis using s by blast
qed

text \<open>
  C16. A loop from \<open>begin()\<close> with \<open>++\<close> meets the end after exactly the rows of the table, in ascending
  order of their primary keys, after one step for each.
\<close>
theorem table_scan_sorted:
  assumes "db_ok H V" and "row_type_ok T" and "mx_inv T V m h F" and "card (dom F) < n"
  shows "\<exists>it m1 h1 m' h'. mx_begin T H m h = Inr (it, m1, h1)
    \<and> scan n (mx_next T H) it m1 h1 = Some (Inr (map (\<lambda>k. the (F k)) (sorted_list_of_set (dom F)), m', h'))
    \<and> mx_inv T V m' h' F \<and> same_db V h h'"
proof -
  note fin = finite_rows(1) [OF assms(1,3)]
  obtain it m1 h1 where b: "mx_begin T H m h = Inr (it, m1, h1)" "mx_inv T V m1 h1 F"
    "it_at m1 F it (least_in (dom F))" "mx_ext m m1" "same_db V h h1"
    by (rule lookup_okE [OF mx_begin_ok [OF assms(1-3)]])
  have nxt: "\<forall>m h i e. mx_inv T V m h F \<and> it_at m F (Some i) (Some (id e)) \<and> e \<in> dom F \<longrightarrow>
      lookup_ok T V m h F (map_option id (least_in {e' \<in> dom F. e < e'})) (mx_next T H (Some i) m h)"
    using mx_next_ok [OF assms(1,2)] by (simp add: option.map_id)
  have least: "\<forall>e. least_in (dom F) = Some e \<longrightarrow> e \<in> dom F"
    using least_in_mem [OF fin, of "\<lambda>_. True"] by simp
  have "card (walk_set (dom F) (least_in (dom F)) None) < n" using assms(4) by (simp add: walk_all [OF fin])
  moreover have "it_at m1 F it (map_option id (least_in (dom F)))" using b(3) by (simp add: option.map_id)
  ultimately obtain m' h' where r: "scan n (mx_next T H) it m1 h1
      = Some (Inr (map (\<lambda>e. the (F (id e))) (sorted_list_of_set (walk_set (dom F) (least_in (dom F)) None)), m', h'))"
    "mx_inv T V m' h' F" "same_db V h1 h'"
    using scan_rows [OF fin nxt b(2) _ least] by blast
  then show ?thesis using b(1) same_db_trans [OF b(5) r(3)] by (simp add: walk_all [OF fin])
qed

theorem table_scan_sorted_witness:
  "\<exists>m h it m1 h1 m' h'. mx_inv pair_rows mem_db_view m h [5 \<mapsto> (5, 7)]
    \<and> mx_begin pair_rows (mem_db 9) m h = Inr (it, m1, h1)
    \<and> scan 2 (mx_next pair_rows (mem_db 9)) it m1 h1 = Some (Inr ([(5, 7)], m', h'))"
proof -
  obtain i m h where s: "mx_inv pair_rows mem_db_view m h [5 \<mapsto> (5, 7)]" by (rule pair_one_row)
  have "card (dom [5 :: u64 \<mapsto> (5 :: u8, 7 :: u8)]) < 2" by simp
  from table_scan_sorted [OF mem_db_ok [of 9] pair_rows_ok s this]
  obtain it m1 h1 m' h' where "mx_begin pair_rows (mem_db 9) m h = Inr (it, m1, h1)"
    "scan 2 (mx_next pair_rows (mem_db 9)) it m1 h1 = Some (Inr ([(5, 7)], m', h'))" by auto
  with s show ?thesis by blast
qed

text \<open>
  C17. A loop over a secondary index from its \<open>begin()\<close> with \<open>++\<close> meets the end after exactly the rows
  of the table, ordered by their secondary keys and, for equal ones, by their primary keys.
\<close>
theorem index_scan_sorted:
  assumes "db_ok H V" and "row_type_ok T" and "mx_inv T V m h F" and "j < length (rt_extract T)"
    and "card (dom F) < n"
  shows "\<exists>it m1 h1 m' h'. sx_begin T H j m h = Inr (it, m1, h1)
    \<and> scan n (sx_next T H j) it m1 h1
        = Some (Inr (map (\<lambda>e. the (F (snd e))) (sorted_list_of_set (index_entries T j F)), m', h'))
    \<and> mx_inv T V m' h' F \<and> same_db V h h'"
proof -
  let ?E = "index_entries T j F"
  note fin = finite_rows(2) [OF assms(1,3), of j]
  obtain it m1 h1 where b: "sx_begin T H j m h = Inr (it, m1, h1)" "mx_inv T V m1 h1 F"
    "it_at m1 F it (map_option snd (least_in ?E))" "mx_ext m m1" "same_db V h h1"
    by (rule lookup_okE [OF sx_begin_ok [OF assms(1-4)]])
  have nxt: "\<forall>m h i e. mx_inv T V m h F \<and> it_at m F (Some i) (Some (snd e)) \<and> e \<in> ?E \<longrightarrow>
      lookup_ok T V m h F (map_option snd (least_in {e' \<in> ?E. e < e'})) (sx_next T H j (Some i) m h)"
    using sx_next_ok [OF assms(1,2) _ assms(4)] by (auto simp: index_entries_def)
  have least: "\<forall>e. least_in ?E = Some e \<longrightarrow> e \<in> ?E"
    using least_in_mem [OF fin, of "\<lambda>_. True"] by simp
  have "?E = (\<lambda>k. ((rt_extract T ! j) (the (F k)), k)) ` dom F" by (force simp: index_entries_def)
  then have "card ?E \<le> card (dom F)" using finite_rows(1) [OF assms(1,3)] by (simp add: card_image_le)
  then have "card (walk_set ?E (least_in ?E) None) < n" using assms(5) by (simp add: walk_all [OF fin])
  from scan_rows [OF fin nxt b(2,3) least this]
  obtain m' h' where r: "scan n (sx_next T H j) it m1 h1
      = Some (Inr (map (\<lambda>e. the (F (snd e))) (sorted_list_of_set (walk_set ?E (least_in ?E) None)), m', h'))"
    "mx_inv T V m' h' F" "same_db V h1 h'" by blast
  then show ?thesis using b(1) same_db_trans [OF b(5) r(3)] by (simp add: walk_all [OF fin])
qed

theorem index_scan_sorted_witness:
  "\<exists>m h it m1 h1 m' h'. mx_inv pair_rows mem_db_view m h [5 \<mapsto> (5, 7)]
    \<and> sx_begin pair_rows (mem_db 9) 0 m h = Inr (it, m1, h1)
    \<and> scan 2 (sx_next pair_rows (mem_db 9) 0) it m1 h1 = Some (Inr ([(5, 7)], m', h'))"
proof -
  obtain i m h where s: "mx_inv pair_rows mem_db_view m h [5 \<mapsto> (5, 7)]" by (rule pair_one_row)
  have c: "0 < length (rt_extract pair_rows)" "card (dom [5 :: u64 \<mapsto> (5 :: u8, 7 :: u8)]) < 2" by simp_all
  have E: "index_entries pair_rows 0 [5 \<mapsto> (5, 7)] = {(7, 5)}" by (auto simp: index_entries_def)
  from index_scan_sorted [OF mem_db_ok [of 9] pair_rows_ok s c, unfolded E]
  obtain it m1 h1 m' h' where "sx_begin pair_rows (mem_db 9) 0 m h = Inr (it, m1, h1)"
    "scan 2 (sx_next pair_rows (mem_db 9) 0) it m1 h1 = Some (Inr ([(5, 7)], m', h'))" by auto
  with s show ?thesis by blast
qed

text \<open>
  \<open>find\<close> on a secondary index yields, among the rows with the given secondary key, the one with
  the least primary key, or the end when no row has the key.
\<close>
theorem index_find_least:
  assumes "db_ok H V" and "row_type_ok T" and "mx_inv T V m h F" and "j < length (rt_extract T)"
  shows "\<exists>it m' h'. sx_find T H j x m h = Inr (it, m', h') \<and> mx_inv T V m' h' F \<and> same_db V h h'
    \<and> it_at m' F it (least_in {k. \<exists>v. F k = Some v \<and> (rt_extract T ! j) v = x})"
proof -
  let ?E = "index_entries T j F"
  let ?l = "least_in {e \<in> ?E. x \<le> fst e}"
  note fin = finite_rows(2) [OF assms(1,3), of j]
  have keys: "{k. \<exists>v. F k = Some v \<and> (rt_extract T ! j) v = x} = {k. (x, k) \<in> ?E}"
    by (auto simp: index_entries_def)
  obtain lb m1 h1 where b: "sx_lower_bound T H j x m h = Inr (lb, m1, h1)" "mx_inv T V m1 h1 F"
    "it_at m1 F lb (map_option snd ?l)" "mx_ext m m1" "same_db V h h1"
    by (rule lookup_okE [OF sx_bounds_ok(1) [OF assms]])
  show ?thesis
  proof (cases ?l)
    case None
    then have "{e \<in> ?E. x \<le> fst e} = {}" by (simp add: least_in_def split: if_splits)
    then have "{k. (x, k) \<in> ?E} = {}" by fastforce
    then have least: "least_in {k. (x, k) \<in> ?E} = None" by (simp add: least_in_def)
    have "lb = None" using b(3) None by simp
    then show ?thesis using b(1,2,5) unfolding keys least by (simp add: sx_find_def sx_end_def)
  next
    case (Some e)
    obtain s k where e: "e = (s, k)" by fastforce
    then obtain i where i: "lb = Some i" using b(3) Some by (cases lb) simp_all
    have at: "it_at m1 F (Some i) (Some k)" using b(3) Some e i by simp
    obtain y where y: "deref m1 i = Inr y" "F k = Some (item_obj y)" by (rule it_at_deref [OF b(2) at])
    have "(s, k) \<in> ?E" using least_in_mem [OF fin Some] e by simp
    then have s: "(rt_extract T ! j) (item_obj y) = s" using y(2) by (simp add: index_entries_def)
    have f: "sx_find T H j x m h = Inr (if x \<noteq> s then sx_end else lb, m1, h1)"
      using b(1) i y(1) s by (simp add: sx_find_def)
    show ?thesis
    proof (cases "s = x")
      case True
      then show ?thesis
        using f b(2,5) at i least_fst(2) [OF fin, of x s k] Some e unfolding keys by simp
    next
      case False
      then have "{k. (x, k) \<in> ?E} = {}" using least_fst(1) [OF fin, of x s k] Some e by auto
      then have "least_in {k. (x, k) \<in> ?E} = None" by (simp add: least_in_def)
      then show ?thesis using f b(2,5) False unfolding keys by (auto simp: sx_end_def)
    qed
  qed
qed

theorem index_find_least_witness:
  "\<exists>m h it m' h'. mx_inv pair_rows mem_db_view m h [5 \<mapsto> (5, 7)]
    \<and> sx_find pair_rows (mem_db 9) 0 7 m h = Inr (it, m', h') \<and> it_at m' [5 \<mapsto> (5, 7)] it (Some 5)"
proof -
  obtain i m h where s: "mx_inv pair_rows mem_db_view m h [5 \<mapsto> (5, 7)]" by (rule pair_one_row)
  have "{k. \<exists>v. [5 \<mapsto> (5, 7)] k = Some v \<and> (rt_extract pair_rows ! 0) v = 7} = {5 :: u64}" by auto
  then have L: "least_in {k. \<exists>v. [5 \<mapsto> (5, 7)] k = Some v \<and> (rt_extract pair_rows ! 0) v = 7} = Some (5 :: u64)"
    by (simp add: least_in_def)
  have n: "0 < length (rt_extract pair_rows)" by simp
  obtain it m' h' where "sx_find pair_rows (mem_db 9) 0 7 m h = Inr (it, m', h')" "it_at m' [5 \<mapsto> (5, 7)] it (Some 5)"
    using index_find_least [OF mem_db_ok [of 9] pair_rows_ok s n, of 7] unfolding L by blast
  with s show ?thesis by blast
qed

section \<open>Primary keys\<close>

text \<open>
  C18. After any calls on a new table object, a key that \<open>available_primary_key\<close> returns lies above every
  key of the table and below the reserved values, so it is free; rows and cached objects stay. The operation aborts
  only when at some moment since the object was made, which is this one if the object has not
  computed or raised the next key before, the table had a key of at least \<open>2 ^ 64 - 3\<close>.
\<close>
theorem table_available_key:
  assumes "db_ok H V" and "row_type_ok T" and "rows_rep T V (new_multi_index self code scope) h0 F0"
    and "(mx_step T H V)\<^sup>*\<^sup>* (new_multi_index self code scope, h0) (m, h)" and "mx_inv T V m h F"
  shows "case available_primary_key T H m h of
      Inr (k, m', h') \<Rightarrow> k < no_available_primary_key \<and> (\<forall>j \<in> dom F. j < k) \<and> mx_inv T V m' h' F \<and> same_db V h h'
        \<and> (\<forall>i v. ref_at m i v \<longrightarrow> ref_at m' i v)
    | Inl e \<Rightarrow> e = Check ''next primary key in table is at autoincrement limit''
        \<and> (\<exists>m1 h1 F1. (mx_step T H V)\<^sup>*\<^sup>* (new_multi_index self code scope, h0) (m1, h1)
            \<and> (mx_step T H V)\<^sup>*\<^sup>* (m1, h1) (m, h) \<and> mx_inv T V m1 h1 F1 \<and> (\<exists>j \<in> dom F1. - 3 \<le> j))
        \<and> (mx_next_pk m = unset_next_primary_key \<longrightarrow> (\<exists>j \<in> dom F. - 3 \<le> j))"
proof (cases "available_primary_key T H m h")
  case (Inl e)
  have new: "mx_next_pk (new_multi_index self code scope) = unset_next_primary_key" by (simp add: new_multi_index_def)
  have a: "e = Check ''next primary key in table is at autoincrement limit''"
    "if mx_next_pk m = unset_next_primary_key then \<exists>j \<in> dom F. - 3 \<le> j else mx_next_pk m = no_available_primary_key"
    using available_primary_key_ok [OF assms(1,2,5)] Inl by simp_all
  have "\<exists>m1 h1 F1. (mx_step T H V)\<^sup>*\<^sup>* (new_multi_index self code scope, h0) (m1, h1)
            \<and> (mx_step T H V)\<^sup>*\<^sup>* (m1, h1) (m, h) \<and> mx_inv T V m1 h1 F1 \<and> (\<exists>j \<in> dom F1. - 3 \<le> j)"
  proof (cases "mx_next_pk m = unset_next_primary_key")
    case True
    then have "\<exists>j \<in> dom F. - 3 \<le> j" using a(2) by simp
    with assms(4,5) show ?thesis by (blast intro: rtranclp.rtrancl_refl)
  next
    case False
    then show ?thesis
      using limit_reached [OF assms(1,2,4), of F0] new_multi_index_inv [OF assms(3)] a(2) new by force
  qed
  then show ?thesis using Inl a by simp
next
  case (Inr r)
  then show ?thesis using available_primary_key_ok [OF assms(1,2,5)] by (auto split: prod.splits)
qed

theorem table_available_key_witness:
  "\<exists>m h. mx_inv pair_rows mem_db_view m h [5 \<mapsto> (5, 7)]
    \<and> (case available_primary_key pair_rows (mem_db 9) m h of Inr (k, m', h') \<Rightarrow> 5 < k | Inl e \<Rightarrow> False)"
proof -
  obtain i m h where e: "mx_inv pair_rows mem_db_view m h [5 \<mapsto> (5, 7)]"
    "mx_emplace pair_rows (mem_db 9) 1 (\<lambda>_. (5, 7)) pair_table no_tables = Inr (Some i, m, h)"
    by (rule pair_one_row)
  have "dv_rows mem_db_view no_tables (row_table pair_rows pair_table) (rt_pk pair_rows ((\<lambda>_. (5, 7)) (rt_default pair_rows))) = None"
    by simp
  then have s: "(mx_step pair_rows (mem_db 9) mem_db_view)\<^sup>*\<^sup>* (pair_table, no_tables) (m, h)"
    by (intro r_into_rtranclp mx_step.emplace [OF e(2)])
  have r: "rows_rep pair_rows mem_db_view pair_table no_tables Map.empty"
    using pair_table_inv by (simp only: mx_inv_def)
  have small: "j \<le> 255" if inv: "mx_inv pair_rows mem_db_view m1 h1 F1" and j: "j \<in> dom F1" for m1 h1 F1 j
  proof -
    obtain a b where "F1 j = Some (a, b)" using j by (cases "F1 j") auto
    moreover have "rows_rep pair_rows mem_db_view m1 h1 F1" using inv by (simp add: mx_inv_def)
    ultimately have "rt_pk pair_rows (a, b) = j" by (simp add: rows_rep_def)
    then have "j = ucast a" by simp
    moreover have "unat a < 256" using unsigned_less [of a, where 'a = nat] by simp
    ultimately show ?thesis by (simp add: word_le_nat_alt unsigned_ucast_eq take_bit_eq_mod)
  qed
  have none: "\<not> (\<exists>j \<in> dom F1. - 3 \<le> j)" if "mx_inv pair_rows mem_db_view m1 h1 F1" for m1 h1 F1
  proof
    assume "\<exists>j \<in> dom F1. - 3 \<le> j"
    then obtain j where "j \<in> dom F1" "- 3 \<le> j" ..
    moreover have "j \<le> 255" by (rule small) fact+
    ultimately have "(- 3 :: u64) \<le> 255" by (blast intro: order_trans)
    then show False by simp
  qed
  show ?thesis
  proof (cases "available_primary_key pair_rows (mem_db 9) m h")
    case (Inl e')
    then show ?thesis using table_available_key [OF mem_db_ok pair_rows_ok r s e(1)] none by simp blast
  next
    case (Inr x)
    then show ?thesis
      using table_available_key [OF mem_db_ok pair_rows_ok r s e(1)] e(1)
      by (intro exI [of _ m] exI [of _ h]) (auto split: prod.splits)
  qed
qed

end
