(* ===== verification/Singleton.thy ===== *)
theory Singleton
  imports MultiIndexProps
begin

text \<open>
  \<open>contracts/eosio/singleton.hpp\<close>: one value kept in a table with a single row. What the class calls of
  its table is a record of operations; the locale \<open>slot\<close> states what it relies on, and its lemmas say
  that the class is an optional value. The tables of \<open>multi_index.hpp\<close> interpret it.
\<close>

section \<open>The operations\<close>

record ('i, 'v, 'st) slot_ops =
  slot_find :: "'st \<Rightarrow> ('i option \<times> 'st) result"
  slot_value :: "'i \<Rightarrow> 'st \<Rightarrow> 'v result"
  slot_emplace :: "u64 \<Rightarrow> 'v \<Rightarrow> 'st \<Rightarrow> ('i option \<times> 'st) result"
  slot_modify :: "'i option \<Rightarrow> u64 \<Rightarrow> 'v \<Rightarrow> 'st \<Rightarrow> 'st result"
  slot_erase :: "'i option \<Rightarrow> 'st \<Rightarrow> 'st result"

definition singleton_exists :: "('i, 'v, 'st) slot_ops \<Rightarrow> 'st \<Rightarrow> (bool \<times> 'st) result" where
  "singleton_exists O' s = res_bind (slot_find O' s) (\<lambda>(it, s1). Inr (it \<noteq> None, s1))"

definition singleton_get :: "('i, 'v, 'st) slot_ops \<Rightarrow> 'st \<Rightarrow> ('v \<times> 'st) result" where
  "singleton_get O' s = res_bind (slot_find O' s) (\<lambda>(it, s1). case it of
     None \<Rightarrow> Inl (Check ''singleton does not exist'')
   | Some i \<Rightarrow> res_bind (slot_value O' i s1) (\<lambda>v. Inr (v, s1)))"

definition singleton_get_or_default :: "('i, 'v, 'st) slot_ops \<Rightarrow> 'v \<Rightarrow> 'st \<Rightarrow> ('v \<times> 'st) result" where
  "singleton_get_or_default O' def s = res_bind (slot_find O' s) (\<lambda>(it, s1). case it of
     None \<Rightarrow> Inr (def, s1) | Some i \<Rightarrow> res_bind (slot_value O' i s1) (\<lambda>v. Inr (v, s1)))"

definition singleton_get_or_create :: "('i, 'v, 'st) slot_ops \<Rightarrow> u64 \<Rightarrow> 'v \<Rightarrow> 'st \<Rightarrow> ('v \<times> 'st) result" where
  "singleton_get_or_create O' payer def s = res_bind (slot_find O' s) (\<lambda>(it, s1). case it of
     Some i \<Rightarrow> res_bind (slot_value O' i s1) (\<lambda>v. Inr (v, s1))
   | None \<Rightarrow> res_bind (slot_emplace O' payer def s1) (\<lambda>(it', s2). case it' of
       None \<Rightarrow> Inl (Trap ''end iterator dereferenced'')
     | Some i \<Rightarrow> res_bind (slot_value O' i s2) (\<lambda>v. Inr (v, s2))))"

definition singleton_set :: "('i, 'v, 'st) slot_ops \<Rightarrow> 'v \<Rightarrow> u64 \<Rightarrow> 'st \<Rightarrow> 'st result" where
  "singleton_set O' v payer s = res_bind (slot_find O' s) (\<lambda>(it, s1).
     if it \<noteq> None then slot_modify O' it payer v s1
     else res_bind (slot_emplace O' payer v s1) (\<lambda>(_, s2). Inr s2))"

definition singleton_remove :: "('i, 'v, 'st) slot_ops \<Rightarrow> 'st \<Rightarrow> 'st result" where
  "singleton_remove O' s = res_bind (slot_find O' s) (\<lambda>(it, s1).
     if it \<noteq> None then slot_erase O' it s1 else Inr s1)"

section \<open>What the class relies on\<close>

locale slot =
  fixes O' :: "('i, 'v, 'st) slot_ops"
    and holds :: "'st \<Rightarrow> 'v option \<Rightarrow> bool"
    and at :: "'st \<Rightarrow> 'i \<Rightarrow> 'v \<Rightarrow> bool"
  assumes find_law: "holds s y \<Longrightarrow> \<exists>it s'. slot_find O' s = Inr (it, s') \<and> holds s' y
      \<and> (case y of None \<Rightarrow> it = None | Some v \<Rightarrow> (\<exists>i. it = Some i \<and> at s' i v))"
    and value_law: "holds s y \<Longrightarrow> at s i v \<Longrightarrow> slot_value O' i s = Inr v"
    and emplace_law: "holds s None \<Longrightarrow> \<exists>i s'. slot_emplace O' payer v s = Inr (Some i, s') \<and> holds s' (Some v) \<and> at s' i v"
    and modify_law: "holds s (Some v) \<Longrightarrow> at s i v \<Longrightarrow> \<exists>s'. slot_modify O' (Some i) payer w s = Inr s' \<and> holds s' (Some w)"
    and erase_law: "holds s (Some v) \<Longrightarrow> at s i v \<Longrightarrow> \<exists>s'. slot_erase O' (Some i) s = Inr s' \<and> holds s' None"
begin

lemma exists_ok: "holds s y \<Longrightarrow> \<exists>s'. singleton_exists O' s = Inr (y \<noteq> None, s') \<and> holds s' y"
  using find_law [of s y] by (auto simp: singleton_exists_def split: option.splits)

lemma get_ok: "holds s (Some v) \<Longrightarrow> \<exists>s'. singleton_get O' s = Inr (v, s') \<and> holds s' (Some v)"
  using find_law [of s "Some v"] by (auto simp: singleton_get_def value_law)

lemma get_missing: "holds s None \<Longrightarrow> singleton_get O' s = Inl (Check ''singleton does not exist'')"
  using find_law [of s None] by (auto simp: singleton_get_def)

lemma get_or_default_ok:
  "holds s y \<Longrightarrow> \<exists>s'. singleton_get_or_default O' def s = Inr (case y of None \<Rightarrow> def | Some v \<Rightarrow> v, s') \<and> holds s' y"
  using find_law [of s y] by (cases y) (auto simp: singleton_get_or_default_def value_law)

lemma get_or_create_ok:
  "holds s y \<Longrightarrow> \<exists>s'. singleton_get_or_create O' payer def s = Inr (case y of None \<Rightarrow> def | Some v \<Rightarrow> v, s')
     \<and> holds s' (Some (case y of None \<Rightarrow> def | Some v \<Rightarrow> v))"
proof (cases y)
  case None
  assume "holds s y"
  then obtain s1 where s1: "slot_find O' s = Inr (None, s1)" "holds s1 None" using find_law [of s None] None by auto
  from emplace_law [OF s1(2)] obtain i s2 where
    "slot_emplace O' payer def s1 = Inr (Some i, s2)" "holds s2 (Some def)" "at s2 i def" by blast
  then show ?thesis using s1 None by (simp add: singleton_get_or_create_def value_law)
next
  case (Some v)
  assume "holds s y"
  then show ?thesis using find_law [of s "Some v"] Some by (auto simp: singleton_get_or_create_def value_law)
qed

lemma set_ok:
  assumes "holds s y"
  shows "\<exists>s'. singleton_set O' w payer s = Inr s' \<and> holds s' (Some w)"
proof (cases y)
  case None
  then obtain s1 where s1: "slot_find O' s = Inr (None, s1)" "holds s1 None" using find_law [OF assms] by auto
  from emplace_law [OF s1(2), of payer w] s1(1) show ?thesis by (auto simp: singleton_set_def)
next
  case (Some v)
  then obtain i s1 where s1: "slot_find O' s = Inr (Some i, s1)" "holds s1 (Some v)" "at s1 i v"
    using find_law [OF assms] by auto
  from modify_law [OF s1(2,3), of payer w] s1(1) show ?thesis by (simp add: singleton_set_def)
qed

lemma remove_ok:
  assumes "holds s y"
  shows "\<exists>s'. singleton_remove O' s = Inr s' \<and> holds s' None"
proof (cases y)
  case None
  then show ?thesis using find_law [OF assms] by (auto simp: singleton_remove_def)
next
  case (Some v)
  then obtain i s1 where s1: "slot_find O' s = Inr (Some i, s1)" "holds s1 (Some v)" "at s1 i v"
    using find_law [OF assms] by auto
  from erase_law [OF s1(2,3)] s1(1) show ?thesis by (simp add: singleton_remove_def)
qed

end

section \<open>Tables with one row\<close>

text \<open>The struct \<open>row\<close>: its primary key is the singleton's name, its table has that name too.\<close>

definition pk_value :: "('v, 's) row_type \<Rightarrow> u64" where
  "pk_value T = rt_table T"

definition singleton_row_type :: "u64 \<Rightarrow> ('v \<Rightarrow> bytes) \<Rightarrow> (bytes \<Rightarrow> 'v result) \<Rightarrow> 'v \<Rightarrow> 's \<Rightarrow> ('v, 's) row_type" where
  "singleton_row_type name pack unpack def low = \<lparr>rt_table = name, rt_pk = (\<lambda>_. name), rt_pack = pack,
     rt_unpack = unpack, rt_default = def, rt_extract = [], rt_lowest = low\<rparr>"

definition table_slot :: "('v, 's) row_type \<Rightarrow> ('h, 's) db_host \<Rightarrow> (nat, 'v, 'v multi_index \<times> 'h) slot_ops" where
  "table_slot T H = \<lparr>
     slot_find = (\<lambda>(m, h). mx_find T H (pk_value T) m h),
     slot_value = (\<lambda>i (m, h). res_bind (deref m i) (\<lambda>x. Inr (item_obj x))),
     slot_emplace = (\<lambda>payer v (m, h). mx_emplace T H payer (\<lambda>_. v) m h),
     slot_modify = (\<lambda>it payer v (m, h). mx_modify_at T H it payer (\<lambda>_. v) m h),
     slot_erase = (\<lambda>it (m, h). res_bind (mx_erase_at T H it m h) (\<lambda>(_, s). Inr s))\<rparr>"

definition slot_rows :: "('v, 's) row_type \<Rightarrow> 'v option \<Rightarrow> u64 \<Rightarrow> 'v option" where
  "slot_rows T y = Map.empty(pk_value T := y)"

definition slot_holds :: "('v, 's :: linorder) row_type \<Rightarrow> ('h, 's) db_host \<Rightarrow> ('h, 's) db_view
    \<Rightarrow> 'v multi_index \<times> 'h \<Rightarrow> 'v option \<Rightarrow> bool" where
  "slot_holds T H V s y \<longleftrightarrow> db_ok H V \<and> row_type_ok T \<and> rt_pk T = (\<lambda>_. pk_value T)
     \<and> mx_code (fst s) = current_receiver H \<and> mx_inv T V (fst s) (snd s) (slot_rows T y)"

lemma lookup_code: "lookup_ok T V m h F pos r \<Longrightarrow> r = Inr (it, m', h') \<Longrightarrow> mx_code m' = mx_code m"
  by (auto simp: lookup_ok_def mx_ext_def)

lemma deref_ref_at: "mx_inv T V m h F \<Longrightarrow> ref_at m i v \<Longrightarrow> \<exists>x. deref m i = Inr x \<and> item_obj x = v \<and> item_idx x = mx_self m"
  by (elim ref_atE) auto

lemma mx_erase_at_ok:
  assumes db: "db_ok H V" and T: "row_type_ok T" and inv: "mx_inv T V m h F" and recv: "mx_code m = current_receiver H"
    and ref: "ref_at m i v"
  shows "\<exists>it m' h'. mx_erase_at T H (Some i) m h = Inr (it, m', h') \<and> mx_inv T V m' h' (F(rt_pk T v := None))
    \<and> mx_code m' = mx_code m \<and> it_at m' (F(rt_pk T v := None)) it (least_in {k \<in> dom F. rt_pk T v < k})"
proof -
  obtain x where x: "deref m i = Inr x" "item_obj x = v" "item_idx x = mx_self m"
    using deref_ref_at [OF inv ref] by blast
  have at: "it_at m F (Some i) (Some (rt_pk T v))" using deref_at(2) [OF inv x(1)] x(2) by simp
  obtain it m1 h1 where n: "mx_next T H (Some i) m h = Inr (it, m1, h1)" "mx_inv T V m1 h1 F"
    "it_at m1 F it (least_in {k \<in> dom F. rt_pk T v < k})" "mx_ext m m1" "same_db V h h1"
    by (rule lookup_okE [OF mx_next_ok [OF db T inv at]])
  have ref1: "ref_at m1 i v" and self: "mx_self m1 = mx_self m" "mx_code m1 = current_receiver H"
    using n(4) ref recv by (auto simp: mx_ext_def)
  obtain m2 h2 where e: "mx_erase T H (mx_self m1, i) m1 h1 = Inr (m2, h2)" "mx_inv T V m2 h2 (F(rt_pk T v := None))"
    "\<forall>j w. rt_pk T w \<noteq> rt_pk T v \<longrightarrow> ref_at m1 j w \<longrightarrow> ref_at m2 j w" "mx_code m2 = mx_code m1"
    by (rule mx_erase_ok [OF db T n(2) self(2) ref1]) blast
  have "it_at m2 (F(rt_pk T v := None)) it (least_in {k \<in> dom F. rt_pk T v < k})"
  proof (cases it)
    case (Some j)
    then obtain k w where k: "least_in {k \<in> dom F. rt_pk T v < k} = Some k" "F k = Some w" "ref_at m1 j w"
      using n(3) by (auto simp: it_at_def)
    have "finite {k \<in> dom F. rt_pk T v < k}" using finite_rows(1) [OF db n(2)] by simp
    then have "rt_pk T v < k" using least_in_Some(1) k(1) by blast
    moreover have "rt_pk T w = k" using n(2) k(2) by (simp add: mx_inv_def rows_rep_def)
    ultimately show ?thesis using k e(3) Some by (auto simp: it_at_def)
  qed (use n(3) in simp)
  then show ?thesis
    using x n(1) e(1,2,4) self recv by (simp add: mx_erase_at_def)
qed

interpretation ts: slot "table_slot T H" "slot_holds T H V" "\<lambda>s. ref_at (fst s)"
  for T :: "('v, 's :: linorder) row_type" and H :: "('h, 's) db_host" and V :: "('h, 's) db_view"
proof
  fix s y
  assume y: "slot_holds T H V s y"
  obtain m h where s: "s = (m, h)" by fastforce
  have inv: "db_ok H V" "row_type_ok T" "mx_inv T V m h (slot_rows T y)" using y by (simp_all add: slot_holds_def s)
  obtain it m' h' where f: "mx_find T H (pk_value T) m h = Inr (it, m', h')" "mx_inv T V m' h' (slot_rows T y)"
    "it_at m' (slot_rows T y) it (if pk_value T \<in> dom (slot_rows T y) then Some (pk_value T) else None)" "mx_ext m m'"
    "same_db V h h'"
    by (rule lookup_okE [OF mx_find_ok [OF inv]])
  then show "\<exists>it s'. slot_find (table_slot T H) s = Inr (it, s') \<and> slot_holds T H V s' y
      \<and> (case y of None \<Rightarrow> it = None | Some v \<Rightarrow> (\<exists>i. it = Some i \<and> ref_at (fst s') i v))"
    using y by (cases y) (auto simp: s table_slot_def slot_holds_def slot_rows_def mx_ext_def it_at_def split: option.splits)
next
  fix s y i v
  assume "slot_holds T H V s y" "ref_at (fst s) i v"
  then show "slot_value (table_slot T H) i s = Inr v"
    using deref_ref_at [of T V "fst s" "snd s" "slot_rows T y" i v]
    by (auto simp: table_slot_def slot_holds_def split: prod.splits)
next
  fix s payer v
  assume y: "slot_holds T H V s None"
  obtain m h where s: "s = (m, h)" by fastforce
  have inv: "db_ok H V" "row_type_ok T" "mx_inv T V m h (slot_rows T None)" "mx_code m = current_receiver H"
    using y by (simp_all add: slot_holds_def s)
  have new: "rt_pk T v \<notin> dom (slot_rows T None)" by (simp add: slot_rows_def)
  obtain i m' h' where e: "mx_emplace T H payer (\<lambda>_. v) m h = Inr (Some i, m', h')"
    "mx_inv T V m' h' ((slot_rows T None)(rt_pk T v \<mapsto> v))" "ref_at m' i v" "mx_code m' = mx_code m"
    by (rule mx_emplace_ok [OF inv(1-4), of v "\<lambda>_. v"]) (rule refl, rule new)
  then show "\<exists>i s'. slot_emplace (table_slot T H) payer v s = Inr (Some i, s') \<and> slot_holds T H V s' (Some v)
      \<and> ref_at (fst s') i v"
    using y by (simp add: s table_slot_def slot_holds_def slot_rows_def)
next
  fix s v i payer w
  assume y: "slot_holds T H V s (Some v)" and ref: "ref_at (fst s) i v"
  obtain m h where s: "s = (m, h)" by fastforce
  have inv: "db_ok H V" "row_type_ok T" "mx_inv T V m h (slot_rows T (Some v))" "mx_code m = current_receiver H"
    using y by (simp_all add: slot_holds_def s)
  have r: "ref_at m i v" using ref s by simp
  obtain x where x: "deref m i = Inr x" "item_obj x = v" "item_idx x = mx_self m" using deref_ref_at [OF inv(3) r] by blast
  have "rt_pk T ((\<lambda>_. w) v) = rt_pk T v" using y by (simp add: slot_holds_def)
  then obtain m' h' where e: "mx_modify T H (mx_self m, i) payer (\<lambda>_. w) m h = Inr (m', h')"
    "mx_inv T V m' h' ((slot_rows T (Some v))(rt_pk T v \<mapsto> w))" "mx_code m' = mx_code m"
    by (rule mx_modify_ok [OF inv r, of "\<lambda>_. w"])
  then show "\<exists>s'. slot_modify (table_slot T H) (Some i) payer w s = Inr s' \<and> slot_holds T H V s' (Some w)"
    using y x by (simp add: s table_slot_def slot_holds_def slot_rows_def mx_modify_at_def)
next
  fix s v i
  assume y: "slot_holds T H V s (Some v)" and ref: "ref_at (fst s) i v"
  obtain m h where s: "s = (m, h)" by fastforce
  have inv: "db_ok H V" "row_type_ok T" "mx_inv T V m h (slot_rows T (Some v))" "mx_code m = current_receiver H"
    using y by (simp_all add: slot_holds_def s)
  have r: "ref_at m i v" using ref s by simp
  from mx_erase_at_ok [OF inv r] y
  show "\<exists>s'. slot_erase (table_slot T H) (Some i) s = Inr s' \<and> slot_holds T H V s' None"
    by (auto simp: s table_slot_def slot_holds_def slot_rows_def)
qed

section \<open>The property\<close>

text \<open>
  C19. A singleton is an optional value: \<open>exists\<close> tells whether it is there, \<open>get\<close> returns it or aborts,
  \<open>get_or_default\<close> and \<open>get_or_create\<close> fall back to the given value, which the latter stores, \<open>set\<close>
  stores a value whether one was there or not, and \<open>remove\<close> leaves none.
\<close>
theorem singleton_is_optional:
  assumes "slot_holds T H V s y"
  shows "(\<exists>s'. singleton_exists (table_slot T H) s = Inr (y \<noteq> None, s') \<and> slot_holds T H V s' y)
    \<and> (case y of None \<Rightarrow> singleton_get (table_slot T H) s = Inl (Check ''singleton does not exist'')
        | Some v \<Rightarrow> \<exists>s'. singleton_get (table_slot T H) s = Inr (v, s') \<and> slot_holds T H V s' (Some v))
    \<and> (\<exists>s'. singleton_get_or_default (table_slot T H) def s = Inr (case y of None \<Rightarrow> def | Some v \<Rightarrow> v, s')
        \<and> slot_holds T H V s' y)
    \<and> (\<exists>s'. singleton_get_or_create (table_slot T H) payer def s = Inr (case y of None \<Rightarrow> def | Some v \<Rightarrow> v, s')
        \<and> slot_holds T H V s' (Some (case y of None \<Rightarrow> def | Some v \<Rightarrow> v)))
    \<and> (\<exists>s'. singleton_set (table_slot T H) w payer s = Inr s' \<and> slot_holds T H V s' (Some w))
    \<and> (\<exists>s'. singleton_remove (table_slot T H) s = Inr s' \<and> slot_holds T H V s' None)"
proof (intro conjI)
  show "case y of None \<Rightarrow> singleton_get (table_slot T H) s = Inl (Check ''singleton does not exist'')
        | Some v \<Rightarrow> \<exists>s'. singleton_get (table_slot T H) s = Inr (v, s') \<and> slot_holds T H V s' (Some v)"
    using assms ts.get_missing [of T H V s] ts.get_ok [of T H V s] by (cases y) (simp_all del: split_paired_Ex)
qed (rule ts.exists_ok [OF assms] ts.get_or_default_ok [OF assms] ts.get_or_create_ok [OF assms]
  ts.set_ok [OF assms] ts.remove_ok [OF assms])+

definition byte_singleton :: "(u8, u8) row_type" where
  "byte_singleton = singleton_row_type 256 (\<lambda>b. [b]) (\<lambda>bs. case bs of [b] \<Rightarrow> Inr b | _ \<Rightarrow> Inl (Check ''read'')) 0 0"

lemma mem_db_receiver: "current_receiver (mem_db r) = r" by (simp add: mem_db_def)

theorem singleton_is_optional_witness:
  "\<exists>s. singleton_set (table_slot byte_singleton (mem_db 9)) 4 1 (new_multi_index 0 9 1, no_tables) = Inr s
    \<and> slot_holds byte_singleton (mem_db 9) mem_db_view s (Some 4)"
proof -
  have "mx_inv byte_singleton mem_db_view (new_multi_index 0 9 1) no_tables Map.empty"
    by (rule new_multi_index_inv) (simp add: rows_rep_def byte_singleton_def singleton_row_type_def)
  then have "slot_holds byte_singleton (mem_db 9) mem_db_view (new_multi_index 0 9 1, no_tables) None"
    by (simp add: slot_holds_def mem_db_ok byte_singleton_def singleton_row_type_def row_type_ok_def pk_value_def
        new_multi_index_def slot_rows_def mem_db_receiver)
  from singleton_is_optional [OF this, of 0 1 4] show ?thesis by blast
qed

end
