(* ===== verification/Datastream.thy ===== *)
theory Datastream
  imports ByteBlocks
begin

text \<open>
  The streams of \<open>core/eosio/datastream.hpp\<close>: \<open>datastream<char*>\<close> and \<open>datastream<const char*>\<close>, a
  window of the linear memory with a position, and \<open>datastream<size_t>\<close>, which only counts. Pointers
  and \<open>size_t\<close> have 32 bits, \<open>_end - _pos\<close> is a signed 32-bit difference where the code compares it as
  such. The source of a write is given by its bytes; what a read copies out is its result. The text
  of \<open>stream_error::overrun\<close> comes from a library outside the repository and is a parameter.
\<close>

section \<open>datastream<char*>\<close>

record dstream =
  ds_start :: u32
  ds_pos :: u32
  ds_end :: u32

definition new_datastream :: "u32 \<Rightarrow> u32 \<Rightarrow> dstream" where
  "new_datastream start s = \<lparr>ds_start = start, ds_pos = start, ds_end = start + s\<rparr>"

definition ds_check_available :: "string \<Rightarrow> u32 \<Rightarrow> dstream \<Rightarrow> unit result" where
  "ds_check_available overrun n ds = check (n \<le> ds_end ds - ds_pos ds) overrun"

definition ds_skip :: "string \<Rightarrow> u32 \<Rightarrow> dstream \<Rightarrow> dstream result" where
  "ds_skip overrun s ds = (let ds' = ds\<lparr>ds_pos := ds_pos ds + s\<rparr> in
     res_bind (check (ds_pos ds' \<le> ds_end ds') overrun) (\<lambda>_. Inr ds'))"

definition ds_read :: "u32 \<Rightarrow> dstream \<Rightarrow> memory \<Rightarrow> (bytes \<times> dstream) result" where
  "ds_read s ds m = res_bind (check (s \<le> ds_end ds - ds_pos ds) ''read'')
     (\<lambda>_. Inr (bytes_at m (ds_pos ds) (unat s), ds\<lparr>ds_pos := ds_pos ds + s\<rparr>))"

definition ds_read_reuse_storage :: "string \<Rightarrow> u32 \<Rightarrow> dstream \<Rightarrow> (u32 \<times> dstream) result" where
  "ds_read_reuse_storage overrun s ds = res_bind (check (s \<le> ds_end ds - ds_pos ds) overrun)
     (\<lambda>_. Inr (ds_pos ds, ds\<lparr>ds_pos := ds_pos ds + s\<rparr>))"

definition ds_write :: "bytes \<Rightarrow> dstream \<times> memory \<Rightarrow> (dstream \<times> memory) result" where
  "ds_write d st = (case st of (ds, m) \<Rightarrow>
     (let s = of_nat (length d) :: u32 in
      res_bind (check (sint s \<le> sint (ds_end ds - ds_pos ds)) ''write'')
        (\<lambda>_. Inr (ds\<lparr>ds_pos := ds_pos ds + s\<rparr>, store_bytes (ds_pos ds) d m))))"

definition ds_put :: "u8 \<Rightarrow> dstream \<times> memory \<Rightarrow> (dstream \<times> memory) result" where
  "ds_put c st = (case st of (ds, m) \<Rightarrow> res_bind (check (ds_pos ds < ds_end ds) ''put'')
     (\<lambda>_. Inr (ds\<lparr>ds_pos := ds_pos ds + 1\<rparr>, m(ds_pos ds := c))))"

definition ds_get :: "dstream \<Rightarrow> memory \<Rightarrow> (u8 \<times> dstream) result" where
  "ds_get ds m = res_bind (check (ds_pos ds < ds_end ds) ''get'')
     (\<lambda>_. Inr (m (ds_pos ds), ds\<lparr>ds_pos := ds_pos ds + 1\<rparr>))"

definition ds_valid :: "dstream \<Rightarrow> bool" where
  "ds_valid ds \<longleftrightarrow> ds_pos ds \<le> ds_end ds \<and> ds_start ds \<le> ds_pos ds"

definition ds_seekp :: "u32 \<Rightarrow> dstream \<Rightarrow> bool \<times> dstream" where
  "ds_seekp p ds = (let ds' = ds\<lparr>ds_pos := ds_start ds + p\<rparr> in (ds_pos ds' \<le> ds_end ds', ds'))"

definition ds_tellp :: "dstream \<Rightarrow> u32" where
  "ds_tellp ds = ds_pos ds - ds_start ds"

definition ds_remaining :: "dstream \<Rightarrow> u32" where
  "ds_remaining ds = ds_end ds - ds_pos ds"

section \<open>datastream<size_t>\<close>

definition sz_skip :: "u32 \<Rightarrow> u32 \<Rightarrow> u32" where
  "sz_skip s acc = acc + s"

definition sz_write :: "bytes \<Rightarrow> u32 \<Rightarrow> u32 result" where
  "sz_write d acc = Inr (acc + of_nat (length d))"

definition sz_put :: "u8 \<Rightarrow> u32 \<Rightarrow> u32 result" where
  "sz_put c acc = Inr (acc + 1)"

definition sz_seekp :: "u32 \<Rightarrow> u32 \<Rightarrow> bool \<times> u32" where
  "sz_seekp p acc = (True, p)"

definition sz_tellp :: "u32 \<Rightarrow> u32" where
  "sz_tellp acc = acc"

definition sz_remaining :: "u32 \<Rightarrow> u32" where
  "sz_remaining acc = 0"

section \<open>What a serializer needs of a stream\<close>

text \<open>
  A serializer is the sequence of its calls on the stream. The locale states what it relies on:
  a write succeeds while there is room and appends to what was written before. Both streams keep
  this contract, the window of memory with the bytes in it, the counting stream with their number.
\<close>

datatype wr = PutByte u8 | WriteBytes bytes

fun wr_bytes :: "wr \<Rightarrow> bytes" where
  "wr_bytes (PutByte b) = [b]"
| "wr_bytes (WriteBytes bs) = bs"

definition emitted :: "wr list \<Rightarrow> bytes" where
  "emitted ws = concat (map wr_bytes ws)"

lemma emitted_simps [simp]: "emitted [] = []" "emitted (w # ws) = wr_bytes w @ emitted ws"
  "emitted (ws @ vs) = emitted ws @ emitted vs"
  by (simp_all add: emitted_def)

fun run_writes :: "(bytes \<Rightarrow> 's \<Rightarrow> 's result) \<Rightarrow> (u8 \<Rightarrow> 's \<Rightarrow> 's result) \<Rightarrow> wr list \<Rightarrow> 's \<Rightarrow> 's result" where
  "run_writes wr_op put_op [] s = Inr s"
| "run_writes wr_op put_op (PutByte b # ws) s = res_bind (put_op b s) (run_writes wr_op put_op ws)"
| "run_writes wr_op put_op (WriteBytes bs # ws) s = res_bind (wr_op bs s) (run_writes wr_op put_op ws)"

locale byte_sink =
  fixes wr_op :: "bytes \<Rightarrow> 's \<Rightarrow> 's result" and put_op :: "u8 \<Rightarrow> 's \<Rightarrow> 's result"
    and wrote :: "'s \<Rightarrow> bytes \<Rightarrow> nat \<Rightarrow> bool"
  assumes write_law: "wrote s bs n \<Longrightarrow> length c \<le> n \<Longrightarrow> \<exists>s'. wr_op c s = Inr s' \<and> wrote s' (bs @ c) (n - length c)"
    and put_law: "wrote s bs n \<Longrightarrow> 0 < n \<Longrightarrow> \<exists>s'. put_op b s = Inr s' \<and> wrote s' (bs @ [b]) (n - 1)"
begin

lemma step_ok:
  assumes "wrote s bs n" and "length (wr_bytes w) \<le> n"
  shows "\<exists>s'. run_writes wr_op put_op (w # ws) s = run_writes wr_op put_op ws s'
    \<and> wrote s' (bs @ wr_bytes w) (n - length (wr_bytes w))"
proof (cases w)
  case (PutByte b)
  then show ?thesis using put_law [OF assms(1), of b] assms(2) by auto
next
  case (WriteBytes c)
  then show ?thesis using write_law [OF assms(1), of c] assms(2) by auto
qed

lemma run_ok:
  "wrote s bs n \<Longrightarrow> length (emitted ws) \<le> n \<Longrightarrow>
    \<exists>s'. run_writes wr_op put_op ws s = Inr s' \<and> wrote s' (bs @ emitted ws) (n - length (emitted ws))"
proof (induction ws arbitrary: s bs n)
  case (Cons w ws)
  have "length (wr_bytes w) \<le> n" using Cons.prems(2) by simp
  then obtain s1 where s1: "run_writes wr_op put_op (w # ws) s = run_writes wr_op put_op ws s1"
    "wrote s1 (bs @ wr_bytes w) (n - length (wr_bytes w))" using step_ok [OF Cons.prems(1)] by blast
  have "length (emitted ws) \<le> n - length (wr_bytes w)" using Cons.prems(2) by simp
  from Cons.IH [OF s1(2) this] s1(1) show ?case by auto
qed simp

end

text \<open>A window of memory of \<open>len\<close> bytes at \<open>a\<close>; the rest of the memory is as in \<open>m0\<close>.\<close>

definition window_wrote :: "u32 \<Rightarrow> nat \<Rightarrow> memory \<Rightarrow> dstream \<times> memory \<Rightarrow> bytes \<Rightarrow> nat \<Rightarrow> bool" where
  "window_wrote a len m0 st bs n \<longleftrightarrow> ds_start (fst st) = a \<and> ds_pos (fst st) = a + of_nat (length bs)
     \<and> ds_end (fst st) = a + of_nat len \<and> length bs + n = len \<and> len < 2147483648 \<and> unat a + len < 4294967296
     \<and> bytes_at (snd st) a (length bs) = bs \<and> same_on (- {unat a ..< unat a + len}) m0 (snd st)"

lemma window_write:
  assumes "window_wrote a len m0 st bs n" and "length c \<le> n"
  shows "\<exists>st'. ds_write c st = Inr st' \<and> window_wrote a len m0 st' (bs @ c) (n - length c)"
proof -
  obtain ds m where st: "st = (ds, m)" by fastforce
  have w: "ds_start ds = a" "ds_pos ds = a + of_nat (length bs)" "ds_end ds = a + of_nat len"
    "length bs + n = len" "len < 2147483648" "unat a + len < 4294967296"
    "bytes_at m a (length bs) = bs" "same_on (- {unat a ..< unat a + len}) m0 m"
    using assms(1) by (simp_all add: window_wrote_def st)
  have room: "ds_end ds - ds_pos ds = of_nat n" using w(2,3) unfolding w(4) [symmetric] by simp
  have sint: "sint (of_nat k :: u32) = int k" if "k < 2147483648" for k
    using that by (simp add: sint_uint unsigned_of_nat signed_take_bit_int_eq_self take_bit_nat_eq_self)
  have pos: "unat (a + of_nat (length bs)) = unat a + length bs" using w(4,6) by (intro unat_addr_add) simp
  have fits: "unat (a + of_nat (length bs)) + length c \<le> 4294967296" using pos w(4,6) assms(2) by simp
  have old: "bytes_at (store_bytes (a + of_nat (length bs)) c m) a (length bs) = bs"
    using bytes_at_store_before [of a "length bs" "a + of_nat (length bs)" c m] pos fits w(7) by simp
  have same: "same_on (- {unat a ..< unat a + len}) m0 (store_bytes (a + of_nat (length bs)) c m)"
    unfolding same_on_def
  proof (intro allI impI)
    fix x :: u32 assume x: "unat x \<in> - {unat a ..< unat a + len}"
    then have "store_bytes (a + of_nat (length bs)) c m x = m x"
      using pos w(4) assms(2) by (intro store_bytes_outside [OF fits]) auto
    then show "store_bytes (a + of_nat (length bs)) c m x = m0 x" using w(8) x by (simp add: same_on_def)
  qed
  have "sint (of_nat (length c) :: u32) \<le> sint (ds_end ds - ds_pos ds)"
    using sint assms(2) w(4,5) by (simp add: room)
  then have "ds_write c st = Inr (ds\<lparr>ds_pos := ds_pos ds + of_nat (length c)\<rparr>, store_bytes (ds_pos ds) c m)"
    by (simp add: ds_write_def st)
  moreover have "window_wrote a len m0 (ds\<lparr>ds_pos := ds_pos ds + of_nat (length c)\<rparr>, store_bytes (ds_pos ds) c m)
      (bs @ c) (n - length c)"
    using w old same assms(2) bytes_at_store_bytes [OF fits, of m]
    by (simp add: window_wrote_def bytes_at_add)
  ultimately show ?thesis by blast
qed

lemma window_put:
  assumes "window_wrote a len m0 st bs n" and "0 < n"
  shows "\<exists>st'. ds_put b st = Inr st' \<and> window_wrote a len m0 st' (bs @ [b]) (n - 1)"
proof -
  obtain ds m where st: "st = (ds, m)" by fastforce
  have w: "ds_pos ds = a + of_nat (length bs)" "ds_end ds = a + of_nat len" "length bs + n = len"
    "unat a + len < 4294967296" using assms(1) by (simp_all add: window_wrote_def st)
  have "unat (ds_pos ds) = unat a + length bs" "unat (ds_end ds) = unat a + len"
    unfolding w(1,2) using w(3,4) by (simp_all add: unat_addr_add)
  then have "ds_pos ds < ds_end ds" using w(3) assms(2) by (simp add: w32)
  then have "ds_put b st = ds_write [b] st" if "sint (1 :: u32) \<le> sint (ds_end ds - ds_pos ds)"
    using that by (simp add: ds_put_def ds_write_def st)
  moreover obtain st' where st': "ds_write [b] st = Inr st'" "window_wrote a len m0 st' (bs @ [b]) (n - 1)"
    using window_write [OF assms(1), of "[b]"] assms(2) by auto
  moreover have "sint (1 :: u32) \<le> sint (ds_end ds - ds_pos ds)"
    using st'(1) by (simp add: ds_write_def st res_bind_Inr check_Inr)
  ultimately show ?thesis by auto
qed

interpretation window: byte_sink ds_write ds_put "window_wrote a len m0" for a len m0
  by unfold_locales (rule window_write window_put; assumption)+

definition counted :: "u32 \<Rightarrow> bytes \<Rightarrow> nat \<Rightarrow> bool" where
  "counted acc bs n \<longleftrightarrow> acc = of_nat (length bs)"

interpretation counter: byte_sink sz_write sz_put counted
  by unfold_locales (simp_all add: counted_def sz_write_def sz_put_def)

end
