(* ===== verification/Serialize.thy ===== *)
theory Serialize
  imports Datastream
begin

text \<open>
  Packing and unpacking of values (\<open>core/eosio/datastream.hpp\<close>, \<open>serialize.hpp\<close>, \<open>ignore.hpp\<close>,
  \<open>binary_extension.hpp\<close>). The functions \<open>to_bin\<close> and \<open>from_bin\<close> of a type come from a library
  outside the repository, or from the contract: a \<open>codec\<close> gives for a value the calls on the stream
  that write it, and a reader, which asks the stream for bytes until it has a value. Types in the
  protobuf format (\<open>pb<T>\<close>) have their own pair of functions.
\<close>

section \<open>Readers\<close>

datatype 'a reader =
    Done 'a
  | Fail error
  | ReadBytes u32 "bytes \<Rightarrow> 'a reader"
  | GetByte "u8 \<Rightarrow> 'a reader"
  | AskRemaining "u32 \<Rightarrow> 'a reader"

primrec run_reader :: "'a reader \<Rightarrow> dstream \<Rightarrow> memory \<Rightarrow> ('a \<times> dstream) result" where
  "run_reader (Done v) ds m = Inr (v, ds)"
| "run_reader (Fail e) ds m = Inl e"
| "run_reader (ReadBytes n k) ds m = res_bind (ds_read n ds m) (\<lambda>(bs, ds1). run_reader (k bs) ds1 m)"
| "run_reader (GetByte k) ds m = res_bind (ds_get ds m) (\<lambda>(b, ds1). run_reader (k b) ds1 m)"
| "run_reader (AskRemaining k) ds m = run_reader (k (ds_remaining ds)) ds m"

primrec bind_reader :: "'a reader \<Rightarrow> ('a \<Rightarrow> 'b reader) \<Rightarrow> 'b reader" where
  "bind_reader (Done v) f = f v"
| "bind_reader (Fail e) f = Fail e"
| "bind_reader (ReadBytes n k) f = ReadBytes n (\<lambda>bs. bind_reader (k bs) f)"
| "bind_reader (GetByte k) f = GetByte (\<lambda>b. bind_reader (k b) f)"
| "bind_reader (AskRemaining k) f = AskRemaining (\<lambda>n. bind_reader (k n) f)"

text \<open>What a reader makes of a list of bytes, without a stream: its value and the bytes that remain.\<close>

primrec parse :: "'a reader \<Rightarrow> bytes \<Rightarrow> ('a \<times> bytes) result" where
  "parse (Done v) bs = Inr (v, bs)"
| "parse (Fail e) bs = Inl e"
| "parse (ReadBytes n k) bs = (if unat n \<le> length bs then parse (k (take (unat n) bs)) (drop (unat n) bs)
     else Inl (Check ''read''))"
| "parse (GetByte k) bs = (case bs of [] \<Rightarrow> Inl (Check ''get'') | b # bs' \<Rightarrow> parse (k b) bs')"
| "parse (AskRemaining k) bs = parse (k (of_nat (length bs))) bs"

lemma parse_bind: "parse (bind_reader r f) bs = res_bind (parse r bs) (\<lambda>(v, bs'). parse (f v) bs')"
  by (induction r arbitrary: bs) (auto split: list.splits)

text \<open>A stream inside its window, and the bytes it has still to read.\<close>

definition ds_ok :: "dstream \<Rightarrow> bool" where
  "ds_ok ds \<longleftrightarrow> ds_start ds \<le> ds_pos ds \<and> ds_pos ds \<le> ds_end ds"

definition rest :: "dstream \<Rightarrow> memory \<Rightarrow> bytes" where
  "rest ds m = bytes_at m (ds_pos ds) (unat (ds_end ds) - unat (ds_pos ds))"

lemma room: "ds_ok ds \<Longrightarrow> unat (ds_end ds - ds_pos ds) = unat (ds_end ds) - unat (ds_pos ds)"
  by (simp add: ds_ok_def w32)

text \<open>Advancing by bytes that are there.\<close>

lemma advance:
  assumes "ds_ok ds" and "unat n \<le> length (rest ds m)"
  shows "ds_ok (ds\<lparr>ds_pos := ds_pos ds + n\<rparr>)"
    and "rest (ds\<lparr>ds_pos := ds_pos ds + n\<rparr>) m = drop (unat n) (rest ds m)"
    and "bytes_at m (ds_pos ds) (unat n) = take (unat n) (rest ds m)"
proof -
  have "unat (ds_pos ds) \<le> unat (ds_end ds)" using assms(1) by (simp add: ds_ok_def w32)
  then have n: "unat (ds_pos ds) + unat n \<le> unat (ds_end ds)" using assms(2) by (simp add: rest_def)
  then have p: "unat (ds_pos ds + n) = unat (ds_pos ds) + unat n"
    using unat_lt32 [of "ds_end ds"] by (intro unat_add32) linarith
  show "ds_ok (ds\<lparr>ds_pos := ds_pos ds + n\<rparr>)" using assms(1) p n by (simp add: ds_ok_def w32)
  show "rest (ds\<lparr>ds_pos := ds_pos ds + n\<rparr>) m = drop (unat n) (rest ds m)"
    using n p by (simp add: rest_def drop_bytes_at)
  show "bytes_at m (ds_pos ds) (unat n) = take (unat n) (rest ds m)"
    using n by (simp add: rest_def take_bytes_at)
qed

definition advanced :: "dstream \<Rightarrow> nat \<Rightarrow> dstream" where
  "advanced ds k = ds\<lparr>ds_pos := ds_end ds - of_nat k\<rparr>"

text \<open>Reading a stream is parsing the bytes that remain in its window.\<close>

lemma run_reader_parse:
  "ds_ok ds \<Longrightarrow> run_reader r ds m
     = res_bind (parse r (rest ds m)) (\<lambda>(v, bs). Inr (v, advanced ds (length bs)))"
proof (induction r arbitrary: ds)
  case (Done v)
  have "ds_end ds - of_nat (unat (ds_end ds) - unat (ds_pos ds)) = ds_pos ds"
    using Done room [OF Done] by (simp flip: room)
  then show ?case by (simp add: advanced_def rest_def)
next
  case (ReadBytes n k)
  show ?case
  proof (cases "unat n \<le> length (rest ds m)")
    case True
    have "n \<le> ds_end ds - ds_pos ds" using True room [OF ReadBytes.prems] by (simp add: rest_def w32)
    then show ?thesis
      using ReadBytes.IH [OF rangeI advance(1) [OF ReadBytes.prems True]] advance(2,3) [OF ReadBytes.prems True] True
      by (simp add: ds_read_def advanced_def)
  next
    case False
    then have "\<not> n \<le> ds_end ds - ds_pos ds" using room [OF ReadBytes.prems] by (simp add: rest_def w32)
    then show ?thesis using False by (simp add: ds_read_def)
  qed
next
  case (GetByte k)
  show ?case
  proof (cases "rest ds m")
    case Nil
    then have "\<not> ds_pos ds < ds_end ds" using GetByte.prems by (simp add: rest_def ds_ok_def w32 bytes_at_def)
    then show ?thesis using Nil by (simp add: ds_get_def)
  next
    case (Cons b bs)
    have one: "unat (1 :: u32) \<le> length (rest ds m)" using Cons by simp
    have "0 < length (rest ds m)" using Cons by simp
    then have "ds_pos ds < ds_end ds" by (simp add: rest_def w32)
    moreover have "m (ds_pos ds) = b" using advance(3) [OF GetByte.prems one] Cons by (simp add: bytes_at_def)
    ultimately show ?thesis
      using GetByte.IH [OF rangeI advance(1) [OF GetByte.prems one]] advance(2) [OF GetByte.prems one] Cons
      by (simp add: ds_get_def advanced_def)
  qed
next
  case (AskRemaining k)
  have "of_nat (length (rest ds m)) = ds_remaining ds"
    unfolding rest_def ds_remaining_def length_bytes_at room [OF AskRemaining.prems, symmetric] by simp
  then show ?case using AskRemaining by simp
qed simp

section \<open>Codecs\<close>

record 'v codec =
  to_bin :: "'v \<Rightarrow> wr list"
  from_bin :: "'v reader"
  pb_out :: "('v \<Rightarrow> bytes option) option"
  pb_in :: "(bytes \<Rightarrow> 'v option) option"

text \<open>\<open>ds << v\<close> and \<open>ds >> v\<close>. The protobuf branch of \<open>>>\<close> leaves the position where it was.\<close>

definition ds_out :: "'v codec \<Rightarrow> 'v \<Rightarrow> dstream \<times> memory \<Rightarrow> (dstream \<times> memory) result" where
  "ds_out C v st = run_writes ds_write ds_put (to_bin C v) st"

definition ds_in :: "'v codec \<Rightarrow> dstream \<Rightarrow> memory \<Rightarrow> ('v \<times> dstream) result" where
  "ds_in C ds m = (case pb_in C of
     Some f \<Rightarrow> (case f (bytes_at m (ds_pos ds) (unat (ds_remaining ds))) of
        Some v \<Rightarrow> Inr (v, ds) | None \<Rightarrow> Inl (Check ''protobuf deserialization failure''))
   | None \<Rightarrow> run_reader (from_bin C) ds m)"

definition unpack :: "'v codec \<Rightarrow> u32 \<Rightarrow> u32 \<Rightarrow> memory \<Rightarrow> 'v result" where
  "unpack C buffer len m = res_bind (ds_in C (new_datastream buffer len) m) (\<lambda>(v, _). Inr v)"

definition pack_size :: "'v codec \<Rightarrow> 'v \<Rightarrow> u32 result" where
  "pack_size C v = res_bind (run_writes sz_write sz_put (to_bin C v) 0) (\<lambda>n. Inr (sz_tellp n))"

text \<open>
  \<open>pack\<close>: the vector gets \<open>pack_size(v)\<close> bytes at an address \<open>a\<close> of the heap, and its bytes are the result.
\<close>

definition pack :: "'v codec \<Rightarrow> 'v \<Rightarrow> u32 \<Rightarrow> memory \<Rightarrow> (bytes \<times> memory) result" where
  "pack C v a m = (case pb_out C of
     Some f \<Rightarrow> (case f v of Some bs \<Rightarrow> Inr (bs, store_bytes a bs m)
        | None \<Rightarrow> Inl (Check ''protobuf serialization failure''))
   | None \<Rightarrow> res_bind (pack_size C v) (\<lambda>n.
       res_bind (ds_out C v (new_datastream a n, m)) (\<lambda>(_, m1). Inr (bytes_at m1 a (unat n), m1))))"

text \<open>A codec for which reading takes back what writing gave, whatever follows it in the stream.\<close>

definition codec_ok :: "'v codec \<Rightarrow> 'v \<Rightarrow> bool" where
  "codec_ok C v \<longleftrightarrow> pb_out C = None \<and> pb_in C = None
     \<and> (\<forall>bs. length (emitted (to_bin C v) @ bs) < 4294967296 \<longrightarrow>
          parse (from_bin C) (emitted (to_bin C v) @ bs) = Inr (v, bs))"

lemma pack_size_ok: "pack_size C v = Inr (of_nat (length (emitted (to_bin C v))))"
  using counter.run_ok [of 0 "[]" "length (emitted (to_bin C v))" "to_bin C v"]
  by (auto simp: pack_size_def counted_def sz_tellp_def)

lemma pack_ok:
  assumes "pb_out C = None" and "length (emitted (to_bin C v)) = n" and "n < 2147483648" and "unat a + n < 4294967296"
  shows "\<exists>m'. pack C v a m = Inr (emitted (to_bin C v), m') \<and> bytes_at m' a n = emitted (to_bin C v)
    \<and> same_on (- {unat a ..< unat a + n}) m m'"
proof -
  have n: "unat (of_nat n :: u32) = n" using assms(3) by (simp add: w32)
  have "window_wrote a n m (new_datastream a (of_nat n), m) [] n"
    using assms(3,4) by (simp add: window_wrote_def new_datastream_def)
  then obtain st where st: "ds_out C v (new_datastream a (of_nat n), m) = Inr st"
    "window_wrote a n m st (emitted (to_bin C v)) 0"
    using window.run_ok [of a n m "(new_datastream a (of_nat n), m)" "[]" n "to_bin C v"] assms(2)
    unfolding ds_out_def by (simp only: append_Nil) auto
  moreover obtain ds m' where "st = (ds, m')" by fastforce
  ultimately show ?thesis
    using assms(1,2) n pack_size_ok [of C v] by (auto simp: pack_def window_wrote_def)
qed

lemma new_datastream_ok:
  assumes "unat a + n < 4294967296"
  shows "ds_ok (new_datastream a (of_nat n))" and "rest (new_datastream a (of_nat n)) m = bytes_at m a n"
  using unat_addr_add [OF assms] by (simp_all add: ds_ok_def new_datastream_def rest_def w32)

lemma unpack_ok:
  assumes "codec_ok C v" and "unat a + n < 4294967296" and "bytes_at m a n = emitted (to_bin C v) @ bs"
  shows "unpack C a (of_nat n) m = Inr v"
proof -
  have "n = length (emitted (to_bin C v) @ bs)" using arg_cong [OF assms(3), of length] by simp
  then have "parse (from_bin C) (emitted (to_bin C v) @ bs) = Inr (v, bs)"
    using assms(1,2) by (simp add: codec_ok_def)
  then show ?thesis
    using assms(1) run_reader_parse [OF new_datastream_ok(1) [OF assms(2)], of "from_bin C" m]
    by (simp add: unpack_def ds_in_def codec_ok_def new_datastream_ok(2) [OF assms(2)] assms(3))
qed

section \<open>Structs\<close>

text \<open>\<open>EOSLIB_SERIALIZE\<close> lists the fields of a struct; they are written and read one after the other.\<close>

definition fields2 :: "'a codec \<Rightarrow> 'b codec \<Rightarrow> ('a \<times> 'b) codec" where
  "fields2 A B = \<lparr>to_bin = (\<lambda>(a, b). to_bin A a @ to_bin B b),
     from_bin = bind_reader (from_bin A) (\<lambda>a. bind_reader (from_bin B) (\<lambda>b. Done (a, b))),
     pb_out = None, pb_in = None\<rparr>"

lemma fields2_ok: "codec_ok A a \<Longrightarrow> codec_ok B b \<Longrightarrow> codec_ok (fields2 A B) (a, b)"
  by (simp add: codec_ok_def fields2_def parse_bind)

section \<open>ignore\<close>

definition ignore_codec :: "unit codec" where
  "ignore_codec = \<lparr>to_bin = (\<lambda>_. []), from_bin = Done (), pb_out = None, pb_in = None\<rparr>"

text \<open>An \<open>ignore_wrapper\<close> is only written: there is no operator that reads one.\<close>

definition ignore_wrapper_out :: "'v codec \<Rightarrow> 'v \<Rightarrow> wr list" where
  "ignore_wrapper_out C v = to_bin C v"

section \<open>binary_extension\<close>

text \<open>
  The container is its flag with the storage, whose content matters only while the flag is set; the
  value of an empty one is \<open>None\<close>. A use of the storage of an empty one is undefined behaviour.
\<close>

type_synonym 'v binary_extension = "'v option"

definition be_new :: "'v binary_extension" where
  "be_new = None"

definition be_of :: "'v \<Rightarrow> 'v binary_extension" where
  "be_of ext = Some ext"

definition be_reset :: "'v binary_extension \<Rightarrow> 'v binary_extension" where
  "be_reset be = (if be \<noteq> None then None else be)"

definition be_has_value :: "'v binary_extension \<Rightarrow> bool" where
  "be_has_value be \<longleftrightarrow> be \<noteq> None"

definition be_value :: "'v binary_extension \<Rightarrow> 'v result" where
  "be_value be = (case be of None \<Rightarrow> Inl (Check ''cannot get value of empty binary_extension'') | Some v \<Rightarrow> Inr v)"

definition be_get :: "'v binary_extension \<Rightarrow> 'v result" where
  "be_get be = (case be of None \<Rightarrow> Inl (Trap ''storage of an empty binary_extension'') | Some v \<Rightarrow> Inr v)"

definition be_value_or :: "'v \<Rightarrow> 'v binary_extension \<Rightarrow> 'v" where
  "be_value_or def be = (case be of None \<Rightarrow> def | Some v \<Rightarrow> v)"

text \<open>\<open>value_or()\<close> of a container that is moved from; the default value would not outlive the call.\<close>

definition be_value_or_moved :: "'v binary_extension \<Rightarrow> ('v \<times> 'v binary_extension) result" where
  "be_value_or_moved be = (case be of None \<Rightarrow> Inl (Trap ''reference to a destroyed value'') | Some v \<Rightarrow> Inr (v, None))"

definition be_copy :: "'v binary_extension \<Rightarrow> 'v binary_extension" where
  "be_copy other = (case other of Some v \<Rightarrow> Some v | None \<Rightarrow> None)"

definition be_emplace :: "'v \<Rightarrow> 'v binary_extension \<Rightarrow> 'v binary_extension" where
  "be_emplace v be = (let be1 = (if be \<noteq> None then be_reset be else be) in Some v)"

definition be_assign :: "'v binary_extension \<Rightarrow> 'v binary_extension \<Rightarrow> 'v binary_extension" where
  "be_assign be other = (let be1 = (if be_has_value be then be_reset be else be) in
     case other of Some v \<Rightarrow> Some v | None \<Rightarrow> be1)"

text \<open>The container assigned to itself: \<open>other\<close> is the container that \<open>reset\<close> has emptied.\<close>

definition be_self_assign :: "'v binary_extension \<Rightarrow> 'v binary_extension" where
  "be_self_assign be = (let be1 = (if be_has_value be then be_reset be else be) in
     case be1 of Some v \<Rightarrow> Some v | None \<Rightarrow> be1)"

lemma be_self_assign_empties: "be_self_assign be = be_new"
  by (cases be) (simp_all add: be_self_assign_def be_has_value_def be_reset_def be_new_def)

text \<open>Assignment by move and construction by move also empty the other container.\<close>

definition be_move_assign :: "'v binary_extension \<Rightarrow> 'v binary_extension \<Rightarrow> 'v binary_extension \<times> 'v binary_extension" where
  "be_move_assign be other = (let be1 = (if be_has_value be then be_reset be else be) in
     case other of Some v \<Rightarrow> (Some v, None) | None \<Rightarrow> (be1, None))"

definition be_move :: "'v binary_extension \<Rightarrow> 'v binary_extension \<times> 'v binary_extension" where
  "be_move other = (case other of Some v \<Rightarrow> (Some v, None) | None \<Rightarrow> (None, None))"

text \<open>
  Writing an empty extension writes the value of the default constructor; reading takes a value
  when the stream has bytes left and otherwise leaves the container as it was.
\<close>

definition extension_reader :: "'v codec \<Rightarrow> 'v binary_extension \<Rightarrow> 'v binary_extension reader" where
  "extension_reader C be = AskRemaining (\<lambda>n. if n \<noteq> 0
     then bind_reader (from_bin C) (\<lambda>v. Done (be_emplace v be)) else Done be)"

definition extension_codec :: "'v codec \<Rightarrow> 'v \<Rightarrow> 'v binary_extension codec" where
  "extension_codec C def = \<lparr>to_bin = (\<lambda>be. to_bin C (be_value_or def be)),
     from_bin = extension_reader C be_new,
     pb_out = None, pb_in = None\<rparr>"

lemma parse_extension:
  assumes "codec_ok C v" and "to_bin C v \<noteq> []" and "emitted (to_bin C v) \<noteq> []"
    and "length (emitted (to_bin C v) @ bs) < 4294967296"
  shows "parse (from_bin (extension_codec C def)) (emitted (to_bin C v) @ bs) = Inr (Some v, bs)"
proof -
  have "(of_nat (length (emitted (to_bin C v) @ bs)) :: u32) \<noteq> 0"
    using assms(3,4) by (simp add: word_unat_eq_iff unat_of_nat32 del: of_nat_add length_append)
  then show ?thesis using assms(1,4) by (simp add: extension_codec_def extension_reader_def parse_bind be_emplace_def be_new_def codec_ok_def)
qed

lemma parse_extension_end: "parse (from_bin (extension_codec C def)) [] = Inr (None, [])"
  by (simp add: extension_codec_def extension_reader_def be_new_def)

end
