(* ===== verification/SerializeProps.thy ===== *)
theory SerializeProps
  imports Serialize
begin

text \<open>
  The properties of streams and packing, with instances on a codec of pairs of a byte and a
  length-prefixed string.
\<close>

section \<open>A concrete codec\<close>

definition byte_codec :: "u8 codec" where
  "byte_codec = \<lparr>to_bin = (\<lambda>b. [PutByte b]), from_bin = GetByte Done, pb_out = None, pb_in = None\<rparr>"

definition string_codec :: "bytes codec" where
  "string_codec = \<lparr>to_bin = (\<lambda>bs. [PutByte (of_nat (length bs)), WriteBytes bs]),
     from_bin = GetByte (\<lambda>n. ReadBytes (ucast n) Done), pb_out = None, pb_in = None\<rparr>"

lemma byte_codec_ok: "codec_ok byte_codec b"
  by (simp add: codec_ok_def byte_codec_def)

lemma string_codec_ok: "length bs < 256 \<Longrightarrow> codec_ok string_codec bs"
  by (auto simp: codec_ok_def string_codec_def unsigned_ucast_eq unsigned_of_nat take_bit_nat_eq_self)

section \<open>Round trips\<close>

text \<open>
  C20. What \<open>pack\<close> returns is as long as \<open>pack_size\<close> says, \<open>pack\<close> writes nothing outside its buffer,
  and \<open>unpack\<close> of the packed bytes, wherever they lie in a memory, gives the value back. The codec
  of the value reads back its own bytes from a list; sizes are below \<open>2 ^ 31\<close>.
\<close>
theorem pack_unpack:
  assumes "codec_ok C v" and "length (emitted (to_bin C v)) < 2147483648"
    and "unat a + length (emitted (to_bin C v)) < 4294967296"
  shows "\<exists>bs m'. pack C v a m = Inr (bs, m') \<and> pack_size C v = Inr (of_nat (length bs))
    \<and> bytes_at m' a (length bs) = bs \<and> same_on (- {unat a ..< unat a + length bs}) m m'
    \<and> (\<forall>b m2. unat b + length bs < 4294967296 \<and> bytes_at m2 b (length bs) = bs
        \<longrightarrow> unpack C b (of_nat (length bs)) m2 = Inr v)"
proof -
  let ?bs = "emitted (to_bin C v)"
  have "pb_out C = None" using assms(1) by (simp add: codec_ok_def)
  then obtain m' where "pack C v a m = Inr (?bs, m')" "bytes_at m' a (length ?bs) = ?bs" "same_on (- {unat a ..< unat a + length ?bs}) m m'"
    using pack_ok [OF _ refl assms(2,3)] by blast
  then show ?thesis
    using unpack_ok [OF assms(1), of _ "length ?bs" _ "[]"] pack_size_ok [of C v] by (intro exI [of _ ?bs]) auto
qed

theorem pack_unpack_witness:
  "\<exists>bs m'. pack (fields2 byte_codec string_codec) (7, [1, 2, 3]) 64 (\<lambda>_. 0) = Inr (bs, m') \<and> length bs = 5
    \<and> unpack (fields2 byte_codec string_codec) 64 5 m' = Inr (7, [1, 2, 3])"
proof -
  let ?C = "fields2 byte_codec string_codec"
  have ok: "codec_ok ?C (7, [1, 2, 3])" by (intro fields2_ok byte_codec_ok string_codec_ok) simp
  have len: "length (emitted (to_bin ?C (7, [1, 2, 3]))) = 5" by (simp add: fields2_def byte_codec_def string_codec_def)
  obtain bs m' where p: "pack ?C (7, [1, 2, 3]) 64 (\<lambda>_. 0) = Inr (bs, m')" "bytes_at m' 64 (length bs) = bs"
    "\<forall>b m2. unat b + length bs < 4294967296 \<and> bytes_at m2 b (length bs) = bs \<longrightarrow> unpack ?C b (of_nat (length bs)) m2 = Inr (7, [1, 2, 3])"
    using pack_unpack [OF ok, of 64 "\<lambda>_. 0"] len by auto
  have "\<exists>m'. pack ?C (7, [1, 2, 3]) 64 (\<lambda>_. 0) = Inr (emitted (to_bin ?C (7, [1, 2, 3])), m')"
    using pack_ok [of ?C "(7, [1, 2, 3])" 5 64 "\<lambda>_. 0"] len ok by (auto simp: codec_ok_def)
  then have "length bs = 5" using p(1) len by auto
  then have "unpack ?C 64 5 m' = Inr (7, [1, 2, 3])" using p(3) [rule_format, of 64 m'] p(2) by simp
  then show ?thesis using p(1) \<open>length bs = 5\<close> by blast
qed

text \<open>
  C21. Reading a value from a stream that is inside its window is parsing the list of the bytes that
  remain in it: the same value or error, and the position moves by exactly the bytes consumed, so no
  byte outside the window is read.
\<close>
theorem stream_reads_window:
  assumes "ds_ok ds"
  shows "run_reader r ds m = res_bind (parse r (rest ds m)) (\<lambda>(v, bs). Inr (v, advanced ds (length bs)))"
  by (rule run_reader_parse [OF assms])

theorem stream_reads_window_witness:
  "run_reader (from_bin byte_codec) (new_datastream 64 1) (\<lambda>_. 5) = Inr (5, advanced (new_datastream 64 1) 0)
    \<and> run_reader (from_bin byte_codec) (new_datastream 64 0) (\<lambda>_. 5) = Inl (Check ''get'')"
proof -
  have "ds_ok (new_datastream 64 1)" "ds_ok (new_datastream 64 0)" by (simp_all add: ds_ok_def new_datastream_def)
  from this [THEN stream_reads_window, of "from_bin byte_codec" "\<lambda>_. 5"] show ?thesis
    by (simp add: byte_codec_def rest_def new_datastream_def bytes_at_def)
qed

section \<open>Bounds\<close>

lemma store_bytes_inside:
  assumes "unat a + length bs \<le> 4294967296" and "i < length bs"
  shows "store_bytes a bs m (a + of_nat i) = bs ! i"
proof -
  have "bytes_at (store_bytes a bs m) a (length bs) ! i = store_bytes a bs m (a + of_nat i)"
    using assms(2) by (simp add: bytes_at_def)
  then show ?thesis by (simp add: bytes_at_store_bytes [OF assms(1)])
qed

lemma sint_of_nat32:
  "n < 2147483648 \<Longrightarrow> sint (of_nat n :: u32) = int n"
  "2147483648 \<le> n \<Longrightarrow> n < 4294967296 \<Longrightarrow> sint (of_nat n :: u32) = int n - 4294967296"
proof -
  have "int n + 2147483648 = (int n - 2147483648) + 4294967296" by simp
  then have "2147483648 \<le> n \<Longrightarrow> n < 4294967296 \<Longrightarrow> (int n + 2147483648) mod 4294967296 = int n - 2147483648"
    by (simp only: mod_add_self2) (simp add: mod_pos_pos_trivial)
  then show "2147483648 \<le> n \<Longrightarrow> n < 4294967296 \<Longrightarrow> sint (of_nat n :: u32) = int n - 4294967296"
    by (simp add: sint_uint unsigned_of_nat take_bit_nat_eq_self signed_take_bit_eq_take_bit_shift take_bit_eq_mod)
qed (simp add: sint_uint unsigned_of_nat signed_take_bit_int_eq_self take_bit_nat_eq_self)

text \<open>
  In a window with less than \<open>2 ^ 31\<close> bytes left, a write succeeds when its bytes fit and also when
  there are \<open>2 ^ 31\<close> or more of them (their number is compared as a signed one). In the first case
  exactly the bytes at the position change and the stream stays in its window; in the second case a
  byte at the window's end is overwritten.
\<close>
theorem stream_write_bounds:
  assumes "ds_ok ds" and "unat (ds_end ds) - unat (ds_pos ds) = n" and "n < 2147483648" and "length d < 4294967296"
  shows "ds_write d (ds, m) = (if length d \<le> n \<or> 2147483648 \<le> length d
      then Inr (ds\<lparr>ds_pos := ds_pos ds + of_nat (length d)\<rparr>, store_bytes (ds_pos ds) d m)
      else Inl (Check ''write''))
    \<and> (length d \<le> n \<longrightarrow> ds_ok (ds\<lparr>ds_pos := ds_pos ds + of_nat (length d)\<rparr>)
      \<and> bytes_at (store_bytes (ds_pos ds) d m) (ds_pos ds) (length d) = d
      \<and> same_on (- {unat (ds_pos ds) ..< unat (ds_pos ds) + length d}) m (store_bytes (ds_pos ds) d m))
    \<and> (2147483648 \<le> length d \<and> unat (ds_pos ds) + length d \<le> 4294967296 \<longrightarrow>
      store_bytes (ds_pos ds) d m (ds_end ds) = d ! n)"
proof (intro conjI impI)
  have pe: "unat (ds_pos ds) \<le> unat (ds_end ds)" using assms(1) by (simp add: ds_ok_def w32)
  have u: "unat (ds_end ds - ds_pos ds) = n" using room [OF assms(1)] assms(2) by simp
  have "ds_end ds - ds_pos ds = of_nat (unat (ds_end ds - ds_pos ds))" by simp
  then have room: "ds_end ds - ds_pos ds = of_nat n" unfolding u .
  have "sint (of_nat (length d) :: u32) \<le> int n \<longleftrightarrow> length d \<le> n \<or> 2147483648 \<le> length d"
    using sint_of_nat32 [of "length d"] assms(4) by (cases "length d < 2147483648") auto
  then show "ds_write d (ds, m) = (if length d \<le> n \<or> 2147483648 \<le> length d
      then Inr (ds\<lparr>ds_pos := ds_pos ds + of_nat (length d)\<rparr>, store_bytes (ds_pos ds) d m)
      else Inl (Check ''write''))"
    using sint_of_nat32(1) [OF assms(3)] by (simp add: ds_write_def room)
  have fin: "ds_end ds = ds_pos ds + of_nat n" using room by (simp add: algebra_simps)
  {
    assume d: "length d \<le> n"
    have fits: "unat (ds_pos ds) + length d \<le> unat (ds_end ds)" using d assms(2) pe by linarith
    have fits': "unat (ds_pos ds) + length d \<le> 4294967296" using fits unat_lt32 [of "ds_end ds"] by linarith
    have "unat (ds_pos ds + of_nat (length d)) = unat (ds_pos ds) + length d"
      using fits unat_lt32 [of "ds_end ds"] by (intro unat_addr_add) linarith
    then show "ds_ok (ds\<lparr>ds_pos := ds_pos ds + of_nat (length d)\<rparr>)" using fits assms(1) by (simp add: ds_ok_def w32)
    show "bytes_at (store_bytes (ds_pos ds) d m) (ds_pos ds) (length d) = d" by (rule bytes_at_store_bytes [OF fits'])
    show "same_on (- {unat (ds_pos ds) ..< unat (ds_pos ds) + length d}) m (store_bytes (ds_pos ds) d m)"
      unfolding same_on_def by (auto intro!: store_bytes_outside [OF fits'])
  }
  assume d: "2147483648 \<le> length d \<and> unat (ds_pos ds) + length d \<le> 4294967296"
  then show "store_bytes (ds_pos ds) d m (ds_end ds) = d ! n"
    unfolding fin using assms(3) by (intro store_bytes_inside) simp_all
qed

theorem stream_write_bounds_witness:
  "ds_write [1, 2, 3] (new_datastream 64 2, \<lambda>_. 0) = Inl (Check ''write'')
    \<and> (\<exists>st. ds_write (replicate 2147483648 1) (new_datastream 64 2, \<lambda>_. 0) = Inr st \<and> snd st 66 = 1)"
proof -
  have ok: "ds_ok (new_datastream 64 2)" by (simp add: ds_ok_def new_datastream_def)
  have n: "unat (ds_end (new_datastream 64 2)) - unat (ds_pos (new_datastream 64 2)) = 2"
    by (simp add: new_datastream_def)
  have "ds_write [1, 2, 3] (new_datastream 64 2, \<lambda>_. 0) = Inl (Check ''write'')"
    using stream_write_bounds [OF ok n, of "[1, 2, 3]" "\<lambda>_. 0"] by simp
  moreover have "\<exists>st. ds_write (replicate 2147483648 1) (new_datastream 64 2, \<lambda>_. 0) = Inr st \<and> snd st 66 = 1"
    using stream_write_bounds [OF ok n, of "replicate 2147483648 1" "\<lambda>_. 0"] by (simp add: new_datastream_def)
  ultimately show ?thesis by blast
qed

lemma offset_in:
  assumes "p \<le> (e :: u32)"
  shows "p + s \<le> e \<longleftrightarrow> s \<le> e - p \<or> p + s < p"
proof -
  have e: "unat (e - p) = unat e - unat p" "unat p \<le> unat e" using assms by (simp_all add: w32)
  show ?thesis
  proof (cases "unat p + unat s < 4294967296")
    case True
    then have "unat (p + s) = unat p + unat s" by (rule unat_add32)
    then show ?thesis using e by (auto simp: w32)
  next
    case False
    moreover have "unat p + unat s - 4294967296 < 4294967296" using unat_lt32 [of p] unat_lt32 [of s] by linarith
    ultimately have "unat (p + s) = unat p + unat s - 4294967296"
      by (simp add: unat_word_ariths le_mod_geq)
    then have "unat (p + s) < unat p" using False unat_lt32 [of s] by linarith
    then show ?thesis using e by (simp add: w32)
  qed
qed

text \<open>
  \<open>skip\<close> and \<open>seekp\<close> compare only the new position with the end of the window: a skip of more than
  what remains is refused unless the address wraps around, and then the position moves backwards;
  \<open>seekp\<close> accepts every offset in the window, and otherwise only offsets that put the position before
  the start.
\<close>
theorem stream_moves:
  assumes "ds_ok ds"
  shows "ds_skip msg s ds = (if s \<le> ds_remaining ds \<or> ds_pos ds + s < ds_pos ds
      then Inr (ds\<lparr>ds_pos := ds_pos ds + s\<rparr>) else Inl (Check msg))
    \<and> (fst (ds_seekp s ds) \<longleftrightarrow> s \<le> ds_end ds - ds_start ds \<or> ds_start ds + s < ds_start ds)"
proof -
  have "ds_pos ds \<le> ds_end ds" "ds_start ds \<le> ds_end ds" using assms by (auto simp: ds_ok_def)
  then show ?thesis
    using offset_in [of "ds_pos ds" "ds_end ds" s] offset_in [of "ds_start ds" "ds_end ds" s]
    by (simp add: ds_skip_def ds_seekp_def ds_remaining_def check_def)
qed

theorem stream_moves_witness:
  "ds_skip [] 3 (new_datastream 64 2) = Inl (Check [])
    \<and> ds_skip [] (- 1) (new_datastream 64 2) = Inr (\<lparr>ds_start = 64, ds_pos = 63, ds_end = 66\<rparr>)"
proof -
  have "ds_ok (new_datastream 64 2)" by (simp add: ds_ok_def new_datastream_def)
  from this [THEN stream_moves, of "[]"] show ?thesis by (simp add: ds_remaining_def new_datastream_def)
qed

section \<open>Extensions\<close>

text \<open>
  A binary extension at the end of the data is read as empty when no bytes are left and as its
  value when they are there, and a value that is written is read back. An empty extension is not: it is
  written as the default value and read back as an extension that holds it.
\<close>
theorem extension_versions:
  assumes "codec_ok C v" and "codec_ok C def" and "emitted (to_bin C v) \<noteq> []" and "emitted (to_bin C def) \<noteq> []"
    and "length (emitted (to_bin C v)) < 4294967296" and "length (emitted (to_bin C def)) < 4294967296"
  shows "parse (from_bin (extension_codec C def)) [] = Inr (be_new, [])
    \<and> parse (from_bin (extension_codec C def)) (emitted (to_bin (extension_codec C def) (be_of v))) = Inr (be_of v, [])
    \<and> parse (from_bin (extension_codec C def)) (emitted (to_bin (extension_codec C def) be_new)) = Inr (be_of def, [])"
proof -
  have "to_bin C v \<noteq> []" "to_bin C def \<noteq> []" using assms(3,4) by auto
  then show ?thesis
    using parse_extension [OF assms(1) _ assms(3), of "[]" def] parse_extension [OF assms(2) _ assms(4), of "[]" def] assms(5,6)
      parse_extension_end [of C def]
    by (simp add: be_of_def be_new_def) (simp add: extension_codec_def be_value_or_def)
qed

theorem extension_versions_witness:
  "parse (from_bin (extension_codec byte_codec 0)) (emitted (to_bin (extension_codec byte_codec 0) be_new)) = Inr (be_of 0, [])"
  using extension_versions [of byte_codec 1 0] byte_codec_ok by (simp add: byte_codec_def)

end
