(* ===== verification/Rope.thy ===== *)
theory Rope
  imports ByteBlocks "HOL-Library.While_Combinator"
begin

text \<open>
  \<open>core/eosio/rope.hpp\<close>: strings that are appended to in constant time. A rope is a binary tree of
  nodes that share subtrees; the text is written out by a loop without a stack that keeps its way
  back in the nodes (\<open>temp\<close>, \<open>temp_left\<close>). Nodes are allocated in a list and a node pointer is an
  index of it; strings are addresses and lengths in memory.
\<close>

section \<open>Nodes\<close>

datatype rope_node =
    Concat "nat option" "nat option" "nat option" bool
  | Str u32 u32 "nat option"

fun set_temp :: "nat option \<Rightarrow> rope_node \<Rightarrow> rope_node" where
  "set_temp t (Concat l r _ lf) = Concat l r t lf"
| "set_temp t (Str p n _) = Str p n t"

definition put_temp :: "nat \<Rightarrow> nat option \<Rightarrow> rope_node list \<Rightarrow> rope_node list" where
  "put_temp i t ns = ns[i := set_temp t (ns ! i)]"

record rope =
  rp_root :: "nat option"
  rp_last :: "nat option"
  rp_size :: u32

section \<open>Writing the text\<close>

record walk =
  wk_at :: "nat option"
  wk_down :: bool
  wk_nodes :: "rope_node list"
  wk_off :: u32
  wk_mem :: memory

text \<open>Going on to a child: it learns its parent, which remembers whether it was the left child.\<close>

definition descend :: "nat \<Rightarrow> nat \<Rightarrow> bool \<Rightarrow> walk \<Rightarrow> walk" where
  "descend r child is_left w = (case wk_nodes w ! r of
     Concat l ri t _ \<Rightarrow> w\<lparr>wk_at := Some child, wk_down := True,
       wk_nodes := put_temp child (Some r) ((wk_nodes w)[r := Concat l ri t is_left])\<rparr>
   | Str _ _ _ \<Rightarrow> w)"

definition walk_step :: "u32 \<Rightarrow> walk \<Rightarrow> walk result" where
  "walk_step buffer w = (case wk_at w of None \<Rightarrow> Inr w | Some r \<Rightarrow>
     if wk_down w then
       (case wk_nodes w ! r of
          Concat (Some c) _ _ _ \<Rightarrow> Inr (descend r c True w)
        | Concat None (Some c) _ _ \<Rightarrow> Inr (descend r c False w)
        | Concat None None t _ \<Rightarrow> Inr (w\<lparr>wk_down := False, wk_at := t\<rparr>)
        | Str p n t \<Rightarrow> let off = wk_off w - n in
            Inr (w\<lparr>wk_off := off, wk_mem := store_bytes (buffer + off) (bytes_at (wk_mem w) p (unat n)) (wk_mem w),
              wk_down := False, wk_at := t\<rparr>))
     else
       (case wk_nodes w ! r of
          Str _ _ _ \<Rightarrow> Inl (Trap ''bad variant access'')
        | Concat _ (Some c) t True \<Rightarrow> Inr (descend r c False w)
        | Concat _ _ t _ \<Rightarrow> Inr (w\<lparr>wk_down := False, wk_at := t\<rparr>)))"

definition walk_on :: "walk result \<Rightarrow> bool" where
  "walk_on s = (case s of Inl _ \<Rightarrow> False | Inr w \<Rightarrow> wk_at w \<noteq> None)"

definition walk_loop :: "u32 \<Rightarrow> walk result \<Rightarrow> walk result option" where
  "walk_loop buffer s = while_option walk_on (\<lambda>s. res_bind s (walk_step buffer)) s"

text \<open>The result \<open>None\<close> of \<open>write_text\<close> stands for a loop that does not end.\<close>

definition write_text :: "u32 \<Rightarrow> nat option \<Rightarrow> u32 \<Rightarrow> rope_node list \<Rightarrow> memory \<Rightarrow> walk result option" where
  "write_text buffer r off ns m = walk_loop buffer (Inr \<lparr>wk_at = r, wk_down = True,
     wk_nodes = (case r of None \<Rightarrow> ns | Some i \<Rightarrow> put_temp i None ns), wk_off = off, wk_mem = m\<rparr>)"

text \<open>\<open>c_str()\<close> with the buffer of \<open>size + 1\<close> bytes that \<open>new\<close> returned.\<close>

definition rope_c_str :: "u32 \<Rightarrow> rope \<Rightarrow> rope_node list \<Rightarrow> memory \<Rightarrow> (rope_node list \<times> memory) result option" where
  "rope_c_str ret rp ns m =
     (case (if rp_root rp \<noteq> None then write_text ret (rp_root rp) (rp_size rp) ns m
            else Some (Inr \<lparr>wk_at = None, wk_down = True, wk_nodes = ns, wk_off = rp_size rp, wk_mem = m\<rparr>)) of
        None \<Rightarrow> None
      | Some s \<Rightarrow> Some (res_bind s (\<lambda>w. Inr (wk_nodes w, (wk_mem w)(ret + rp_size rp := 0)))))"

section \<open>Building ropes\<close>

text \<open>\<open>strlen\<close> of this class counts the terminating zero.\<close>

partial_function (option) strlen_loop :: "memory \<Rightarrow> u32 \<Rightarrow> u32 \<Rightarrow> u32 option" where
  "strlen_loop m str i = (if m (str + i) \<noteq> 0 then strlen_loop m str (i + 1) else Some (i + 1))"

definition rope_strlen :: "memory \<Rightarrow> u32 \<Rightarrow> u32 option" where
  "rope_strlen m str = strlen_loop m str 0"

definition rope_of_view :: "u32 \<Rightarrow> u32 \<Rightarrow> rope_node list \<Rightarrow> rope \<times> rope_node list" where
  "rope_of_view p n ns = (\<lparr>rp_root = Some (Suc (length ns)), rp_last = None, rp_size = n\<rparr>,
     ns @ [Str p n None, Concat (Some (length ns)) None None False])"

definition rope_of_cstr :: "memory \<Rightarrow> u32 \<Rightarrow> rope_node list \<Rightarrow> (rope \<times> rope_node list) option" where
  "rope_of_cstr m p ns = (case rope_strlen m p of None \<Rightarrow> None | Some k \<Rightarrow>
     (case rope_of_view p (k - 1) ns of (rp, ns1) \<Rightarrow> Some (rp\<lparr>rp_last := rp_root rp\<rparr>, ns1)))"

definition append_node :: "nat option \<Rightarrow> bool \<Rightarrow> rope \<Rightarrow> rope_node list \<Rightarrow> (rope \<times> rope_node list) result" where
  "append_node rn use_left rp ns = (case rn of
     None \<Rightarrow> Inl (Check ''append should only allow concat nodes'')
   | Some i \<Rightarrow> (case ns ! i of
       Str _ _ _ \<Rightarrow> Inl (Check ''append should only allow concat nodes'')
     | Concat l r t lf \<Rightarrow>
         if use_left then Inr (rp\<lparr>rp_root := Some (length ns)\<rparr>, ns @ [Concat rn (rp_root rp) None False])
         else Inr (rp\<lparr>rp_root := rn\<rparr>, ns[i := Concat l (rp_root rp) t lf])))"

definition rope_append :: "u32 \<Rightarrow> u32 \<Rightarrow> rope \<Rightarrow> rope_node list \<Rightarrow> (rope \<times> rope_node list) result" where
  "rope_append s len rp ns =
     res_bind (append_node (Some (Suc (length ns))) False rp
         (ns @ [Str s len None, Concat (Some (length ns)) None None False]))
       (\<lambda>(rp1, ns1). Inr (rp1\<lparr>rp_size := rp_size rp1 + len\<rparr>, ns1))"

text \<open>The overload for arrays of characters, \<open>N\<close> being the size of the array.\<close>

definition rope_append_array :: "u32 \<Rightarrow> u32 \<Rightarrow> rope \<Rightarrow> rope_node list \<Rightarrow> (rope \<times> rope_node list) result" where
  "rope_append_array s N rp ns = rope_append s N rp ns"

definition rope_append_cstr :: "memory \<Rightarrow> u32 \<Rightarrow> rope \<Rightarrow> rope_node list \<Rightarrow> (rope \<times> rope_node list) result option" where
  "rope_append_cstr m s rp ns = (case rope_strlen m s of None \<Rightarrow> None | Some k \<Rightarrow> Some (rope_append s (k - 1) rp ns))"

definition rope_append_rope :: "rope \<Rightarrow> rope \<Rightarrow> rope_node list \<Rightarrow> (rope \<times> rope_node list) result" where
  "rope_append_rope r rp ns = res_bind (append_node (rp_root r) True rp ns)
     (\<lambda>(rp1, ns1). Inr (rp1\<lparr>rp_size := rp_size rp1 + rp_size r\<rparr>, ns1))"

definition rope_length :: "rope \<Rightarrow> u32" where
  "rope_length rp = rp_size rp"

section \<open>Single characters\<close>

text \<open>The recursion of \<open>at\<close> with its state: the result, the length not yet passed, and the stop flag.\<close>

partial_function (option) at_node ::
    "rope_node list \<Rightarrow> memory \<Rightarrow> u32 \<Rightarrow> nat option \<Rightarrow> u8 \<times> u32 \<times> bool \<Rightarrow> (u8 \<times> u32 \<times> bool) option" where
  "at_node ns m index rn st = (case rn of None \<Rightarrow> Some st | Some i \<Rightarrow>
     (case ns ! i of
        Concat l r _ _ \<Rightarrow> if snd (snd st) then Some st
          else Option.bind (if l \<noteq> None then at_node ns m index l st else Some st)
            (\<lambda>st1. if r \<noteq> None then at_node ns m index r st1 else Some st1)
      | Str p n _ \<Rightarrow> let so_far = fst (snd st) - n in
          if so_far \<le> index then Some (m (p + (index - so_far)), so_far, True)
          else Some (fst st, so_far, snd (snd st))))"

definition rope_at :: "memory \<Rightarrow> u32 \<Rightarrow> rope \<Rightarrow> rope_node list \<Rightarrow> u8 option" where
  "rope_at m index rp ns = map_option fst (at_node ns m index (rp_root rp) (0, rp_size rp, False))"

end
