(* ===== verification/RopeSafe.thy ===== *)
theory RopeSafe
  imports Rope
begin

text \<open>
  The text of a node, and why the loop that writes it ends with exactly that text in the buffer:
  children are allocated before their parents, so the nodes below a node never include the ones on
  the way back to the root, whose \<open>temp\<close> fields therefore stay.
\<close>

section \<open>The text of a node\<close>

function node_text :: "rope_node list \<Rightarrow> memory \<Rightarrow> nat \<Rightarrow> bytes" where
  "node_text ns m i = (if i < length ns then (case ns ! i of
       Str p n _ \<Rightarrow> bytes_at m p (unat n)
     | Concat l r _ _ \<Rightarrow> (case r of Some c \<Rightarrow> if c < i then node_text ns m c else [] | None \<Rightarrow> [])
         @ (case l of Some c \<Rightarrow> if c < i then node_text ns m c else [] | None \<Rightarrow> [])) else [])"
  by auto
termination by (relation "measure (\<lambda>(ns, m, i). i)") auto

declare node_text.simps [simp del]

definition child_text :: "rope_node list \<Rightarrow> memory \<Rightarrow> nat option \<Rightarrow> bytes" where
  "child_text ns m c = (case c of None \<Rightarrow> [] | Some i \<Rightarrow> node_text ns m i)"

lemma child_text_simps [simp]: "child_text ns m None = []" "child_text ns m (Some i) = node_text ns m i"
  by (simp_all add: child_text_def)

text \<open>Children come before their parents, and a right child is not a string.\<close>

fun node_ok :: "rope_node list \<Rightarrow> nat \<Rightarrow> rope_node \<Rightarrow> bool" where
  "node_ok ns i (Str p n t) = True"
| "node_ok ns i (Concat l r t lf) = ((\<forall>c. l = Some c \<longrightarrow> c < i)
     \<and> (\<forall>c. r = Some c \<longrightarrow> c < i \<and> (\<exists>l' r' t' lf'. ns ! c = Concat l' r' t' lf')))"

definition nodes_ok :: "rope_node list \<Rightarrow> bool" where
  "nodes_ok ns \<longleftrightarrow> (\<forall>i < length ns. node_ok ns i (ns ! i))"

lemma node_text_Str: "i < length ns \<Longrightarrow> ns ! i = Str p n t \<Longrightarrow> node_text ns m i = bytes_at m p (unat n)"
  by (subst node_text.simps) simp

lemma node_text_Concat:
  "nodes_ok ns \<Longrightarrow> i < length ns \<Longrightarrow> ns ! i = Concat l r t lf \<Longrightarrow>
    node_text ns m i = child_text ns m r @ child_text ns m l"
  unfolding nodes_ok_def by (subst node_text.simps) (auto split: option.splits)

lemma children:
  assumes "nodes_ok ns" and "i < length ns" and "ns ! i = Concat l r t lf"
  shows "l = Some c \<Longrightarrow> c < i" and "r = Some c \<Longrightarrow> c < i"
  using assms by (auto simp: nodes_ok_def)

section \<open>Walking changes only the way back\<close>

fun bare :: "rope_node \<Rightarrow> rope_node" where
  "bare (Str p n t) = Str p n None"
| "bare (Concat l r t lf) = Concat l r None False"

definition same_tree :: "rope_node list \<Rightarrow> rope_node list \<Rightarrow> bool" where
  "same_tree ns ns' \<longleftrightarrow> map bare ns = map bare ns'"

lemma same_tree_nth:
  assumes "same_tree ns ns'" and "i < length ns"
  shows "length ns' = length ns" and "bare (ns' ! i) = bare (ns ! i)"
proof -
  show len: "length ns' = length ns" using assms(1) by (metis same_tree_def length_map)
  have "map bare ns ! i = map bare ns' ! i" using assms(1) by (simp add: same_tree_def)
  then show "bare (ns' ! i) = bare (ns ! i)" using assms(2) len by simp
qed

lemma bare_eq:
  "bare n = Concat l r t lf \<longleftrightarrow> (\<exists>t' lf'. n = Concat l r t' lf') \<and> t = None \<and> lf = False"
  "bare n = Str p k t \<longleftrightarrow> (\<exists>t'. n = Str p k t') \<and> t = None"
  by (cases n; auto)+

lemma same_tree_Concat: "same_tree ns ns' \<Longrightarrow> i < length ns \<Longrightarrow> ns ! i = Concat l r t lf \<Longrightarrow>
    \<exists>t' lf'. ns' ! i = Concat l r t' lf'"
  using same_tree_nth(2) [of ns ns' i] by (simp add: bare_eq)

lemma same_tree_Str: "same_tree ns ns' \<Longrightarrow> i < length ns \<Longrightarrow> ns ! i = Str p n t \<Longrightarrow> \<exists>t'. ns' ! i = Str p n t'"
  using same_tree_nth(2) [of ns ns' i] by (simp add: bare_eq)

lemma same_tree_trans: "same_tree ns ns' \<Longrightarrow> same_tree ns' ns'' \<Longrightarrow> same_tree ns ns''"
  by (simp add: same_tree_def)

lemma same_tree_sym: "same_tree ns ns' \<Longrightarrow> same_tree ns' ns"
  by (simp add: same_tree_def)

lemma same_tree_refl [simp]: "same_tree ns ns"
  by (simp add: same_tree_def)

lemma same_tree_update: "i < length ns \<Longrightarrow> bare n = bare (ns ! i) \<Longrightarrow> same_tree ns (ns[i := n])"
  by (simp add: same_tree_def map_update) (metis list_update_id map_update nth_map length_map)

lemma bare_set_temp [simp]: "bare (set_temp t n) = bare n"
  by (cases n) simp_all

lemma same_tree_put_temp: "same_tree ns (put_temp i t ns)"
  by (cases "i < length ns") (simp_all add: put_temp_def same_tree_update list_update_beyond)

lemma same_tree_text: "same_tree ns ns' \<Longrightarrow> node_text ns' m i = node_text ns m i"
proof (induction i rule: less_induct)
  case (less i)
  show ?case
  proof (cases "i < length ns")
    case True
    note nth = same_tree_nth [OF less.prems True]
    show ?thesis
      by (subst (1 2) node_text.simps)
         (use True nth less.IH [OF _ less.prems] in \<open>cases "ns ! i"; auto simp: bare_eq split: option.splits\<close>)
  next
    case False
    then have "\<not> i < length ns'" using less.prems by (metis same_tree_def length_map)
    then show ?thesis using False by (simp add: node_text.simps)
  qed
qed

lemma same_tree_ok:
  assumes "same_tree ns ns'" and "nodes_ok ns"
  shows "nodes_ok ns'"
  unfolding nodes_ok_def
proof (intro allI impI)
  fix i assume "i < length ns'"
  then have i: "i < length ns" using assms(1) by (metis same_tree_def length_map)
  have ok: "node_ok ns i (ns ! i)" using assms(2) i by (simp add: nodes_ok_def)
  show "node_ok ns' i (ns' ! i)"
  proof (cases "ns ! i")
    case (Concat l r t lf)
    then obtain t' lf' where "ns' ! i = Concat l r t' lf'" using same_tree_Concat [OF assms(1) i] by blast
    moreover have "\<exists>l' r' t' lf'. ns' ! c = Concat l' r' t' lf'" if "r = Some c" for c
      using ok Concat that i same_tree_Concat [OF assms(1), of c] by fastforce
    ultimately show ?thesis using ok Concat by auto
  next
    case (Str p n t)
    then show ?thesis using same_tree_Str [OF assms(1) i] by auto
  qed
qed

section \<open>Writing backwards\<close>

definition wrote_text :: "u32 \<Rightarrow> bytes \<Rightarrow> u32 \<Rightarrow> memory \<Rightarrow> u32 \<Rightarrow> memory \<Rightarrow> bool" where
  "wrote_text buffer T off m off' m' \<longleftrightarrow> off' = off - of_nat (length T) \<and> bytes_at m' (buffer + off') (length T) = T
     \<and> same_on (- {unat buffer + unat off - length T ..< unat buffer + unat off}) m m'"

definition fits :: "u32 \<Rightarrow> bytes \<Rightarrow> u32 \<Rightarrow> bool" where
  "fits buffer T off \<longleftrightarrow> length T \<le> unat off \<and> unat buffer + unat off < 4294967296"

lemma wrote_off: "wrote_text buffer T off m off' m' \<Longrightarrow> fits buffer T off \<Longrightarrow> unat off' = unat off - length T"
  using unat_lt32 [of off] by (auto simp: wrote_text_def fits_def w32 order.strict_trans1)

lemma wrote_nothing: "wrote_text buffer [] off m off m"
  by (simp add: wrote_text_def)

lemma wrote_append:
  assumes "wrote_text buffer A off m off1 m1" and "wrote_text buffer B off1 m1 off2 m2" and "fits buffer (B @ A) off"
  shows "wrote_text buffer (B @ A) off m off2 m2"
proof -
  have A: "off1 = off - of_nat (length A)" "bytes_at m1 (buffer + off1) (length A) = A"
    "same_on (- {unat buffer + unat off - length A ..< unat buffer + unat off}) m m1"
    and B: "off2 = off1 - of_nat (length B)" "bytes_at m2 (buffer + off2) (length B) = B"
    "same_on (- {unat buffer + unat off1 - length B ..< unat buffer + unat off1}) m1 m2"
    using assms(1,2) unfolding wrote_text_def by blast+
  have u1: "unat off1 = unat off - length A" and len: "length A + length B \<le> unat off" "unat buffer + unat off < 4294967296"
    using assms(3) wrote_off [OF assms(1)] by (simp_all add: fits_def)
  have "bytes_at m2 (buffer + off1) (length A) = bytes_at m1 (buffer + off1) (length A)"
  proof (rule bytes_at_cong)
    fix i assume "i < length A"
    then have "unat (buffer + off1 + of_nat i) = unat buffer + unat off1 + i"
      using u1 len by (simp add: unat_add32 unat_addr_add)
    then show "m2 (buffer + off1 + of_nat i) = m1 (buffer + off1 + of_nat i)" using B(3) by (simp add: same_on_def)
  qed
  moreover have "bytes_at m2 (buffer + off2) (length B + length A) = B @ bytes_at m2 (buffer + off1) (length A)"
  proof -
    have e: "buffer + off2 + of_nat (length B) = buffer + off1" using B(1) by (simp add: algebra_simps)
    show ?thesis unfolding bytes_at_add B(2) e ..
  qed
  ultimately have "bytes_at m2 (buffer + off2) (length (B @ A)) = B @ A" using A(2) by simp
  moreover have "same_on (- {unat buffer + unat off - length (B @ A) ..< unat buffer + unat off}) m m2"
    by (rule same_on_trans [OF same_on_mono [OF A(3)] same_on_mono [OF B(3)]]) (use u1 len in auto)
  ultimately show ?thesis using A(1) B(1) by (simp add: wrote_text_def)
qed

section \<open>The loop\<close>

lemma walk_loop_step: "walk_step buffer w = Inr w' \<Longrightarrow> wk_at w \<noteq> None \<Longrightarrow> walk_loop buffer (Inr w) = walk_loop buffer (Inr w')"
  unfolding walk_loop_def by (subst while_option_unfold) (simp add: walk_on_def)

lemma walk_loop_end: "wk_at w = None \<Longrightarrow> walk_loop buffer (Inr w) = Some (Inr w)"
  unfolding walk_loop_def by (subst while_option_unfold) (simp add: walk_on_def)

text \<open>Strings lie outside the window that is written.\<close>

definition strings_apart :: "nat set \<Rightarrow> rope_node list \<Rightarrow> bool" where
  "strings_apart W ns \<longleftrightarrow> (\<forall>i < length ns. \<forall>p n t. ns ! i = Str p n t \<longrightarrow>
     unat p + unat n \<le> 4294967296 \<and> {unat p ..< unat p + unat n} \<inter> W = {})"

lemma strings_apart_same_tree: "same_tree ns ns' \<Longrightarrow> strings_apart W ns \<Longrightarrow> strings_apart W ns'"
  unfolding strings_apart_def using same_tree_Str same_tree_sym same_tree_nth(1) by metis

lemma bytes_at_same_on:
  assumes "same_on (- W) m0 m" and "unat p + n \<le> 4294967296" and "{unat p ..< unat p + n} \<inter> W = {}"
  shows "bytes_at m p n = bytes_at m0 p n"
proof (rule bytes_at_cong)
  fix i assume i: "i < n"
  then have "unat (p + of_nat i) = unat p + i" using assms(2) by (intro unat_addr_add) simp
  moreover have "unat p + i \<in> {unat p ..< unat p + n}" using i by simp
  then have "unat p + i \<notin> W" using assms(3) by blast
  ultimately have "unat (p + of_nat i) \<in> - W" by simp
  then show "m (p + of_nat i) = m0 (p + of_nat i)" using assms(1) by (simp add: same_on_def)
qed

fun temp_of :: "rope_node \<Rightarrow> nat option" where
  "temp_of (Concat l r t lf) = t"
| "temp_of (Str p n t) = t"

text \<open>What a visit of node \<open>i\<close> does, whatever the state of the loop was.\<close>

definition walks :: "u32 \<Rightarrow> nat set \<Rightarrow> memory \<Rightarrow> nat \<Rightarrow> bool" where
  "walks buffer W m0 i \<longleftrightarrow> (\<forall>ns off m. nodes_ok ns \<and> i < length ns \<and> strings_apart W ns \<and> same_on (- W) m0 m
     \<and> fits buffer (node_text ns m0 i) off \<and> {unat buffer ..< unat buffer + unat off} \<subseteq> W \<longrightarrow>
     (\<exists>ns' off' m'. walk_loop buffer (Inr \<lparr>wk_at = Some i, wk_down = True, wk_nodes = ns, wk_off = off, wk_mem = m\<rparr>)
         = walk_loop buffer (Inr \<lparr>wk_at = temp_of (ns ! i), wk_down = False, wk_nodes = ns', wk_off = off', wk_mem = m'\<rparr>)
       \<and> same_tree ns ns' \<and> (\<forall>j. i < j \<longrightarrow> ns' ! j = ns ! j) \<and> wrote_text buffer (node_text ns m0 i) off m off' m'))"

lemma walksD:
  assumes "walks buffer W m0 i" and "nodes_ok ns" and "i < length ns" and "strings_apart W ns" and "same_on (- W) m0 m"
    and "fits buffer (node_text ns m0 i) off" and "{unat buffer ..< unat buffer + unat off} \<subseteq> W"
  obtains ns' off' m' where "walk_loop buffer (Inr \<lparr>wk_at = Some i, wk_down = True, wk_nodes = ns, wk_off = off, wk_mem = m\<rparr>)
         = walk_loop buffer (Inr \<lparr>wk_at = temp_of (ns ! i), wk_down = False, wk_nodes = ns', wk_off = off', wk_mem = m'\<rparr>)"
    "same_tree ns ns'" "\<forall>j. i < j \<longrightarrow> ns' ! j = ns ! j" "wrote_text buffer (node_text ns m0 i) off m off' m'"
  using assms unfolding walks_def by blast

text \<open>A string is copied to the end of the free part of the buffer.\<close>

lemma walks_Str:
  assumes "ns ! i = Str p n t" and "i < length ns" and "strings_apart W ns" and "same_on (- W) m0 m"
    and "fits buffer (node_text ns m0 i) off"
  shows "walk_step buffer \<lparr>wk_at = Some i, wk_down = True, wk_nodes = ns, wk_off = off, wk_mem = m\<rparr>
      = Inr \<lparr>wk_at = t, wk_down = False, wk_nodes = ns, wk_off = off - n,
          wk_mem = store_bytes (buffer + (off - n)) (node_text ns m0 i) m\<rparr>"
    and "wrote_text buffer (node_text ns m0 i) off m (off - n) (store_bytes (buffer + (off - n)) (node_text ns m0 i) m)"
proof -
  have nt: "node_text ns m0 i = bytes_at m0 p (unat n)" by (rule node_text_Str [OF assms(2,1)])
  have "bytes_at m p (unat n) = bytes_at m0 p (unat n)"
    using assms(1-4) by (intro bytes_at_same_on [of W]) (auto simp: strings_apart_def)
  then show "walk_step buffer \<lparr>wk_at = Some i, wk_down = True, wk_nodes = ns, wk_off = off, wk_mem = m\<rparr>
      = Inr \<lparr>wk_at = t, wk_down = False, wk_nodes = ns, wk_off = off - n,
          wk_mem = store_bytes (buffer + (off - n)) (node_text ns m0 i) m\<rparr>"
    using assms(1) nt by (simp add: walk_step_def Let_def)
  have len: "length (node_text ns m0 i) = unat n" using nt by simp
  have n: "unat n \<le> unat off" "unat buffer + unat off < 4294967296" using assms(5) len by (simp_all add: fits_def)
  have u: "unat (off - n) = unat off - unat n" using n(1) by (rule unat_sub32)
  then have a: "unat (buffer + (off - n)) = unat buffer + unat off - unat n" using n by (simp add: unat_add32)
  then have room: "unat (buffer + (off - n)) + length (node_text ns m0 i) \<le> 4294967296" using n len by simp
  have "same_on (- {unat buffer + unat off - unat n ..< unat buffer + unat off}) m
      (store_bytes (buffer + (off - n)) (node_text ns m0 i) m)"
    unfolding same_on_def using a n len by (auto intro!: store_bytes_outside [OF room])
  then show "wrote_text buffer (node_text ns m0 i) off m (off - n) (store_bytes (buffer + (off - n)) (node_text ns m0 i) m)"
    using bytes_at_store_bytes [OF room, of m] len by (simp add: wrote_text_def)
qed

text \<open>Going down to a child, through its subtree and back up to the node.\<close>

lemma descend_walks:
  assumes "walks buffer W m0 c" and "c < i" and "nodes_ok ns" and "i < length ns" and "strings_apart W ns"
    and "same_on (- W) m0 m" and "fits buffer (node_text ns m0 c) off" and "{unat buffer ..< unat buffer + unat off} \<subseteq> W"
    and "ns ! i = Concat l r t lf"
  obtains ns' off' m' where
    "walk_loop buffer (Inr (descend i c b \<lparr>wk_at = Some i, wk_down = d, wk_nodes = ns, wk_off = off, wk_mem = m\<rparr>))
       = walk_loop buffer (Inr \<lparr>wk_at = Some i, wk_down = False, wk_nodes = ns', wk_off = off', wk_mem = m'\<rparr>)"
    "same_tree ns ns'" "ns' ! i = Concat l r t b" "\<forall>j. i < j \<longrightarrow> ns' ! j = ns ! j"
    "wrote_text buffer (node_text ns m0 c) off m off' m'"
proof -
  let ?ns = "put_temp c (Some i) (ns[i := Concat l r t b])"
  have "same_tree ns (ns[i := Concat l r t b])" using assms(4,9) by (simp add: same_tree_update)
  then have same: "same_tree ns ?ns" using same_tree_put_temp same_tree_trans by blast
  have c: "c < length ?ns" "temp_of (?ns ! c) = Some i"
    using assms(2,4) by (auto simp: put_temp_def) (cases "ns ! c"; simp)
  have nt: "node_text ?ns m0 c = node_text ns m0 c" by (rule same_tree_text [OF same])
  obtain ns' off' m' where w: "walk_loop buffer (Inr \<lparr>wk_at = Some c, wk_down = True, wk_nodes = ?ns, wk_off = off, wk_mem = m\<rparr>)
         = walk_loop buffer (Inr \<lparr>wk_at = temp_of (?ns ! c), wk_down = False, wk_nodes = ns', wk_off = off', wk_mem = m'\<rparr>)"
    "same_tree ?ns ns'" "\<forall>j. c < j \<longrightarrow> ns' ! j = ?ns ! j" "wrote_text buffer (node_text ?ns m0 c) off m off' m'"
    by (rule walksD [OF assms(1) same_tree_ok [OF same assms(3)] c(1) strings_apart_same_tree [OF same assms(5)] assms(6)
          assms(7) [folded nt] assms(8)])
  show ?thesis
  proof (rule that)
    show "walk_loop buffer (Inr (descend i c b \<lparr>wk_at = Some i, wk_down = d, wk_nodes = ns, wk_off = off, wk_mem = m\<rparr>))
       = walk_loop buffer (Inr \<lparr>wk_at = Some i, wk_down = False, wk_nodes = ns', wk_off = off', wk_mem = m'\<rparr>)"
      using w(1) c(2) assms(9) by (simp add: descend_def)
    show "same_tree ns ns'" by (rule same_tree_trans [OF same w(2)])
    show "ns' ! i = Concat l r t b" using w(3) assms(2,4) by (simp add: put_temp_def)
    show "\<forall>j. i < j \<longrightarrow> ns' ! j = ns ! j" using w(3) assms(2) by (simp add: put_temp_def)
    show "wrote_text buffer (node_text ns m0 c) off m off' m'" using w(4) by (simp only: nt)
  qed
qed

text \<open>The steps of the loop at a node that is not a string.\<close>

lemma walk_steps:
  assumes "ns ! i = Concat l r t lf"
  shows "l = Some c \<Longrightarrow> walk_step buffer \<lparr>wk_at = Some i, wk_down = True, wk_nodes = ns, wk_off = off, wk_mem = m\<rparr>
      = Inr (descend i c True \<lparr>wk_at = Some i, wk_down = True, wk_nodes = ns, wk_off = off, wk_mem = m\<rparr>)"
    and "l = None \<Longrightarrow> r = Some c \<Longrightarrow> walk_step buffer \<lparr>wk_at = Some i, wk_down = True, wk_nodes = ns, wk_off = off, wk_mem = m\<rparr>
      = Inr (descend i c False \<lparr>wk_at = Some i, wk_down = True, wk_nodes = ns, wk_off = off, wk_mem = m\<rparr>)"
    and "l = None \<Longrightarrow> r = None \<Longrightarrow> walk_step buffer \<lparr>wk_at = Some i, wk_down = True, wk_nodes = ns, wk_off = off, wk_mem = m\<rparr>
      = Inr \<lparr>wk_at = t, wk_down = False, wk_nodes = ns, wk_off = off, wk_mem = m\<rparr>"
    and "r = Some c \<Longrightarrow> lf \<Longrightarrow> walk_step buffer \<lparr>wk_at = Some i, wk_down = False, wk_nodes = ns, wk_off = off, wk_mem = m\<rparr>
      = Inr (descend i c False \<lparr>wk_at = Some i, wk_down = False, wk_nodes = ns, wk_off = off, wk_mem = m\<rparr>)"
    and "r = None \<or> \<not> lf \<Longrightarrow> walk_step buffer \<lparr>wk_at = Some i, wk_down = False, wk_nodes = ns, wk_off = off, wk_mem = m\<rparr>
      = Inr \<lparr>wk_at = t, wk_down = False, wk_nodes = ns, wk_off = off, wk_mem = m\<rparr>"
  using assms by (auto simp: walk_step_def split: option.splits bool.splits)

text \<open>After the left subtree, or without one: the right subtree, and up.\<close>

lemma right_walks:
  assumes IH: "\<And>c. c < i \<Longrightarrow> walks buffer W m0 c"
    and ok: "nodes_ok ns" "i < length ns" "strings_apart W ns" "same_on (- W) m0 m"
    and fit: "fits buffer (child_text ns m0 r) off" "{unat buffer ..< unat buffer + unat off} \<subseteq> W"
    and n: "ns ! i = Concat l r t lf" and d: "if d then l = None else lf"
  obtains ns' off' m' where
    "walk_loop buffer (Inr \<lparr>wk_at = Some i, wk_down = d, wk_nodes = ns, wk_off = off, wk_mem = m\<rparr>)
       = walk_loop buffer (Inr \<lparr>wk_at = t, wk_down = False, wk_nodes = ns', wk_off = off', wk_mem = m'\<rparr>)"
    "same_tree ns ns'" "\<forall>j. i < j \<longrightarrow> ns' ! j = ns ! j" "wrote_text buffer (child_text ns m0 r) off m off' m'"
proof (cases r)
  case None
  have "walk_loop buffer (Inr \<lparr>wk_at = Some i, wk_down = d, wk_nodes = ns, wk_off = off, wk_mem = m\<rparr>)
      = walk_loop buffer (Inr \<lparr>wk_at = t, wk_down = False, wk_nodes = ns, wk_off = off, wk_mem = m\<rparr>)"
    by (cases d) (use walk_steps(3,5) [OF n] None d in \<open>simp_all add: walk_loop_step\<close>)
  from that [OF this] None show ?thesis by (simp add: wrote_nothing)
next
  case (Some c)
  have c: "c < i" using children(2) [OF ok(1,2) n Some] .
  have fit': "fits buffer (node_text ns m0 c) off" using fit(1) Some by simp
  obtain ns' off' m' where w:
    "walk_loop buffer (Inr (descend i c False \<lparr>wk_at = Some i, wk_down = d, wk_nodes = ns, wk_off = off, wk_mem = m\<rparr>))
       = walk_loop buffer (Inr \<lparr>wk_at = Some i, wk_down = False, wk_nodes = ns', wk_off = off', wk_mem = m'\<rparr>)"
    "same_tree ns ns'" "ns' ! i = Concat l r t False" "\<forall>j. i < j \<longrightarrow> ns' ! j = ns ! j"
    "wrote_text buffer (node_text ns m0 c) off m off' m'"
    by (rule descend_walks [OF IH [OF c] c ok fit' fit(2) n])
  have "walk_loop buffer (Inr \<lparr>wk_at = Some i, wk_down = d, wk_nodes = ns, wk_off = off, wk_mem = m\<rparr>)
      = walk_loop buffer (Inr (descend i c False \<lparr>wk_at = Some i, wk_down = d, wk_nodes = ns, wk_off = off, wk_mem = m\<rparr>))"
    by (cases d) (use walk_steps(2,4) [OF n] Some d in \<open>simp_all add: walk_loop_step\<close>)
  moreover have "walk_loop buffer (Inr \<lparr>wk_at = Some i, wk_down = False, wk_nodes = ns', wk_off = off', wk_mem = m'\<rparr>)
      = walk_loop buffer (Inr \<lparr>wk_at = t, wk_down = False, wk_nodes = ns', wk_off = off', wk_mem = m'\<rparr>)"
    using walk_steps(5) [OF w(3)] by (simp add: walk_loop_step)
  ultimately show ?thesis using that w(1,2,4,5) Some by simp
qed

lemma walks_node: "walks buffer W m0 i"
proof (induction i rule: less_induct)
  case (less i)
  show ?case
    unfolding walks_def
  proof (intro allI impI, elim conjE)
    fix ns off m
    assume ok: "nodes_ok ns" "i < length ns" "strings_apart W ns" "same_on (- W) m0 m"
      and fit: "fits buffer (node_text ns m0 i) off" "{unat buffer ..< unat buffer + unat off} \<subseteq> W"
    let ?goal = "\<exists>ns' off' m'. walk_loop buffer (Inr \<lparr>wk_at = Some i, wk_down = True, wk_nodes = ns, wk_off = off, wk_mem = m\<rparr>)
         = walk_loop buffer (Inr \<lparr>wk_at = temp_of (ns ! i), wk_down = False, wk_nodes = ns', wk_off = off', wk_mem = m'\<rparr>)
       \<and> same_tree ns ns' \<and> (\<forall>j. i < j \<longrightarrow> ns' ! j = ns ! j) \<and> wrote_text buffer (node_text ns m0 i) off m off' m'"
    show ?goal
    proof (cases "ns ! i")
      case (Str p n t)
      then show ?thesis
        using walks_Str [OF Str ok(2-4) fit(1)] by (intro exI conjI) (auto simp: walk_loop_step)
    next
      case n: (Concat l r t lf)
      have nt: "node_text ns m0 i = child_text ns m0 r @ child_text ns m0 l" by (rule node_text_Concat [OF ok(1,2) n])
      show ?thesis
      proof (cases l)
        case None
        have fit': "fits buffer (child_text ns m0 r) off" using fit(1) None by (simp add: nt)
        show ?thesis
          by (rule right_walks [OF less.IH ok fit' fit(2) n, of True]) (use None n nt in auto)
      next
        case (Some c)
        have c: "c < i" using children(1) [OF ok(1,2) n Some] .
        have fit1: "fits buffer (node_text ns m0 c) off" using fit(1) Some by (simp add: nt fits_def)
        obtain ns1 off1 m1 where w:
          "walk_loop buffer (Inr (descend i c True \<lparr>wk_at = Some i, wk_down = True, wk_nodes = ns, wk_off = off, wk_mem = m\<rparr>))
             = walk_loop buffer (Inr \<lparr>wk_at = Some i, wk_down = False, wk_nodes = ns1, wk_off = off1, wk_mem = m1\<rparr>)"
          "same_tree ns ns1" "ns1 ! i = Concat l r t True" "\<forall>j. i < j \<longrightarrow> ns1 ! j = ns ! j"
          "wrote_text buffer (node_text ns m0 c) off m off1 m1"
          by (rule descend_walks [OF less.IH [OF c] c ok fit1 fit(2) n])
        have u: "unat off1 = unat off - length (node_text ns m0 c)" by (rule wrote_off [OF w(5) fit1])
        have ok1: "nodes_ok ns1" "i < length ns1" "strings_apart W ns1"
          using same_tree_ok [OF w(2) ok(1)] same_tree_nth(1) [OF w(2) ok(2)] strings_apart_same_tree [OF w(2) ok(3)] ok(2)
          by simp_all
        have sub: "{unat buffer ..< unat buffer + unat off1} \<subseteq> W"
          by (rule subset_trans [OF _ fit(2)]) (use u in auto)
        have in1: "{unat buffer + unat off - length (node_text ns m0 c) ..< unat buffer + unat off} \<subseteq> W"
          by (rule subset_trans [OF _ fit(2)]) (use fit1 in \<open>auto simp: fits_def\<close>)
        have same1: "same_on (- W) m0 m1"
          by (rule same_on_trans [OF ok(4) same_on_mono]) (use w(5) in1 in \<open>auto simp: wrote_text_def\<close>)
        have r1: "child_text ns1 m0 r = child_text ns m0 r" by (cases r) (simp_all add: same_tree_text [OF w(2)])
        have fit2: "fits buffer (child_text ns1 m0 r) off1" using fit(1) Some u r1 by (auto simp: nt fits_def)
        obtain ns2 off2 m2 where w2:
          "walk_loop buffer (Inr \<lparr>wk_at = Some i, wk_down = False, wk_nodes = ns1, wk_off = off1, wk_mem = m1\<rparr>)
             = walk_loop buffer (Inr \<lparr>wk_at = t, wk_down = False, wk_nodes = ns2, wk_off = off2, wk_mem = m2\<rparr>)"
          "same_tree ns1 ns2" "\<forall>j. i < j \<longrightarrow> ns2 ! j = ns1 ! j" "wrote_text buffer (child_text ns1 m0 r) off1 m1 off2 m2"
          by (rule right_walks [OF less.IH ok1 same1 fit2 sub w(3), of False]) auto
        have "walk_loop buffer (Inr \<lparr>wk_at = Some i, wk_down = True, wk_nodes = ns, wk_off = off, wk_mem = m\<rparr>)
            = walk_loop buffer (Inr \<lparr>wk_at = temp_of (ns ! i), wk_down = False, wk_nodes = ns2, wk_off = off2, wk_mem = m2\<rparr>)"
          using walk_steps(1) [OF n Some] w(1) w2(1) n by (simp add: walk_loop_step)
        moreover have "wrote_text buffer (node_text ns m0 i) off m off2 m2"
          using wrote_append [OF w(5) w2(4)] fit(1) Some by (simp add: nt r1)
        moreover have "same_tree ns ns2" by (rule same_tree_trans [OF w(2) w2(2)])
        moreover have "\<forall>j. i < j \<longrightarrow> ns2 ! j = ns ! j" using w(4) w2(3) by simp
        ultimately show ?thesis by (intro exI conjI)
      qed
    qed
  qed
qed

section \<open>Ropes as strings\<close>

lemma node_text_same_on:
  "strings_apart W ns \<Longrightarrow> same_on (- W) m0 m \<Longrightarrow> node_text ns m i = node_text ns m0 i"
proof (induction i rule: less_induct)
  case (less i)
  show ?case
  proof (cases "i < length ns")
    case True
    show ?thesis
    proof (cases "ns ! i")
      case (Str p n t)
      have "bytes_at m p (unat n) = bytes_at m0 p (unat n)"
        using less.prems Str True by (intro bytes_at_same_on [of W]) (auto simp: strings_apart_def)
      then show ?thesis using True Str by (simp add: node_text_Str)
    next
      case (Concat l r t lf)
      then show ?thesis
        by (subst (1 2) node_text.simps) (use True less.IH [OF _ less.prems] in \<open>auto split: option.splits\<close>)
    qed
  qed (simp add: node_text.simps)
qed

lemma node_text_append: "i < length ns \<Longrightarrow> node_text (ns @ xs) m i = node_text ns m i"
proof (induction i rule: less_induct)
  case (less i)
  then show ?case
    by (subst (1 2) node_text.simps) (auto simp: nth_append split: rope_node.split option.split)
qed

lemma node_ok_append: "node_ok ns i n \<Longrightarrow> i \<le> length ns \<Longrightarrow> node_ok (ns @ xs) i n"
  by (cases n) (auto simp: nth_append)

lemma nodes_ok_append: "nodes_ok ns \<Longrightarrow> node_ok ns (length ns) n \<Longrightarrow> nodes_ok (ns @ [n])"
  using node_ok_append [of ns _ _ "[n]"] by (auto simp: nodes_ok_def nth_append less_Suc_eq)

text \<open>A rope stands for a list of bytes.\<close>

definition is_concat :: "rope_node \<Rightarrow> bool" where
  "is_concat n \<longleftrightarrow> (\<exists>l r t lf. n = Concat l r t lf)"

definition rope_is :: "rope_node list \<Rightarrow> memory \<Rightarrow> rope \<Rightarrow> bytes \<Rightarrow> bool" where
  "rope_is ns m rp T \<longleftrightarrow> nodes_ok ns \<and> rp_size rp = of_nat (length T)
     \<and> (\<exists>i < length ns. rp_root rp = Some i \<and> is_concat (ns ! i) \<and> node_text ns m i = T)"

lemma is_concat_Concat [simp]: "is_concat (Concat l r t lf)" "\<not> is_concat (Str p n t)"
  by (auto simp: is_concat_def)

text \<open>Ropes that were built before keep their texts.\<close>

definition keeps_ropes :: "memory \<Rightarrow> rope_node list \<Rightarrow> rope_node list \<Rightarrow> bool" where
  "keeps_ropes m ns ns' \<longleftrightarrow> (\<forall>rp T. rope_is ns m rp T \<longrightarrow> rope_is ns' m rp T)"

lemma keeps_ropes_append: "nodes_ok (ns @ xs) \<Longrightarrow> keeps_ropes m ns (ns @ xs)"
  unfolding keeps_ropes_def
proof (intro allI impI)
  fix rp T assume ok: "nodes_ok (ns @ xs)" and "rope_is ns m rp T"
  then obtain i where "i < length ns" "rp_root rp = Some i" "is_concat (ns ! i)" "node_text ns m i = T"
    "rp_size rp = of_nat (length T)" by (auto simp: rope_is_def)
  then have "i < length (ns @ xs) \<and> rp_root rp = Some i \<and> is_concat ((ns @ xs) ! i) \<and> node_text (ns @ xs) m i = T"
    by (simp add: nth_append node_text_append)
  then show "rope_is (ns @ xs) m rp T" using ok \<open>rp_size rp = of_nat (length T)\<close> unfolding rope_is_def by blast
qed

lemma new_string_nodes:
  fixes ns :: "rope_node list" and root :: "nat option" and p n :: u32
  assumes "nodes_ok ns" and "root = None \<or> (\<exists>i < length ns. root = Some i \<and> is_concat (ns ! i))"
  defines "ns' \<equiv> ns @ [Str p n None, Concat (Some (length ns)) root None False]"
  shows "nodes_ok ns'" and "node_text ns' m (Suc (length ns)) = child_text ns m root @ bytes_at m p (unat n)"
    and "is_concat (ns' ! Suc (length ns))" and "length ns' = Suc (Suc (length ns))"
proof -
  have "nodes_ok (ns @ [Str p n None])" using assms(1) by (simp add: nodes_ok_append)
  moreover have "node_ok (ns @ [Str p n None]) (length (ns @ [Str p n None])) (Concat (Some (length ns)) root None False)"
    using assms(2) by (auto simp: nth_append is_concat_def)
  ultimately show ok: "nodes_ok ns'" using nodes_ok_append unfolding ns'_def by fastforce
  have nth: "ns' ! length ns = Str p n None" "ns' ! Suc (length ns) = Concat (Some (length ns)) root None False"
    by (simp_all add: ns'_def nth_append)
  have "node_text ns' m (length ns) = bytes_at m p (unat n)"
    by (rule node_text_Str [OF _ nth(1)]) (simp add: ns'_def)
  moreover have "child_text ns' m root = child_text ns m root"
    using assms(2) by (auto simp: ns'_def node_text_append)
  ultimately show "node_text ns' m (Suc (length ns)) = child_text ns m root @ bytes_at m p (unat n)"
    using node_text_Concat [OF ok _ nth(2), of m] by (simp add: ns'_def)
  show "is_concat (ns' ! Suc (length ns))" unfolding nth(2) by simp
  show "length ns' = Suc (Suc (length ns))" by (simp add: ns'_def)
qed

lemma rope_of_view_ok:
  assumes "nodes_ok ns" and "rope_of_view p n ns = (rp, ns')"
  shows "rope_is ns' m rp (bytes_at m p (unat n))" and "keeps_ropes m ns ns'"
proof -
  note new = new_string_nodes [OF assms(1), of None p n]
  have rp: "rp = \<lparr>rp_root = Some (Suc (length ns)), rp_last = None, rp_size = n\<rparr>"
    "ns' = ns @ [Str p n None, Concat (Some (length ns)) None None False]"
    using assms(2) by (auto simp: rope_of_view_def)
  show "rope_is ns' m rp (bytes_at m p (unat n))" using new by (simp add: rope_is_def rp)
  show "keeps_ropes m ns ns'" unfolding rp(2) using new(1) by (intro keeps_ropes_append) simp
qed

lemma rope_append_ok:
  assumes "rope_is ns m rp T"
  shows "\<exists>rp' ns'. rope_append s len rp ns = Inr (rp', ns') \<and> rope_is ns' m rp' (T @ bytes_at m s (unat len))
    \<and> keeps_ropes m ns ns'"
proof -
  obtain i where i: "i < length ns" "rp_root rp = Some i" "is_concat (ns ! i)" "node_text ns m i = T"
    "nodes_ok ns" "rp_size rp = of_nat (length T)" using assms by (auto simp: rope_is_def)
  let ?ns = "ns @ [Str s len None, Concat (Some (length ns)) (rp_root rp) None False]"
  note new = new_string_nodes [OF i(5), of "rp_root rp" s len]
  have r: "rp_root rp = None \<or> (\<exists>i < length ns. rp_root rp = Some i \<and> is_concat (ns ! i))" using i by simp
  have upd: "(ns @ [Str s len None, Concat (Some (length ns)) None None False])
      [Suc (length ns) := Concat (Some (length ns)) (rp_root rp) None False] = ?ns"
    by (simp add: list_update_append)
  have "rope_append s len rp ns
      = Inr (rp\<lparr>rp_root := Some (Suc (length ns)), rp_size := rp_size rp + len\<rparr>, ?ns)"
    using upd by (simp add: rope_append_def append_node_def nth_append)
  moreover have "rope_is ?ns m (rp\<lparr>rp_root := Some (Suc (length ns)), rp_size := rp_size rp + len\<rparr>)
      (T @ bytes_at m s (unat len))"
    using new [OF r] i by (simp add: rope_is_def)
  moreover have "keeps_ropes m ns ?ns" using new(1) [OF r] by (rule keeps_ropes_append)
  ultimately show ?thesis by blast
qed

lemma rope_append_rope_ok:
  assumes "rope_is ns m rp T" and "rope_is ns m r R"
  shows "\<exists>rp' ns'. rope_append_rope r rp ns = Inr (rp', ns') \<and> rope_is ns' m rp' (T @ R) \<and> keeps_ropes m ns ns'"
proof -
  obtain i where i: "i < length ns" "rp_root rp = Some i" "is_concat (ns ! i)" "node_text ns m i = T"
    "nodes_ok ns" "rp_size rp = of_nat (length T)" using assms(1) by (auto simp: rope_is_def)
  obtain j where j: "j < length ns" "rp_root r = Some j" "is_concat (ns ! j)" "node_text ns m j = R"
    "rp_size r = of_nat (length R)" using assms(2) by (auto simp: rope_is_def)
  let ?ns = "ns @ [Concat (Some j) (Some i) None False]"
  have ok: "nodes_ok ?ns" using i(1,3,5) j(1) by (auto intro!: nodes_ok_append simp: is_concat_def)
  have "node_text ?ns m (length ns) = T @ R"
    using node_text_Concat [OF ok, of "length ns" "Some j" "Some i" None False m] i(1,4) j(1,4)
    by (simp add: node_text_append)
  then have "rope_is ?ns m (rp\<lparr>rp_root := Some (length ns), rp_size := rp_size rp + rp_size r\<rparr>) (T @ R)"
    using ok i(6) j(5) by (simp add: rope_is_def)
  moreover have "rope_append_rope r rp ns
      = Inr (rp\<lparr>rp_root := Some (length ns), rp_size := rp_size rp + rp_size r\<rparr>, ?ns)"
    using j(2,3) i(2) by (auto simp: rope_append_rope_def append_node_def is_concat_def)
  moreover have "keeps_ropes m ns ?ns" using ok by (rule keeps_ropes_append)
  ultimately show ?thesis by blast
qed

text \<open>\<open>c_str()\<close> ends and writes the text with a terminating zero; the ropes stay as they are.\<close>

lemma rope_c_str_ok:
  assumes "rope_is ns m rp T" and "unat ret + length T < 4294967295" and "strings_apart {unat ret ..< unat ret + length T + 1} ns"
  shows "\<exists>ns' m'. rope_c_str ret rp ns m = Some (Inr (ns', m')) \<and> bytes_at m' ret (length T) = T
    \<and> m' (ret + of_nat (length T)) = 0 \<and> same_on (- {unat ret ..< unat ret + length T + 1}) m m' \<and> rope_is ns' m' rp T"
proof -
  let ?W = "{unat ret ..< unat ret + length T + 1}" and ?n = "of_nat (length T) :: u32"
  obtain i where i: "i < length ns" "rp_root rp = Some i" "is_concat (ns ! i)" "node_text ns m i = T"
    "nodes_ok ns" "rp_size rp = ?n" using assms(1) by (auto simp: rope_is_def)
  let ?ns = "put_temp i None ns"
  have n: "unat ?n = length T" using assms(2) by (simp add: w32)
  have same: "same_tree ns ?ns" by (rule same_tree_put_temp)
  have nt: "node_text ?ns m i = T" using same_tree_text [OF same] i(4) by simp
  have temp: "temp_of (?ns ! i) = None" using i(1) by (simp add: put_temp_def) (cases "ns ! i"; simp)
  have fit: "fits ret (node_text ?ns m i) ?n" "{unat ret ..< unat ret + unat ?n} \<subseteq> ?W"
    using n assms(2) nt by (auto simp: fits_def)
  have len: "i < length ?ns" using i(1) by (simp add: put_temp_def)
  obtain ns' off' m' where w:
    "walk_loop ret (Inr \<lparr>wk_at = Some i, wk_down = True, wk_nodes = ?ns, wk_off = ?n, wk_mem = m\<rparr>)
      = walk_loop ret (Inr \<lparr>wk_at = temp_of (?ns ! i), wk_down = False, wk_nodes = ns', wk_off = off', wk_mem = m'\<rparr>)"
    "same_tree ?ns ns'" "\<forall>j. i < j \<longrightarrow> ns' ! j = ?ns ! j" "wrote_text ret (node_text ?ns m i) ?n m off' m'"
    by (rule walksD [OF walks_node same_tree_ok [OF same i(5)] len strings_apart_same_tree [OF same assms(3)]
          same_on_refl fit])
  let ?m = "m'(ret + ?n := 0)"
  have c: "rope_c_str ret rp ns m = Some (Inr (ns', ?m))"
    using w(1) i(2,6) by (simp add: rope_c_str_def write_text_def temp walk_loop_end)
  have off: "off' = 0" "bytes_at m' ret (length T) = T" "same_on (- {unat ret ..< unat ret + length T}) m m'"
  proof -
    have z: "off' = 0" using w(4) by (simp add: wrote_text_def nt)
    then show "off' = 0" "bytes_at m' ret (length T) = T" "same_on (- {unat ret ..< unat ret + length T}) m m'"
      using w(4) n by (auto simp: wrote_text_def nt)
  qed
  have e: "unat (ret + ?n) = unat ret + length T" using assms(2) n by (simp add: w32)
  have "bytes_at ?m ret (length T) = bytes_at m' ret (length T)"
  proof (rule bytes_at_cong)
    fix k assume "k < length T"
    then have "unat (ret + of_nat k) = unat ret + k" using assms(2) by (intro unat_addr_add) linarith
    then have "ret + of_nat k \<noteq> ret + ?n" using e \<open>k < length T\<close> by (metis add_left_cancel less_irrefl)
    then show "?m (ret + of_nat k) = m' (ret + of_nat k)" by simp
  qed
  moreover have mem: "same_on (- ?W) m ?m" using off(3) e by (auto simp: same_on_def)
  moreover have "rope_is ns' ?m rp T"
  proof -
    have same': "same_tree ns ns'" by (rule same_tree_trans [OF same w(2)])
    have "node_text ns' ?m i = T"
      using node_text_same_on [OF strings_apart_same_tree [OF same' assms(3)] mem] same_tree_text [OF same'] i(4) by simp
    moreover have "is_concat (ns' ! i)" using i(1,3) same_tree_Concat [OF same'] unfolding is_concat_def by blast
    moreover have "i < length ns'" using same_tree_nth(1) [OF same' i(1)] i(1) by simp
    ultimately show ?thesis using same_tree_ok [OF same' i(5)] i(2,6) by (auto simp: rope_is_def)
  qed
  ultimately show ?thesis using c off(2) by (intro exI conjI) auto
qed

section \<open>Single characters\<close>

lemma at_node_stopped:
  "is_concat (ns ! i) \<Longrightarrow> at_node ns m index (Some i) (c, so_far, True) = Some (c, so_far, True)"
  by (subst at_node.simps) (auto simp: is_concat_def)

text \<open>
  A visit of node \<open>i\<close> that has \<open>k\<close> bytes up to the end of its text finds the character when the
  index lies in the text, and otherwise passes it.
\<close>

definition at_finds :: "rope_node list \<Rightarrow> memory \<Rightarrow> u32 \<Rightarrow> nat \<Rightarrow> bytes \<Rightarrow> u8 \<Rightarrow> u32 \<Rightarrow> bool" where
  "at_finds ns m index i X c k \<longleftrightarrow> length X \<le> unat k \<longrightarrow> unat index < unat k \<longrightarrow>
     (if unat k - length X \<le> unat index
      then \<exists>k'. at_node ns m index (Some i) (c, k, False) = Some (X ! (unat index - (unat k - length X)), k', True)
      else at_node ns m index (Some i) (c, k, False) = Some (c, k - of_nat (length X), False))"

lemma at_finds_Str:
  assumes "ns ! i = Str p n t" and "i < length ns"
  shows "at_finds ns m index i (node_text ns m i) c k"
  unfolding at_finds_def
proof (intro impI)
  have nt: "node_text ns m i = bytes_at m p (unat n)" by (rule node_text_Str [OF assms(2,1)])
  assume len: "length (node_text ns m i) \<le> unat k" and ix: "unat index < unat k"
  have u: "unat (k - n) = unat k - unat n" using len by (simp add: nt w32)
  have le: "k - n \<le> index \<longleftrightarrow> unat k - unat n \<le> unat index" by (simp only: word32_le_unat u)
  show "if unat k - length (node_text ns m i) \<le> unat index
      then \<exists>k'. at_node ns m index (Some i) (c, k, False)
        = Some (node_text ns m i ! (unat index - (unat k - length (node_text ns m i))), k', True)
      else at_node ns m index (Some i) (c, k, False) = Some (c, k - of_nat (length (node_text ns m i)), False)"
  proof (cases "unat k - unat n \<le> unat index")
    case True
    have "unat index - (unat k - unat n) < unat n" using ix len True by (simp add: nt)
    then have "bytes_at m p (unat n) ! (unat index - (unat k - unat n)) = m (p + of_nat (unat index - (unat k - unat n)))"
      by (simp add: bytes_at_def)
    moreover have "unat (index - (k - n)) = unat index - (unat k - unat n)"
      using unat_sub32 [of "k - n" index] True u by simp
    then have "of_nat (unat index - (unat k - unat n)) = index - (k - n)" by (metis of_nat_unat ucast_id)
    ultimately have "m (p + (index - (k - n))) = bytes_at m p (unat n) ! (unat index - (unat k - unat n))" by simp
    then show ?thesis using assms(1) le True by (subst at_node.simps) (simp add: nt Let_def)
  next
    case False
    then show ?thesis using assms(1) le by (subst at_node.simps) (simp add: nt Let_def)
  qed
qed

lemma at_finds_node:
  "nodes_ok ns \<Longrightarrow> i < length ns \<Longrightarrow> at_finds ns m index i (node_text ns m i) c k"
proof (induction i arbitrary: c k rule: less_induct)
  case (less i c k)
  show ?case
  proof (cases "ns ! i")
    case (Str p n t)
    then show ?thesis using less.prems(2) by (rule at_finds_Str)
  next
    case n: (Concat l r t lf)
    note ch = children [OF less.prems n]
    have right: "\<And>c'. r = Some c' \<Longrightarrow> is_concat (ns ! c')"
      using less.prems n by (fastforce simp: nodes_ok_def is_concat_def)
    define L R where "L = child_text ns m l" and "R = child_text ns m r"
    have nt: "node_text ns m i = R @ L" using node_text_Concat [OF less.prems n] by (simp add: L_def R_def)
    have IH: "at_finds ns m index c' (node_text ns m c') c k" if "c' < i" for c' c k
      using less.IH [OF that less.prems(1)] that less.prems(2) by simp
    show ?thesis
      unfolding at_finds_def
    proof (intro impI)
      assume len: "length (node_text ns m i) \<le> unat k" and ix: "unat index < unat k"
      have left: "if unat k - length L \<le> unat index
        then \<exists>k'. (if l \<noteq> None then at_node ns m index l (c, k, False) else Some (c, k, False))
            = Some (L ! (unat index - (unat k - length L)), k', True)
        else (if l \<noteq> None then at_node ns m index l (c, k, False) else Some (c, k, False))
            = Some (c, k - of_nat (length L), False)"
      proof (cases l)
        case None
        then show ?thesis using ix by (simp add: L_def)
      next
        case (Some c')
        then have L: "L = node_text ns m c'" by (simp add: L_def)
        then have "length (node_text ns m c') \<le> unat k" using len by (simp add: nt)
        note mp [OF mp [OF IH [OF ch(1) [OF Some], of c k, unfolded at_finds_def] this] ix]
        then show ?thesis unfolding L Some by simp
      qed
      show "if unat k - length (node_text ns m i) \<le> unat index
        then \<exists>k'. at_node ns m index (Some i) (c, k, False)
          = Some (node_text ns m i ! (unat index - (unat k - length (node_text ns m i))), k', True)
        else at_node ns m index (Some i) (c, k, False) = Some (c, k - of_nat (length (node_text ns m i)), False)"
      proof (cases "unat k - length L \<le> unat index")
        case True
        then obtain k' where k': "(if l \<noteq> None then at_node ns m index l (c, k, False) else Some (c, k, False))
            = Some (L ! (unat index - (unat k - length L)), k', True)" using left by auto
        have "at_node ns m index (Some i) (c, k, False) = Some (L ! (unat index - (unat k - length L)), k', True)"
          using k' n right at_node_stopped by (subst at_node.simps) (cases r; simp)
        moreover have "(R @ L) ! (unat index - (unat k - length (R @ L))) = L ! (unat index - (unat k - length L))"
        proof -
          have "\<not> unat index - (unat k - length (R @ L)) < length R"
            "unat index - (unat k - length (R @ L)) - length R = unat index - (unat k - length L)"
            using True len by (auto simp: nt)
          then show ?thesis by (simp only: nth_append if_False)
        qed
        moreover have "unat k - length (R @ L) \<le> unat index" using True by simp
        ultimately show ?thesis by (simp only: nt if_True) blast
      next
        case False
        then have l': "(if l \<noteq> None then at_node ns m index l (c, k, False) else Some (c, k, False))
            = Some (c, k - of_nat (length L), False)" using left by simp
        have lk: "length L \<le> unat k" using len by (simp add: nt)
        then have lu: "unat (of_nat (length L) :: u32) = length L" using unat_lt32 [of k] by (intro unat_of_nat32) linarith
        have u: "unat (k - of_nat (length L)) = unat k - length L" using unat_sub32 [of "of_nat (length L)" k] lk lu by simp
        show ?thesis
        proof (cases r)
          case None
          then show ?thesis using l' n False by (subst at_node.simps) (simp add: nt R_def)
        next
          case (Some c')
          have down: "at_node ns m index (Some i) (c, k, False) = at_node ns m index (Some c') (c, k - of_nat (length L), False)"
            using l' n Some by (subst at_node.simps) simp
          have nth: "(R @ L) ! (unat index - (unat k - length (R @ L))) = R ! (unat index - (unat k - length (R @ L)))"
            if "unat k - length (R @ L) \<le> unat index"
          proof -
            have "length R + length L \<le> unat k" using len by (simp add: nt)
            then have "unat index - (unat k - length (R @ L)) < length R" using that False unfolding length_append by linarith
            then show ?thesis by (simp only: nth_append if_True)
          qed
          have R: "R = node_text ns m c'" using Some by (simp add: R_def)
          have "length R \<le> unat (k - of_nat (length L))" using len by (simp only: u nt length_append)
          moreover have "unat index < unat (k - of_nat (length L))" using False by (simp only: u)
          ultimately have "if unat k - length L - length R \<le> unat index
            then \<exists>k'. at_node ns m index (Some i) (c, k, False) = Some (R ! (unat index - (unat k - length L - length R)), k', True)
            else at_node ns m index (Some i) (c, k, False) = Some (c, k - of_nat (length L) - of_nat (length R), False)"
            using IH [OF ch(2) [OF Some], of c "k - of_nat (length L)", folded R]
            unfolding at_finds_def u down by (simp only: simp_thms)
          moreover have "unat k - length L - length R = unat k - length (R @ L)"
            "k - of_nat (length L) - of_nat (length R) = k - of_nat (length (R @ L))" by simp_all
          ultimately show ?thesis using nth by (simp only: nt simp_thms split: if_splits)
        qed
      qed
    qed
  qed
qed

lemma rope_at_ok:
  assumes "rope_is ns m rp T" and "length T < 4294967296" and "unat index < length T"
  shows "rope_at m index rp ns = Some (T ! unat index)"
proof -
  obtain i where i: "i < length ns" "rp_root rp = Some i" "node_text ns m i = T" "nodes_ok ns"
    "rp_size rp = of_nat (length T)" using assms(1) by (auto simp: rope_is_def)
  have "unat (of_nat (length T) :: u32) = length T" using assms(2) by (simp add: w32)
  then show ?thesis
    using at_finds_node [OF i(4,1), of m index 0 "of_nat (length T)"] assms(3) i(2,3,5)
    by (auto simp: at_finds_def rope_at_def)
qed

text \<open>Beyond the end of the text the memory behind the last string is read.\<close>

lemma rope_at_unchecked:
  assumes "rope_of_view p n ns = (rp, ns')" and "n \<le> index"
  shows "rope_at m index rp ns' = Some (m (p + index))"
proof -
  have "rp = \<lparr>rp_root = Some (Suc (length ns)), rp_last = None, rp_size = n\<rparr>"
    "ns' = ns @ [Str p n None, Concat (Some (length ns)) None None False]" using assms(1) by (auto simp: rope_of_view_def)
  moreover have "at_node ns' m index (Some (length ns)) (0, n, False) = Some (m (p + index), 0, True)"
    using calculation by (subst at_node.simps) (simp add: nth_append)
  moreover have "at_node ns' m index (Some (Suc (length ns))) (0, n, False) = at_node ns' m index (Some (length ns)) (0, n, False)"
    using calculation by (subst at_node.simps) (simp add: nth_append)
  ultimately show ?thesis by (simp add: rope_at_def)
qed

end
