(* ===== verification/RopeProps.thy ===== *)
theory RopeProps
  imports RopeSafe
begin

text \<open>The properties of ropes, with an instance built by the constructor and an append.\<close>

lemma strlen_loop_ok:
  "m (str + i + of_nat k) = 0 \<Longrightarrow> (\<And>j. j < k \<Longrightarrow> m (str + i + of_nat j) \<noteq> 0) \<Longrightarrow>
    strlen_loop m str i = Some (i + of_nat k + 1)"
proof (induction k arbitrary: i)
  case 0
  then show ?case by (subst strlen_loop.simps) simp
next
  case (Suc k)
  have "m (str + i) \<noteq> 0" using Suc.prems(2) [of 0] by simp
  moreover have "strlen_loop m str (i + 1) = Some (i + 1 + of_nat k + 1)"
    by (rule Suc.IH) (use Suc.prems Suc.prems(2) [of "Suc j" for j] in \<open>auto simp: algebra_simps\<close>)
  ultimately show ?case by (subst strlen_loop.simps) (simp add: algebra_simps)
qed

lemma rope_strlen_ok:
  "m (str + of_nat k) = 0 \<Longrightarrow> (\<And>j. j < k \<Longrightarrow> m (str + of_nat j) \<noteq> 0) \<Longrightarrow> rope_strlen m str = Some (of_nat k + 1)"
  using strlen_loop_ok [of m str 0 k] by (simp add: rope_strlen_def)

section \<open>A concrete rope\<close>

abbreviation counting_memory :: memory where
  "counting_memory \<equiv> \<lambda>a. ucast a"

lemma bytes_at_counting: "bytes_at counting_memory 16 (Suc 0) = [16]" "bytes_at counting_memory 32 2 = [32, 33]"
  by (simp_all add: bytes_at_def upt_rec)

lemma sample_rope:
  obtains rp ns where "rope_is ns counting_memory rp [16, 32, 33]" "strings_apart {1024 ..< 1028} ns"
proof -
  obtain rp0 ns0 where r0: "rope_of_view 16 1 [] = (rp0, ns0)" by fastforce
  have "rope_is ns0 counting_memory rp0 [16]"
    using rope_of_view_ok(1) [OF _ r0, of counting_memory] by (simp add: nodes_ok_def bytes_at_counting)
  then obtain rp ns where r: "rope_append 32 2 rp0 ns0 = Inr (rp, ns)" "rope_is ns counting_memory rp ([16] @ [32, 33])"
    using rope_append_ok [of ns0 counting_memory rp0 "[16]" 32 2] by (auto simp: bytes_at_counting)
  have "ns = [Str 16 1 None, Concat (Some 0) None None False, Str 32 2 None, Concat (Some 2) (Some 1) None False]"
    using r(1) r0 by (auto simp: rope_of_view_def rope_append_def append_node_def)
  then have "strings_apart {1024 ..< 1028} ns"
    unfolding strings_apart_def by (auto simp: nth_Cons less_Suc_eq split: nat.splits)
  then show ?thesis using that r(2) by simp
qed

section \<open>The properties\<close>

text \<open>
  C22. A rope is a string: the constructor yields the given bytes, appending a string, a C string or
  another rope appends its bytes, \<open>length\<close> is the number of bytes, \<open>at\<close> returns the byte with the given
  index, and no operation changes the text of a rope built before. Appending an array of \<open>N\<close>
  characters appends all of them, for a string literal with its terminating zero.
\<close>
theorem rope_is_string:
  assumes "rope_is ns m rp T" and "rope_is ns m r R" and "length T < 4294967296"
  shows "(\<exists>rp' ns'. rope_of_view p n ns = (rp', ns') \<and> rope_is ns' m rp' (bytes_at m p (unat n)) \<and> keeps_ropes m ns ns')
    \<and> (\<exists>rp' ns'. rope_append s len rp ns = Inr (rp', ns') \<and> rope_is ns' m rp' (T @ bytes_at m s (unat len))
        \<and> keeps_ropes m ns ns')
    \<and> (\<exists>rp' ns'. rope_append_array s len rp ns = Inr (rp', ns') \<and> rope_is ns' m rp' (T @ bytes_at m s (unat len))
        \<and> keeps_ropes m ns ns')
    \<and> (m (s + of_nat k) = 0 \<and> (\<forall>j < k. m (s + of_nat j) \<noteq> 0) \<and> k < 4294967296 \<longrightarrow>
        (\<exists>rp' ns'. rope_append_cstr m s rp ns = Some (Inr (rp', ns')) \<and> rope_is ns' m rp' (T @ bytes_at m s k)
          \<and> keeps_ropes m ns ns'))
    \<and> (\<exists>rp' ns'. rope_append_rope r rp ns = Inr (rp', ns') \<and> rope_is ns' m rp' (T @ R) \<and> keeps_ropes m ns ns')
    \<and> unat (rope_length rp) = length T
    \<and> (unat index < length T \<longrightarrow> rope_at m index rp ns = Some (T ! unat index))"
proof (intro conjI impI)
  obtain rp' ns' where v: "rope_of_view p n ns = (rp', ns')" by fastforce
  have "nodes_ok ns" using assms(1) by (simp add: rope_is_def)
  from rope_of_view_ok [OF this v] v
  show "\<exists>rp' ns'. rope_of_view p n ns = (rp', ns') \<and> rope_is ns' m rp' (bytes_at m p (unat n)) \<and> keeps_ropes m ns ns'"
    by blast
  show "unat (rope_length rp) = length T" using assms(1,3) by (simp add: rope_length_def rope_is_def w32)
  assume k: "m (s + of_nat k) = 0 \<and> (\<forall>j < k. m (s + of_nat j) \<noteq> 0) \<and> k < 4294967296"
  then have "rope_append_cstr m s rp ns = Some (rope_append s (of_nat k) rp ns)"
    using rope_strlen_ok [of m s k] by (simp add: rope_append_cstr_def)
  moreover have "unat (of_nat k :: u32) = k" using k by (simp add: w32)
  ultimately show "\<exists>rp' ns'. rope_append_cstr m s rp ns = Some (Inr (rp', ns')) \<and> rope_is ns' m rp' (T @ bytes_at m s k)
      \<and> keeps_ropes m ns ns'" using rope_append_ok [OF assms(1), of s "of_nat k"] by simp
qed (simp_all add: rope_append_ok [OF assms(1)] rope_append_rope_ok [OF assms(1,2)] rope_at_ok [OF assms(1,3)] rope_append_array_def)

theorem rope_is_string_witness:
  "\<exists>rp ns rp' ns'. rope_is ns counting_memory rp [16, 32, 33] \<and> rope_at counting_memory 2 rp ns = Some 33
    \<and> rope_append_rope rp rp ns = Inr (rp', ns') \<and> rope_is ns' counting_memory rp' [16, 32, 33, 16, 32, 33]"
proof -
  obtain rp ns where r: "rope_is ns counting_memory rp [16, 32, 33]" by (rule sample_rope)
  from rope_is_string [OF r r, of 0 0 0 0 0 2] r show ?thesis by auto
qed

text \<open>
  C23. \<open>c_str()\<close> terminates: the loop without a stack comes back to the root and ends, with the text of
  the rope and a terminating zero in the new buffer and no other byte of the memory changed. The way
  back is kept in fields of the nodes that no other operation reads: the rope has the same text after.
\<close>
theorem rope_c_str_terminates:
  assumes "rope_is ns m rp T" and "unat ret + length T < 4294967295" and "strings_apart {unat ret ..< unat ret + length T + 1} ns"
  shows "\<exists>ns' m'. rope_c_str ret rp ns m = Some (Inr (ns', m')) \<and> bytes_at m' ret (length T) = T
    \<and> m' (ret + of_nat (length T)) = 0 \<and> same_on (- {unat ret ..< unat ret + length T + 1}) m m' \<and> rope_is ns' m' rp T"
  by (rule rope_c_str_ok [OF assms])

theorem rope_c_str_terminates_witness:
  "\<exists>rp ns ns' m'. rope_is ns counting_memory rp [16, 32, 33] \<and> rope_c_str 1024 rp ns counting_memory = Some (Inr (ns', m'))
    \<and> bytes_at m' 1024 3 = [16, 32, 33] \<and> m' 1027 = 0"
proof -
  obtain rp ns where r: "rope_is ns counting_memory rp [16, 32, 33]" "strings_apart {1024 ..< 1028} ns" by (rule sample_rope)
  have len: "length [16, 32, 33 :: u8] = 3" by simp
  have "\<exists>ns' m'. rope_c_str 1024 rp ns counting_memory = Some (Inr (ns', m')) \<and> bytes_at m' 1024 3 = [16, 32, 33] \<and> m' 1027 = 0"
    using rope_c_str_terminates [OF r(1), of 1024, unfolded len] r(2) by auto
  with r(1) show ?thesis by blast
qed

end
