(* ===== verification/Powers.thy ===== *)
theory Powers
  imports ByteBlocks
begin

text \<open>
  The tables of powers of \<open>core/eosio/powers.hpp\<close>, which are computed while the contract is compiled,
  and \<open>write_decimal\<close> of \<open>eosiolib.cpp\<close>, which uses the one of base ten. A recursion or a check that
  fails during compilation makes the program ill-formed, which is the result \<open>None\<close>.
\<close>

section \<open>Tables of powers\<close>

text \<open>
  \<open>largest_power_helper\<close>: \<open>Value\<close> has 64 bits and is converted to the type \<open>T\<close> of \<open>width\<close> bits before
  it is passed on; an \<open>Exponent\<close> above 255 does not fit its parameter.
\<close>

function largest_power_helper :: "nat \<Rightarrow> u64 \<Rightarrow> nat \<Rightarrow> u64 \<Rightarrow> (u64 \<times> nat) option" where
  "largest_power_helper width base e v =
     (if v * base < v then (if e < 255 then Some (v, e) else None)
      else if e < 255 then largest_power_helper width base (e + 1) (take_bit width (v * base)) else None)"
  by auto
termination by (relation "measure (\<lambda>(_, _, e, _). 255 - e)") auto

declare largest_power_helper.simps [simp del]

definition largest_power :: "nat \<Rightarrow> u64 \<Rightarrow> (u64 \<times> nat) option" where
  "largest_power width base = largest_power_helper width base 0 1"

fun pow_loop :: "u64 \<Rightarrow> nat \<Rightarrow> u64 \<Rightarrow> u64 result" where
  "pow_loop base 0 prior = Inr prior"
| "pow_loop base (Suc k) prior = (let r = prior * base in
     res_bind (check (\<not> r \<le> prior) ''overflow'') (\<lambda>_. pow_loop base k r))"

definition detail_pow :: "u64 \<Rightarrow> nat \<Rightarrow> u64 result" where
  "detail_pow base e = res_bind (check (\<not> base \<le> 1) ''base must be at least 2'') (\<lambda>_. pow_loop base e 1)"

definition pow_generator :: "u64 \<Rightarrow> nat \<Rightarrow> u64 result" where
  "pow_generator base i = detail_pow base i"

definition generate_array :: "nat \<Rightarrow> (nat \<Rightarrow> u64 result) \<Rightarrow> u64 list option" where
  "generate_array n g = those (map (\<lambda>i. case g i of Inl _ \<Rightarrow> None | Inr v \<Rightarrow> Some v) [0..<n])"

definition powers_of_base :: "u64 \<Rightarrow> u64 list option" where
  "powers_of_base base = (case largest_power 64 base of
     None \<Rightarrow> None | Some (v, e) \<Rightarrow> generate_array (e + 1) (pow_generator base))"

definition table_pow :: "u64 \<Rightarrow> nat \<Rightarrow> u64 result option" where
  "table_pow base e = (case powers_of_base base of None \<Rightarrow> None
     | Some tab \<Rightarrow> Some (res_bind (check (\<not> length tab \<le> e) ''overflow'') (\<lambda>_. Inr (tab ! e))))"

section \<open>Facts about the tables\<close>

lemma unat_mult64: "unat (a :: u64) * unat b < 18446744073709551616 \<Longrightarrow> unat (a * b) = unat a * unat b"
  by (simp add: unat_word_ariths)

lemma unat_of_nat64: "n < 18446744073709551616 \<Longrightarrow> unat (of_nat n :: u64) = n"
  by (simp add: unat_of_nat take_bit_eq_mod)

text \<open>While the powers fit into 64 bits the helper goes on with exact powers.\<close>

lemma helper_exact:
  "2 \<le> unat b \<Longrightarrow> unat b ^ k < 18446744073709551616 \<Longrightarrow> k \<le> 255 \<Longrightarrow>
    largest_power_helper 64 b 0 1 = largest_power_helper 64 b k (of_nat (unat b ^ k))"
proof (induction k)
  case (Suc k)
  have le: "unat b ^ k \<le> unat b ^ Suc k" using Suc.prems(1) by simp
  then have small: "unat b ^ k < 18446744073709551616" using Suc.prems(2) by linarith
  have "(of_nat (unat b ^ k) :: u64) * b = of_nat (unat b ^ Suc k)" by simp
  moreover have "\<not> (of_nat (unat b ^ Suc k) :: u64) < of_nat (unat b ^ k)"
    unfolding word_less_nat_alt unat_of_nat64 [OF Suc.prems(2)] unat_of_nat64 [OF small] using le by linarith
  moreover have "take_bit 64 (w :: u64) = w" for w by (simp add: take_bit_word_eq_self)
  moreover have "k < 255" using Suc.prems(3) by simp
  ultimately have "largest_power_helper 64 b k (of_nat (unat b ^ k)) = largest_power_helper 64 b (Suc k) (of_nat (unat b ^ Suc k))"
    by (subst largest_power_helper.simps) (simp only: if_True if_False Suc_eq_plus1)
  then show ?case using Suc.IH Suc.prems small by simp
qed simp

text \<open>The recursion never runs out of exponents and never yields less than the powers that fit.\<close>

lemma helper_result: "largest_power_helper n b e v = Some (v', e') \<Longrightarrow> e \<le> e'"
  by (induction n b e v rule: largest_power_helper.induct) (subst (asm) (2) largest_power_helper.simps, auto split: if_splits)

lemma narrow_types_ill_formed:
  "n \<le> 32 \<Longrightarrow> unat b < 256 \<Longrightarrow> 1 \<le> unat b \<Longrightarrow> unat v < 2 ^ n \<Longrightarrow> largest_power_helper n b e v = None"
proof (induction n b e v rule: largest_power_helper.induct)
  case (1 n b e v)
  have "unat v < 4294967296" using 1(5) power_increasing [OF 1(2), of "2 :: nat"] by (simp add: order.strict_trans2)
  then have "unat v * unat b < 4294967296 * 256" using 1(3) by (intro mult_strict_mono) simp_all
  then have "unat (v * b) = unat v * unat b" by (intro unat_mult64) simp
  then have "\<not> v * b < v" using 1(4) by (simp add: word_less_nat_alt)
  moreover have "unat (take_bit n (v * b)) < 2 ^ n" by (simp add: unsigned_take_bit_eq)
  ultimately show ?case using 1 by (subst largest_power_helper.simps) simp
qed

lemma those_Some: "those xs = Some ys \<Longrightarrow> map Some ys = xs"
  by (induction xs arbitrary: ys) (auto split: option.splits)

lemma generate_array_nth:
  assumes "generate_array n g = Some tab"
  shows "length tab = n" and "i < n \<Longrightarrow> g i = Inr (tab ! i)"
proof -
  have m: "map Some tab = map (\<lambda>i. case g i of Inl _ \<Rightarrow> None | Inr v \<Rightarrow> Some v) [0..<n]"
    using those_Some assms by (simp add: generate_array_def)
  show len: "length tab = n" using arg_cong [OF m, of length] by simp
  show "g i = Inr (tab ! i)" if "i < n" using arg_cong [OF m, of "\<lambda>xs. xs ! i"] that len by (auto split: sum.splits)
qed

lemma pow_loop_exact:
  "2 \<le> unat b \<Longrightarrow> unat b ^ (j + k) < 18446744073709551616 \<Longrightarrow>
    pow_loop b k (of_nat (unat b ^ j)) = Inr (of_nat (unat b ^ (j + k)))"
proof (induction k arbitrary: j)
  case (Suc k)
  have "unat b ^ Suc j \<le> unat b ^ (j + Suc k)" using Suc.prems(1) by (intro power_increasing) simp_all
  then have small: "unat b ^ Suc j < 18446744073709551616" using Suc.prems(2) by linarith
  have lt: "unat b ^ j < unat b ^ Suc j" using Suc.prems(1) by simp
  have "(of_nat (unat b ^ j) :: u64) * b = of_nat (unat b ^ Suc j)" by simp
  moreover have "\<not> (of_nat (unat b ^ Suc j) :: u64) \<le> of_nat (unat b ^ j)"
    unfolding word_le_nat_alt unat_of_nat64 [OF small] unat_of_nat64 [OF order.strict_trans [OF lt small]] using lt by linarith
  ultimately have "pow_loop b (Suc k) (of_nat (unat b ^ j)) = pow_loop b k (of_nat (unat b ^ Suc j))"
    by (simp only: pow_loop.simps Let_def check_simps res_bind_simps simp_thms)
  then show ?case using Suc.IH [of "Suc j"] Suc.prems by simp
qed simp

lemma table_exact:
  assumes "powers_of_base b = Some tab" and "2 \<le> unat b" and "unat b ^ k < 18446744073709551616"
  shows "k < length tab" and "tab ! k = of_nat (unat b ^ k)"
proof -
  obtain v e where e: "largest_power 64 b = Some (v, e)" "generate_array (e + 1) (pow_generator b) = Some tab"
    using assms(1) by (auto simp: powers_of_base_def split: option.splits)
  have "(2 :: nat) ^ k \<le> unat b ^ k" using assms(2) by (rule power_mono) simp
  then have "(2 :: nat) ^ k < 2 ^ 64" using assms(3) by simp
  then have "k < 64" by (rule power_less_imp_less_exp [rotated]) simp
  then have "largest_power_helper 64 b k (of_nat (unat b ^ k)) = Some (v, e)"
    using helper_exact [OF assms(2,3)] e(1) by (simp add: largest_power_def)
  from helper_result [OF this] have k: "k < e + 1" by simp
  then show "k < length tab" using generate_array_nth(1) [OF e(2)] by simp
  have "pow_generator b k = Inr (of_nat (unat b ^ k))"
    using pow_loop_exact [OF assms(2), of 0 k] assms(2,3) by (simp add: pow_generator_def detail_pow_def word_le_nat_alt)
  then show "tab ! k = of_nat (unat b ^ k)" using generate_array_nth(2) [OF e(2) k] by simp
qed

lemma table_10: "powers_of_base 10 = Some (map (\<lambda>i. 10 ^ i) [0..<20])"
  by code_simp

lemma table_3: "table_pow 3 41 = Some (Inr 18026252303461234787)"
  by code_simp

section \<open>write_decimal\<close>

definition powers_of_ten :: "u64 list" where
  "powers_of_ten = (case powers_of_base 10 of Some tab \<Rightarrow> tab | None \<Rightarrow> [])"

text \<open>\<open>std::upper_bound\<close> on the table; the numbers of characters are below 260 and are natural numbers.\<close>

definition decimal_length :: "u64 \<Rightarrow> nat" where
  "decimal_length number = length (takeWhile (\<lambda>p. p \<le> number) powers_of_ten)"

text \<open>The four loops, from the last character to the first.\<close>

definition put_char :: "u32 \<Rightarrow> int \<Rightarrow> u8 \<Rightarrow> memory \<Rightarrow> memory" where
  "put_char begin' i c m = m(begin' + of_int i := c)"

definition digit_char :: "u64 \<Rightarrow> u8" where
  "digit_char number = ucast (number mod 10) + 48"

function fraction_loop :: "u32 \<Rightarrow> int \<Rightarrow> int \<Rightarrow> u64 \<Rightarrow> memory \<Rightarrow> int \<times> u64 \<times> memory" where
  "fraction_loop begin' pos i number m =
     (if number > 0 \<and> i > pos then fraction_loop begin' pos (i - 1) (number div 10) (put_char begin' i (digit_char number) m)
      else (i, number, m))"
  by auto
termination by (relation "measure (\<lambda>(_, pos, i, _, _). nat (i - pos))") auto

function zero_loop :: "u32 \<Rightarrow> int \<Rightarrow> int \<Rightarrow> memory \<Rightarrow> int \<times> memory" where
  "zero_loop begin' pos i m = (if i > pos then zero_loop begin' pos (i - 1) (put_char begin' i 48 m) else (i, m))"
  by auto
termination by (relation "measure (\<lambda>(_, pos, i, _). nat (i - pos))") auto

function whole_loop :: "u32 \<Rightarrow> int \<Rightarrow> int \<Rightarrow> u64 \<Rightarrow> memory \<Rightarrow> int \<times> memory" where
  "whole_loop begin' pos i number m =
     (if i \<ge> pos then whole_loop begin' pos (i - 1) (number div 10) (put_char begin' i (digit_char number) m) else (i, m))"
  by auto
termination by (relation "measure (\<lambda>(_, pos, i, _, _). nat (i + 1 - pos))") auto

declare fraction_loop.simps [simp del] zero_loop.simps [simp del] whole_loop.simps [simp del]

definition write_decimal :: "u32 \<Rightarrow> u32 \<Rightarrow> bool \<Rightarrow> u64 \<Rightarrow> u8 \<Rightarrow> bool \<Rightarrow> memory \<Rightarrow> u32 \<times> memory" where
  "write_decimal begin' end' dry_run number num_decimal_places negative m =
     (let num_digits = decimal_length number; places = unat num_decimal_places;
          (needed1, pos1) = (if places \<ge> num_digits then (max num_digits places + 1, 1)
            else (max num_digits places, num_digits - places));
          needed2 = (if places > 0 then needed1 + 1 else needed1);
          (needed, after_minus, pos) = (if negative then (needed2 + 1, 1, pos1 + 1) else (needed2, 0, pos1));
          actual_end = begin' + of_nat needed
      in if dry_run \<or> actual_end < begin' \<or> end' < actual_end then (actual_end, m)
         else
           let (i1, number1, m1) = fraction_loop begin' (int pos) (int needed - 1) number m;
               (i2, m2) = zero_loop begin' (int pos) i1 m1;
               (i3, m3) = (if i2 = int pos then (i2 - 1, put_char begin' i2 46 m2) else (i2, m2));
               (i4, m4) = whole_loop begin' (int after_minus) i3 number1 m3
           in (actual_end, if i4 = 0 then put_char begin' i4 45 m4 else m4))"

end
