(* ===== verification/Decimal.thy ===== *)
theory Decimal
  imports Powers
begin

text \<open>
  What \<open>write_decimal\<close> writes: the sign, the decimal digits of the whole part, and the point with the
  given number of decimal places. The loops write from the last character to the first; each is
  shown to store a list of characters.
\<close>

section \<open>Decimal texts\<close>

fun decimal_digits :: "nat \<Rightarrow> bytes" where
  "decimal_digits n = (if n < 10 then [of_nat n + 48] else decimal_digits (n div 10) @ [of_nat (n mod 10) + 48])"

declare decimal_digits.simps [simp del]

primrec padded_digits :: "nat \<Rightarrow> nat \<Rightarrow> bytes" where
  "padded_digits 0 n = []"
| "padded_digits (Suc k) n = padded_digits k (n div 10) @ [of_nat (n mod 10) + 48]"

definition decimal_text :: "bool \<Rightarrow> nat \<Rightarrow> nat \<Rightarrow> bytes" where
  "decimal_text negative places n = (if negative then [45] else []) @ decimal_digits (n div 10 ^ places)
     @ (if places = 0 then [] else 46 # padded_digits places n)"

lemma length_padded [simp]: "length (padded_digits k n) = k"
  by (induction k arbitrary: n) simp_all

lemma padded_zero: "padded_digits k 0 = replicate k 48"
  by (induction k) (simp_all add: replicate_append_same)

lemma padded_is_decimal:
  "n < 10 ^ Suc k \<Longrightarrow> k = 0 \<or> 10 ^ k \<le> n \<Longrightarrow> padded_digits (Suc k) n = decimal_digits n"
proof (induction k arbitrary: n)
  case 0
  then show ?case by (simp add: decimal_digits.simps)
next
  case (Suc k)
  have "n div 10 < 10 ^ Suc k" using Suc.prems(1) by (simp add: div_less_iff_less_mult)
  moreover have "10 ^ k \<le> n div 10" using Suc.prems(2) by (simp add: less_eq_div_iff_mult_less_eq mult.commute)
  ultimately have "padded_digits (Suc k) (n div 10) = decimal_digits (n div 10)" using Suc.IH by blast
  moreover have "(10 :: nat) \<le> 10 ^ Suc k" by simp
  then have "\<not> n < 10" using Suc.prems(2) by linarith
  ultimately show ?case by (subst decimal_digits.simps) simp
qed

text \<open>The table gives the number of digits.\<close>

lemma powers_of_ten_list: "powers_of_ten = map (\<lambda>i. 10 ^ i) [0..<20]"
  by (simp add: powers_of_ten_def table_10)

lemma unat_power10: "i < 20 \<Longrightarrow> unat (10 ^ i :: u64) = 10 ^ i"
proof -
  assume "i < 20"
  then have "(10 :: nat) ^ i \<le> 10 ^ 19" by (intro power_increasing) simp_all
  then have "unat (of_nat (10 ^ i) :: u64) = 10 ^ i" by (intro unat_of_nat64) simp
  then show ?thesis by simp
qed

lemma decimal_length_bounds:
  "decimal_length n \<le> 20" "unat n < 10 ^ decimal_length n"
  "decimal_length n = Suc k \<Longrightarrow> 10 ^ k \<le> unat n"
proof -
  let ?P = "\<lambda>p. p \<le> n"
  have len: "decimal_length n = length (takeWhile ?P powers_of_ten)" by (simp add: decimal_length_def)
  have le: "length (takeWhile ?P powers_of_ten) \<le> 20"
    using length_takeWhile_le [of ?P powers_of_ten] by (simp add: powers_of_ten_list)
  then show "decimal_length n \<le> 20" by (simp add: len)
  show "unat n < 10 ^ decimal_length n"
  proof (cases "decimal_length n < 20")
    case True
    then have "\<not> ?P (powers_of_ten ! decimal_length n)"
      using nth_length_takeWhile [of ?P powers_of_ten] by (simp add: len powers_of_ten_list)
    then show ?thesis using True by (simp add: powers_of_ten_list word_le_nat_alt unat_power10)
  next
    case False
    then have "decimal_length n = 20" using le len by simp
    moreover have "unat n < 18446744073709551616" using unsigned_less [of n] by simp
    ultimately show ?thesis by simp
  qed
  assume k: "decimal_length n = Suc k"
  then have kt: "k < length (takeWhile ?P powers_of_ten)" using len by simp
  have "?P (takeWhile ?P powers_of_ten ! k)" by (rule set_takeWhileD [OF nth_mem [OF kt], THEN conjunct2])
  moreover have "takeWhile ?P powers_of_ten ! k = powers_of_ten ! k" by (rule takeWhile_nth [OF kt])
  moreover have "k < 20" using k le len by simp
  ultimately show "10 ^ k \<le> unat n" by (simp add: powers_of_ten_list word_le_nat_alt unat_power10)
qed

section \<open>The loops\<close>

lemma store_bytes_snoc: "store_bytes a (xs @ [c]) m = (store_bytes a xs m)(a + of_nat (length xs) := c)"
  by (induction xs arbitrary: a m) (simp_all add: algebra_simps)

lemma offset_neq: "i < j \<Longrightarrow> j < 4294967296 \<Longrightarrow> a + of_nat i \<noteq> a + (of_nat j :: u32)"
  using unat_of_nat32 [of i] unat_of_nat32 [of j] by (metis add_left_cancel less_trans nat_neq_iff)

lemma store_bytes_update_other:
  "(\<And>i. i < length xs \<Longrightarrow> a + of_nat i \<noteq> p) \<Longrightarrow> store_bytes a xs (m(p := c)) = (store_bytes a xs m)(p := c)"
proof (induction xs arbitrary: a m)
  case (Cons x xs)
  have "p \<noteq> a" using Cons.prems [of 0] by simp
  then have twist: "m(p := c, a := x) = m(a := x, p := c)" by (rule fun_upd_twist)
  have "store_bytes (a + 1) xs (m(a := x, p := c)) = (store_bytes (a + 1) xs (m(a := x)))(p := c)"
    by (rule Cons.IH) (use Cons.prems [of "Suc i" for i] in \<open>simp add: algebra_simps\<close>)
  then show ?case by (simp only: store_bytes.simps twist)
qed simp

lemma store_bytes_append: "store_bytes a (xs @ ys) m = store_bytes (a + of_nat (length xs)) ys (store_bytes a xs m)"
  by (induction xs arbitrary: a m) (simp_all add: algebra_simps)

text \<open>A block that ends where another one starts can be stored before or after it.\<close>

lemma store_bytes_swap:
  "unat a + length xs + length ys \<le> 4294967296 \<Longrightarrow>
    store_bytes a xs (store_bytes (a + of_nat (length xs)) ys m) = store_bytes a (xs @ ys) m"
proof (induction ys rule: rev_induct)
  case (snoc y ys)
  have e: "a + of_nat (length xs) + of_nat (length ys) = a + of_nat (length (xs @ ys))" by simp
  have "a + of_nat i \<noteq> a + of_nat (length (xs @ ys))" if "i < length xs" for i
    by (rule offset_neq) (use snoc.prems that in simp_all)
  then have "store_bytes a xs (store_bytes (a + of_nat (length xs)) (ys @ [y]) m)
      = (store_bytes a xs (store_bytes (a + of_nat (length xs)) ys m))(a + of_nat (length (xs @ ys)) := y)"
    unfolding store_bytes_snoc e by (rule store_bytes_update_other)
  moreover have "store_bytes a xs (store_bytes (a + of_nat (length xs)) ys m) = store_bytes a (xs @ ys) m"
    by (rule snoc.IH) (use snoc.prems in simp)
  ultimately show ?case by (simp only: store_bytes_snoc append_assoc [symmetric])
qed simp

text \<open>Storing the last character first.\<close>

lemma put_last:
  assumes "unat a + length xs < 4294967296"
  shows "store_bytes a xs (m(a + of_nat (length xs) := c)) = store_bytes a (xs @ [c]) m"
  using store_bytes_swap [of a xs "[c]" m] assms by simp

lemma digit_char_nat: "digit_char n = of_nat (unat n mod 10) + 48"
proof -
  have "ucast (n mod 10) = (of_nat (unat (n mod 10)) :: u8)" by (simp only: of_nat_unat)
  then show ?thesis by (simp add: digit_char_def unat_mod)
qed

lemma zero_loop_ok:
  "unat (b + of_int (pos + 1)) + k \<le> 4294967296 \<Longrightarrow>
    zero_loop b pos (pos + int k) m = (pos, store_bytes (b + of_int (pos + 1)) (replicate k 48) m)"
proof (induction k arbitrary: m)
  case 0
  then show ?case by (subst zero_loop.simps) simp
next
  case (Suc k)
  have at: "b + of_int (pos + int (Suc k)) = b + of_int (pos + 1) + of_nat (length (replicate k (48 :: u8)))" by simp
  have "zero_loop b pos (pos + int (Suc k)) m = zero_loop b pos (pos + int k) (put_char b (pos + int (Suc k)) 48 m)"
    by (subst zero_loop.simps) simp
  also have "\<dots> = (pos, store_bytes (b + of_int (pos + 1)) (replicate k 48) (put_char b (pos + int (Suc k)) 48 m))"
    by (rule Suc.IH) (use Suc.prems in simp)
  also have "\<dots> = (pos, store_bytes (b + of_int (pos + 1)) (replicate k 48 @ [48]) m)"
    unfolding put_char_def at by (subst put_last) (use Suc.prems in simp_all)
  finally show ?case by (simp add: replicate_append_same)
qed

lemma whole_loop_ok:
  "unat (b + of_int pos) + k \<le> 4294967296 \<Longrightarrow>
    whole_loop b pos (pos + int k - 1) n m = (pos - 1, store_bytes (b + of_int pos) (padded_digits k (unat n)) m)"
proof (induction k arbitrary: n m)
  case 0
  then show ?case by (subst whole_loop.simps) simp
next
  case (Suc k)
  let ?d = "padded_digits k (unat (n div 10))"
  have at: "b + of_int (pos + int (Suc k) - 1) = b + of_int pos + of_nat (length ?d)" by simp
  have "whole_loop b pos (pos + int (Suc k) - 1) n m
      = whole_loop b pos (pos + int k - 1) (n div 10) (put_char b (pos + int (Suc k) - 1) (digit_char n) m)"
    by (subst whole_loop.simps) simp
  also have "\<dots> = (pos - 1, store_bytes (b + of_int pos) ?d (put_char b (pos + int (Suc k) - 1) (digit_char n) m))"
    by (rule Suc.IH) (use Suc.prems in simp)
  also have "\<dots> = (pos - 1, store_bytes (b + of_int pos) (?d @ [digit_char n]) m)"
    unfolding put_char_def at by (subst put_last) (use Suc.prems in simp_all)
  finally show ?case by (simp add: digit_char_nat unat_div)
qed

text \<open>The loop over the decimal places and the one that fills up with zeros.\<close>

lemma fraction_loop_ok:
  "unat (b + of_int (pos + 1)) + k \<le> 4294967296 \<Longrightarrow>
    \<exists>i1 n1 m1. fraction_loop b pos (pos + int k) n m = (i1, n1, m1) \<and> unat n1 = unat n div 10 ^ k
      \<and> zero_loop b pos i1 m1 = (pos, store_bytes (b + of_int (pos + 1)) (padded_digits k (unat n)) m)"
proof (induction k arbitrary: n m)
  case 0
  then show ?case using zero_loop_ok [of b pos 0] by (subst fraction_loop.simps) simp
next
  case (Suc k)
  show ?case
  proof (cases "n = 0")
    case True
    then show ?thesis using zero_loop_ok [OF Suc.prems, of m] padded_zero [of "Suc k"] by (subst fraction_loop.simps) simp
  next
    case False
    let ?d = "padded_digits k (unat (n div 10))" and ?m = "put_char b (pos + int (Suc k)) (digit_char n) m"
    have at: "b + of_int (pos + int (Suc k)) = b + of_int (pos + 1) + of_nat (length ?d)" by simp
    have "fraction_loop b pos (pos + int (Suc k)) n m = fraction_loop b pos (pos + int k) (n div 10) ?m"
      using False by (subst fraction_loop.simps) (simp add: word_neq_0_conv)
    moreover obtain i1 n1 m1 where "fraction_loop b pos (pos + int k) (n div 10) ?m = (i1, n1, m1)"
      "unat n1 = unat (n div 10) div 10 ^ k" "zero_loop b pos i1 m1 = (pos, store_bytes (b + of_int (pos + 1)) ?d ?m)"
      using Suc.IH [of "n div 10" ?m] Suc.prems by auto
    moreover have "store_bytes (b + of_int (pos + 1)) ?d ?m = store_bytes (b + of_int (pos + 1)) (?d @ [digit_char n]) m"
      unfolding put_char_def at by (rule put_last) (use Suc.prems in simp)
    ultimately show ?thesis by (simp add: digit_char_nat unat_div div_mult2_eq)
  qed
qed

section \<open>The whole function\<close>

definition whole_digits :: "u64 \<Rightarrow> nat \<Rightarrow> nat" where
  "whole_digits n p = (if decimal_length n \<le> p then 1 else decimal_length n - p)"

lemma whole_part: "padded_digits (whole_digits n p) (unat n div 10 ^ p) = decimal_digits (unat n div 10 ^ p)"
proof (cases "decimal_length n \<le> p")
  case True
  then have "(10 :: nat) ^ decimal_length n \<le> 10 ^ p" by (intro power_increasing) simp_all
  then have "unat n < 10 ^ p" using order.strict_trans2 [OF decimal_length_bounds(2) [of n]] by blast
  then have "unat n div 10 ^ p = 0" by simp
  then show ?thesis using True by (simp add: whole_digits_def decimal_digits.simps)
next
  case False
  then obtain k where k: "decimal_length n = Suc (k + p)" by (metis add.commute add_Suc_right less_imp_Suc_add not_le)
  have "unat n < 10 ^ Suc k * 10 ^ p" using decimal_length_bounds(2) [of n] k by (simp add: power_add mult_ac)
  then have "unat n div 10 ^ p < 10 ^ Suc k" by (simp add: div_less_iff_less_mult)
  moreover have "10 ^ k * 10 ^ p \<le> unat n" using decimal_length_bounds(3) [OF k] by (simp add: power_add)
  then have "10 ^ k \<le> unat n div 10 ^ p" by (simp add: less_eq_div_iff_mult_less_eq)
  moreover have "whole_digits n p = Suc k" using k by (simp add: whole_digits_def)
  ultimately show ?thesis using padded_is_decimal [of "unat n div 10 ^ p" k] by simp
qed

lemma length_decimal_text:
  "length (decimal_text neg p (unat n)) = (if neg then 1 else 0) + whole_digits n p + (if p = 0 then 0 else p + 1)"
  by (simp add: decimal_text_def flip: whole_part)

text \<open>The decimal places with their point, and the rest.\<close>

definition fraction_part :: "u32 \<Rightarrow> u64 \<Rightarrow> nat \<Rightarrow> nat \<Rightarrow> memory \<Rightarrow> int \<times> u64 \<times> memory" where
  "fraction_part b n needed pos m =
     (let (i1, n1, m1) = fraction_loop b (int pos) (int needed - 1) n m;
          (i2, m2) = zero_loop b (int pos) i1 m1;
          (i3, m3) = (if i2 = int pos then (i2 - 1, put_char b i2 46 m2) else (i2, m2))
      in (i3, n1, m3))"

definition write_at :: "u32 \<Rightarrow> u64 \<Rightarrow> nat \<Rightarrow> nat \<Rightarrow> nat \<Rightarrow> memory \<Rightarrow> memory" where
  "write_at b n needed after_minus pos m = (case fraction_part b n needed pos m of (i3, n1, m3) \<Rightarrow>
     (case whole_loop b (int after_minus) i3 n1 m3 of (i4, m4) \<Rightarrow> if i4 = 0 then put_char b i4 45 m4 else m4))"

text \<open>The layout that the function computes.\<close>

lemma write_decimal_layout:
  assumes "p = unat d" and "needed = length (decimal_text neg p (unat n))"
  shows "write_decimal b e dry_run n d neg m = (b + of_nat needed,
    if dry_run \<or> b + of_nat needed < b \<or> e < b + of_nat needed then m
    else write_at b n needed (if neg then 1 else 0) ((if neg then 1 else 0) + whole_digits n p) m)"
proof -
  have "needed = (if neg then 1 else 0) + whole_digits n p + (if p = 0 then 0 else p + 1)"
    using assms(2) by (simp only: length_decimal_text)
  then show ?thesis
    unfolding write_decimal_def write_at_def fraction_part_def assms(1) [symmetric]
    by (cases "decimal_length n \<le> p"; cases "p = 0"; cases neg)
       (simp_all add: whole_digits_def Let_def split: prod.splits)
qed

definition fraction_text :: "nat \<Rightarrow> nat \<Rightarrow> bytes" where
  "fraction_text p n = (if p = 0 then [] else 46 # padded_digits p n)"

lemma fraction_part_ok:
  assumes "unat b + pos + length (fraction_text p (unat n)) < 4294967296"
  shows "\<exists>n1. fraction_part b n (pos + length (fraction_text p (unat n))) pos m
      = (int pos - 1, n1, store_bytes (b + of_nat pos) (fraction_text p (unat n)) m) \<and> unat n1 = unat n div 10 ^ p"
proof (cases "p = 0")
  case True
  then show ?thesis
    unfolding fraction_part_def
    by (subst fraction_loop.simps, subst zero_loop.simps) (simp add: fraction_text_def)
next
  case False
  then have F: "fraction_text p (unat n) = [46] @ padded_digits p (unat n)" by (simp add: fraction_text_def)
  have e: "b + of_int (int pos + 1) = b + of_nat pos + of_nat (length [46 :: u8])" by simp
  have "unat (b + of_int (int pos + 1)) = unat b + (pos + 1)"
    using unat_addr_add [of b "pos + 1"] assms F by (simp add: add.commute)
  then have "unat (b + of_int (int pos + 1)) + p \<le> 4294967296" using assms F by simp
  from fraction_loop_ok [OF this, of n m] obtain i1 n1 m1 where f:
    "fraction_loop b (int pos) (int pos + int p) n m = (i1, n1, m1)" "unat n1 = unat n div 10 ^ p"
    "zero_loop b (int pos) i1 m1 = (int pos, store_bytes (b + of_int (int pos + 1)) (padded_digits p (unat n)) m)" by blast
  have "unat (b + of_nat pos) = unat b + pos" using assms by (intro unat_addr_add) simp
  then have "store_bytes (b + of_nat pos) [46] (store_bytes (b + of_nat pos + of_nat (length [46 :: u8])) (padded_digits p (unat n)) m)
      = store_bytes (b + of_nat pos) (fraction_text p (unat n)) m"
    unfolding F by (intro store_bytes_swap) (use assms F in simp)
  then have "put_char b (int pos) 46 (store_bytes (b + of_int (int pos + 1)) (padded_digits p (unat n)) m)
      = store_bytes (b + of_nat pos) (fraction_text p (unat n)) m"
    by (simp add: put_char_def add.assoc)
  moreover have "length (fraction_text p (unat n)) = Suc p" using F by simp
  ultimately show ?thesis using f by (simp add: fraction_part_def)
qed

lemma write_at_ok:
  assumes "unat b + length (decimal_text neg p (unat n)) < 4294967296"
  shows "write_at b n (length (decimal_text neg p (unat n))) (if neg then 1 else 0)
      ((if neg then 1 else 0) + whole_digits n p) m = store_bytes b (decimal_text neg p (unat n)) m"
proof -
  let ?s = "if neg then 1 else 0 :: nat" and ?w = "whole_digits n p"
  define S W F where "S = (if neg then [45 :: u8] else [])" and "W = decimal_digits (unat n div 10 ^ p)"
    and "F = fraction_text p (unat n)"
  have T: "decimal_text neg p (unat n) = S @ W @ F" by (simp add: decimal_text_def S_def W_def F_def fraction_text_def)
  have len: "length S = ?s" "length W = ?w" by (simp_all add: S_def W_def flip: whole_part)
  have room: "unat b + (?s + ?w) + length F < 4294967296" using assms by (simp add: T len)
  obtain n1 where f: "fraction_part b n (?s + ?w + length F) (?s + ?w) m
      = (int (?s + ?w) - 1, n1, store_bytes (b + of_nat (?s + ?w)) F m)" "unat n1 = unat n div 10 ^ p"
    using fraction_part_ok [OF room [unfolded F_def], of m] unfolding F_def by blast
  have bs: "unat (b + of_nat ?s) = unat b + ?s" using room by (intro unat_addr_add) simp
  have "whole_loop b (int ?s) (int ?s + int ?w - 1) n1 (store_bytes (b + of_nat (?s + ?w)) F m)
      = (int ?s - 1, store_bytes (b + of_int (int ?s)) (padded_digits ?w (unat n1)) (store_bytes (b + of_nat (?s + ?w)) F m))"
    by (rule whole_loop_ok) (use bs room in simp)
  moreover have "padded_digits ?w (unat n1) = W" unfolding f(2) W_def by (rule whole_part)
  moreover have "store_bytes (b + of_nat ?s) W (store_bytes (b + of_nat (?s + ?w)) F m) = store_bytes (b + of_nat ?s) (W @ F) m"
    using store_bytes_swap [of "b + of_nat ?s" W F m] room bs by (simp add: len add.assoc)
  ultimately have w: "whole_loop b (int ?s) (int (?s + ?w) - 1) n1 (store_bytes (b + of_nat (?s + ?w)) F m)
      = (int ?s - 1, store_bytes (b + of_nat ?s) (W @ F) m)" by simp
  have "store_bytes b S (store_bytes (b + of_nat (length S)) (W @ F) m) = store_bytes b (S @ W @ F) m"
    by (rule store_bytes_swap) (use room len in simp)
  moreover have lt: "length (S @ W @ F) = ?s + ?w + length F" by (simp add: len)
  ultimately show ?thesis
    unfolding write_at_def T lt f(1) prod.case w by (cases neg) (simp_all add: S_def put_char_def)
qed

lemma write_decimal_ok:
  assumes "T = decimal_text neg (unat d) (unat n)"
  shows "write_decimal b e dry_run n d neg m = (b + of_nat (length T),
    if dry_run \<or> 4294967296 \<le> unat b + length T \<or> unat e < unat b + length T then m else store_bytes b T m)"
proof -
  have "length T = (if neg then 1 else 0) + whole_digits n (unat d) + (if unat d = 0 then 0 else unat d + 1)"
    unfolding assms by (rule length_decimal_text)
  moreover have "unat d < 256" using unsigned_less [of d] by simp
  moreover have "whole_digits n (unat d) \<le> 20" using decimal_length_bounds(1) [of n] by (auto simp: whole_digits_def)
  ultimately have L: "length T < 300" "length T \<noteq> 0" by (auto simp: whole_digits_def split: if_splits)
  show ?thesis
  proof (cases "unat b + length T < 4294967296")
    case True
    then have "unat (b + of_nat (length T)) = unat b + length T" by (rule unat_addr_add)
    then show ?thesis
      using write_decimal_layout [OF refl refl, of b e dry_run n d neg m] write_at_ok [of b neg "unat d" n m] True assms
      by (simp add: w32)
  next
    case False
    have "unat (of_nat (length T) :: u32) = length T" using L by (intro unat_of_nat32) simp
    then have "unat (b + of_nat (length T)) = (unat b + length T) mod 4294967296" by (simp add: unat_word_ariths)
    also have "\<dots> = (unat b + length T - 4294967296) mod 4294967296" using False by (simp add: le_mod_geq)
    also have "\<dots> = unat b + length T - 4294967296" by (rule mod_less) (use L unat_lt32 [of b] in linarith)
    finally have "b + of_nat (length T) < b" using L unat_lt32 [of b] False by (simp add: w32)
    then show ?thesis
      using write_decimal_layout [OF refl refl, of b e dry_run n d neg m] False assms by simp
  qed
qed

section \<open>The properties\<close>

text \<open>
  The table of powers of a base holds all its powers below \<open>2 ^ 64\<close>, and \<open>pow\<close> returns them. For
  base ten it holds nothing else, so larger exponents abort; for base three it goes on with a power
  that has wrapped around, since a product is taken to overflow only when it is smaller than its factor.
  For a type narrower than 64 bits no table compiles: the overflow test looks at 64-bit products.
\<close>
theorem powers_tables:
  assumes "powers_of_base b = Some tab" and "2 \<le> unat b" and "unat b ^ k < 18446744073709551616"
  shows "table_pow b k = Some (Inr (of_nat (unat b ^ k)))
    \<and> table_pow 10 e = Some (if e < 20 then Inr (10 ^ e) else Inl (Check ''overflow''))
    \<and> table_pow 3 41 = Some (Inr 18026252303461234787) \<and> (3 :: int) ^ 41 \<noteq> 18026252303461234787
    \<and> (unat b < 256 \<and> 0 < n \<and> n \<le> 32 \<longrightarrow> largest_power n b = None)"
proof (intro conjI impI)
  show "table_pow b k = Some (Inr (of_nat (unat b ^ k)))"
    using table_exact [OF assms] assms(1) by (simp add: table_pow_def)
  show "table_pow 10 e = Some (if e < 20 then Inr (10 ^ e) else Inl (Check ''overflow''))"
    by (simp add: table_pow_def table_10)
  assume "unat b < 256 \<and> 0 < n \<and> n \<le> 32"
  moreover from this have "(2 :: nat) ^ 0 < 2 ^ n" by (intro power_strict_increasing) simp_all
  then have "unat (1 :: u64) < 2 ^ n" by simp
  ultimately show "largest_power n b = None"
    using narrow_types_ill_formed [of n b 1 0] assms(2) by (simp add: largest_power_def)
qed (simp_all add: table_3)

theorem powers_tables_witness: "table_pow 10 3 = Some (Inr 1000) \<and> largest_power 32 10 = None"
  using powers_tables [OF table_10, of 3 3 32] by simp

text \<open>
  C24. \<open>write_decimal\<close> writes the sign, the decimal digits of the whole part without leading zeros, and
  the point followed by exactly the given number of decimal places, if all of it fits in front of
  \<open>end\<close>; otherwise, and in a dry run, it writes nothing. It returns the address after the last character
  either way. The loops end, and no byte outside the text changes.
\<close>
theorem write_decimal_text:
  assumes "T = decimal_text negative (unat places) (unat number)"
  shows "write_decimal begin' end' dry_run number places negative m = (begin' + of_nat (length T),
    if dry_run \<or> 4294967296 \<le> unat begin' + length T \<or> unat end' < unat begin' + length T then m
    else store_bytes begin' T m)"
  by (rule write_decimal_ok [OF assms])

theorem write_decimal_text_witness:
  "write_decimal 64 128 False 1205 2 True (\<lambda>_. 0) = (70, store_bytes 64 [45, 49, 50, 46, 48, 53] (\<lambda>_. 0))
    \<and> write_decimal 64 69 False 1205 2 True (\<lambda>_. 0) = (70, \<lambda>_. 0)"
proof -
  have "decimal_digits 1 = [49]" by (subst decimal_digits.simps) simp
  then have "decimal_digits 12 = [49, 50]" by (subst decimal_digits.simps) simp
  moreover have "padded_digits 2 1205 = [48, 53]" by (simp add: numeral_2_eq_2)
  ultimately have "[45, 49, 50, 46, 48, 53] = decimal_text True (unat (2 :: u8)) (unat (1205 :: u64))"
    by (simp add: decimal_text_def)
  from write_decimal_text [OF this] show ?thesis by simp
qed

end
