(* ===== verification/AbiMerge.thy ===== *)
theory AbiMerge
  imports Prelude "HOL-Library.AList"
begin

text \<open>
  \<open>ABIMerger\<close> of \<open>tools/include/eosio/abimerge.hpp\<close>, with which the code generator and the linker
  combine the ABI files of several translation units. JSON values and the operations on them are those of
  the jsoncons library, which is outside the repository: they are the record \<open>jsoncons\<close>, and what its
  documentation promises of them is \<open>jsoncons_laws\<close>.
\<close>

section \<open>JSON values\<close>

datatype exception = Runtime_error string | Out_of_range | Invalid_argument | Json_exception string

type_synonym 'a thrown = "exception + 'a"

record 'j jsoncons =
  j_at :: "'j \<Rightarrow> string \<Rightarrow> 'j thrown" \<comment> \<open>\<open>v[key]\<close>, read\<close>
  j_size_at :: "'j \<Rightarrow> string \<Rightarrow> nat thrown" \<comment> \<open>\<open>v[key].size()\<close>\<close>
  j_empty_at :: "'j \<Rightarrow> string \<Rightarrow> bool thrown" \<comment> \<open>\<open>v[key].empty()\<close>\<close>
  j_elements :: "'j \<Rightarrow> 'j list thrown" \<comment> \<open>\<open>array_range\<close>\<close>
  j_members :: "'j \<Rightarrow> (string \<times> 'j) list thrown" \<comment> \<open>\<open>object_range\<close>\<close>
  j_get :: "'j \<Rightarrow> string \<Rightarrow> 'j \<Rightarrow> 'j thrown" \<comment> \<open>\<open>get_with_default\<close>\<close>
  j_equal :: "'j \<Rightarrow> 'j \<Rightarrow> bool"
  j_text :: "'j \<Rightarrow> string thrown" \<comment> \<open>\<open>as<std::string>\<close>\<close>
  j_empty :: "'j \<Rightarrow> bool"
  j_array :: "'j" \<comment> \<open>an empty array\<close>
  j_object :: "'j" \<comment> \<open>an empty object, also \<open>ojson()\<close>\<close>
  j_string :: "string \<Rightarrow> 'j"
  j_push :: "'j \<Rightarrow> 'j \<Rightarrow> 'j" \<comment> \<open>\<open>push_back\<close>\<close>
  j_put :: "'j \<Rightarrow> string \<Rightarrow> 'j \<Rightarrow> 'j" \<comment> \<open>\<open>insert_or_assign\<close>, and assignment to \<open>v[key]\<close>\<close>

text \<open>Two members compared with \<open>==\<close>, and the conjunction \<open>&&\<close> of comparisons.\<close>

definition same_at :: "'j jsoncons \<Rightarrow> string \<Rightarrow> 'j \<Rightarrow> 'j \<Rightarrow> bool thrown" where
  "same_at J key a b = res_bind (j_at J a key) (\<lambda>x. res_bind (j_at J b key) (\<lambda>y. Inr (j_equal J x y)))"

definition and_then :: "bool thrown \<Rightarrow> bool thrown \<Rightarrow> bool thrown" where
  "and_then p q = res_bind p (\<lambda>b. if b then q else Inr False)"

section \<open>When two definitions are the same\<close>

fun find_field :: "'j jsoncons \<Rightarrow> 'j \<Rightarrow> 'j list \<Rightarrow> bool \<Rightarrow> bool thrown" where
  "find_field J a_field [] found_field = Inr found_field"
| "find_field J a_field (b_field # bs) found_field =
     res_bind (and_then (same_at J ''name'' a_field b_field) (same_at J ''type'' a_field b_field))
       (\<lambda>same. find_field J a_field bs (if same then True else found_field))"

fun fields_found :: "'j jsoncons \<Rightarrow> 'j list \<Rightarrow> 'j \<Rightarrow> bool thrown" where
  "fields_found J [] b = Inr True"
| "fields_found J (a_field # as) b =
     res_bind (res_bind (j_at J b ''fields'') (j_elements J)) (\<lambda>bs.
     res_bind (find_field J a_field bs False) (\<lambda>found_field.
     if \<not> found_field then Inr False else fields_found J as b))"

definition struct_is_same :: "'j jsoncons \<Rightarrow> 'j \<Rightarrow> 'j \<Rightarrow> bool thrown" where
  "struct_is_same J a b =
     res_bind (j_size_at J a ''fields'') (\<lambda>na. res_bind (j_size_at J b ''fields'') (\<lambda>nb.
     res_bind (res_bind (j_at J a ''fields'') (j_elements J)) (\<lambda>as.
     res_bind (fields_found J as b) (\<lambda>found.
     if \<not> found then Inr False
     else and_then (and_then (same_at J ''name'' a b) (same_at J ''base'' a b)) (Inr (na = nb))))))"

definition type_is_same :: "'j jsoncons \<Rightarrow> 'j \<Rightarrow> 'j \<Rightarrow> bool thrown" where
  "type_is_same J a b = and_then (same_at J ''new_type_name'' a b) (same_at J ''type'' a b)"

definition action_is_same :: "'j jsoncons \<Rightarrow> 'j \<Rightarrow> 'j \<Rightarrow> bool thrown" where
  "action_is_same J a b = and_then (and_then (same_at J ''name'' a b) (same_at J ''type'' a b)) (same_at J ''ricardian_contract'' a b)"

definition action_is_almost_same :: "'j jsoncons \<Rightarrow> 'j \<Rightarrow> 'j \<Rightarrow> 'j \<Rightarrow> (bool \<times> 'j) thrown" where
  "action_is_almost_same J a b rc =
     res_bind (j_empty_at J a ''ricardian_contract'') (\<lambda>e.
     res_bind (if e then j_at J b ''ricardian_contract'' else Inr rc) (\<lambda>rc'.
     res_bind (and_then (same_at J ''name'' a b) (same_at J ''type'' a b)) (\<lambda>same. Inr (same, rc'))))"

fun types_found :: "'j jsoncons \<Rightarrow> 'j list \<Rightarrow> 'j \<Rightarrow> bool thrown" where
  "types_found J [] b = Inr True"
| "types_found J (tya # as) b =
     res_bind (res_bind (j_at J b ''types'') (j_elements J)) (\<lambda>bs.
     if \<not> list_ex (\<lambda>tyb. j_equal J tyb tya) bs then Inr False else types_found J as b)"

definition variant_is_same :: "'j jsoncons \<Rightarrow> 'j \<Rightarrow> 'j \<Rightarrow> bool thrown" where
  "variant_is_same J a b =
     res_bind (res_bind (j_at J a ''types'') (j_elements J)) (\<lambda>as.
     res_bind (types_found J as b) (\<lambda>found. if \<not> found then Inr False else same_at J ''name'' a b))"

definition table_is_same :: "'j jsoncons \<Rightarrow> 'j \<Rightarrow> 'j \<Rightarrow> bool thrown" where
  "table_is_same J a b =
     and_then (and_then (and_then (and_then (same_at J ''name'' a b) (same_at J ''type'' a b)) (same_at J ''index_type'' a b))
       (same_at J ''key_names'' a b)) (same_at J ''key_types'' a b)"

definition clause_is_same :: "'j jsoncons \<Rightarrow> 'j \<Rightarrow> 'j \<Rightarrow> bool thrown" where
  "clause_is_same J a b = and_then (same_at J ''id'' a b) (same_at J ''body'' a b)"

definition action_result_is_same :: "'j jsoncons \<Rightarrow> 'j \<Rightarrow> 'j \<Rightarrow> bool thrown" where
  "action_result_is_same J a b = and_then (same_at J ''name'' a b) (same_at J ''result_type'' a b)"

section \<open>Merging one section\<close>

definition malformed :: "string \<Rightarrow> exception" where
  "malformed name = Runtime_error (''Error, ABI structs malformed : '' @ name @ '' already defined'')"

text \<open>The inner loop of \<open>add_object_to_array\<close>: \<open>obj_b\<close> against all definitions of the other file.\<close>

fun look_for :: "'j jsoncons \<Rightarrow> ('j \<Rightarrow> 'j \<Rightarrow> bool thrown) \<Rightarrow> string \<Rightarrow> 'j \<Rightarrow> 'j list \<Rightarrow> bool \<Rightarrow> bool thrown" where
  "look_for J same k obj_b [] should_skip = Inr should_skip"
| "look_for J same k obj_b (obj_a # as) should_skip =
     res_bind (same_at J k obj_a obj_b) (\<lambda>eq.
     if eq then
       res_bind (same obj_a obj_b) (\<lambda>ok.
       if \<not> ok then res_bind (res_bind (j_at J obj_a k) (j_text J)) (\<lambda>name. Inl (malformed name))
       else look_for J same k obj_b as True)
     else look_for J same k obj_b as should_skip)"

fun add_new :: "'j jsoncons \<Rightarrow> ('j \<Rightarrow> 'j \<Rightarrow> bool thrown) \<Rightarrow> string \<Rightarrow> 'j list \<Rightarrow> 'j list \<Rightarrow> 'j \<Rightarrow> 'j thrown" where
  "add_new J same k aa [] ret = Inr ret"
| "add_new J same k aa (obj_b # bs) ret =
     res_bind (look_for J same k obj_b aa False) (\<lambda>should_skip.
     add_new J same k aa bs (if \<not> should_skip then j_push J ret obj_b else ret))"

definition add_object_to_array ::
  "'j jsoncons \<Rightarrow> 'j \<Rightarrow> 'j \<Rightarrow> 'j \<Rightarrow> string \<Rightarrow> string \<Rightarrow> ('j \<Rightarrow> 'j \<Rightarrow> bool thrown) \<Rightarrow> 'j thrown" where
  "add_object_to_array J ret a b type k same =
     res_bind (j_get J a type (j_array J)) (\<lambda>aa. res_bind (j_get J b type (j_array J)) (\<lambda>bb.
     res_bind (j_elements J aa) (\<lambda>as. res_bind (j_elements J bb) (\<lambda>bs.
     add_new J same k as bs (fold (\<lambda>obj_a r. j_push J r obj_a) as ret)))))"

fun look_for_key :: "'j jsoncons \<Rightarrow> string \<times> 'j \<Rightarrow> (string \<times> 'j) list \<Rightarrow> bool \<Rightarrow> bool thrown" where
  "look_for_key J obj_b [] should_skip = Inr should_skip"
| "look_for_key J obj_b (obj_a # as) should_skip =
     (if fst obj_a = fst obj_b then
        if \<not> j_equal J (snd obj_a) (snd obj_b) then Inl (malformed (fst obj_a)) else look_for_key J obj_b as True
      else look_for_key J obj_b as should_skip)"

fun add_new_keys :: "'j jsoncons \<Rightarrow> (string \<times> 'j) list \<Rightarrow> (string \<times> 'j) list \<Rightarrow> 'j \<Rightarrow> 'j thrown" where
  "add_new_keys J aa [] ret = Inr ret"
| "add_new_keys J aa (obj_b # bs) ret =
     res_bind (look_for_key J obj_b aa False) (\<lambda>should_skip.
     add_new_keys J aa bs (if \<not> should_skip then j_put J ret (fst obj_b) (snd obj_b) else ret))"

definition add_object_to_object :: "'j jsoncons \<Rightarrow> 'j \<Rightarrow> 'j \<Rightarrow> 'j \<Rightarrow> string \<Rightarrow> 'j thrown" where
  "add_object_to_object J ret a b type =
     res_bind (j_get J a type (j_object J)) (\<lambda>aa. res_bind (j_get J b type (j_object J)) (\<lambda>bb.
     res_bind (j_members J aa) (\<lambda>as. res_bind (j_members J bb) (\<lambda>bs.
     add_new_keys J as bs (fold (\<lambda>obj_a r. j_put J r (fst obj_a) (snd obj_a)) as ret)))))"

section \<open>Versions\<close>

text \<open>
  \<open>std::stod\<close> on at most three characters: white space, a sign, and the longest number that follows;
  no exponent fits but in \<open>dEd\<close>. Values are counted in hundredths, which is exact for such texts;
  \<open>stod\<close> yields the nearest double, and for these texts products with ten compare in the same way.
\<close>

datatype number = Hundredths int | Infinity | Not_a_number

definition is_digit :: "char \<Rightarrow> bool" where
  "is_digit c = (48 \<le> (of_char c :: nat) \<and> (of_char c :: nat) \<le> 57)"

definition digit_value :: "char \<Rightarrow> int" where
  "digit_value c = of_char c - 48"

definition hex_value :: "char \<Rightarrow> int option" where
  "hex_value c = (let n = of_char c :: int in if is_digit c then Some (n - 48)
     else if 97 \<le> n \<and> n \<le> 102 then Some (n - 87) else if 65 \<le> n \<and> n \<le> 70 then Some (n - 55) else None)"

definition is_blank :: "char \<Rightarrow> bool" where
  "is_blank c = ((of_char c :: nat) = 32 \<or> 9 \<le> (of_char c :: nat) \<and> (of_char c :: nat) \<le> 13)"

definition lower :: "char \<Rightarrow> nat" where
  "lower c = (let n = of_char c in if 65 \<le> n \<and> n \<le> 90 then n + 32 else n)"

definition digits_value :: "string \<Rightarrow> int" where
  "digits_value ds = fold (\<lambda>c v. 10 * v + digit_value c) ds 0"

definition decimal_value :: "string \<Rightarrow> int thrown" where
  "decimal_value s =
     (let whole = takeWhile is_digit s; rest = dropWhile is_digit s;
          fraction = (case rest of c # r \<Rightarrow> if c = CHR ''.'' then takeWhile is_digit r else [] | [] \<Rightarrow> []);
          power = (case rest of [e, d] \<Rightarrow> if lower e = 101 \<and> is_digit d then nat (digit_value d) else 0 | _ \<Rightarrow> 0)
      in if whole = [] \<and> fraction = [] then Inl Invalid_argument
         else Inr ((digits_value whole * 100 + digits_value fraction * (if length fraction = 1 then 10 else 1)) * 10 ^ power))"

definition unsigned_value :: "string \<Rightarrow> number thrown" where
  "unsigned_value s =
     (if map lower s = [105, 110, 102] then Inr Infinity
      else if map lower s = [110, 97, 110] then Inr Not_a_number
      else case s of
        [z, x, h] \<Rightarrow> if z = CHR ''0'' \<and> lower x = 120 \<and> hex_value h \<noteq> None then Inr (Hundredths (100 * the (hex_value h)))
          else res_bind (decimal_value s) (\<lambda>n. Inr (Hundredths n))
      | _ \<Rightarrow> res_bind (decimal_value s) (\<lambda>n. Inr (Hundredths n)))"

definition stod :: "string \<Rightarrow> number thrown" where
  "stod s = (case dropWhile is_blank s of
     [] \<Rightarrow> Inl Invalid_argument
   | c # r \<Rightarrow> if c = CHR ''-'' then res_bind (decimal_value r) (\<lambda>n. Inr (Hundredths (- n)))
       else if c = CHR ''+'' then res_bind (decimal_value r) (\<lambda>n. Inr (Hundredths n))
       else unsigned_value (c # r))"

fun number_less :: "number \<Rightarrow> number \<Rightarrow> bool" where
  "number_less (Hundredths a) (Hundredths b) = (a < b)"
| "number_less (Hundredths a) Infinity = True"
| "number_less _ _ = False"

fun at_least_1_2 :: "number \<Rightarrow> bool" where
  "at_least_1_2 (Hundredths a) = (120 \<le> a)"
| "at_least_1_2 Infinity = True"
| "at_least_1_2 Not_a_number = False"

text \<open>\<open>s.substr(s.size() - 3)\<close>: the subtraction wraps around for a shorter text, and \<open>substr\<close> throws.\<close>

definition last_three :: "string \<Rightarrow> string thrown" where
  "last_three s = (if length s < 3 then Inl Out_of_range else Inr (drop (length s - 3) s))"

definition version_number :: "string \<Rightarrow> number thrown" where
  "version_number s = res_bind (last_three s) stod"

definition merge_version :: "'j jsoncons \<Rightarrow> 'j \<Rightarrow> 'j \<Rightarrow> string thrown" where
  "merge_version J abi b =
     res_bind (res_bind (j_at J abi ''version'') (j_text J)) (\<lambda>ver_a.
     res_bind (res_bind (j_at J b ''version'') (j_text J)) (\<lambda>ver_b.
     res_bind (version_number ver_a) (\<lambda>na. res_bind (version_number ver_b) (\<lambda>nb.
     Inr (if number_less na nb then ver_b else ver_a)))))"

section \<open>Merging two files\<close>

definition merge_structs :: "'j jsoncons \<Rightarrow> 'j \<Rightarrow> 'j \<Rightarrow> 'j thrown" where
  "merge_structs J abi b = add_object_to_array J (j_array J) abi b ''structs'' ''name'' (struct_is_same J)"

definition merge_types :: "'j jsoncons \<Rightarrow> 'j \<Rightarrow> 'j \<Rightarrow> 'j thrown" where
  "merge_types J abi b = add_object_to_array J (j_array J) abi b ''types'' ''new_type_name'' (type_is_same J)"

definition merge_variants :: "'j jsoncons \<Rightarrow> 'j \<Rightarrow> 'j \<Rightarrow> 'j thrown" where
  "merge_variants J abi b = add_object_to_array J (j_array J) abi b ''variants'' ''name'' (variant_is_same J)"

definition merge_actions :: "'j jsoncons \<Rightarrow> 'j \<Rightarrow> 'j \<Rightarrow> 'j thrown" where
  "merge_actions J abi b = add_object_to_array J (j_array J) abi b ''actions'' ''name'' (action_is_same J)"

definition merge_tables :: "'j jsoncons \<Rightarrow> 'j \<Rightarrow> 'j \<Rightarrow> 'j thrown" where
  "merge_tables J abi b = add_object_to_array J (j_array J) abi b ''tables'' ''name'' (table_is_same J)"

definition merge_kv_tables :: "'j jsoncons \<Rightarrow> 'j \<Rightarrow> 'j \<Rightarrow> 'j thrown" where
  "merge_kv_tables J abi b = add_object_to_object J (j_object J) abi b ''kv_tables''"

definition merge_clauses :: "'j jsoncons \<Rightarrow> 'j \<Rightarrow> 'j \<Rightarrow> 'j thrown" where
  "merge_clauses J abi b = add_object_to_array J (j_array J) abi b ''ricardian_clauses'' ''id'' (clause_is_same J)"

definition merge_action_results :: "'j jsoncons \<Rightarrow> 'j \<Rightarrow> 'j \<Rightarrow> 'j thrown" where
  "merge_action_results J abi b = add_object_to_array J (j_array J) abi b ''action_results'' ''name'' (action_result_is_same J)"

definition put_unless_empty :: "'j jsoncons \<Rightarrow> 'j \<Rightarrow> string \<Rightarrow> 'j \<Rightarrow> 'j" where
  "put_unless_empty J ret key x = (if \<not> j_empty J x then j_put J ret key x else ret)"

definition merge :: "'j jsoncons \<Rightarrow> 'j \<Rightarrow> 'j \<Rightarrow> 'j thrown" where
  "merge J abi other =
     res_bind (merge_version J abi other) (\<lambda>vers.
     res_bind (merge_types J abi other) (\<lambda>types.
     res_bind (merge_structs J abi other) (\<lambda>structs.
     res_bind (merge_actions J abi other) (\<lambda>actions.
     res_bind (merge_tables J abi other) (\<lambda>tables.
     res_bind (merge_clauses J abi other) (\<lambda>clauses.
     res_bind (merge_variants J abi other) (\<lambda>variants.
     res_bind (version_number vers) (\<lambda>number.
     let ret = j_put J (j_object J) ''____comment'' (j_string J ''This file was generated with eosio-abigen. DO NOT EDIT '');
         ret = j_put J (j_put J (j_put J ret ''version'' (j_string J vers)) ''types'' types) ''structs'' structs;
         ret = j_put J (j_put J (j_put J ret ''actions'' actions) ''tables'' tables) ''ricardian_clauses'' clauses;
         ret = j_put J ret ''variants'' variants
     in if at_least_1_2 number then
          res_bind (merge_kv_tables J abi other) (\<lambda>x.
          res_bind (merge_action_results J abi other) (\<lambda>y.
          Inr (put_unless_empty J (put_unless_empty J ret ''kv_tables'' x) ''action_results'' y)))
        else Inr ret))))))))"

text \<open>The constructor; \<open>std::to_string\<close> of an \<open>int\<close>.\<close>

function nat_text :: "nat \<Rightarrow> string" where
  "nat_text n = (if n < 10 then [char_of (48 + n)] else nat_text (n div 10) @ [char_of (48 + n mod 10)])"
  by auto
termination by (relation "measure (\<lambda>n. n)") auto

declare nat_text.simps [simp del]

definition int_text :: "int \<Rightarrow> string" where
  "int_text i = (if i < 0 then CHR ''-'' # nat_text (nat (- i)) else nat_text (nat i))"

definition abi_merger :: "'j jsoncons \<Rightarrow> 'j \<Rightarrow> int \<Rightarrow> int \<Rightarrow> 'j" where
  "abi_merger J a version_major version_minor =
     (if j_empty J a then j_put J a ''version'' (j_string J (''eosio::abi/'' @ int_text version_major @ ''.'' @ int_text version_minor))
      else a)"

end
