(* ===== verification/AbiMergeProps.thy ===== *)
theory AbiMergeProps
  imports AbiMerge "HOL-Library.Multiset"
begin

text \<open>
  What merging ABI files guarantees. The locale \<open>definition_kind\<close> is the contract between
  \<open>add_object_to_array\<close> and the comparison it is given: a comparison accepts only definitions with the
  same name. Each section of an ABI file interprets it with its own comparison.
\<close>

section \<open>The JSON library\<close>

definition jsoncons_laws :: "'j jsoncons \<Rightarrow> bool" where
  "jsoncons_laws J \<longleftrightarrow>
     (\<forall>x y. j_equal J x y \<longleftrightarrow> x = y)
     \<and> j_elements J (j_array J) = Inr []
     \<and> (\<forall>r xs x. j_elements J r = Inr xs \<longrightarrow> j_elements J (j_push J r x) = Inr (xs @ [x]))
     \<and> j_members J (j_object J) = Inr []
     \<and> (\<forall>r ms k v. j_members J r = Inr ms \<longrightarrow> j_members J (j_put J r k v) = Inr (AList.update k v ms))
     \<and> (\<forall>r ms k d. j_members J r = Inr ms \<longrightarrow> j_get J r k d = Inr (case map_of ms k of None \<Rightarrow> d | Some v \<Rightarrow> v))
     \<and> (\<forall>r xs. j_elements J r = Inr xs \<longrightarrow> (j_empty J r \<longleftrightarrow> xs = []))
     \<and> (\<forall>r ms. j_members J r = Inr ms \<longrightarrow> (j_empty J r \<longleftrightarrow> ms = []))"

lemma law_equal: "jsoncons_laws J \<Longrightarrow> j_equal J x y \<longleftrightarrow> x = y"
  and law_array: "jsoncons_laws J \<Longrightarrow> j_elements J (j_array J) = Inr []"
  and law_push: "jsoncons_laws J \<Longrightarrow> j_elements J r = Inr xs \<Longrightarrow> j_elements J (j_push J r x) = Inr (xs @ [x])"
  and law_object: "jsoncons_laws J \<Longrightarrow> j_members J (j_object J) = Inr []"
  and law_put: "jsoncons_laws J \<Longrightarrow> j_members J r = Inr ms \<Longrightarrow> j_members J (j_put J r k v) = Inr (AList.update k v ms)"
  and law_get: "jsoncons_laws J \<Longrightarrow> j_members J r = Inr ms \<Longrightarrow> j_get J r k d = Inr (case map_of ms k of None \<Rightarrow> d | Some v \<Rightarrow> v)"
  and law_empty: "jsoncons_laws J \<Longrightarrow> j_elements J r = Inr xs \<Longrightarrow> j_empty J r \<longleftrightarrow> xs = []"
    "jsoncons_laws J \<Longrightarrow> j_members J r = Inr ms \<Longrightarrow> j_empty J r \<longleftrightarrow> ms = []"
  unfolding jsoncons_laws_def by blast+

text \<open>A small JSON library, which shows that the laws can hold.\<close>

datatype json = Text string | Arr "json list" | Obj "(string \<times> json) list"

definition bad :: "'a thrown" where
  "bad = Inl (Json_exception ''bad value'')"

fun json_at :: "json \<Rightarrow> string \<Rightarrow> json thrown" where
  "json_at (Obj ms) k = (case map_of ms k of Some v \<Rightarrow> Inr v | None \<Rightarrow> bad)"
| "json_at _ k = bad"

fun json_elements :: "json \<Rightarrow> json list thrown" where
  "json_elements (Arr xs) = Inr xs"
| "json_elements _ = bad"

fun json_members :: "json \<Rightarrow> (string \<times> json) list thrown" where
  "json_members (Obj ms) = Inr ms"
| "json_members _ = bad"

fun json_text :: "json \<Rightarrow> string thrown" where
  "json_text (Text s) = Inr s"
| "json_text _ = bad"

fun json_size :: "json \<Rightarrow> nat" where
  "json_size (Text s) = 0"
| "json_size (Arr xs) = length xs"
| "json_size (Obj ms) = length ms"

definition json_lib :: "json jsoncons" where
  "json_lib = \<lparr>j_at = json_at, j_size_at = \<lambda>v k. res_bind (json_at v k) (\<lambda>x. Inr (json_size x)),
     j_empty_at = \<lambda>v k. res_bind (json_at v k) (\<lambda>x. Inr (json_size x = 0)), j_elements = json_elements, j_members = json_members,
     j_get = \<lambda>v k d. (case v of Obj ms \<Rightarrow> Inr (case map_of ms k of None \<Rightarrow> d | Some x \<Rightarrow> x) | _ \<Rightarrow> bad),
     j_equal = (=), j_text = json_text, j_empty = \<lambda>x. json_size x = 0, j_array = Arr [], j_object = Obj [], j_string = Text,
     j_push = \<lambda>v x. (case v of Arr xs \<Rightarrow> Arr (xs @ [x]) | y \<Rightarrow> y), j_put = \<lambda>v k x. (case v of Obj ms \<Rightarrow> Obj (AList.update k x ms) | y \<Rightarrow> y)\<rparr>"

lemma json_view:
  "json_elements r = Inr xs \<longleftrightarrow> r = Arr xs" "json_members r = Inr ms \<longleftrightarrow> r = Obj ms"
  by (cases r; simp add: bad_def)+

lemma json_lib_laws: "jsoncons_laws json_lib"
  by (auto simp: jsoncons_laws_def json_lib_def json_view)

section \<open>Sections\<close>

abbreviation same_id :: "'j jsoncons \<Rightarrow> string \<Rightarrow> 'j \<Rightarrow> 'j \<Rightarrow> bool" where
  "same_id J k a b \<equiv> same_at J k a b = Inr True"

definition unique_ids :: "'j jsoncons \<Rightarrow> string \<Rightarrow> 'j list \<Rightarrow> bool" where
  "unique_ids J k xs \<longleftrightarrow> list_all (\<lambda>x. same_id J k x x) xs \<and> sorted_wrt (\<lambda>a b. \<not> same_id J k a b) xs"

lemma and_then_True: "and_then p q = Inr True \<longleftrightarrow> p = Inr True \<and> q = Inr True"
  by (cases p) (auto simp: and_then_def)

lemma same_id_sym: "jsoncons_laws J \<Longrightarrow> same_id J k a b \<longleftrightarrow> same_id J k b a"
  by (auto simp: same_at_def res_bind_Inr law_equal)

lemma fold_push:
  "jsoncons_laws J \<Longrightarrow> j_elements J ret = Inr xs \<Longrightarrow> j_elements J (fold (\<lambda>x r. j_push J r x) as ret) = Inr (xs @ as)"
  by (induction as arbitrary: ret xs) (simp_all add: law_push)

definition definitions :: "'j jsoncons \<Rightarrow> 'j \<Rightarrow> string \<Rightarrow> 'j list thrown" where
  "definitions J abi type = res_bind (j_get J abi type (j_array J)) (j_elements J)"

definition fresh :: "'j jsoncons \<Rightarrow> string \<Rightarrow> 'j list \<Rightarrow> 'j list \<Rightarrow> 'j list" where
  "fresh J k as bs = filter (\<lambda>b. \<not> (\<exists>a \<in> set as. same_id J k a b)) bs"

text \<open>
  A merged section \<open>cs\<close> holds the definitions of the first file, then those of the second with new names.
  Definitions with equal names passed the comparison, no definition is lost and none comes in twice.
\<close>

definition merged_from :: "'j jsoncons \<Rightarrow> string \<Rightarrow> ('j \<Rightarrow> 'j \<Rightarrow> bool thrown) \<Rightarrow> 'j list \<Rightarrow> 'j list \<Rightarrow> 'j list \<Rightarrow> bool" where
  "merged_from J k same as bs cs \<longleftrightarrow> cs = as @ fresh J k as bs
     \<and> (\<forall>x \<in> set as. \<forall>y \<in> set bs. same_id J k x y \<longrightarrow> same x y = Inr True)
     \<and> (unique_ids J k as \<and> unique_ids J k bs \<longrightarrow> unique_ids J k cs
        \<and> (\<forall>y \<in> set bs. \<exists>z \<in> set cs. same_id J k z y \<and> (z = y \<or> same z y = Inr True)))"

lemma fresh_unique:
  assumes "jsoncons_laws J" and "unique_ids J k as" and "unique_ids J k bs"
  shows "unique_ids J k (as @ fresh J k as bs)"
proof -
  have "sorted_wrt (\<lambda>a b. \<not> same_id J k a b) (fresh J k as bs)"
    using assms(3) by (simp add: unique_ids_def fresh_def sorted_wrt_filter)
  then show ?thesis using assms by (auto simp: unique_ids_def sorted_wrt_append list_all_iff fresh_def)
qed

locale definition_kind =
  fixes J :: "'j jsoncons" and same :: "'j \<Rightarrow> 'j \<Rightarrow> bool thrown" and k :: string
  assumes same_names: "same a b = Inr True \<Longrightarrow> same_id J k a b"
begin

lemma look_for_ok:
  "look_for J same k b as skip = Inr found \<Longrightarrow>
    (found \<longleftrightarrow> skip \<or> (\<exists>a \<in> set as. same_id J k a b)) \<and> (\<forall>a \<in> set as. same_id J k a b \<longrightarrow> same a b = Inr True)"
  by (induction as arbitrary: skip) (auto simp: res_bind_Inr split: if_splits)

lemma add_new_ok:
  "jsoncons_laws J \<Longrightarrow> j_elements J ret = Inr xs \<Longrightarrow> add_new J same k as bs ret = Inr r \<Longrightarrow>
    j_elements J r = Inr (xs @ fresh J k as bs) \<and> (\<forall>a \<in> set as. \<forall>b \<in> set bs. same_id J k a b \<longrightarrow> same a b = Inr True)"
proof (induction bs arbitrary: ret xs)
  case (Cons b bs)
  obtain found where f: "look_for J same k b as False = Inr found"
      "add_new J same k as bs (if \<not> found then j_push J ret b else ret) = Inr r"
    using Cons.prems(3) by (auto simp: res_bind_Inr)
  have "j_elements J (if \<not> found then j_push J ret b else ret) = Inr (if found then xs else xs @ [b])"
    using Cons.prems by (simp add: law_push)
  from Cons.IH [OF Cons.prems(1) this f(2)] look_for_ok [OF f(1)] show ?case by (simp add: fresh_def)
qed (simp add: fresh_def)

lemma merge_section:
  assumes "jsoncons_laws J" and "add_object_to_array J (j_array J) a b type k same = Inr r"
  shows "\<exists>as bs cs. definitions J a type = Inr as \<and> definitions J b type = Inr bs \<and> j_elements J r = Inr cs
    \<and> merged_from J k same as bs cs"
proof -
  obtain va vb as bs where v: "j_get J a type (j_array J) = Inr va" "j_get J b type (j_array J) = Inr vb"
      "j_elements J va = Inr as" "j_elements J vb = Inr bs"
      "add_new J same k as bs (fold (\<lambda>x r. j_push J r x) as (j_array J)) = Inr r"
    using assms(2) by (auto simp: add_object_to_array_def res_bind_Inr)
  have "j_elements J (fold (\<lambda>x r. j_push J r x) as (j_array J)) = Inr ([] @ as)"
    using assms(1) by (intro fold_push) (simp_all add: law_array)
  note add = add_new_ok [OF assms(1) this v(5)]
  have "\<exists>z \<in> set (as @ fresh J k as bs). same_id J k z y \<and> (z = y \<or> same z y = Inr True)"
    if "unique_ids J k bs" "y \<in> set bs" for y
    using add that by (cases "\<exists>a \<in> set as. same_id J k a y") (auto simp: fresh_def unique_ids_def list_all_iff)
  then show ?thesis
    using v add fresh_unique [OF assms(1)] by (simp add: definitions_def merged_from_def)
qed

end

text \<open>
  The sections that are objects: the members \<open>os\<close> of the result are those of the second file overridden by those
  of the first, which have equal values where the keys are equal. (Of equal keys in one file the last one
  counts; a JSON object has none.)
\<close>

definition members_at :: "'j jsoncons \<Rightarrow> 'j \<Rightarrow> string \<Rightarrow> (string \<times> 'j) list thrown" where
  "members_at J abi type = res_bind (j_get J abi type (j_object J)) (j_members J)"

definition merged_members :: "(string \<times> 'j) list \<Rightarrow> (string \<times> 'j) list \<Rightarrow> (string \<times> 'j) list \<Rightarrow> bool" where
  "merged_members ms ns os \<longleftrightarrow> map_of os = map_of (rev ns) ++ map_of (rev ms)
     \<and> (\<forall>k v w. (k, v) \<in> set ms \<longrightarrow> (k, w) \<in> set ns \<longrightarrow> v = w)"

lemma fold_put:
  "jsoncons_laws J \<Longrightarrow> j_members J ret = Inr xs \<Longrightarrow>
    \<exists>ys. j_members J (fold (\<lambda>x r. j_put J r (fst x) (snd x)) ms ret) = Inr ys \<and> map_of ys = map_of xs ++ map_of (rev ms)"
proof (induction ms arbitrary: ret xs)
  case (Cons m ms)
  have "j_members J (j_put J ret (fst m) (snd m)) = Inr (AList.update (fst m) (snd m) xs)" by (rule law_put [OF Cons.prems])
  from Cons.IH [OF Cons.prems(1) this] obtain ys where
    "j_members J (fold (\<lambda>x r. j_put J r (fst x) (snd x)) ms (j_put J ret (fst m) (snd m))) = Inr ys"
    "map_of ys = (map_of xs)(fst m \<mapsto> snd m) ++ map_of (rev ms)" unfolding update_conv' by blast
  then show ?case by simp
qed simp

lemma look_for_key_ok:
  "jsoncons_laws J \<Longrightarrow> look_for_key J b ms skip = Inr found \<Longrightarrow>
    (found \<longleftrightarrow> skip \<or> fst b \<in> fst ` set ms) \<and> (\<forall>v. (fst b, v) \<in> set ms \<longrightarrow> v = snd b)"
  by (induction ms arbitrary: skip) (auto simp: law_equal split: if_splits)

lemma add_new_keys_ok:
  "jsoncons_laws J \<Longrightarrow> j_members J ret = Inr xs \<Longrightarrow> fst ` set ms \<subseteq> dom (map_of xs) \<Longrightarrow> add_new_keys J ms ns ret = Inr r \<Longrightarrow>
    \<exists>ys. j_members J r = Inr ys \<and> (\<forall>k. map_of ys k = (if k \<in> fst ` set ms then map_of xs k else (map_of xs ++ map_of (rev ns)) k))
      \<and> (\<forall>k v w. (k, v) \<in> set ms \<longrightarrow> (k, w) \<in> set ns \<longrightarrow> v = w)"
proof (induction ns arbitrary: ret xs)
  case (Cons b ns)
  obtain found where f: "look_for_key J b ms False = Inr found"
      "add_new_keys J ms ns (if \<not> found then j_put J ret (fst b) (snd b) else ret) = Inr r"
    using Cons.prems(4) by (auto simp: res_bind_Inr)
  note l = look_for_key_ok [OF Cons.prems(1) f(1)]
  let ?xs = "if found then xs else AList.update (fst b) (snd b) xs"
  have m: "j_members J (if \<not> found then j_put J ret (fst b) (snd b) else ret) = Inr ?xs"
    using Cons.prems(2) law_put [OF Cons.prems(1,2)] by simp
  have "fst ` set ms \<subseteq> dom (map_of ?xs)" using Cons.prems(3) by (auto simp: update_conv')
  from Cons.IH [OF Cons.prems(1) m this f(2)] obtain ys where ys: "j_members J r = Inr ys"
    "\<forall>k. map_of ys k = (if k \<in> fst ` set ms then map_of ?xs k else (map_of ?xs ++ map_of (rev ns)) k)"
    "\<forall>k v w. (k, v) \<in> set ms \<longrightarrow> (k, w) \<in> set ns \<longrightarrow> v = w" by blast
  have "map_of ys k = (if k \<in> fst ` set ms then map_of xs k else (map_of xs ++ map_of (rev (b # ns))) k)" for k
    using ys(2) l by (cases "k = fst b") (auto simp: update_conv' map_add_def split: option.splits)
  moreover have "\<forall>k v w. (k, v) \<in> set ms \<longrightarrow> (k, w) \<in> set (b # ns) \<longrightarrow> v = w" using ys(3) l by force
  ultimately show ?case using ys(1) by blast
qed simp

lemma merge_object_section:
  assumes "jsoncons_laws J" and "add_object_to_object J (j_object J) a b type = Inr r"
  shows "\<exists>ms ns os. members_at J a type = Inr ms \<and> members_at J b type = Inr ns \<and> j_members J r = Inr os \<and> merged_members ms ns os"
proof -
  obtain va vb ms ns where v: "j_get J a type (j_object J) = Inr va" "j_get J b type (j_object J) = Inr vb"
      "j_members J va = Inr ms" "j_members J vb = Inr ns"
      "add_new_keys J ms ns (fold (\<lambda>x r. j_put J r (fst x) (snd x)) ms (j_object J)) = Inr r"
    using assms(2) by (auto simp: add_object_to_object_def res_bind_Inr)
  obtain ys where ys: "j_members J (fold (\<lambda>x r. j_put J r (fst x) (snd x)) ms (j_object J)) = Inr ys"
      "map_of ys = map_of (rev ms)"
    using fold_put [OF assms(1) law_object [OF assms(1)], of ms] by auto
  have dom: "dom (map_of (rev ms)) = fst ` set ms" by (simp add: dom_map_of_conv_image_fst)
  then have "fst ` set ms \<subseteq> dom (map_of ys)" using ys(2) by simp
  from add_new_keys_ok [OF assms(1) ys(1) this v(5)] obtain os where os: "j_members J r = Inr os"
    "\<forall>k. map_of os k = (if k \<in> fst ` set ms then map_of ys k else (map_of ys ++ map_of (rev ns)) k)"
    "\<forall>k v w. (k, v) \<in> set ms \<longrightarrow> (k, w) \<in> set ns \<longrightarrow> v = w" by blast
  have "map_of os = map_of (rev ns) ++ map_of (rev ms)"
  proof
    fix k
    show "map_of os k = (map_of (rev ns) ++ map_of (rev ms)) k"
      using os(2) ys(2) dom by (auto simp: map_add_def domIff split: option.splits)
  qed
  then show ?thesis using v os by (auto simp: members_at_def merged_members_def)
qed

text \<open>The comparisons of the source satisfy the contract.\<close>

lemma struct_same_name: "struct_is_same J a b = Inr True \<Longrightarrow> same_id J ''name'' a b"
  by (auto simp: struct_is_same_def res_bind_Inr and_then_True split: if_splits)

lemma variant_same_name: "variant_is_same J a b = Inr True \<Longrightarrow> same_id J ''name'' a b"
  by (auto simp: variant_is_same_def res_bind_Inr split: if_splits)

interpretation types: definition_kind J "type_is_same J" "''new_type_name''" for J
  by unfold_locales (simp add: type_is_same_def and_then_True)

interpretation structs: definition_kind J "struct_is_same J" "''name''" for J
  by unfold_locales (rule struct_same_name)

interpretation actions: definition_kind J "action_is_same J" "''name''" for J
  by unfold_locales (simp add: action_is_same_def and_then_True)

interpretation tables: definition_kind J "table_is_same J" "''name''" for J
  by unfold_locales (simp add: table_is_same_def and_then_True)

interpretation clauses: definition_kind J "clause_is_same J" "''id''" for J
  by unfold_locales (simp add: clause_is_same_def and_then_True)

interpretation variants: definition_kind J "variant_is_same J" "''name''" for J
  by unfold_locales (rule variant_same_name)

interpretation results: definition_kind J "action_result_is_same J" "''name''" for J
  by unfold_locales (simp add: action_result_is_same_def and_then_True)


section \<open>Files\<close>

definition abi_sections :: "'j jsoncons \<Rightarrow> (string \<times> string \<times> ('j \<Rightarrow> 'j \<Rightarrow> bool thrown)) list" where
  "abi_sections J = [(''types'', ''new_type_name'', type_is_same J), (''structs'', ''name'', struct_is_same J),
     (''actions'', ''name'', action_is_same J), (''tables'', ''name'', table_is_same J),
     (''ricardian_clauses'', ''id'', clause_is_same J), (''variants'', ''name'', variant_is_same J)]"

definition is_object :: "'j jsoncons \<Rightarrow> 'j \<Rightarrow> bool" where
  "is_object J v \<longleftrightarrow> (\<exists>ms. j_members J v = Inr ms)"

lemma object_put:
  assumes "jsoncons_laws J" and "is_object J v"
  shows "is_object J (j_put J v k x)" and "j_get J (j_put J v k x) k' d = (if k = k' then Inr x else j_get J v k' d)"
    and "is_object J (put_unless_empty J v k x)" and "k \<noteq> k' \<Longrightarrow> j_get J (put_unless_empty J v k x) k' d = j_get J v k' d"
proof -
  obtain ms where ms: "j_members J v = Inr ms" using assms(2) by (auto simp: is_object_def)
  note put = law_put [OF assms(1) ms, of k x]
  show "is_object J (j_put J v k x)" using put by (simp add: is_object_def)
  then show "is_object J (put_unless_empty J v k x)" using assms(2) by (simp add: put_unless_empty_def)
  show get: "j_get J (j_put J v k x) k' d = (if k = k' then Inr x else j_get J v k' d)"
    using law_get [OF assms(1) put, of k' d] law_get [OF assms(1) ms, of k' d] by (simp add: update_conv')
  show "k \<noteq> k' \<Longrightarrow> j_get J (put_unless_empty J v k x) k' d = j_get J v k' d"
    by (simp add: put_unless_empty_def get)
qed

text \<open>The result up to the last two sections, which are added from version 1.2 on.\<close>

lemma merge_parts:
  assumes "jsoncons_laws J" and "merge J abi other = Inr r"
  obtains vers n ret where "merge_version J abi other = Inr vers" "version_number vers = Inr n" "is_object J ret"
    "\<And>type k same. (type, k, same) \<in> set (abi_sections J) \<Longrightarrow>
       \<exists>v. add_object_to_array J (j_array J) abi other type k same = Inr v \<and> j_get J ret type (j_array J) = Inr v"
    "\<And>d. j_get J ret ''version'' d = Inr (j_string J vers)"
    "\<And>d. j_get J ret ''kv_tables'' d = Inr d" "\<And>d. j_get J ret ''action_results'' d = Inr d"
    "if at_least_1_2 n then \<exists>x y. merge_kv_tables J abi other = Inr x \<and> merge_action_results J abi other = Inr y
        \<and> r = put_unless_empty J (put_unless_empty J ret ''kv_tables'' x) ''action_results'' y
     else r = ret"
proof -
  define parts where "parts vers ty st ac ta cl va = [(''____comment'', j_string J ''This file was generated with eosio-abigen. DO NOT EDIT ''),
      (''version'', j_string J vers), (''types'', ty), (''structs'', st), (''actions'', ac), (''tables'', ta),
      (''ricardian_clauses'', cl), (''variants'', va)]" for vers ty st ac ta cl va
  define R where "R vers ty st ac ta cl va = fold (\<lambda>x r. j_put J r (fst x) (snd x)) (parts vers ty st ac ta cl va) (j_object J)"
    for vers ty st ac ta cl va
  define L where "L vers ty st ac ta cl va n = (if at_least_1_2 n then
      res_bind (merge_kv_tables J abi other) (\<lambda>x. res_bind (merge_action_results J abi other) (\<lambda>y.
        Inr (put_unless_empty J (put_unless_empty J (R vers ty st ac ta cl va) ''kv_tables'' x) ''action_results'' y)))
      else Inr (R vers ty st ac ta cl va))" for vers ty st ac ta cl va n
  have "merge J abi other = res_bind (merge_version J abi other) (\<lambda>vers. res_bind (merge_types J abi other) (\<lambda>ty.
      res_bind (merge_structs J abi other) (\<lambda>st. res_bind (merge_actions J abi other) (\<lambda>ac.
      res_bind (merge_tables J abi other) (\<lambda>ta. res_bind (merge_clauses J abi other) (\<lambda>cl.
      res_bind (merge_variants J abi other) (\<lambda>va. res_bind (version_number vers) (L vers ty st ac ta cl va))))))))"
    unfolding merge_def Let_def R_def L_def parts_def fold_simps comp_def id_def fst_conv snd_conv ..
  with assms(2) have "res_bind (merge_version J abi other) (\<lambda>vers. res_bind (merge_types J abi other) (\<lambda>ty.
      res_bind (merge_structs J abi other) (\<lambda>st. res_bind (merge_actions J abi other) (\<lambda>ac.
      res_bind (merge_tables J abi other) (\<lambda>ta. res_bind (merge_clauses J abi other) (\<lambda>cl.
      res_bind (merge_variants J abi other) (\<lambda>va. res_bind (version_number vers) (L vers ty st ac ta cl va)))))))) = Inr r"
    by (simp only:)
  then obtain vers ty st ac ta cl va n where m: "merge_version J abi other = Inr vers" "merge_types J abi other = Inr ty"
      "merge_structs J abi other = Inr st" "merge_actions J abi other = Inr ac" "merge_tables J abi other = Inr ta"
      "merge_clauses J abi other = Inr cl" "merge_variants J abi other = Inr va" "version_number vers = Inr n"
      "L vers ty st ac ta cl va n = Inr r"
    unfolding res_bind_Inr by blast
  let ?ret = "R vers ty st ac ta cl va"
  have last: "if at_least_1_2 n then \<exists>x y. merge_kv_tables J abi other = Inr x \<and> merge_action_results J abi other = Inr y
        \<and> r = put_unless_empty J (put_unless_empty J ?ret ''kv_tables'' x) ''action_results'' y
     else r = ?ret"
    using m(9) by (auto simp: L_def res_bind_Inr split: if_splits)
  obtain ms where ms: "j_members J ?ret = Inr ms" "map_of ms = map_of (rev (parts vers ty st ac ta cl va))"
    using fold_put [OF assms(1) law_object [OF assms(1)], of "parts vers ty st ac ta cl va"] by (auto simp: R_def)
  then have obj: "is_object J ?ret" by (simp add: is_object_def)
  have get: "j_get J ?ret key d = Inr (case map_of (rev (parts vers ty st ac ta cl va)) key of None \<Rightarrow> d | Some v \<Rightarrow> v)" for key d
    using law_get [OF assms(1) ms(1), of key d] unfolding ms(2) .
  note defs = merge_types_def merge_structs_def merge_actions_def merge_tables_def merge_clauses_def merge_variants_def
  have at: "j_get J ?ret ''types'' d = Inr ty" "j_get J ?ret ''structs'' d = Inr st" "j_get J ?ret ''actions'' d = Inr ac"
    "j_get J ?ret ''tables'' d = Inr ta" "j_get J ?ret ''ricardian_clauses'' d = Inr cl" "j_get J ?ret ''variants'' d = Inr va"
    "j_get J ?ret ''version'' d = Inr (j_string J vers)" "j_get J ?ret ''kv_tables'' d = Inr d"
    "j_get J ?ret ''action_results'' d = Inr d" for d
    by (simp_all add: get parts_def)
  have "\<exists>v. add_object_to_array J (j_array J) abi other type k same = Inr v \<and> j_get J ?ret type (j_array J) = Inr v"
    if sec: "(type, k, same) \<in> set (abi_sections J)" for type k same
    using sec unfolding abi_sections_def by (auto simp: at m(2-7) [unfolded defs])
  then show ?thesis by (rule that [OF m(1,8) obj _ at(7-9) last])
qed

lemma sections_merged:
  assumes "jsoncons_laws J" and "merge J abi other = Inr r" and "(type, k, same) \<in> set (abi_sections J)"
  shows "\<exists>v. add_object_to_array J (j_array J) abi other type k same = Inr v \<and> j_get J r type (j_array J) = Inr v"
proof -
  obtain n ret where p: "is_object J ret"
    "\<exists>v. add_object_to_array J (j_array J) abi other type k same = Inr v \<and> j_get J ret type (j_array J) = Inr v"
    "if at_least_1_2 n then \<exists>x y. merge_kv_tables J abi other = Inr x \<and> merge_action_results J abi other = Inr y
        \<and> r = put_unless_empty J (put_unless_empty J ret ''kv_tables'' x) ''action_results'' y
     else r = ret"
    by (rule merge_parts [OF assms(1,2)]) (use assms(3) in blast)
  have "type \<noteq> ''kv_tables''" "type \<noteq> ''action_results''" using assms(3) by (auto simp: abi_sections_def)
  then show ?thesis using p object_put [OF assms(1)] by (auto split: if_splits)
qed

lemma section_kinds:
  "(type, k, same) \<in> set (abi_sections J) \<Longrightarrow> definition_kind J same k"
  using types.definition_kind_axioms structs.definition_kind_axioms actions.definition_kind_axioms
    tables.definition_kind_axioms clauses.definition_kind_axioms variants.definition_kind_axioms
  by (auto simp: abi_sections_def)

section \<open>Structs and variants\<close>

definition reads_struct :: "'j jsoncons \<Rightarrow> 'j \<Rightarrow> 'j \<Rightarrow> 'j \<Rightarrow> ('j \<times> 'j) list \<Rightarrow> bool" where
  "reads_struct J s name base fs \<longleftrightarrow> j_at J s ''name'' = Inr name \<and> j_at J s ''base'' = Inr base
     \<and> j_size_at J s ''fields'' = Inr (length fs)
     \<and> (\<exists>es. res_bind (j_at J s ''fields'') (j_elements J) = Inr es
          \<and> list_all2 (\<lambda>e f. j_at J e ''name'' = Inr (fst f) \<and> j_at J e ''type'' = Inr (snd f)) es fs)"

definition reads_variant :: "'j jsoncons \<Rightarrow> 'j \<Rightarrow> 'j \<Rightarrow> 'j list \<Rightarrow> bool" where
  "reads_variant J v name types \<longleftrightarrow> j_at J v ''name'' = Inr name
     \<and> res_bind (j_at J v ''types'') (j_elements J) = Inr types"

lemma find_field_ok:
  assumes "jsoncons_laws J" and "j_at J e ''name'' = Inr n" and "j_at J e ''type'' = Inr t"
  shows "list_all2 (\<lambda>e f. j_at J e ''name'' = Inr (fst f) \<and> j_at J e ''type'' = Inr (snd f)) es fs \<Longrightarrow>
    find_field J e es found = Inr (found \<or> (n, t) \<in> set fs)"
  by (induction es fs arbitrary: found rule: list_all2_induct)
    (auto simp: and_then_def same_at_def assms law_equal prod_eq_iff)

lemma fields_found_ok:
  assumes "jsoncons_laws J" and "res_bind (j_at J b ''fields'') (j_elements J) = Inr bs"
    and "list_all2 (\<lambda>e f. j_at J e ''name'' = Inr (fst f) \<and> j_at J e ''type'' = Inr (snd f)) bs fb"
  shows "list_all2 (\<lambda>e f. j_at J e ''name'' = Inr (fst f) \<and> j_at J e ''type'' = Inr (snd f)) as fa \<Longrightarrow>
    fields_found J as b = Inr (set fa \<subseteq> set fb)"
  by (induction as fa rule: list_all2_induct) (auto simp: assms(2) find_field_ok [OF assms(1) _ _ assms(3)])

lemma struct_same_iff:
  assumes "jsoncons_laws J" and "reads_struct J a na ba fa" and "reads_struct J b nb bb fb"
  shows "struct_is_same J a b = Inr (na = nb \<and> ba = bb \<and> length fa = length fb \<and> set fa \<subseteq> set fb)"
proof -
  obtain as bs where e: "res_bind (j_at J a ''fields'') (j_elements J) = Inr as" "res_bind (j_at J b ''fields'') (j_elements J) = Inr bs"
      "list_all2 (\<lambda>e f. j_at J e ''name'' = Inr (fst f) \<and> j_at J e ''type'' = Inr (snd f)) as fa"
      "list_all2 (\<lambda>e f. j_at J e ''name'' = Inr (fst f) \<and> j_at J e ''type'' = Inr (snd f)) bs fb"
    using assms(2,3) by (auto simp: reads_struct_def)
  have "fields_found J as b = Inr (set fa \<subseteq> set fb)" using e by (intro fields_found_ok [OF assms(1)])
  then show ?thesis
    using assms(2,3) by (auto simp: struct_is_same_def e(1) reads_struct_def and_then_def same_at_def law_equal [OF assms(1)])
qed

lemma same_fields_permuted:
  "distinct fa \<Longrightarrow> length fa = length fb \<and> set fa \<subseteq> set fb \<longleftrightarrow> mset fa = mset fb"
proof
  assume d: "distinct fa" and "length fa = length fb \<and> set fa \<subseteq> set fb"
  then have len: "length fa = length fb" and sub: "set fa \<subseteq> set fb" by simp_all
  have "card (set fa) = length fb" using d len by (simp add: distinct_card)
  moreover have "card (set fb) \<le> length fb" by (rule card_length)
  ultimately have eq: "set fa = set fb" using sub by (intro card_seteq) simp_all
  then have "distinct fb" using d len by (metis card_distinct distinct_card)
  then show "mset fa = mset fb" using d eq set_eq_iff_mset_eq_distinct by blast
qed (metis mset_eq_length mset_eq_setD order_refl)

lemma types_found_ok:
  assumes "jsoncons_laws J" and "res_bind (j_at J b ''types'') (j_elements J) = Inr bs"
  shows "types_found J as b = Inr (set as \<subseteq> set bs)"
  by (induction as) (auto simp: assms law_equal list_ex_iff)

lemma variant_same_iff:
  assumes "jsoncons_laws J" and "reads_variant J a na ta" and "reads_variant J b nb tb"
  shows "variant_is_same J a b = Inr (na = nb \<and> set ta \<subseteq> set tb)"
  using assms(2,3) by (auto simp: variant_is_same_def reads_variant_def types_found_ok [OF assms(1)] same_at_def law_equal [OF assms(1)])

section \<open>Versions\<close>

definition digit :: "nat \<Rightarrow> char" where
  "digit n = char_of (48 + n)"

lemma of_char_digit [simp]: "n < 10 \<Longrightarrow> (of_char (digit n) :: nat) = 48 + n"
  by (simp add: digit_def of_char_of)

lemma digit_neq: "n < 10 \<Longrightarrow> (of_char c :: nat) < 48 \<Longrightarrow> digit n \<noteq> c"
  using of_char_digit by force

lemma digit_facts:
  assumes "n < 10"
  shows "is_digit (digit n)" "digit_value (digit n) = int n" "lower (digit n) = 48 + n" "\<not> is_blank (digit n)"
    "digit n \<noteq> CHR ''-''" "digit n \<noteq> CHR ''+''" "digit n \<noteq> CHR ''.''"
proof -
  have "of_char (digit n) = int (48 + n)" using assms by (metis assms of_char_digit of_nat_of_char)
  then show "digit_value (digit n) = int n" by (simp add: digit_value_def)
  show "digit n \<noteq> CHR ''-''" "digit n \<noteq> CHR ''+''" "digit n \<noteq> CHR ''.''"
    using assms by (intro digit_neq; simp)+
qed (use assms in \<open>simp_all add: is_digit_def lower_def is_blank_def\<close>)

lemma point_facts: "\<not> is_digit (CHR ''.'')" "lower (CHR ''.'') = 46" "\<not> is_blank (CHR ''.'')"
  by (simp_all add: is_digit_def lower_def is_blank_def)

lemma version_of_digits:
  assumes "a < 10" and "b < 10"
  shows "version_number (p @ [digit a, CHR ''.'', digit b]) = Inr (Hundredths (int (100 * a + 10 * b)))"
  using assms by (simp add: version_number_def last_three_def stod_def unsigned_value_def decimal_value_def digits_value_def digit_facts point_facts)

lemma version_two_digits:
  assumes "a < 10" and "b < 10"
  shows "version_number (p @ [CHR ''.'', digit a, digit b]) = Inr (Hundredths (int (10 * a + b)))"
  using assms by (simp add: version_number_def last_three_def stod_def unsigned_value_def decimal_value_def digits_value_def digit_facts point_facts)

section \<open>The properties\<close>

text \<open>The array sections of a result whose version reads as \<open>n\<close>.\<close>

definition array_sections :: "'j jsoncons \<Rightarrow> number \<Rightarrow> (string \<times> string \<times> ('j \<Rightarrow> 'j \<Rightarrow> bool thrown)) list" where
  "array_sections J n = abi_sections J @ (if at_least_1_2 n then [(''action_results'', ''name'', action_result_is_same J)] else [])"

lemma late_sections:
  assumes "jsoncons_laws J" and "is_object J ret" and "j_get J ret ''kv_tables'' (j_object J) = Inr (j_object J)"
    and "j_get J ret ''action_results'' (j_array J) = Inr (j_array J)"
    and "j_members J x = Inr os" and "j_elements J y = Inr cs"
    and "r = put_unless_empty J (put_unless_empty J ret ''kv_tables'' x) ''action_results'' y"
  shows "members_at J r ''kv_tables'' = Inr os" and "definitions J r ''action_results'' = Inr cs"
proof -
  have e: "j_empty J x \<longleftrightarrow> os = []" "j_empty J y \<longleftrightarrow> cs = []"
    using law_empty [OF assms(1)] assms(5,6) by blast+
  note put = object_put [OF assms(1)]
  have "j_get J r ''kv_tables'' (j_object J) = Inr (if os = [] then j_object J else x)"
    unfolding assms(7) using assms(2,3) by (simp add: put) (simp add: put_unless_empty_def put e)
  then show "members_at J r ''kv_tables'' = Inr os"
    using assms(5) law_object [OF assms(1)] by (simp add: members_at_def)
  have "j_get J (put_unless_empty J ret ''kv_tables'' x) ''action_results'' (j_array J) = Inr (j_array J)"
    using assms(2,4) by (simp add: put)
  then have "j_get J r ''action_results'' (j_array J) = Inr (if cs = [] then j_array J else y)"
    unfolding assms(7) using put(2,3) [OF assms(2)] put(2) [OF put(3) [OF assms(2)]]
    by (simp add: put_unless_empty_def [of J _ "''action_results''"] e)
  then show "definitions J r ''action_results'' = Inr cs"
    using assms(6) law_array [OF assms(1)] by (simp add: definitions_def)
qed

lemma early_sections:
  assumes "jsoncons_laws J" and "merge J abi other = Inr r" and "(type, k, same) \<in> set (abi_sections J)"
  shows "\<exists>as bs cs. definitions J abi type = Inr as \<and> definitions J other type = Inr bs \<and> definitions J r type = Inr cs
    \<and> merged_from J k same as bs cs"
proof -
  obtain v where v: "add_object_to_array J (j_array J) abi other type k same = Inr v" "j_get J r type (j_array J) = Inr v"
    using sections_merged [OF assms] by blast
  show ?thesis
    using definition_kind.merge_section [OF section_kinds [OF assms(3)] assms(1) v(1)] v(2) by (simp add: definitions_def)
qed

text \<open>
  C25. When two ABI files merge, every array section of the result (types, structs, actions, tables, clauses and variants,
  and action results if the version of the result reads as at least 1.2) holds the definitions of the first file
  followed by those of the second whose names are new; definitions with equal names passed the
  comparison of their kind, otherwise there is no result. If the names in a section of both files are
  unique they are unique in the result, and every definition of either file is in it, itself or as one
  that compares as the same. From version 1.2 on the key-value tables are those of both files, equal where
  both name one; below, the result has neither key-value tables nor action results, whatever the files have.
\<close>
theorem merge_keeps_definitions:
  assumes "jsoncons_laws J" and "merge J abi other = Inr r"
  shows "\<exists>vers n. merge_version J abi other = Inr vers \<and> version_number vers = Inr n
    \<and> (\<forall>d. j_get J r ''version'' d = Inr (j_string J vers))
    \<and> (\<forall>(type, k, same) \<in> set (array_sections J n). \<exists>as bs cs. definitions J abi type = Inr as
        \<and> definitions J other type = Inr bs \<and> definitions J r type = Inr cs \<and> merged_from J k same as bs cs)
    \<and> (if at_least_1_2 n then \<exists>ms ns os. members_at J abi ''kv_tables'' = Inr ms \<and> members_at J other ''kv_tables'' = Inr ns
           \<and> members_at J r ''kv_tables'' = Inr os \<and> merged_members ms ns os
       else \<forall>d. j_get J r ''kv_tables'' d = Inr d \<and> j_get J r ''action_results'' d = Inr d)"
proof -
  obtain vers n ret where p: "merge_version J abi other = Inr vers" "version_number vers = Inr n" "is_object J ret"
    "\<And>d. j_get J ret ''version'' d = Inr (j_string J vers)"
    "\<And>d. j_get J ret ''kv_tables'' d = Inr d" "\<And>d. j_get J ret ''action_results'' d = Inr d"
    "if at_least_1_2 n then \<exists>x y. merge_kv_tables J abi other = Inr x \<and> merge_action_results J abi other = Inr y
        \<and> r = put_unless_empty J (put_unless_empty J ret ''kv_tables'' x) ''action_results'' y
     else r = ret"
    by (rule merge_parts [OF assms]) blast
  note early = early_sections [OF assms]
  have version: "j_get J r ''version'' d = Inr (j_string J vers)" for d
    using p(7) object_put [OF assms(1)] p(3,4) by (auto split: if_splits)
  show ?thesis
  proof (cases "at_least_1_2 n")
    case False
    then show ?thesis using p version early by (intro exI [of _ vers] exI [of _ n]) (auto simp: array_sections_def)
  next
    case True
    then obtain x y where xy: "add_object_to_object J (j_object J) abi other ''kv_tables'' = Inr x"
      "add_object_to_array J (j_array J) abi other ''action_results'' ''name'' (action_result_is_same J) = Inr y"
      "r = put_unless_empty J (put_unless_empty J ret ''kv_tables'' x) ''action_results'' y"
      using p(7) by (auto simp: merge_kv_tables_def merge_action_results_def)
    obtain ms ns os where kv: "members_at J abi ''kv_tables'' = Inr ms" "members_at J other ''kv_tables'' = Inr ns"
      "j_members J x = Inr os" "merged_members ms ns os"
      using merge_object_section [OF assms(1) xy(1)] by blast
    obtain as bs cs where ar: "definitions J abi ''action_results'' = Inr as" "definitions J other ''action_results'' = Inr bs"
      "j_elements J y = Inr cs" "merged_from J ''name'' (action_result_is_same J) as bs cs"
      using results.merge_section [OF assms(1) xy(2)] by blast
    note late = late_sections [OF assms(1) p(3) p(5) p(6) kv(3) ar(3) xy(3)]
    have "\<forall>(type, k, same) \<in> set (array_sections J n). \<exists>as bs cs. definitions J abi type = Inr as
        \<and> definitions J other type = Inr bs \<and> definitions J r type = Inr cs \<and> merged_from J k same as bs cs"
      using early ar late(2) True by (auto simp: array_sections_def)
    then show ?thesis using p(1,2) version kv late(1) True by (intro exI [of _ vers] exI [of _ n]) auto
  qed
qed

definition struct_json :: "string \<Rightarrow> (string \<times> string) list \<Rightarrow> json" where
  "struct_json name fs = Obj [(''name'', Text name), (''base'', Text []),
     (''fields'', Arr (map (\<lambda>(n, t). Obj [(''name'', Text n), (''type'', Text t)]) fs))]"

definition abi_json :: "string \<Rightarrow> json list \<Rightarrow> json list \<Rightarrow> json" where
  "abi_json vers ss vs = Obj [(''version'', Text vers), (''structs'', Arr ss), (''variants'', Arr vs)]"

definition variant_json :: "string \<Rightarrow> string list \<Rightarrow> json" where
  "variant_json name ts = Obj [(''name'', Text name), (''types'', Arr (map Text ts))]"

lemma example_merge:
  "res_bind (merge json_lib (abi_json ''1.2'' [struct_json ''a'' [(''x'', ''t''), (''y'', ''u'')]] [])
      (abi_json ''1.2'' [struct_json ''a'' [(''y'', ''u''), (''x'', ''t'')], struct_json ''b'' []] [])) (\<lambda>r. definitions json_lib r ''structs'')
    = Inr [struct_json ''a'' [(''x'', ''t''), (''y'', ''u'')], struct_json ''b'' []]"
  by code_simp

theorem merge_keeps_definitions_witness:
  "\<exists>as bs. merged_from json_lib ''name'' (struct_is_same json_lib) as bs
    [struct_json ''a'' [(''x'', ''t''), (''y'', ''u'')], struct_json ''b'' []]"
proof -
  obtain r where r: "merge json_lib (abi_json ''1.2'' [struct_json ''a'' [(''x'', ''t''), (''y'', ''u'')]] [])
      (abi_json ''1.2'' [struct_json ''a'' [(''y'', ''u''), (''x'', ''t'')], struct_json ''b'' []] []) = Inr r"
    "definitions json_lib r ''structs'' = Inr [struct_json ''a'' [(''x'', ''t''), (''y'', ''u'')], struct_json ''b'' []]"
    using example_merge by (auto simp: res_bind_Inr)
  have "(''structs'', ''name'', struct_is_same json_lib) \<in> set (array_sections json_lib n)" for n
    by (simp add: abi_sections_def array_sections_def)
  with merge_keeps_definitions [OF json_lib_laws r(1)] r(2) show ?thesis by fastforce
qed

text \<open>
  Structs compare as the same exactly when name, base and number of fields are equal and every field
  of the first is one of the second. The order of the fields is not looked at, so structs with
  different layouts are merged and the second is dropped. Variants compare as the same when the second
  has at least the alternatives of the first, so what is dropped depends on the order of the files.
\<close>
theorem struct_and_variant_sameness:
  assumes "jsoncons_laws J" and "reads_struct J a na ba fa" and "reads_struct J b nb bb fb" and "distinct fa"
    and "reads_variant J v nv tv" and "reads_variant J w nw tw"
  shows "(struct_is_same J a b = Inr True \<longleftrightarrow> na = nb \<and> ba = bb \<and> mset fa = mset fb)
    \<and> (variant_is_same J v w = Inr True \<longleftrightarrow> nv = nw \<and> set tv \<subseteq> set tw)
    \<and> (\<exists>e. struct_is_same J a b = Inr e) \<and> (\<exists>e. variant_is_same J v w = Inr e)"
  using struct_same_iff [OF assms(1-3)] same_fields_permuted [OF assms(4), of fb] variant_same_iff [OF assms(1,5,6)] by auto

theorem struct_and_variant_sameness_witness:
  "struct_is_same json_lib (struct_json ''a'' [(''x'', ''t''), (''y'', ''u'')]) (struct_json ''a'' [(''y'', ''u''), (''x'', ''t'')]) = Inr True
    \<and> variant_is_same json_lib (variant_json ''v'' [''t'']) (variant_json ''v'' [''u'', ''t'']) = Inr True
    \<and> variant_is_same json_lib (variant_json ''v'' [''u'', ''t'']) (variant_json ''v'' [''t'']) \<noteq> Inr True"
proof -
  let ?x = "(Text ''x'', Text ''t'')" and ?y = "(Text ''y'', Text ''u'')"
  have s: "reads_struct json_lib (struct_json ''a'' [(''x'', ''t''), (''y'', ''u'')]) (Text ''a'') (Text []) [?x, ?y]"
      "reads_struct json_lib (struct_json ''a'' [(''y'', ''u''), (''x'', ''t'')]) (Text ''a'') (Text []) [?y, ?x]"
    and v: "reads_variant json_lib (variant_json ''v'' [''t'']) (Text ''v'') [Text ''t'']"
      "reads_variant json_lib (variant_json ''v'' [''u'', ''t'']) (Text ''v'') [Text ''u'', Text ''t'']"
    by (simp_all add: reads_struct_def reads_variant_def struct_json_def variant_json_def json_lib_def)
  show ?thesis
    using struct_and_variant_sameness [OF json_lib_laws s _ v] struct_and_variant_sameness [OF json_lib_laws s _ v(2) v(1)] by simp
qed

lemma early_version_drops:
  assumes "jsoncons_laws J" and "merge J abi other = Inr r" and "merge_version J abi other = Inr vers"
    and "version_number vers = Inr n" and "\<not> at_least_1_2 n"
  shows "j_get J r ''kv_tables'' dflt = Inr dflt \<and> j_get J r ''action_results'' dflt = Inr dflt"
proof -
  have ob: "is_object J (j_object J)" "j_get J (j_object J) key dflt = Inr dflt" for key
    using law_object [OF assms(1)] law_get [OF assms(1) law_object [OF assms(1)]] by (simp_all add: is_object_def)
  note put = object_put [OF assms(1)]
  show ?thesis using assms(2) unfolding merge_def assms(3,4) res_bind_simps Let_def
    using assms(5) by (auto simp: res_bind_Inr put ob)
qed

text \<open>
  The version of the result is the larger one if the minor versions have one digit. Of a minor version
  with two digits only the point and the minor digits are read: version 1.10 is below 1.2 and the
  result leaves out key-value tables and action results.
\<close>
theorem merged_version:
  assumes "j_at J abi ''version'' = Inr va" and "j_text J va = Inr (p @ [digit a, CHR ''.'', digit b])"
    and "j_at J other ''version'' = Inr vb" and "j_text J vb = Inr (q @ [digit c, CHR ''.'', digit d])"
    and "j_at J late ''version'' = Inr vc" and "j_text J vc = Inr (s @ [CHR ''.'', digit e, digit f])"
    and "a < 10" and "b < 10" and "c < 10" and "d < 10" and "e < 10" and "f < 10"
  shows "merge_version J abi other = Inr (if a < c \<or> a = c \<and> b < d then q @ [digit c, CHR ''.'', digit d] else p @ [digit a, CHR ''.'', digit b])
    \<and> (0 < a \<longrightarrow> merge_version J abi late = Inr (p @ [digit a, CHR ''.'', digit b]))
    \<and> (jsoncons_laws J \<and> merge J late late = Inr r \<longrightarrow>
        j_get J r ''kv_tables'' dflt = Inr dflt \<and> j_get J r ''action_results'' dflt = Inr dflt)"
proof -
  have "(100 * a + 10 * b < 100 * c + 10 * d) = (a < c \<or> a = c \<and> b < d)" using assms(8,10) by linarith
  moreover have "0 < a \<Longrightarrow> \<not> 100 * a + 10 * b < 10 * e + f" using assms(11,12) by linarith
  moreover have "jsoncons_laws J \<and> merge J late late = Inr r \<Longrightarrow>
      j_get J r ''kv_tables'' dflt = Inr dflt \<and> j_get J r ''action_results'' dflt = Inr dflt"
    using assms version_two_digits [OF assms(11,12), of s]
    by (intro early_version_drops [of J late late r]) (auto simp: merge_version_def)
  ultimately show ?thesis using assms version_of_digits version_two_digits
    by (simp add: merge_version_def del: of_nat_add of_nat_mult)
qed

theorem merged_version_witness:
  "merge_version json_lib (abi_json ''eosio::abi/1.1'' [] []) (abi_json ''eosio::abi/1.2'' [] []) = Inr ''eosio::abi/1.2''
    \<and> merge_version json_lib (abi_json ''eosio::abi/1.2'' [] []) (abi_json ''eosio::abi/1.10'' [] []) = Inr ''eosio::abi/1.2''"
proof -
  have d: "digit 0 = CHR ''0''" "digit (Suc 0) = CHR ''1''" "digit 2 = CHR ''2''" by code_simp+
  have at: "j_at json_lib (abi_json v [] []) ''version'' = Inr (Text v)" and t: "j_text json_lib (Text v) = Inr v" for v
    by (simp_all add: json_lib_def abi_json_def)
  from merged_version [of json_lib "abi_json ''eosio::abi/1.1'' [] []" _ "''eosio::abi/''" 1 1 "abi_json ''eosio::abi/1.2'' [] []" _ "''eosio::abi/''" 1 2
      "abi_json ''eosio::abi/1.10'' [] []" _ "''eosio::abi/1''" 1 0, OF at _ at _ at]
    merged_version [of json_lib "abi_json ''eosio::abi/1.2'' [] []" _ "''eosio::abi/''" 1 2 "abi_json ''eosio::abi/1.2'' [] []" _ "''eosio::abi/''" 1 2
      "abi_json ''eosio::abi/1.10'' [] []" _ "''eosio::abi/1''" 1 0, OF at _ at _ at]
  show ?thesis by (simp add: t d)
qed

end
