(* ===== verification/Action.thy ===== *)
theory Action
  imports Serialize StackBuffer
begin

text \<open>
  Actions and transactions (\<open>contracts/eosio/action.hpp\<close>, \<open>transaction.hpp\<close>): their types with the
  fields they are packed from, how they are sent, and how a contract reads the data of the action it
  runs in. Functions of the host are recorded in the order in which they are called; the host may abort
  the contract at each of them, which is the parameter \<open>H\<close>. The formats of names, numbers, byte vectors
  and vectors of structs come from the library that also gives the codecs.
\<close>

section \<open>Calls of the host\<close>

datatype host_call =
    Require_recipient u64
  | Require_auth u64
  | Require_auth2 u64 u64
  | Send_inline bytes
  | Send_context_free_inline bytes
  | Send_deferred "128 word" u64 bytes u32
  | Set_action_return_value bytes

type_synonym host_policy = "host_call list \<Rightarrow> host_call \<Rightarrow> unit result"

record contract_state =
  cs_heap :: dsmalloc
  cs_calls :: "host_call list"

definition call_host :: "host_policy \<Rightarrow> host_call \<Rightarrow> contract_state \<Rightarrow> contract_state result" where
  "call_host H c st = res_bind (H (cs_calls st) c) (\<lambda>_. Inr (st\<lparr>cs_calls := cs_calls st @ [c]\<rparr>))"

definition cs_mem :: "contract_state \<Rightarrow> memory" where
  "cs_mem st = mem (cs_heap st)"

definition with_mem :: "memory \<Rightarrow> contract_state \<Rightarrow> contract_state" where
  "with_mem m st = st\<lparr>cs_heap := (cs_heap st)\<lparr>mem := m\<rparr>\<rparr>"

text \<open>\<open>pack\<close>, with the address at which the vector has its bytes.\<close>

definition pack_at :: "'v codec \<Rightarrow> 'v \<Rightarrow> u32 \<Rightarrow> contract_state \<Rightarrow> (bytes \<times> contract_state) result" where
  "pack_at C v a st = res_bind (pack C v a (cs_mem st)) (\<lambda>(bs, m). Inr (bs, with_mem m st))"

section \<open>Permission levels\<close>

type_synonym name = u64

datatype permission_level = Permission_level (actor: name) (permission: name)

definition level_less :: "permission_level \<Rightarrow> permission_level \<Rightarrow> bool" where
  "level_less a b \<longleftrightarrow> actor a < actor b \<or> actor a = actor b \<and> permission a < permission b"

instantiation permission_level :: linorder
begin

definition less_permission_level :: "permission_level \<Rightarrow> permission_level \<Rightarrow> bool" where
  "a < b \<longleftrightarrow> level_less a b"

definition less_eq_permission_level :: "permission_level \<Rightarrow> permission_level \<Rightarrow> bool" where
  "(a :: permission_level) \<le> b \<longleftrightarrow> a < b \<or> a = b"

instance
  by standard (auto simp: less_permission_level_def level_less_def less_eq_permission_level_def intro: permission_level.expand)

end

definition level_equal :: "permission_level \<Rightarrow> permission_level \<Rightarrow> bool" where
  "level_equal a b \<longleftrightarrow> actor a = actor b \<and> permission a = permission b"

text \<open>Structs are packed as the tuple of their fields.\<close>

definition struct_codec :: "('t \<Rightarrow> 'v) \<Rightarrow> ('v \<Rightarrow> 't) \<Rightarrow> 't codec \<Rightarrow> 'v codec" where
  "struct_codec build parts C = \<lparr>to_bin = (\<lambda>v. to_bin C (parts v)),
     from_bin = bind_reader (from_bin C) (\<lambda>t. Done (build t)), pb_out = None, pb_in = None\<rparr>"

lemma struct_codec_ok: "codec_ok C (parts v) \<Longrightarrow> build (parts v) = v \<Longrightarrow> codec_ok (struct_codec build parts C) v"
  by (simp add: codec_ok_def struct_codec_def parse_bind)

lemma emitted_struct [simp]: "emitted (to_bin (struct_codec build parts C) v) = emitted (to_bin C (parts v))"
  by (simp add: struct_codec_def)

lemma emitted_fields2 [simp]: "emitted (to_bin (fields2 A B) (a, b)) = emitted (to_bin A a) @ emitted (to_bin B b)"
  by (simp add: fields2_def)

section \<open>Actions\<close>

record action =
  act_account :: name
  act_name :: name
  act_authorization :: "permission_level list"
  act_data :: bytes

text \<open>The formats of the library: names, byte vectors, vectors of structs.\<close>

record formats =
  f_name :: "name codec"
  f_bytes :: "bytes codec"
  f_levels :: "permission_level codec \<Rightarrow> permission_level list codec"

definition level_codec :: "formats \<Rightarrow> permission_level codec" where
  "level_codec L = struct_codec (\<lambda>(a, p). Permission_level a p) (\<lambda>l. (actor l, permission l)) (fields2 (f_name L) (f_name L))"

definition action_codec :: "formats \<Rightarrow> action codec" where
  "action_codec L = struct_codec
     (\<lambda>(a, n, ls, d). \<lparr>act_account = a, act_name = n, act_authorization = ls, act_data = d\<rparr>)
     (\<lambda>act. (act_account act, act_name act, act_authorization act, act_data act))
     (fields2 (f_name L) (fields2 (f_name L) (fields2 (f_levels L (level_codec L)) (f_bytes L))))"

definition new_action :: "'v codec \<Rightarrow> permission_level list \<Rightarrow> name \<Rightarrow> name \<Rightarrow> 'v \<Rightarrow> u32 \<Rightarrow> contract_state \<Rightarrow> (action \<times> contract_state) result" where
  "new_action C auths a n v addr st = res_bind (pack_at C v addr st) (\<lambda>(bs, st1).
     Inr (\<lparr>act_account = a, act_name = n, act_authorization = auths, act_data = bs\<rparr>, st1))"

definition new_action1 :: "'v codec \<Rightarrow> permission_level \<Rightarrow> name \<Rightarrow> name \<Rightarrow> 'v \<Rightarrow> u32 \<Rightarrow> contract_state \<Rightarrow> (action \<times> contract_state) result" where
  "new_action1 C auth a n v addr st = new_action C [auth] a n v addr st"

definition action_send :: "host_policy \<Rightarrow> formats \<Rightarrow> action \<Rightarrow> u32 \<Rightarrow> contract_state \<Rightarrow> contract_state result" where
  "action_send H L act addr st = res_bind (pack_at (action_codec L) act addr st) (\<lambda>(bs, st1). call_host H (Send_inline bs) st1)"

definition action_send_context_free :: "host_policy \<Rightarrow> formats \<Rightarrow> action \<Rightarrow> u32 \<Rightarrow> contract_state \<Rightarrow> contract_state result" where
  "action_send_context_free H L act addr st =
     res_bind (check (length (act_authorization act) = 0) ''context free actions cannot have authorizations'') (\<lambda>_.
     res_bind (pack_at (action_codec L) act addr st) (\<lambda>(bs, st1). call_host H (Send_context_free_inline bs) st1))"

text \<open>\<open>data_as\<close>: the vector has its bytes at \<open>addr\<close>; \<open>&data[0]\<close> of an empty vector is undefined.\<close>

definition action_data_as :: "'v codec \<Rightarrow> action \<Rightarrow> u32 \<Rightarrow> memory \<Rightarrow> 'v result" where
  "action_data_as C act addr m = (if act_data act = [] then Inl (Trap ''element of an empty vector'')
     else unpack C addr (of_nat (length (act_data act))) m)"

section \<open>The current action\<close>

fun require_recipient :: "host_policy \<Rightarrow> name list \<Rightarrow> contract_state \<Rightarrow> contract_state result" where
  "require_recipient H [] st = Inr st"
| "require_recipient H (notify_account # remaining_accounts) st =
     res_bind (call_host H (Require_recipient notify_account) st) (require_recipient H remaining_accounts)"

definition require_auth :: "host_policy \<Rightarrow> name \<Rightarrow> contract_state \<Rightarrow> contract_state result" where
  "require_auth H n st = call_host H (Require_auth n) st"

definition require_auth_level :: "host_policy \<Rightarrow> permission_level \<Rightarrow> contract_state \<Rightarrow> contract_state result" where
  "require_auth_level H level st = call_host H (Require_auth2 (actor level) (permission level)) st"

text \<open>
  \<open>unpack_action_data\<close>: up to 512 bytes are read into the stack, at \<open>stack\<close>, more into a block of the
  heap that is freed when the value has been unpacked. \<open>data\<close> is what the host has.
\<close>

definition unpack_action_data :: "'v codec \<Rightarrow> u32 \<Rightarrow> bytes \<Rightarrow> dsmalloc \<Rightarrow> ('v \<times> dsmalloc) result" where
  "unpack_action_data C stack data s = (let n = of_nat (length data) in
     res_bind (take_buffer stack n s) (\<lambda>(buffer, s1).
     let s2 = s1\<lparr>mem := store_bytes buffer data (mem s1)\<rparr> in
     res_bind (unpack C buffer n (mem s2)) (\<lambda>v. Inr (v, free_memory n buffer s2))))"

text \<open>
  \<open>get_action(type, index)\<close>: \<open>s\<close> and \<open>s2\<close> are what the two calls of the host return, and \<open>data\<close> what
  the second one writes to the buffer.
\<close>

definition get_action :: "formats \<Rightarrow> u32 \<Rightarrow> int \<Rightarrow> int \<Rightarrow> bytes \<Rightarrow> dsmalloc \<Rightarrow> (action \<times> dsmalloc) result" where
  "get_action L stack n1 n2 data s =
     res_bind (check (n1 > 0) ''get_action size failed'') (\<lambda>_. let n = of_int n1 :: u32 in
     res_bind (take_buffer stack n s) (\<lambda>(buffer, s1).
     let s2 = s1\<lparr>mem := store_bytes buffer data (mem s1)\<rparr> in
     res_bind (check (n = of_int n2) ''get_action failed'') (\<lambda>_.
     res_bind (unpack (action_codec L) buffer n (mem s2)) (\<lambda>v. Inr (v, free_memory n buffer s2)))))"

section \<open>Typed actions\<close>

record action_wrapper =
  code_name :: name
  permissions :: "permission_level list"

definition wrapper_default :: "name \<Rightarrow> action_wrapper" where
  "wrapper_default DefaultContract = \<lparr>code_name = DefaultContract, permissions = []\<rparr>"

definition wrapper_user :: "name \<Rightarrow> name \<Rightarrow> name \<Rightarrow> action_wrapper" where
  "wrapper_user active DefaultContract user = \<lparr>code_name = DefaultContract, permissions = [Permission_level user active]\<rparr>"

definition wrapper_level :: "name \<Rightarrow> permission_level \<Rightarrow> action_wrapper" where
  "wrapper_level DefaultContract l = \<lparr>code_name = DefaultContract, permissions = [l]\<rparr>"

definition wrapper_levels :: "name \<Rightarrow> permission_level list \<Rightarrow> action_wrapper" where
  "wrapper_levels DefaultContract ls = \<lparr>code_name = DefaultContract, permissions = ls\<rparr>"

definition wrapper_code_levels :: "name \<Rightarrow> permission_level list \<Rightarrow> action_wrapper" where
  "wrapper_code_levels code perms = \<lparr>code_name = code, permissions = perms\<rparr>"

definition wrapper_code_level :: "name \<Rightarrow> permission_level \<Rightarrow> action_wrapper" where
  "wrapper_code_level code perm = \<lparr>code_name = code, permissions = [perm]\<rparr>"

definition to_action :: "'v codec \<Rightarrow> name \<Rightarrow> action_wrapper \<Rightarrow> 'v \<Rightarrow> u32 \<Rightarrow> contract_state \<Rightarrow> (action \<times> contract_state) result" where
  "to_action C action_name w args addr st = new_action C (permissions w) (code_name w) action_name args addr st"

definition wrapper_send ::
  "host_policy \<Rightarrow> formats \<Rightarrow> 'v codec \<Rightarrow> name \<Rightarrow> action_wrapper \<Rightarrow> 'v \<Rightarrow> u32 \<Rightarrow> u32 \<Rightarrow> contract_state \<Rightarrow> contract_state result" where
  "wrapper_send H L C action_name w args a1 a2 st =
     res_bind (to_action C action_name w args a1 st) (\<lambda>(act, st1). action_send H L act a2 st1)"

definition wrapper_send_context_free ::
  "host_policy \<Rightarrow> formats \<Rightarrow> 'v codec \<Rightarrow> name \<Rightarrow> action_wrapper \<Rightarrow> 'v \<Rightarrow> u32 \<Rightarrow> u32 \<Rightarrow> contract_state \<Rightarrow> contract_state result" where
  "wrapper_send_context_free H L C action_name w args a1 a2 st =
     res_bind (to_action C action_name w args a1 st) (\<lambda>(act, st1). action_send_context_free H L act a2 st1)"

text \<open>A variant action has the number of the alternative, an \<open>unsigned_int\<close>, in front of its arguments.\<close>

definition variant_to_action ::
  "u32 codec \<Rightarrow> 'v codec \<Rightarrow> name \<Rightarrow> action_wrapper \<Rightarrow> u32 \<Rightarrow> 'v \<Rightarrow> u32 \<Rightarrow> contract_state \<Rightarrow> (action \<times> contract_state) result" where
  "variant_to_action U C action_name w variant args addr st =
     new_action (fields2 U C) (permissions w) (code_name w) action_name (variant, args) addr st"

definition variant_send ::
  "host_policy \<Rightarrow> formats \<Rightarrow> u32 codec \<Rightarrow> 'v codec \<Rightarrow> name \<Rightarrow> action_wrapper \<Rightarrow> u32 \<Rightarrow> 'v \<Rightarrow> u32 \<Rightarrow> u32 \<Rightarrow> contract_state
     \<Rightarrow> contract_state result" where
  "variant_send H L U C action_name w variant args a1 a2 st =
     res_bind (variant_to_action U C action_name w variant args a1 st) (\<lambda>(act, st1). action_send H L act a2 st1)"

definition variant_send_context_free ::
  "host_policy \<Rightarrow> formats \<Rightarrow> u32 codec \<Rightarrow> 'v codec \<Rightarrow> name \<Rightarrow> action_wrapper \<Rightarrow> u32 \<Rightarrow> 'v \<Rightarrow> u32 \<Rightarrow> u32 \<Rightarrow> contract_state
     \<Rightarrow> contract_state result" where
  "variant_send_context_free H L U C action_name w variant args a1 a2 st =
     res_bind (variant_to_action U C action_name w variant args a1 st) (\<lambda>(act, st1). action_send_context_free H L act a2 st1)"

definition dispatch_inline ::
  "host_policy \<Rightarrow> formats \<Rightarrow> 'v codec \<Rightarrow> name \<Rightarrow> name \<Rightarrow> permission_level list \<Rightarrow> 'v \<Rightarrow> u32 \<Rightarrow> u32 \<Rightarrow> contract_state
     \<Rightarrow> contract_state result" where
  "dispatch_inline H L C code act perms args a1 a2 st =
     res_bind (new_action C perms code act args a1 st) (\<lambda>(action, st1). action_send H L action a2 st1)"

definition inline_call_level ::
  "host_policy \<Rightarrow> formats \<Rightarrow> 'v codec \<Rightarrow> name \<Rightarrow> name \<Rightarrow> permission_level \<Rightarrow> 'v \<Rightarrow> u32 \<Rightarrow> u32 \<Rightarrow> contract_state
     \<Rightarrow> contract_state result" where
  "inline_call_level H L C Name code perm args a1 a2 st = dispatch_inline H L C code Name [perm] args a1 a2 st"

definition inline_call_levels ::
  "host_policy \<Rightarrow> formats \<Rightarrow> 'v codec \<Rightarrow> name \<Rightarrow> name \<Rightarrow> permission_level list \<Rightarrow> 'v \<Rightarrow> u32 \<Rightarrow> u32 \<Rightarrow> contract_state
     \<Rightarrow> contract_state result" where
  "inline_call_levels H L C Name code perms args a1 a2 st = dispatch_inline H L C code Name perms args a1 a2 st"

end
