(* ===== verification/Transaction.thy ===== *)
theory Transaction
  imports Action
begin

text \<open>
  Transactions (\<open>contracts/eosio/transaction.hpp\<close>) and the questions about permissions that a contract
  can ask (\<open>permission.hpp\<close>).
\<close>

section \<open>Transactions\<close>

record trx_formats =
  t_u8 :: "u8 codec"
  t_u16 :: "u16 codec"
  t_u32 :: "u32 codec"
  t_u128 :: "128 word codec"
  t_varint :: "u32 codec"
  t_actions :: "action codec \<Rightarrow> action list codec"
  t_extensions :: "(u16 \<times> bytes) codec \<Rightarrow> (u16 \<times> bytes) list codec"

record transaction_header =
  expiration :: u32
  ref_block_num :: u16
  ref_block_prefix :: u32
  max_net_usage_words :: u32
  max_cpu_usage_ms :: u8
  delay_sec :: u32

text \<open>
  The constructor sets the expiration and the members with an initializer; the two members that name
  a block have none, so they hold what happened to be in their place (\<open>junk_num\<close>, \<open>junk_prefix\<close>).
\<close>

definition new_header :: "u16 \<Rightarrow> u32 \<Rightarrow> u32 \<Rightarrow> transaction_header" where
  "new_header junk_num junk_prefix exp = \<lparr>expiration = exp, ref_block_num = junk_num, ref_block_prefix = junk_prefix,
     max_net_usage_words = 0, max_cpu_usage_ms = 0, delay_sec = 0\<rparr>"

definition header_codec :: "trx_formats \<Rightarrow> transaction_header codec" where
  "header_codec T = struct_codec
     (\<lambda>(e, n, p, w, c, d). \<lparr>expiration = e, ref_block_num = n, ref_block_prefix = p,
        max_net_usage_words = w, max_cpu_usage_ms = c, delay_sec = d\<rparr>)
     (\<lambda>h. (expiration h, ref_block_num h, ref_block_prefix h, max_net_usage_words h, max_cpu_usage_ms h, delay_sec h))
     (fields2 (t_u32 T) (fields2 (t_u16 T) (fields2 (t_u32 T) (fields2 (t_varint T) (fields2 (t_u8 T) (t_varint T))))))"

record transaction =
  header :: transaction_header
  context_free_actions :: "action list"
  actions :: "action list"
  transaction_extensions :: "(u16 \<times> bytes) list"

definition new_transaction :: "u16 \<Rightarrow> u32 \<Rightarrow> u32 \<Rightarrow> transaction" where
  "new_transaction junk_num junk_prefix exp = \<lparr>header = new_header junk_num junk_prefix exp,
     context_free_actions = [], actions = [], transaction_extensions = []\<rparr>"

text \<open>The expiration used when none is given: a minute after the current time, in seconds.\<close>

definition default_expiration :: "u32 \<Rightarrow> u32" where
  "default_expiration now = now + 60"

text \<open>\<open>EOSLIB_SERIALIZE_DERIVED\<close>: the fields of the base, then the others.\<close>

definition transaction_codec :: "trx_formats \<Rightarrow> formats \<Rightarrow> transaction codec" where
  "transaction_codec T L = struct_codec
     (\<lambda>(h, cfa, as, es). \<lparr>header = h, context_free_actions = cfa, actions = as, transaction_extensions = es\<rparr>)
     (\<lambda>t. (header t, context_free_actions t, actions t, transaction_extensions t))
     (fields2 (header_codec T) (fields2 (t_actions T (action_codec L)) (fields2 (t_actions T (action_codec L))
       (t_extensions T (fields2 (t_u16 T) (f_bytes L))))))"

definition transaction_send ::
  "host_policy \<Rightarrow> trx_formats \<Rightarrow> formats \<Rightarrow> transaction \<Rightarrow> 128 word \<Rightarrow> name \<Rightarrow> bool \<Rightarrow> u32 \<Rightarrow> contract_state \<Rightarrow> contract_state result" where
  "transaction_send H T L trx sender_id payer replace_existing addr st =
     res_bind (pack_at (transaction_codec T L) trx addr st) (\<lambda>(bs, st1).
     call_host H (Send_deferred sender_id payer bs (if replace_existing then 1 else 0)) st1)"

definition send_deferred ::
  "host_policy \<Rightarrow> 128 word \<Rightarrow> name \<Rightarrow> bytes \<Rightarrow> bool \<Rightarrow> contract_state \<Rightarrow> contract_state result" where
  "send_deferred H sender_id payer serialized_transaction replace_existing st =
     call_host H (Send_deferred sender_id payer serialized_transaction (if replace_existing then 1 else 0)) st"

record onerror =
  sender_id :: "128 word"
  sent_trx :: bytes

definition onerror_codec :: "trx_formats \<Rightarrow> formats \<Rightarrow> onerror codec" where
  "onerror_codec T L = struct_codec (\<lambda>(i, t). \<lparr>sender_id = i, sent_trx = t\<rparr>) (\<lambda>e. (sender_id e, sent_trx e))
     (fields2 (t_u128 T) (f_bytes L))"

definition onerror_from_current_action :: "trx_formats \<Rightarrow> formats \<Rightarrow> u32 \<Rightarrow> bytes \<Rightarrow> dsmalloc \<Rightarrow> (onerror \<times> dsmalloc) result" where
  "onerror_from_current_action T L stack data s = unpack_action_data (onerror_codec T L) stack data s"

text \<open>The vector \<open>sent_trx\<close> has its bytes at \<open>addr\<close>.\<close>

definition unpack_sent_trx :: "trx_formats \<Rightarrow> formats \<Rightarrow> onerror \<Rightarrow> u32 \<Rightarrow> memory \<Rightarrow> transaction result" where
  "unpack_sent_trx T L e addr m = unpack (transaction_codec T L) addr (of_nat (length (sent_trx e))) m"

section \<open>Questions about permissions\<close>

text \<open>
  The host's two functions take packed sets; \<open>None\<close> is a null pointer with size zero. A \<open>std::set\<close> is the
  sorted list of its elements; the library packs it as such.
\<close>

record perm_host =
  h_check_trx :: "bytes \<Rightarrow> bytes option \<Rightarrow> bytes option \<Rightarrow> int"
  h_check_perm :: "name \<Rightarrow> name \<Rightarrow> bytes option \<Rightarrow> bytes option \<Rightarrow> u64 \<Rightarrow> int"

definition check_transaction_authorization_raw :: "perm_host \<Rightarrow> bytes \<Rightarrow> bytes option \<Rightarrow> bytes option \<Rightarrow> bool" where
  "check_transaction_authorization_raw P trx_data pubkeys_data perms_data \<longleftrightarrow> h_check_trx P trx_data pubkeys_data perms_data \<noteq> 0"

definition check_permission_authorization_raw ::
  "perm_host \<Rightarrow> name \<Rightarrow> name \<Rightarrow> bytes option \<Rightarrow> bytes option \<Rightarrow> u64 \<Rightarrow> bool result" where
  "check_permission_authorization_raw P account perm pubkeys_data perms_data delay_us =
     res_bind (check (sint delay_us \<ge> 0) ''negative delay is not allowed'') (\<lambda>_.
     Inr (h_check_perm P account perm pubkeys_data perms_data delay_us \<noteq> 0))"

definition pack_unless_empty :: "'v list codec \<Rightarrow> 'v list \<Rightarrow> u32 \<Rightarrow> contract_state \<Rightarrow> (bytes option \<times> contract_state) result" where
  "pack_unless_empty C xs a st = (if length xs > 0 then res_bind (pack_at C xs a st) (\<lambda>(bs, st1). Inr (Some bs, st1)) else Inr (None, st))"

definition check_transaction_authorization ::
  "perm_host \<Rightarrow> transaction codec \<Rightarrow> 'k list codec \<Rightarrow> permission_level list codec \<Rightarrow> transaction \<Rightarrow> permission_level list \<Rightarrow> 'k list
     \<Rightarrow> u32 \<Rightarrow> u32 \<Rightarrow> u32 \<Rightarrow> contract_state \<Rightarrow> (bool \<times> contract_state) result" where
  "check_transaction_authorization P TC KC LC trx provided_permissions provided_keys a1 a2 a3 st =
     res_bind (pack_at TC trx a1 st) (\<lambda>(packed_trx, st1).
     res_bind (pack_unless_empty KC provided_keys a2 st1) (\<lambda>(packed_keys, st2).
     res_bind (pack_unless_empty LC provided_permissions a3 st2) (\<lambda>(packed_perms, st3).
     Inr (h_check_trx P packed_trx packed_keys packed_perms > 0, st3))))"

definition check_permission_authorization ::
  "perm_host \<Rightarrow> 'k list codec \<Rightarrow> permission_level list codec \<Rightarrow> name \<Rightarrow> name \<Rightarrow> 'k list \<Rightarrow> permission_level list \<Rightarrow> u64
     \<Rightarrow> u32 \<Rightarrow> u32 \<Rightarrow> contract_state \<Rightarrow> (bool \<times> contract_state) result" where
  "check_permission_authorization P KC LC account perm provided_keys provided_permissions provided_delay_us a1 a2 st =
     res_bind (check (sint provided_delay_us \<ge> 0) ''negative delay is not allowed'') (\<lambda>_.
     res_bind (pack_unless_empty KC provided_keys a1 st) (\<lambda>(packed_keys, st1).
     res_bind (pack_unless_empty LC provided_permissions a2 st1) (\<lambda>(packed_perms, st2).
     Inr (h_check_perm P account perm packed_keys packed_perms provided_delay_us > 0, st2))))"

end
