(* ===== verification/Privileged.thy ===== *)
theory Privileged
  imports Action
begin

text \<open>
  What the system contract asks of the chain: block signing authorities and producers
  (\<open>producer_schedule.hpp\<close>, \<open>privileged.hpp\<close>, \<open>eosiolib.cpp\<close>) and the parameters of the chain, which
  are packed into buffers of the size of their struct.
\<close>

section \<open>Block signing authorities\<close>

record 'k key_weight =
  kw_key :: 'k
  kw_weight :: u16

record 'k block_signing_authority =
  threshold :: u32
  keys :: "'k key_weight list"

definition max_u32 :: u32 where
  "max_u32 = - 1"

text \<open>The loop of \<open>is_valid\<close>: a saturating sum and the set of the keys.\<close>

fun weigh_keys :: "'k key_weight list \<Rightarrow> u32 \<Rightarrow> 'k set \<Rightarrow> u32 \<times> 'k set" where
  "weigh_keys [] sum_weights unique_keys = (sum_weights, unique_keys)"
| "weigh_keys (kw # kws) sum_weights unique_keys = weigh_keys kws
     (if max_u32 - sum_weights \<le> ucast (kw_weight kw) then max_u32 else sum_weights + ucast (kw_weight kw))
     (insert (kw_key kw) unique_keys)"

definition is_valid :: "'k block_signing_authority \<Rightarrow> bool" where
  "is_valid b = (case weigh_keys (keys b) 0 {} of (sum_weights, unique_keys) \<Rightarrow>
     if length (keys b) \<noteq> card unique_keys then False
     else if threshold b = 0 then False
     else if sum_weights < threshold b then False
     else True)"

section \<open>Producers\<close>

text \<open>
  \<open>get_active_producers\<close> of the host writes as many bytes as fit and returns the number it has; the
  vector of names is zero before. The result are its bytes. \<open>h n\<close> gives the return value and the bytes for a buffer of \<open>n\<close> bytes.
\<close>

definition active_producers :: "(nat \<Rightarrow> u32 \<times> bytes) \<Rightarrow> bytes" where
  "active_producers h = (let buffer_size = fst (h 0); prod_cnt = buffer_size div 8;
       active_prods = replicate (8 * unat prod_cnt) 0; written = snd (h (unat buffer_size))
     in take (length active_prods) (written @ drop (length written) active_prods))"

text \<open>Both overloads of \<open>set_proposed_producers\<close>; the host's result is signed.\<close>

definition set_proposed_producers ::
  "(bytes \<Rightarrow> u64) \<Rightarrow> 'p codec \<Rightarrow> 'p \<Rightarrow> u32 \<Rightarrow> contract_state \<Rightarrow> (u64 option \<times> contract_state) result" where
  "set_proposed_producers h C prods addr st = res_bind (pack_at C prods addr st) (\<lambda>(packed_prods, st1).
     let ret = h packed_prods in Inr (if sint ret \<ge> 0 then Some ret else None, st1))"

definition set_proposed_producers_ex ::
  "(u64 \<Rightarrow> bytes \<Rightarrow> u64) \<Rightarrow> 'p codec \<Rightarrow> 'p \<Rightarrow> u32 \<Rightarrow> contract_state \<Rightarrow> (u64 option \<times> contract_state) result" where
  "set_proposed_producers_ex h C prods addr st = res_bind (pack_at C prods addr st) (\<lambda>(packed_prods, st1).
     let ret = h 1 packed_prods in Inr (if sint ret \<ge> 0 then Some ret else None, st1))"

section \<open>Parameters of the chain\<close>

record blockchain_parameters =
  max_block_net_usage :: u64
  target_block_net_usage_pct :: u32
  max_transaction_net_usage :: u32
  base_per_transaction_net_usage :: u32
  net_usage_leeway :: u32
  context_free_discount_net_usage_num :: u32
  context_free_discount_net_usage_den :: u32
  max_block_cpu_usage :: u32
  target_block_cpu_usage_pct :: u32
  max_transaction_cpu_usage :: u32
  min_transaction_cpu_usage :: u32
  max_transaction_lifetime :: u32
  deferred_trx_expiration_window :: u32
  max_transaction_delay :: u32
  max_inline_action_size :: u32
  max_inline_action_depth :: u16
  max_authority_depth :: u16

record number_formats =
  n_u16 :: "u16 codec"
  n_u32 :: "u32 codec"
  n_u64 :: "u64 codec"

definition blockchain_codec :: "number_formats \<Rightarrow> blockchain_parameters codec" where
  "blockchain_codec N = struct_codec
     (\<lambda>(a, b, c, d, e, f, g, h, i, j, k, l, m, n, p, q, r).
        \<lparr>max_block_net_usage = a, target_block_net_usage_pct = b, max_transaction_net_usage = c,
         base_per_transaction_net_usage = d, net_usage_leeway = e, context_free_discount_net_usage_num = f,
         context_free_discount_net_usage_den = g, max_block_cpu_usage = h, target_block_cpu_usage_pct = i,
         max_transaction_cpu_usage = j, min_transaction_cpu_usage = k, max_transaction_lifetime = l,
         deferred_trx_expiration_window = m, max_transaction_delay = n, max_inline_action_size = p,
         max_inline_action_depth = q, max_authority_depth = r\<rparr>)
     (\<lambda>x. (max_block_net_usage x, target_block_net_usage_pct x, max_transaction_net_usage x,
         base_per_transaction_net_usage x, net_usage_leeway x, context_free_discount_net_usage_num x,
         context_free_discount_net_usage_den x, max_block_cpu_usage x, target_block_cpu_usage_pct x,
         max_transaction_cpu_usage x, min_transaction_cpu_usage x, max_transaction_lifetime x,
         deferred_trx_expiration_window x, max_transaction_delay x, max_inline_action_size x,
         max_inline_action_depth x, max_authority_depth x))
     (fields2 (n_u64 N) (fields2 (n_u32 N) (fields2 (n_u32 N) (fields2 (n_u32 N) (fields2 (n_u32 N) (fields2 (n_u32 N)
     (fields2 (n_u32 N) (fields2 (n_u32 N) (fields2 (n_u32 N) (fields2 (n_u32 N) (fields2 (n_u32 N) (fields2 (n_u32 N)
     (fields2 (n_u32 N) (fields2 (n_u32 N) (fields2 (n_u32 N) (fields2 (n_u16 N) (n_u16 N)))))))))))))))))"

text \<open>The size of the struct in memory: 68 bytes of members, aligned to eight.\<close>

definition sizeof_blockchain_parameters :: u32 where
  "sizeof_blockchain_parameters = 72"

definition written_bytes :: "u32 \<Rightarrow> dstream \<times> memory \<Rightarrow> bytes" where
  "written_bytes buf st = bytes_at (snd st) buf (unat (ds_tellp (fst st)))"

definition set_blockchain_parameters :: "number_formats \<Rightarrow> blockchain_parameters \<Rightarrow> u32 \<Rightarrow> memory \<Rightarrow> (bytes \<times> memory) result" where
  "set_blockchain_parameters N params buf m =
     res_bind (ds_out (blockchain_codec N) params (new_datastream buf sizeof_blockchain_parameters, m)) (\<lambda>st.
     Inr (written_bytes buf st, snd st))"

text \<open>\<open>data\<close> is what the host writes to the buffer, \<open>n\<close> what it returns.\<close>

definition get_blockchain_parameters :: "number_formats \<Rightarrow> u32 \<Rightarrow> bytes \<Rightarrow> u32 \<Rightarrow> memory \<Rightarrow> blockchain_parameters result" where
  "get_blockchain_parameters N n data buf m =
     res_bind (check (n \<le> sizeof_blockchain_parameters) ''buffer is too small'') (\<lambda>_.
     res_bind (ds_in (blockchain_codec N) (new_datastream buf n) (store_bytes buf data m)) (\<lambda>(params, _). Inr params))"

record kv_parameters =
  max_key_size :: u32
  max_value_size :: u32
  max_iterators :: u32

definition kv_codec :: "number_formats \<Rightarrow> kv_parameters codec" where
  "kv_codec N = struct_codec (\<lambda>(a, b, c). \<lparr>max_key_size = a, max_value_size = b, max_iterators = c\<rparr>)
     (\<lambda>x. (max_key_size x, max_value_size x, max_iterators x)) (fields2 (n_u32 N) (fields2 (n_u32 N) (n_u32 N)))"

text \<open>A version in front of the parameters, in a buffer of \<open>4\<close> bytes and the size of the struct.\<close>

definition set_versioned :: "number_formats \<Rightarrow> 'v codec \<Rightarrow> u32 \<Rightarrow> 'v \<Rightarrow> u32 \<Rightarrow> memory \<Rightarrow> (bytes \<times> memory) result" where
  "set_versioned N C n params buf m =
     res_bind (ds_out (n_u32 N) 0 (new_datastream buf (4 + n), m)) (\<lambda>st1.
     res_bind (ds_out C params st1) (\<lambda>st2. Inr (written_bytes buf st2, snd st2)))"

definition set_kv_parameters :: "number_formats \<Rightarrow> kv_parameters \<Rightarrow> u32 \<Rightarrow> memory \<Rightarrow> (bytes \<times> memory) result" where
  "set_kv_parameters N params buf m = set_versioned N (kv_codec N) 12 params buf m"

record wasm_parameters =
  max_mutable_global_bytes :: u32
  max_table_elements :: u32
  max_section_elements :: u32
  max_linear_memory_init :: u32
  max_func_local_bytes :: u32
  max_nested_structures :: u32
  max_symbol_bytes :: u32
  max_code_bytes :: u32
  max_module_bytes :: u32
  max_pages :: u32
  max_call_depth :: u32

definition wasm_codec :: "number_formats \<Rightarrow> wasm_parameters codec" where
  "wasm_codec N = struct_codec
     (\<lambda>(a, b, c, d, e, f, g, h, i, j, k). \<lparr>max_mutable_global_bytes = a, max_table_elements = b, max_section_elements = c,
        max_linear_memory_init = d, max_func_local_bytes = e, max_nested_structures = f, max_symbol_bytes = g,
        max_code_bytes = h, max_module_bytes = i, max_pages = j, max_call_depth = k\<rparr>)
     (\<lambda>x. (max_mutable_global_bytes x, max_table_elements x, max_section_elements x, max_linear_memory_init x,
        max_func_local_bytes x, max_nested_structures x, max_symbol_bytes x, max_code_bytes x, max_module_bytes x,
        max_pages x, max_call_depth x))
     (fields2 (n_u32 N) (fields2 (n_u32 N) (fields2 (n_u32 N) (fields2 (n_u32 N) (fields2 (n_u32 N) (fields2 (n_u32 N)
     (fields2 (n_u32 N) (fields2 (n_u32 N) (fields2 (n_u32 N) (fields2 (n_u32 N) (n_u32 N)))))))))))"

definition set_wasm_parameters :: "number_formats \<Rightarrow> wasm_parameters \<Rightarrow> u32 \<Rightarrow> memory \<Rightarrow> (bytes \<times> memory) result" where
  "set_wasm_parameters N params buf m = set_versioned N (wasm_codec N) 44 params buf m"

end
