(* ===== verification/Formats.thy ===== *)
theory Formats
  imports SerializeProps
begin

text \<open>
  Concrete formats, which show that the assumptions on the formats of the library can hold: numbers as
  their bytes from the lowest, and lists with their length, below 256, in front.
\<close>

primrec le_bytes :: "nat \<Rightarrow> nat \<Rightarrow> bytes" where
  "le_bytes 0 n = []"
| "le_bytes (Suc k) n = of_nat n # le_bytes k (n div 256)"

primrec le_nat :: "bytes \<Rightarrow> nat" where
  "le_nat [] = 0"
| "le_nat (b # bs) = unat b + 256 * le_nat bs"

lemma length_le_bytes [simp]: "length (le_bytes k n) = k"
  by (induction k arbitrary: n) simp_all

lemma le_nat_bytes: "le_nat (le_bytes k n) = n mod 256 ^ k"
proof (induction k arbitrary: n)
  case (Suc k)
  have "unat (of_nat n :: u8) = n mod 256" by (simp add: unat_of_nat take_bit_eq_mod)
  then show ?case using Suc by (simp add: mod_mult2_eq)
qed simp

definition word_codec :: "nat \<Rightarrow> 'a :: len word codec" where
  "word_codec k = \<lparr>to_bin = (\<lambda>w. [WriteBytes (le_bytes k (unat w))]),
     from_bin = ReadBytes (of_nat k) (\<lambda>bs. Done (of_nat (le_nat bs))), pb_out = None, pb_in = None\<rparr>"

lemma word_codec_ok: "LENGTH('a) = 8 * k \<Longrightarrow> k < 100 \<Longrightarrow> codec_ok (word_codec k) (w :: 'a :: len word)"
proof -
  assume l: "LENGTH('a) = 8 * k" and k: "k < 100"
  have e: "(2 :: nat) ^ LENGTH('a) = 256 ^ k" by (simp add: l power_mult)
  have "unat w < 2 ^ LENGTH('a)" by (rule unsigned_less)
  then have "unat w < 256 ^ k" unfolding e .
  moreover have "unat (of_nat k :: u32) = k" using k by (intro unat_of_nat32) simp
  ultimately show ?thesis by (simp add: codec_ok_def word_codec_def le_nat_bytes)
qed

lemma emitted_word [simp]: "emitted (to_bin (word_codec k) w) = le_bytes k (unat w)"
  by (simp add: word_codec_def)

primrec read_many :: "nat \<Rightarrow> 'v reader \<Rightarrow> 'v list reader" where
  "read_many 0 r = Done []"
| "read_many (Suc k) r = bind_reader r (\<lambda>v. bind_reader (read_many k r) (\<lambda>vs. Done (v # vs)))"

definition list_codec :: "'v codec \<Rightarrow> 'v list codec" where
  "list_codec C = \<lparr>to_bin = (\<lambda>vs. PutByte (of_nat (length vs)) # concat (map (to_bin C) vs)),
     from_bin = GetByte (\<lambda>n. read_many (unat n) (from_bin C)), pb_out = None, pb_in = None\<rparr>"

lemma read_many_ok:
  "\<forall>v \<in> set vs. codec_ok C v \<Longrightarrow> length (emitted (concat (map (to_bin C) vs)) @ bs) < 4294967296 \<Longrightarrow>
    parse (read_many (length vs) (from_bin C)) (emitted (concat (map (to_bin C) vs)) @ bs) = Inr (vs, bs)"
  by (induction vs) (auto simp: parse_bind codec_ok_def)

lemma list_codec_ok: "\<forall>v \<in> set vs. codec_ok C v \<Longrightarrow> length vs < 256 \<Longrightarrow> codec_ok (list_codec C) vs"
  using read_many_ok [of vs C] by (simp add: codec_ok_def list_codec_def unat_of_nat take_bit_nat_eq_self)

end
