(* ===== verification/ActionProps.thy ===== *)
theory ActionProps
  imports Transaction Privileged Formats HeapProps
begin

text \<open>
  Properties of actions, permission checks and block signing authorities: what is sent can be read back,
  reading the data of an action leaves the heap as it was, and the answers are those of the host.
\<close>

section \<open>Concrete formats\<close>

definition demo_formats :: formats where
  "demo_formats = \<lparr>f_name = word_codec 8, f_bytes = string_codec, f_levels = list_codec\<rparr>"

definition demo_numbers :: number_formats where
  "demo_numbers = \<lparr>n_u16 = word_codec 2, n_u32 = word_codec 4, n_u64 = word_codec 8\<rparr>"

definition demo_trx :: trx_formats where
  "demo_trx = \<lparr>t_u8 = byte_codec, t_u16 = word_codec 2, t_u32 = word_codec 4, t_u128 = word_codec 16,
     t_varint = word_codec 4, t_actions = list_codec, t_extensions = list_codec\<rparr>"

lemma demo_transaction_ok: "codec_ok (transaction_codec demo_trx demo_formats) (new_transaction a b c)"
  unfolding transaction_codec_def header_codec_def
  by (intro struct_codec_ok fields2_ok)
    (auto simp: demo_trx_def new_transaction_def list_codec_ok intro!: struct_codec_ok fields2_ok word_codec_ok byte_codec_ok)

section \<open>Packing with a state\<close>

lemma pack_at_ok:
  assumes "codec_ok C v" and "length (emitted (to_bin C v)) < 2147483648" and "unat a + length (emitted (to_bin C v)) < 4294967296"
  shows "\<exists>st'. pack_at C v a st = Inr (emitted (to_bin C v), st') \<and> cs_calls st' = cs_calls st"
proof -
  have "pb_out C = None" using assms(1) by (simp add: codec_ok_def)
  from pack_ok [OF this refl assms(2,3), of "cs_mem st"] show ?thesis
    by (auto simp: pack_at_def with_mem_def)
qed

definition formats_ok :: "formats \<Rightarrow> permission_level list \<Rightarrow> bytes \<Rightarrow> bool" where
  "formats_ok L ls d \<longleftrightarrow> (\<forall>n. codec_ok (f_name L) n) \<and> codec_ok (f_levels L (level_codec L)) ls \<and> codec_ok (f_bytes L) d"

lemma action_codec_ok:
  "formats_ok L (act_authorization act) (act_data act) \<Longrightarrow> codec_ok (action_codec L) act"
  unfolding action_codec_def by (intro struct_codec_ok fields2_ok) (auto simp: formats_ok_def intro: fields2_ok)

lemma unpack_exact:
  "codec_ok C v \<Longrightarrow> unat b + length (emitted (to_bin C v)) < 4294967296 \<Longrightarrow>
    bytes_at m b (length (emitted (to_bin C v))) = emitted (to_bin C v) \<Longrightarrow>
    unpack C b (of_nat (length (emitted (to_bin C v)))) m = Inr v"
  using unpack_ok [of C v b "length (emitted (to_bin C v))" m "[]"] by simp

lemma data_as_exact:
  "codec_ok C v \<Longrightarrow> emitted (to_bin C v) \<noteq> [] \<Longrightarrow> act_data act = emitted (to_bin C v) \<Longrightarrow>
    unat b + length (act_data act) < 4294967296 \<Longrightarrow> bytes_at m b (length (act_data act)) = act_data act \<Longrightarrow>
    action_data_as C act b m = Inr v"
  by (simp add: action_data_as_def unpack_exact)

section \<open>The properties\<close>

text \<open>
  C26. Sending a typed action makes exactly one call of the host, with bytes that the receiver, wherever
  they lie in its memory, unpacks to an action with the contract, name and permissions of the sender,
  whose data unpacks to the arguments. A context-free action with permissions is refused and
  makes no call.
\<close>
theorem sent_action_is_read_back:
  assumes "codec_ok C args" and "emitted (to_bin C args) = data" and "data \<noteq> []" and "formats_ok L (permissions w) data"
    and "act = \<lparr>act_account = code_name w, act_name = action_name, act_authorization = permissions w, act_data = data\<rparr>"
    and "bs = emitted (to_bin (action_codec L) act)" and "length bs < 2147483648" and "length data < 2147483648"
    and "unat a1 + length data < 4294967296" and "unat a2 + length bs < 4294967296"
    and "H (cs_calls st) (Send_inline bs) = Inr ()"
  shows "(\<exists>st'. wrapper_send H L C action_name w args a1 a2 st = Inr st' \<and> cs_calls st' = cs_calls st @ [Send_inline bs])
    \<and> (\<forall>b m. unat b + length bs < 4294967296 \<and> bytes_at m b (length bs) = bs
        \<longrightarrow> unpack (action_codec L) b (of_nat (length bs)) m = Inr act)
    \<and> (\<forall>b m. unat b + length data < 4294967296 \<and> bytes_at m b (length data) = data \<longrightarrow> action_data_as C act b m = Inr args)
    \<and> (permissions w \<noteq> [] \<longrightarrow> wrapper_send_context_free H L C action_name w args a1 a2 st
        = Inl (Check ''context free actions cannot have authorizations''))"
proof (intro conjI allI impI)
  have ok: "codec_ok (action_codec L) act" using assms(4,5) by (intro action_codec_ok) simp
  obtain st1 where st1: "pack_at C args a1 st = Inr (data, st1)" "cs_calls st1 = cs_calls st"
    using pack_at_ok [OF assms(1), of a1 st, unfolded assms(2), OF assms(8,9)] by blast
  obtain st2 where st2: "pack_at (action_codec L) act a2 st1 = Inr (bs, st2)" "cs_calls st2 = cs_calls st1"
    using pack_at_ok [OF ok, of a2 st1, folded assms(6), OF assms(7,10)] by blast
  have new: "to_action C action_name w args a1 st = Inr (act, st1)"
    by (simp add: to_action_def new_action_def st1 assms(5))
  show "\<exists>st'. wrapper_send H L C action_name w args a1 a2 st = Inr st' \<and> cs_calls st' = cs_calls st @ [Send_inline bs]"
    using assms(11) st1 st2 by (simp add: wrapper_send_def new action_send_def call_host_def)
  show "unpack (action_codec L) b (of_nat (length bs)) m = Inr act"
    if "unat b + length bs < 4294967296 \<and> bytes_at m b (length bs) = bs" for b m
    using unpack_exact [OF ok, of b m, folded assms(6)] that by blast
  show "action_data_as C act b m = Inr args" if "unat b + length data < 4294967296 \<and> bytes_at m b (length data) = data" for b m
    using data_as_exact [OF assms(1), of act b m] that assms(2,3,5) by simp
  show "wrapper_send_context_free H L C action_name w args a1 a2 st = Inl (Check ''context free actions cannot have authorizations'')"
    if "permissions w \<noteq> []"
    using that by (simp add: wrapper_send_context_free_def new action_send_context_free_def assms(5))
qed

theorem sent_action_is_read_back_witness:
  "\<exists>st'. wrapper_send (\<lambda>_ _. Inr ()) demo_formats byte_codec 7 (wrapper_code_level 5 (Permission_level 1 2)) 9 64 128
      \<lparr>cs_heap = demo0, cs_calls = []\<rparr> = Inr st' \<and> length (cs_calls st') = 1"
proof -
  let ?w = "wrapper_code_level 5 (Permission_level 1 2)"
  let ?act = "\<lparr>act_account = code_name ?w, act_name = 7, act_authorization = permissions ?w, act_data = [9]\<rparr>"
  have "codec_ok (level_codec demo_formats) l" for l
    unfolding level_codec_def by (intro struct_codec_ok fields2_ok) (simp_all add: demo_formats_def word_codec_ok)
  then have ok: "formats_ok demo_formats (permissions ?w) [9]"
    by (simp add: formats_ok_def demo_formats_def word_codec_ok list_codec_ok string_codec_ok wrapper_code_level_def)
  have len: "length (emitted (to_bin (action_codec demo_formats) ?act)) = 35"
    by (simp add: action_codec_def level_codec_def demo_formats_def list_codec_def string_codec_def wrapper_code_level_def)
  show ?thesis
    using sent_action_is_read_back [OF byte_codec_ok refl _ _ refl refl, of 9 demo_formats ?w 7 64 128
        "\<lambda>_ _. Inr ()" "\<lparr>cs_heap = demo0, cs_calls = []\<rparr>"] ok len
    by (auto simp: byte_codec_def)
qed

text \<open>
  C27. Reading the data of the current action gives the value whose packed form the data begins with. A
  buffer of more than 512 bytes is a block of the heap and is freed: the heap is as consistent as
  before, for the same blocks, and no byte of a block changes; a smaller one lies on the stack
  below the heap. Nothing but a failing malloc stops it.
\<close>
theorem action_data_unpacked:
  assumes "heap_inv hb s held" and "unat stack + 512 \<le> hb"
    and "codec_ok C v" and "data = emitted (to_bin C v) @ more_data" and "length data < 4294967265"
    and "length data \<le> 512 \<or> is_ok (c_malloc (of_nat (length data)) s)"
  shows "\<exists>s'. unpack_action_data C stack data s = Inr (v, s') \<and> heap_inv hb s' held \<and> keeps held (mem s) (mem s')"
proof -
  let ?n = "of_nat (length data) :: u32"
  have n: "unat ?n = length data" using assms(5) by (intro unat_of_nat32) simp
  have "\<exists>r. take_buffer stack ?n s = Inr r"
  proof (cases "length data \<le> 512")
    case True
    then have "\<not> max_stack_buffer_size < ?n" by (simp add: max_stack_buffer_size_def word_less_nat_alt n)
    then show ?thesis by (simp add: take_buffer_def)
  next
    case False
    then have "is_ok (c_malloc ?n s)" using assms(6) by simp
    then show ?thesis by (cases "c_malloc ?n s") (simp_all add: take_buffer_def split: if_split)
  qed
  then obtain buffer s1 where t: "take_buffer stack ?n s = Inr (buffer, s1)" by fastforce
  let ?s2 = "s1\<lparr>mem := store_bytes buffer data (mem s1)\<rparr>"
  have b: "heap_inv hb (free_memory ?n buffer ?s2) held \<and> keeps held (mem s) (mem (free_memory ?n buffer ?s2))
      \<and> unat buffer + length data < 4294967296"
    using buffer_cycle [OF assms(1,2) t, of data] n assms(5) by simp
  then have "bytes_at (mem ?s2) buffer (length data) = emitted (to_bin C v) @ more_data"
    using bytes_at_store_bytes [of buffer data "mem s1"] assms(4) by simp
  then have "unpack C buffer ?n (mem ?s2) = Inr v" using b by (intro unpack_ok [OF assms(3)]) simp
  then show ?thesis using b t by (simp add: unpack_action_data_def)
qed

theorem action_data_unpacked_witness:
  "\<exists>s'. unpack_action_data byte_codec 64 [7] demo2 = Inr (7, s') \<and> keeps [(4240, 200), (4112, 100)] (mem demo2) (mem s')"
proof -
  note inv = reach_heap_inv [OF demo_start demo2_reach]
  have "unat (64 :: u32) + 512 \<le> unat (4096 :: u32)" by simp
  from action_data_unpacked [OF inv this byte_codec_ok, of "[7]" 7 "[]"] show ?thesis by (auto simp: byte_codec_def)
qed

section \<open>Authorities\<close>

lemma saturating_step:
  "unat (if max_u32 - s \<le> ucast (w :: u16) then max_u32 else s + ucast w) = min 4294967295 (unat s + unat w)"
proof -
  have m: "unat max_u32 = 4294967295" by (simp add: max_u32_def unsigned_minus_1_eq_mask mask_eq_exp_minus_1)
  have "unat w < 65536" using unsigned_less [of w] by simp
  then have w: "unat (ucast w :: u32) = unat w" by (simp add: unsigned_ucast_eq take_bit_nat_eq_self)
  have "unat (max_u32 - s) = 4294967295 - unat s" using m by (simp add: w32)
  then have "max_u32 - s \<le> ucast w \<longleftrightarrow> 4294967295 \<le> unat s + unat w" by (auto simp: word_le_nat_alt w)
  moreover have "unat s + unat w < 4294967295 \<Longrightarrow> unat (s + ucast w) = unat s + unat w" using w by (simp add: w32)
  ultimately show ?thesis using m by (auto simp: min_def)
qed

lemma weigh_keys_ok:
  "weigh_keys kws s U = (s', U') \<Longrightarrow>
    U' = U \<union> kw_key ` set kws \<and> unat s' = min 4294967295 (unat s + (\<Sum>kw \<leftarrow> kws. unat (kw_weight kw)))"
proof (induction kws s U rule: weigh_keys.induct)
  case (1 s U)
  then show ?case by simp
next
  case (2 kw kws s U)
  from 2 saturating_step [of s "kw_weight kw"] show ?case by (simp add: min_def)
qed

text \<open>
  C28. A block signing authority is valid exactly when its keys are distinct, its threshold is not zero and
  the weights of its keys reach the threshold. The sum of the weights cannot wrap around.
\<close>
theorem valid_authority_iff:
  "is_valid b \<longleftrightarrow> distinct (map kw_key (keys b)) \<and> threshold b \<noteq> 0
    \<and> unat (threshold b) \<le> (\<Sum>kw \<leftarrow> keys b. unat (kw_weight kw))"
proof -
  obtain s U where w: "weigh_keys (keys b) 0 {} = (s, U)" by fastforce
  note r = weigh_keys_ok [OF w]
  have "length (keys b) = card U \<longleftrightarrow> distinct (map kw_key (keys b))"
    using r distinct_card [of "map kw_key (keys b)"] card_distinct [of "map kw_key (keys b)"] by auto
  moreover have "s < threshold b \<longleftrightarrow> \<not> unat (threshold b) \<le> (\<Sum>kw \<leftarrow> keys b. unat (kw_weight kw))"
    using r unat_le32 [of "threshold b"] by (simp add: word_less_nat_alt min_less_iff_disj not_less not_le leD [OF unat_le32])
  ultimately show ?thesis using w by (simp add: is_valid_def)
qed

section \<open>Answers about permissions\<close>

lemma pack_unless_empty_ok:
  assumes "codec_ok C xs" and "bs = emitted (to_bin C xs)" and "length bs < 65536" and "unat a < 2147483648"
  shows "\<exists>st'. pack_unless_empty C xs a st = Inr (if xs = [] then None else Some bs, st') \<and> cs_calls st' = cs_calls st"
  using pack_at_ok [OF assms(1), of a st] assms(2-4) by (auto simp: pack_unless_empty_def)

text \<open>
  The typed checks hand the packed transaction and sets to the host, a null pointer for an empty set,
  and answer whether its result is positive; the untyped ones take every result but zero for yes, so
  they agree as long as the host does not return a negative number. A negative delay stops the contract.
\<close>
theorem permission_answers:
  assumes "codec_ok TC trx" and "codec_ok KC ks" and "codec_ok LC ls"
    and "packed_trx = emitted (to_bin TC trx)" and "packed_keys = emitted (to_bin KC ks)" and "packed_perms = emitted (to_bin LC ls)"
    and "length packed_trx < 65536" and "length packed_keys < 65536" and "length packed_perms < 65536"
    and "unat a1 < 2147483648" and "unat a2 < 2147483648" and "unat a3 < 2147483648"
    and "some_keys = (if ks = [] then None else Some packed_keys)" and "some_perms = (if ls = [] then None else Some packed_perms)"
    and "h_trx = h_check_trx P packed_trx some_keys some_perms" and "h_perm = h_check_perm P account perm some_keys some_perms delay"
  shows "(\<exists>st'. check_transaction_authorization P TC KC LC trx ls ks a1 a2 a3 st = Inr (0 < h_trx, st') \<and> cs_calls st' = cs_calls st)
    \<and> (0 \<le> h_trx \<longrightarrow> check_transaction_authorization_raw P packed_trx some_keys some_perms = (0 < h_trx))
    \<and> (if sint delay < 0 then
         check_permission_authorization P KC LC account perm ks ls delay a2 a3 st = Inl (Check ''negative delay is not allowed'')
         \<and> check_permission_authorization_raw P account perm some_keys some_perms delay = Inl (Check ''negative delay is not allowed'')
       else (\<exists>st'. check_permission_authorization P KC LC account perm ks ls delay a2 a3 st = Inr (0 < h_perm, st') \<and> cs_calls st' = cs_calls st)
         \<and> (0 \<le> h_perm \<longrightarrow> check_permission_authorization_raw P account perm some_keys some_perms delay = Inr (0 < h_perm)))"
proof -
  note keys = pack_unless_empty_ok [OF assms(2,5,8,11), folded assms(13)]
  note perms = pack_unless_empty_ok [OF assms(3,6,9,12), folded assms(14)]
  obtain st1 where st1: "pack_at TC trx a1 st = Inr (packed_trx, st1)" "cs_calls st1 = cs_calls st"
    using pack_at_ok [OF assms(1), of a1 st, folded assms(4)] assms(7,10) by auto
  obtain st2 st3 where st23: "pack_unless_empty KC ks a2 st1 = Inr (some_keys, st2)" "cs_calls st2 = cs_calls st1"
      "pack_unless_empty LC ls a3 st2 = Inr (some_perms, st3)" "cs_calls st3 = cs_calls st2"
    using keys [of st1] perms by blast
  obtain st4 st5 where st45: "pack_unless_empty KC ks a2 st = Inr (some_keys, st4)" "cs_calls st4 = cs_calls st"
      "pack_unless_empty LC ls a3 st4 = Inr (some_perms, st5)" "cs_calls st5 = cs_calls st4"
    using keys [of st] perms by blast
  show ?thesis
    using st1 st23 st45 assms(15,16)
    by (auto simp: check_transaction_authorization_def check_transaction_authorization_raw_def
        check_permission_authorization_def check_permission_authorization_raw_def check_def)
qed

theorem permission_answers_witness:
  "\<exists>st'. check_permission_authorization \<lparr>h_check_trx = \<lambda>_ _ _. 1, h_check_perm = \<lambda>_ _ ks _ _. if ks = Some [1, 5] then - 1 else 1\<rparr>
      (list_codec byte_codec) (list_codec (level_codec demo_formats)) 1 2 [5] [] 0 64 128 \<lparr>cs_heap = demo0, cs_calls = []\<rparr> = Inr (False, st')"
proof -
  have k: "codec_ok (list_codec byte_codec) [5]" and l: "codec_ok (list_codec (level_codec demo_formats)) []"
    by (simp_all add: list_codec_ok byte_codec_ok)
  have n: "length (emitted (to_bin (transaction_codec demo_trx demo_formats) (new_transaction 0 0 0))) < 65536"
    by (simp add: transaction_codec_def header_codec_def demo_trx_def demo_formats_def new_transaction_def new_header_def
        list_codec_def byte_codec_def)
  have e: "emitted (to_bin (list_codec byte_codec) [5]) = [1, 5]"
      "emitted (to_bin (list_codec (level_codec demo_formats)) []) = [0]"
    by (simp_all add: list_codec_def byte_codec_def)
  have "unat (64 :: u32) < 2147483648" "unat (128 :: u32) < 2147483648" by simp_all
  from permission_answers [OF demo_transaction_ok k l refl e(1) [symmetric] e(2) [symmetric] n _ _ this(1) this refl refl refl refl,
      where P = "\<lparr>h_check_trx = \<lambda>_ _ _. 1, h_check_perm = \<lambda>_ _ ks _ _. if ks = Some [1, 5] then - 1 else 1\<rparr>"
        and account = 1 and perm = 2 and delay = 0 and st = "\<lparr>cs_heap = demo0, cs_calls = []\<rparr>"]
  show ?thesis by auto
qed

section \<open>Parameters of the chain\<close>

text \<open>The library's formats of the number types: fixed widths, read back as written.\<close>

definition numbers_ok :: "number_formats \<Rightarrow> bool" where
  "numbers_ok N \<longleftrightarrow> (\<forall>x. codec_ok (n_u16 N) x \<and> length (emitted (to_bin (n_u16 N) x)) = 2)
     \<and> (\<forall>x. codec_ok (n_u32 N) x \<and> length (emitted (to_bin (n_u32 N) x)) = 4)
     \<and> (\<forall>x. codec_ok (n_u64 N) x \<and> length (emitted (to_bin (n_u64 N) x)) = 8)"

lemma ds_out_window:
  assumes "window_wrote a len m0 st bs n" and "length (emitted (to_bin C v)) \<le> n"
  shows "\<exists>st'. ds_out C v st = Inr st' \<and> window_wrote a len m0 st' (bs @ emitted (to_bin C v)) (n - length (emitted (to_bin C v)))"
  unfolding ds_out_def by (rule window.run_ok [OF assms])

lemma new_window:
  "unat buf + len < 4294967296 \<Longrightarrow> len < 2147483648 \<Longrightarrow> window_wrote buf len m (new_datastream buf (of_nat len), m) [] len"
  by (simp add: window_wrote_def new_datastream_def)

lemma window_written:
  assumes "window_wrote buf len m st bs n"
  shows "written_bytes buf st = bs" and "same_on (- {unat buf ..< unat buf + len}) m (snd st)"
proof -
  have "unat (of_nat (length bs) :: u32) = length bs" using assms by (simp add: window_wrote_def w32)
  then show "written_bytes buf st = bs" "same_on (- {unat buf ..< unat buf + len}) m (snd st)"
    using assms by (simp_all add: window_wrote_def written_bytes_def ds_tellp_def)
qed

lemma set_versioned_ok:
  assumes "numbers_ok N" and "length (emitted (to_bin C params)) = unat n" and "unat n < 1000" and "unat buf + unat n + 4 < 4294967296"
    and "k = 4 + unat n"
  shows "\<exists>m'. set_versioned N C n params buf m = Inr (emitted (to_bin (n_u32 N) 0) @ emitted (to_bin C params), m')
    \<and> same_on (- {unat buf ..< unat buf + k}) m m'"
proof -
  have "(of_nat (4 + unat n) :: u32) = 4 + n" by simp
  then have w: "window_wrote buf (4 + unat n) m (new_datastream buf (4 + n), m) [] (4 + unat n)"
    using new_window [of buf "4 + unat n" m] assms(3,4) by simp
  have four: "length (emitted (to_bin (n_u32 N) 0)) = 4" using assms(1) by (simp add: numbers_ok_def)
  obtain st1 where st1: "ds_out (n_u32 N) 0 (new_datastream buf (4 + n), m) = Inr st1"
      "window_wrote buf (4 + unat n) m st1 (emitted (to_bin (n_u32 N) 0)) (unat n)"
    using ds_out_window [OF w, of "n_u32 N" 0] four by auto
  obtain st2 where st2: "ds_out C params st1 = Inr st2"
      "window_wrote buf (4 + unat n) m st2 (emitted (to_bin (n_u32 N) 0) @ emitted (to_bin C params)) 0"
    using ds_out_window [OF st1(2), of C params] assms(2) by auto
  show ?thesis using st1(1) st2(1) window_written [OF st2(2)] by (simp add: set_versioned_def assms(5))
qed

lemma emitted_sizes:
  assumes "numbers_ok N"
  shows "length (emitted (to_bin (kv_codec N) kp)) = 12" and "length (emitted (to_bin (wasm_codec N) wp)) = 44"
    and "length (emitted (to_bin (blockchain_codec N) bp)) = 68"
  using assms by (simp_all add: numbers_ok_def kv_codec_def wasm_codec_def blockchain_codec_def)

lemma blockchain_codec_ok: "numbers_ok N \<Longrightarrow> codec_ok (blockchain_codec N) p"
  unfolding blockchain_codec_def by (intro struct_codec_ok fields2_ok) (simp_all add: numbers_ok_def)

text \<open>
  Packed parameters fit the buffers they are given, with a zero version in front where the host
  expects one, and nothing outside the buffer is written. What \<open>get_blockchain_parameters\<close> unpacks
  from the bytes that were set are the parameters; more than 72 bytes are refused.
\<close>
theorem parameters_fit_buffers:
  assumes "numbers_ok N" and "unat buf + 72 < 4294967296"
  shows "(\<exists>m'. set_kv_parameters N kp buf m = Inr (emitted (to_bin (n_u32 N) 0) @ emitted (to_bin (kv_codec N) kp), m')
      \<and> same_on (- {unat buf ..< unat buf + 16}) m m')
    \<and> (\<exists>m'. set_wasm_parameters N wp buf m = Inr (emitted (to_bin (n_u32 N) 0) @ emitted (to_bin (wasm_codec N) wp), m')
      \<and> same_on (- {unat buf ..< unat buf + 48}) m m')
    \<and> (\<exists>bs m'. set_blockchain_parameters N bp buf m = Inr (bs, m') \<and> same_on (- {unat buf ..< unat buf + 72}) m m'
      \<and> get_blockchain_parameters N (of_nat (length bs)) bs buf m2 = Inr bp)
    \<and> (72 < n \<longrightarrow> get_blockchain_parameters N n data buf m2 = Inl (Check ''buffer is too small''))"
proof (intro conjI impI)
  note sizes = emitted_sizes [OF assms(1)]
  show "\<exists>m'. set_kv_parameters N kp buf m = Inr (emitted (to_bin (n_u32 N) 0) @ emitted (to_bin (kv_codec N) kp), m')
      \<and> same_on (- {unat buf ..< unat buf + 16}) m m'"
    unfolding set_kv_parameters_def by (rule set_versioned_ok [OF assms(1)]) (use sizes(1) assms(2) in simp_all)
  show "\<exists>m'. set_wasm_parameters N wp buf m = Inr (emitted (to_bin (n_u32 N) 0) @ emitted (to_bin (wasm_codec N) wp), m')
      \<and> same_on (- {unat buf ..< unat buf + 48}) m m'"
    unfolding set_wasm_parameters_def by (rule set_versioned_ok [OF assms(1)]) (use sizes(2) assms(2) in simp_all)
  let ?bs = "emitted (to_bin (blockchain_codec N) bp)"
  have w: "window_wrote buf 72 m (new_datastream buf sizeof_blockchain_parameters, m) [] 72"
    using new_window [of buf 72 m] assms(2) by (simp add: sizeof_blockchain_parameters_def)
  obtain st where st: "ds_out (blockchain_codec N) bp (new_datastream buf sizeof_blockchain_parameters, m) = Inr st"
      "window_wrote buf 72 m st ?bs 4"
    using ds_out_window [OF w, of "blockchain_codec N" bp] sizes(3) by auto
  have "bytes_at (store_bytes buf ?bs m2) buf (length ?bs) = ?bs" using assms(2) sizes(3) by (intro bytes_at_store_bytes) simp
  then have "unpack (blockchain_codec N) buf (of_nat (length ?bs)) (store_bytes buf ?bs m2) = Inr bp"
    using assms(2) sizes(3) by (intro unpack_exact blockchain_codec_ok [OF assms(1)]) simp_all
  then have "get_blockchain_parameters N (of_nat (length ?bs)) ?bs buf m2 = Inr bp"
    by (simp add: get_blockchain_parameters_def unpack_def sizes(3) sizeof_blockchain_parameters_def)
  then show "\<exists>bs m'. set_blockchain_parameters N bp buf m = Inr (bs, m') \<and> same_on (- {unat buf ..< unat buf + 72}) m m'
      \<and> get_blockchain_parameters N (of_nat (length bs)) bs buf m2 = Inr bp"
    using st(1) window_written [OF st(2)] by (simp add: set_blockchain_parameters_def)
  assume "72 < n"
  then have "\<not> n \<le> 72" by (simp only: not_le)
  then show "get_blockchain_parameters N n data buf m2 = Inl (Check ''buffer is too small'')"
    by (simp add: get_blockchain_parameters_def sizeof_blockchain_parameters_def)
qed

theorem parameters_fit_buffers_witness:
  "\<exists>m'. set_kv_parameters demo_numbers \<lparr>max_key_size = 1, max_value_size = 2, max_iterators = 3\<rparr> 64 (\<lambda>_. 0)
      = Inr ([0, 0, 0, 0, 1, 0, 0, 0, 2, 0, 0, 0, 3, 0, 0, 0], m')"
proof -
  have "numbers_ok demo_numbers" by (simp add: numbers_ok_def demo_numbers_def word_codec_ok)
  moreover have "emitted (to_bin (n_u32 demo_numbers) 0) @ emitted (to_bin (kv_codec demo_numbers) \<lparr>max_key_size = 1, max_value_size = 2, max_iterators = 3\<rparr>)
      = [0, 0, 0, 0, 1, 0, 0, 0, 2, 0, 0, 0, 3, 0, 0, 0]"
  proof -
    have "le_bytes 4 0 = [0, 0, 0, 0]" "le_bytes 4 1 = [1, 0, 0, 0]" "le_bytes 4 2 = [2, 0, 0, 0]" "le_bytes 4 3 = [3, 0, 0, 0]"
      by code_simp+
    then show ?thesis by (simp add: demo_numbers_def kv_codec_def)
  qed
  moreover have "unat (64 :: u32) + 72 < 4294967296" by simp
  ultimately show ?thesis
    using parameters_fit_buffers [of demo_numbers 64 "\<lparr>max_key_size = 1, max_value_size = 2, max_iterators = 3\<rparr>" "\<lambda>_. 0"] by metis
qed

end
