(* ===== verification/Dispatcher.thy ===== *)
theory Dispatcher
  imports Action
begin

text \<open>
  How a contract runs the action it was called for (\<open>contracts/eosio/dispatcher.hpp\<close>) and the base class
  of contracts (\<open>contract.hpp\<close>). A handler is a function of the contract object, the arguments and the
  state; \<open>data\<close> are the bytes that the host has for the action, and \<open>ra\<close> is the address of the vector in
  which a return value is packed.
\<close>

section \<open>The contract object\<close>

record contract =
  self_account :: name
  first_receiver :: name
  stream :: dstream

definition new_contract :: "name \<Rightarrow> name \<Rightarrow> dstream \<Rightarrow> contract" where
  "new_contract self receiver ds = \<lparr>self_account = self, first_receiver = receiver, stream = ds\<rparr>"

definition get_self :: "contract \<Rightarrow> name" where
  "get_self c = self_account c"

definition get_code :: "contract \<Rightarrow> name" where
  "get_code c = first_receiver c"

definition get_first_receiver :: "contract \<Rightarrow> name" where
  "get_first_receiver c = first_receiver c"

definition get_datastream :: "contract \<Rightarrow> dstream" where
  "get_datastream c = stream c"

type_synonym ('a, 'r) handler = "contract \<Rightarrow> 'a \<Rightarrow> contract_state \<Rightarrow> ('r \<times> contract_state) result"

section \<open>Executing one action\<close>

definition with_heap :: "dsmalloc \<Rightarrow> contract_state \<Rightarrow> contract_state" where
  "with_heap s st = st\<lparr>cs_heap := s\<rparr>"

text \<open>The buffer with the data of the action; without data it is the null pointer.\<close>

definition read_buffer :: "bytes \<Rightarrow> contract_state \<Rightarrow> (u32 \<times> contract_state) result" where
  "read_buffer data st = (let n = of_nat (length data) in
     if n > 0 then res_bind (c_malloc n (cs_heap st)) (\<lambda>(buffer, s).
       Inr (buffer, with_heap (s\<lparr>mem := store_bytes buffer data (mem s)\<rparr>) st))
     else Inr (0, st))"

text \<open>\<open>set_action_return_value\<close> for a handler that returns a value.\<close>

definition return_value :: "host_policy \<Rightarrow> 'r codec option \<Rightarrow> 'r \<Rightarrow> u32 \<Rightarrow> contract_state \<Rightarrow> contract_state result" where
  "return_value H R r ra st = (case R of
     None \<Rightarrow> Inr st
   | Some C \<Rightarrow> res_bind (pack_at C r ra st) (\<lambda>(bs, st1). call_host H (Set_action_return_value bs) st1))"

definition execute_action ::
  "host_policy \<Rightarrow> 'a codec \<Rightarrow> 'r codec option \<Rightarrow> ('a, 'r) handler \<Rightarrow> u32 \<Rightarrow> bytes \<Rightarrow> name \<Rightarrow> name \<Rightarrow> contract_state
     \<Rightarrow> contract_state result" where
  "execute_action H A R func ra data self code st =
     res_bind (read_buffer data st) (\<lambda>(buffer, st1). let n = of_nat (length data) in
     res_bind (ds_in A (new_datastream buffer n) (cs_mem st1)) (\<lambda>(args, ds).
     res_bind (func (new_contract self code ds) args st1) (\<lambda>(r, st2).
     res_bind (return_value H R r ra st2) (\<lambda>st3.
     Inr (if n \<noteq> 0 then with_heap (c_free buffer (cs_heap st3)) st3 else st3)))))"

section \<open>Choosing the action\<close>

text \<open>An action of a contract: what it does with the receiver and the code it was called with.\<close>

type_synonym runner = "name \<Rightarrow> name \<Rightarrow> contract_state \<Rightarrow> contract_state result"

text \<open>
  The \<open>switch\<close> of \<open>EOSIO_DISPATCH_HELPER\<close>, over the hashed names of the members; the labels of a
  \<open>switch\<close> are distinct, or the contract does not compile.
\<close>

fun action_switch :: "(name \<times> runner) list \<Rightarrow> name \<Rightarrow> name \<Rightarrow> name \<Rightarrow> contract_state \<Rightarrow> (bool \<times> contract_state) result" where
  "action_switch [] receiver code action st = Inr (False, st)"
| "action_switch ((label, run) # cases) receiver code action st =
     (if action = label then res_bind (run receiver code st) (\<lambda>st1. Inr (True, st1))
      else action_switch cases receiver code action st)"

definition eosio_apply :: "(name \<times> runner) list \<Rightarrow> name \<Rightarrow> name \<Rightarrow> name \<Rightarrow> contract_state \<Rightarrow> contract_state result" where
  "eosio_apply members receiver code action st =
     res_bind (check (code = receiver) ''notifications not supported by dispatcher'') (\<lambda>_.
     res_bind (action_switch members receiver code action st) (\<lambda>(executed, st1).
     res_bind (check executed ''unkown action'') (\<lambda>_. Inr st1)))"

text \<open>
  The function templates \<open>dispatch\<close> over a list of at least one action type, each with its account, its
  name and what \<open>Contract().on\<close> does with the unpacked data.
\<close>

type_synonym action_type = "name \<times> name \<times> (contract_state \<Rightarrow> contract_state result)"

fun dispatch :: "action_type list \<Rightarrow> u64 \<Rightarrow> u64 \<Rightarrow> contract_state \<Rightarrow> (bool \<times> contract_state) result" where
  "dispatch [] code act st = Inr (False, st)"
| "dispatch ((account, nm, on') # actions) code act st =
     (if code = account \<and> nm = act then res_bind (on' st) (\<lambda>st1. Inr (True, st1)) else dispatch actions code act st)"

definition on_action :: "'v codec \<Rightarrow> ('v \<Rightarrow> contract_state \<Rightarrow> contract_state result) \<Rightarrow> u32 \<Rightarrow> bytes \<Rightarrow> contract_state \<Rightarrow> contract_state result" where
  "on_action C on' stack data st =
     res_bind (unpack_action_data C stack data (cs_heap st)) (\<lambda>(v, s). on' v (with_heap s st))"

end
