(* ===== verification/DispatcherProps.thy ===== *)
theory DispatcherProps
  imports Dispatcher ActionProps
begin

text \<open>
  Dispatching composed with sending: the action that one contract sends runs, in the contract that
  receives it, the handler of its name, on the arguments of the sender, and the buffer of the data is
  given back to the heap.
\<close>

lemma heap_inv_rotate: "heap_inv hb s (b # held) \<longleftrightarrow> heap_inv hb s (held @ [b])"
  by (rule iffI; erule heap_inv_perm) simp_all

lemma read_buffer_ok:
  assumes "heap_inv hb (cs_heap st) held" and "data \<noteq> []" and "length data < 4294967265"
    and "c_malloc (of_nat (length data)) (cs_heap st) = Inr (buffer, s1)"
  shows "\<exists>st1. read_buffer data st = Inr (buffer, st1) \<and> cs_calls st1 = cs_calls st
    \<and> heap_inv hb (cs_heap st1) ((buffer, of_nat (length data)) # held) \<and> keeps held (cs_mem st) (cs_mem st1)
    \<and> bytes_at (cs_mem st1) buffer (length data) = data \<and> unat buffer + length data < 4294967296"
proof -
  let ?n = "of_nat (length data) :: u32"
  let ?s2 = "s1\<lparr>mem := store_bytes buffer data (mem s1)\<rparr>"
  have n: "unat ?n = length data" using assms(3) by (intro unat_of_nat32) simp
  have pos: "?n > 0" using assms(2) n by (auto simp: word_less_nat_alt)
  then have "fits ?n" using n assms(3) by (auto simp: fits_def)
  then have a: "heap_inv hb s1 ((buffer, ?n) # held)" "keeps held (mem (cs_heap st)) (mem s1)"
    using c_malloc_inv [OF assms(1,4)] by simp_all
  have bound: "unat buffer + length data < 4294967296" using heap_inv_in_heap(2,5) [OF a(1), of buffer ?n] n by simp
  have w: "heap_inv hb ?s2 ((buffer, ?n) # held) \<and> keeps held (mem s1) (mem ?s2)"
    using heap_write_inv [OF a(1) store_same_payload [of buffer data ?n]] bound n by simp
  have "read_buffer data st = Inr (buffer, with_heap ?s2 st)" using pos assms(4) by (simp add: read_buffer_def Let_def)
  moreover have "bytes_at (mem ?s2) buffer (length data) = data"
    using bytes_at_store_bytes [of buffer data "mem s1"] bound by simp
  ultimately show ?thesis using a(2) w bound by (auto simp: with_heap_def cs_mem_def intro: sm.keeps_trans)
qed

lemma read_args:
  assumes "codec_ok A args" and "unat buffer + length data < 4294967296"
    and "bytes_at m buffer (length data) = emitted (to_bin A args) @ more_data"
  shows "ds_in A (new_datastream buffer (of_nat (length data))) m
    = Inr (args, advanced (new_datastream buffer (of_nat (length data))) (length more_data))"
proof -
  have "length (emitted (to_bin A args) @ more_data) = length data" by (simp flip: assms(3))
  then have "parse (from_bin A) (emitted (to_bin A args) @ more_data) = Inr (args, more_data)"
    using assms(1,2) by (simp add: codec_ok_def)
  then show ?thesis
    using assms(1) run_reader_parse [OF new_datastream_ok(1) [OF assms(2)], of "from_bin A" m]
    by (simp add: ds_in_def codec_ok_def new_datastream_ok(2) [OF assms(2)] assms(3))
qed

lemma heap_write_held:
  assumes "heap_inv hb s held" and "b \<in> set held" and "same_on (- payload b) (mem s) m"
  shows "heap_inv hb (s\<lparr>mem := m\<rparr>) held"
proof -
  have "mset held = mset (b # remove1 b held)" using assms(2) by simp
  then show ?thesis using assms(1,3) heap_write_inv heap_inv_perm by metis
qed

text \<open>A value that is returned is packed into a block that is held.\<close>

lemma return_value_ok:
  assumes "heap_inv hb (cs_heap st) held" and "codec_ok C r" and "(ra, k) \<in> set held"
    and "length (emitted (to_bin C r)) \<le> unat k" and "H (cs_calls st) (Set_action_return_value (emitted (to_bin C r))) = Inr ()"
  shows "\<exists>st'. return_value H (Some C) r ra st = Inr st' \<and> heap_inv hb (cs_heap st') held
    \<and> cs_calls st' = cs_calls st @ [Set_action_return_value (emitted (to_bin C r))]"
proof -
  let ?bs = "emitted (to_bin C r)"
  have b: "unat ra + unat k < 2147483648"
    using heap_inv_in_heap(2,5) [OF assms(1,3)] by simp
  have "pb_out C = None" using assms(2) by (simp add: codec_ok_def)
  from pack_ok [OF this refl, of r ra "cs_mem st"] b assms(4) obtain m where
    m: "pack C r ra (cs_mem st) = Inr (?bs, m)" "same_on (- {unat ra ..< unat ra + length ?bs}) (cs_mem st) m" by auto
  have "same_on (- payload (ra, k)) (cs_mem st) m"
    using m(2) assms(4) by (rule_tac same_on_mono) (auto simp: payload_def cells_def)
  then have "heap_inv hb ((cs_heap st)\<lparr>mem := m\<rparr>) held"
    using heap_write_held [OF assms(1,3)] by (simp add: cs_mem_def)
  then show ?thesis using m(1) assms(5) by (simp add: return_value_def pack_at_def call_host_def with_mem_def)
qed

text \<open>
  The handler has the block of the buffer besides those that the contract held; it may write to the others, take
  and give back blocks, and call the host.
\<close>

lemma execute_action_ok:
  assumes "heap_inv hb (cs_heap st) held" and "codec_ok A args" and "data = emitted (to_bin A args) @ more_data"
    and "data \<noteq> []" and "length data < 4294967265" and "is_ok (c_malloc (of_nat (length data)) (cs_heap st))"
    and handler: "\<And>buffer ds st1. heap_inv hb (cs_heap st1) ((buffer, of_nat (length data)) # held) \<Longrightarrow>
      keeps held (cs_mem st) (cs_mem st1) \<Longrightarrow> cs_calls st1 = cs_calls st \<Longrightarrow>
      \<exists>st2. func (new_contract self code ds) args st1 = Inr (r, st2) \<and>
        heap_inv hb (cs_heap st2) ((buffer, of_nat (length data)) # held') \<and> cs_calls st2 = cs_calls st @ made"
    and ret: "\<And>C. R = Some C \<Longrightarrow> codec_ok C r \<and> (ra, k) \<in> set held' \<and> length (emitted (to_bin C r)) \<le> unat k \<and>
      H (cs_calls st @ made) (Set_action_return_value (emitted (to_bin C r))) = Inr ()"
  shows "\<exists>st'. execute_action H A R func ra data self code st = Inr st' \<and> heap_inv hb (cs_heap st') held'
    \<and> cs_calls st' = cs_calls st @ made @ (case R of None \<Rightarrow> [] | Some C \<Rightarrow> [Set_action_return_value (emitted (to_bin C r))])"
proof -
  let ?n = "of_nat (length data) :: u32"
  obtain buffer s1 where al: "c_malloc ?n (cs_heap st) = Inr (buffer, s1)"
    using assms(6) by (cases "c_malloc ?n (cs_heap st)") auto
  obtain st1 where st1: "read_buffer data st = Inr (buffer, st1)" "cs_calls st1 = cs_calls st"
      "heap_inv hb (cs_heap st1) ((buffer, ?n) # held)" "keeps held (cs_mem st) (cs_mem st1)"
      "bytes_at (cs_mem st1) buffer (length data) = data" "unat buffer + length data < 4294967296"
    using read_buffer_ok [OF assms(1,4,5) al] by blast
  obtain ds where ds: "ds_in A (new_datastream buffer ?n) (cs_mem st1) = Inr (args, ds)"
    using read_args [OF assms(2) st1(6), of "cs_mem st1" more_data] st1(5) assms(3) by simp
  obtain st2 where st2: "func (new_contract self code ds) args st1 = Inr (r, st2)"
      "heap_inv hb (cs_heap st2) ((buffer, ?n) # held')" "cs_calls st2 = cs_calls st @ made"
    using handler [OF st1(3,4,2)] by blast
  have "\<exists>st3. return_value H R r ra st2 = Inr st3 \<and> heap_inv hb (cs_heap st3) ((buffer, ?n) # held')
    \<and> cs_calls st3 = cs_calls st2 @ (case R of None \<Rightarrow> [] | Some C \<Rightarrow> [Set_action_return_value (emitted (to_bin C r))])"
  proof (cases R)
    case None
    then show ?thesis using st2(2) by (simp add: return_value_def)
  next
    case (Some C)
    then show ?thesis using return_value_ok [OF st2(2), of C r ra k H] ret [OF Some] st2(3) by simp
  qed
  then obtain st3 where st3: "return_value H R r ra st2 = Inr st3" "heap_inv hb (cs_heap st3) ((buffer, ?n) # held')"
      "cs_calls st3 = cs_calls st2 @ (case R of None \<Rightarrow> [] | Some C \<Rightarrow> [Set_action_return_value (emitted (to_bin C r))])"
    by blast
  have "?n \<noteq> 0" using assms(4,5) unat_of_nat32 [of "length data"] by (auto simp: word_unat_eq_iff)
  then show ?thesis
    using st1(1) ds st2(1,3) st3 c_free_inv [OF st3(2)] by (simp add: execute_action_def Let_def with_heap_def)
qed

lemma action_switch_finds:
  "distinct (map fst members) \<Longrightarrow> (action, run) \<in> set members \<Longrightarrow>
    action_switch members receiver code action st = res_bind (run receiver code st) (\<lambda>st1. Inr (True, st1))"
  by (induction members) force+

lemma action_switch_none:
  "action \<notin> fst ` set members \<Longrightarrow> action_switch members receiver code action st = Inr (False, st)"
  by (induction members) auto

lemma sent_bytes:
  assumes "codec_ok C args" and "formats_ok L (permissions w) (emitted (to_bin C args))"
    and "wrapper_send H L C nm w args a1 a2 st = Inr st'"
    and "length (emitted (to_bin C args)) < 2147483648" and "unat a1 + length (emitted (to_bin C args)) < 4294967296"
  defines "act \<equiv> \<lparr>act_account = code_name w, act_name = nm, act_authorization = permissions w, act_data = emitted (to_bin C args)\<rparr>"
  assumes "length (emitted (to_bin (action_codec L) act)) < 2147483648"
    and "unat a2 + length (emitted (to_bin (action_codec L) act)) < 4294967296"
  shows "cs_calls st' = cs_calls st @ [Send_inline (emitted (to_bin (action_codec L) act))]"
proof -
  have ok: "codec_ok (action_codec L) act" using assms(2) by (intro action_codec_ok) (simp add: act_def)
  obtain st1 where st1: "pack_at C args a1 st = Inr (emitted (to_bin C args), st1)" "cs_calls st1 = cs_calls st"
    using pack_at_ok [OF assms(1,4,5)] by blast
  obtain st2 where st2: "pack_at (action_codec L) act a2 st1 = Inr (emitted (to_bin (action_codec L) act), st2)" "cs_calls st2 = cs_calls st1"
    using pack_at_ok [OF ok assms(7,8)] by blast
  have "to_action C nm w args a1 st = Inr (act, st1)" by (simp add: to_action_def new_action_def st1 act_def)
  then show ?thesis
    using assms(3) st1(2) st2
    by (auto simp: wrapper_send_def action_send_def call_host_def res_bind_Inr)
qed

section \<open>The properties\<close>

text \<open>
  C32. A typed action that one contract sends and the host delivers runs the handler of its name in the
  receiving contract, on the arguments of the sender: whatever action is unpacked from the bytes that
  were sent, \<open>eosio_apply\<close> with its account, name and data executes that handler, passes on its calls of
  the host and its return value, and gives the buffer back, so that the heap is consistent for the
  blocks the handler has left.
\<close>
theorem sent_action_runs_handler:
  assumes "codec_ok A args" and "data = emitted (to_bin A args)" and "data \<noteq> []" and "formats_ok L (permissions w) data"
    and "act = \<lparr>act_account = code_name w, act_name = nm, act_authorization = permissions w, act_data = data\<rparr>"
    and "length (emitted (to_bin (action_codec L) act)) < 2147483648" and "length data < 2147483648"
    and "unat a1 + length data < 4294967296" and "unat a2 + length (emitted (to_bin (action_codec L) act)) < 4294967296"
    and "wrapper_send H L A nm w args a1 a2 sender = Inr sender'"
    and "last (cs_calls sender') = Send_inline bs" and "unat b + length bs < 4294967296" and "bytes_at m b (length bs) = bs"
    and "unpack (action_codec L) b (of_nat (length bs)) m = Inr act'"
    and "distinct (map fst members)" and "(nm, execute_action H A R func ra (act_data act')) \<in> set members"
    and "heap_inv hb (cs_heap st) held" and "is_ok (c_malloc (of_nat (length data)) (cs_heap st))"
    and handler: "\<And>buffer ds st1. heap_inv hb (cs_heap st1) ((buffer, of_nat (length data)) # held) \<Longrightarrow>
      keeps held (cs_mem st) (cs_mem st1) \<Longrightarrow> cs_calls st1 = cs_calls st \<Longrightarrow>
      \<exists>st2. func (new_contract (code_name w) (code_name w) ds) args st1 = Inr (r, st2) \<and>
        heap_inv hb (cs_heap st2) ((buffer, of_nat (length data)) # held') \<and> cs_calls st2 = cs_calls st @ made"
    and ret: "\<And>C. R = Some C \<Longrightarrow> codec_ok C r \<and> (ra, k) \<in> set held' \<and> length (emitted (to_bin C r)) \<le> unat k \<and>
      H (cs_calls st @ made) (Set_action_return_value (emitted (to_bin C r))) = Inr ()"
  shows "act' = act \<and> (\<exists>st'. eosio_apply members (act_account act') (act_account act') (act_name act') st = Inr st'
    \<and> heap_inv hb (cs_heap st') held'
    \<and> cs_calls st' = cs_calls st @ made @ (case R of None \<Rightarrow> [] | Some C \<Rightarrow> [Set_action_return_value (emitted (to_bin C r))]))"
proof -
  have ok: "codec_ok (action_codec L) act" using assms(4,5) by (intro action_codec_ok) simp
  have "cs_calls sender' = cs_calls sender @ [Send_inline (emitted (to_bin (action_codec L) act))]"
    unfolding assms(5) assms(2)
    by (rule sent_bytes [OF assms(1) assms(4) [unfolded assms(2)] assms(10) assms(7,8) [unfolded assms(2)] assms(6,9) [unfolded assms(5,2)]])
  then have bs: "bs = emitted (to_bin (action_codec L) act)" using assms(11) by simp
  have act: "act' = act" using unpack_exact [OF ok, of b m] assms(12-14) by (simp add: bs)
  have "\<exists>st'. execute_action H A R func ra data (code_name w) (code_name w) st = Inr st' \<and> heap_inv hb (cs_heap st') held'
    \<and> cs_calls st' = cs_calls st @ made @ (case R of None \<Rightarrow> [] | Some C \<Rightarrow> [Set_action_return_value (emitted (to_bin C r))])"
    by (rule execute_action_ok [where args = args and held = held and held' = held' and made = made and r = r and k = k and more_data = "[]"],
        fact assms(17), fact assms(1), simp add: assms(2), fact assms(3), use assms(7) in simp, fact assms(18),
        (rule handler; assumption), (rule ret, assumption))
  then show ?thesis
    using action_switch_finds [OF assms(15,16)] by (auto simp: eosio_apply_def act assms(5))
qed

definition echo :: "(u8, u8) handler" where
  "echo c a st = Inr (a, st)"

theorem sent_action_runs_handler_witness:
  "\<exists>st'. eosio_apply [(6, \<lambda>_ _ st. Inr st), (7, execute_action (\<lambda>_ _. Inr ()) byte_codec None echo 0 [9])] 5 5 7
      \<lparr>cs_heap = demo2, cs_calls = []\<rparr> = Inr st' \<and> heap_inv 4096 (cs_heap st') [(4240, 200), (4112, 100)] \<and> cs_calls st' = []"
proof -
  let ?w = "wrapper_code_level 5 (Permission_level 1 2)" and ?H = "\<lambda>_ _. Inr ()" and ?L = demo_formats
  let ?act = "\<lparr>act_account = code_name ?w, act_name = 7, act_authorization = permissions ?w, act_data = [9]\<rparr>"
  let ?bs = "emitted (to_bin (action_codec ?L) ?act)"
  let ?sender = "\<lparr>cs_heap = demo0, cs_calls = []\<rparr>"
  have lv: "codec_ok (level_codec ?L) l" for l
    unfolding level_codec_def by (intro struct_codec_ok fields2_ok) (simp_all add: demo_formats_def word_codec_ok)
  then have ok: "formats_ok ?L (permissions ?w) [9]"
    by (simp add: formats_ok_def demo_formats_def word_codec_ok list_codec_ok string_codec_ok wrapper_code_level_def)
  have len: "length ?bs = 35"
    by (simp add: action_codec_def level_codec_def demo_formats_def list_codec_def string_codec_def wrapper_code_level_def)
  have "is_ok (wrapper_send ?H ?L byte_codec 7 ?w 9 64 128 ?sender)" by code_simp
  then obtain sender' where sent: "wrapper_send ?H ?L byte_codec 7 ?w 9 64 128 ?sender = Inr sender'"
    by (cases "wrapper_send ?H ?L byte_codec 7 ?w 9 64 128 ?sender") auto
  have emitted: "emitted (to_bin byte_codec 9) = [9]" by (simp add: byte_codec_def)
  have calls: "cs_calls sender' = [Send_inline ?bs]"
    using sent_bytes [OF byte_codec_ok _ sent] ok len by (simp add: emitted)
  define m where "m = store_bytes 64 ?bs (\<lambda>_. 0)"
  have m: "bytes_at m 64 (length ?bs) = ?bs" unfolding m_def by (rule bytes_at_store_bytes) (simp add: len)
  have act: "unpack (action_codec ?L) 64 (of_nat (length ?bs)) m = Inr ?act"
    using ok by (intro unpack_exact action_codec_ok m) (simp_all add: len)
  have "is_ok (c_malloc 1 demo2)" by code_simp
  have inv: "heap_inv 4096 demo2 [(4240, 200), (4112, 100)]"
    using reach_heap_inv [OF demo_start demo2_reach] by simp
  have "?act = ?act \<and> (\<exists>st'. eosio_apply [(6, \<lambda>_ _ st. Inr st), (7, execute_action ?H byte_codec None echo 0 (act_data ?act))]
      (act_account ?act) (act_account ?act) (act_name ?act) \<lparr>cs_heap = demo2, cs_calls = []\<rparr> = Inr st'
    \<and> heap_inv 4096 (cs_heap st') [(4240, 200), (4112, 100)]
    \<and> cs_calls st' = cs_calls \<lparr>cs_heap = demo2, cs_calls = []\<rparr> @ [] @ (case (None :: u8 codec option) of None \<Rightarrow> [] | Some C \<Rightarrow> [Set_action_return_value (emitted (to_bin C 9))]))"
    by (rule sent_action_runs_handler [where L = ?L and w = ?w and data = "[9]" and A = byte_codec and args = 9 and H = ?H and func = echo and R = None and r = 9 and ra = 0 and made = "[]"
        and held' = "[(4240, 200), (4112, 100)]" and hb = 4096 and nm = 7 and ?a1.0 = 64 and ?a2.0 = 128
        and sender = ?sender and sender' = sender' and bs = ?bs and b = 64 and m = m and held = "[(4240, 200), (4112, 100)]"])
      (use byte_codec_ok emitted ok sent m act inv len \<open>is_ok (c_malloc 1 demo2)\<close> in \<open>simp_all add: calls\<close>, simp add: echo_def)
  then show ?thesis by (simp add: wrapper_code_level_def)
qed

text \<open>
  C33. The dispatcher runs nothing else: a notification (the code is another account) and a name without
  a handler are refused and leave the state, and \<open>dispatch\<close> runs the first of its action types whose
  account and name are those of the action.
\<close>
theorem dispatch_runs_only_matching:
  "(code \<noteq> receiver \<longrightarrow> eosio_apply members receiver code action st = Inl (Check ''notifications not supported by dispatcher''))
    \<and> (code = receiver \<and> action \<notin> fst ` set members \<longrightarrow> eosio_apply members receiver code action st = Inl (Check ''unkown action''))
    \<and> dispatch types code action st = (case find (\<lambda>(account, nm, _). code = account \<and> nm = action) types of
        None \<Rightarrow> Inr (False, st) | Some (_, _, on') \<Rightarrow> res_bind (on' st) (\<lambda>st1. Inr (True, st1)))"
proof -
  have "dispatch types code action st = (case find (\<lambda>(account, nm, _). code = account \<and> nm = action) types of
      None \<Rightarrow> Inr (False, st) | Some (_, _, on') \<Rightarrow> res_bind (on' st) (\<lambda>st1. Inr (True, st1)))"
    by (induction types code action st rule: dispatch.induct) simp_all
  then show ?thesis by (simp add: eosio_apply_def action_switch_none)
qed

theorem dispatch_runs_only_matching_witness:
  "eosio_apply [(6, \<lambda>_ _ st. Inr st)] 5 4 6 \<lparr>cs_heap = demo0, cs_calls = []\<rparr> = Inl (Check ''notifications not supported by dispatcher'')
    \<and> eosio_apply [(6, \<lambda>_ _ st. Inr st)] 5 5 7 \<lparr>cs_heap = demo0, cs_calls = []\<rparr> = Inl (Check ''unkown action'')"
  using dispatch_runs_only_matching [of 4 5 "[(6, \<lambda>_ _ st. Inr st)]" 6 "\<lparr>cs_heap = demo0, cs_calls = []\<rparr>" "[]"]
    dispatch_runs_only_matching [of 5 5 "[(6, \<lambda>_ _ st. Inr st)]" 7 "\<lparr>cs_heap = demo0, cs_calls = []\<rparr>" "[]"] by simp

end
