(* ===== verification/CryptoUtils.thy ===== *)
theory CryptoUtils
  imports Prelude
begin

text \<open>
  Text formats of keys and signatures (\<open>core/eosio/crypto_utils.hpp\<close>): base64, hex, and the parser of
  RSA public keys in PEM format. Strings are lists of bytes, and \<open>size_t\<close> has 32 bits. Texts are
  shorter than \<open>2 ^ 31\<close>, so that the \<open>int\<close> that counts the characters is their number.
\<close>

section \<open>base64\<close>

definition ascii :: "string \<Rightarrow> bytes" where
  "ascii s = map of_char s"

text \<open>\<open>isalnum\<close> of the C locale.\<close>

definition isalnum :: "u8 \<Rightarrow> bool" where
  "isalnum c \<longleftrightarrow> 48 \<le> c \<and> c \<le> 57 \<or> 65 \<le> c \<and> c \<le> 90 \<or> 97 \<le> c \<and> c \<le> 122"

definition is_base64_char :: "u8 \<Rightarrow> bool" where
  "is_base64_char c \<longleftrightarrow> isalnum c \<or> c = 43 \<or> c = 47"

definition base64_lookup :: "u8 list" where
  "base64_lookup =
     [255, 255, 255, 255, 255, 255, 255, 255, 255, 255, 255, 255, 255, 255, 255, 255,
      255, 255, 255, 255, 255, 255, 255, 255, 255, 255, 255, 255, 255, 255, 255, 255,
      255, 255, 255, 255, 255, 255, 255, 255, 255, 255, 255,  62, 255, 255, 255,  63,
       52,  53,  54,  55,  56,  57,  58,  59,  60,  61, 255, 255, 255, 255, 255, 255,
      255,   0,   1,   2,   3,   4,   5,   6,   7,   8,   9,  10,  11,  12,  13,  14,
       15,  16,  17,  18,  19,  20,  21,  22,  23,  24,  25, 255, 255, 255, 255, 255,
      255,  26,  27,  28,  29,  30,  31,  32,  33,  34,  35,  36,  37,  38,  39,  40,
       41,  42,  43,  44,  45,  46,  47,  48,  49,  50,  51, 255, 255, 255, 255, 255]"

text \<open>Four looked up characters make three bytes. All indices are characters that passed the test, or zero.\<close>

definition quad_bytes :: "u8 list \<Rightarrow> bytes" where
  "quad_bytes chars = (let a = map (\<lambda>c. base64_lookup ! unat c) chars in
     [push_bit 2 (a ! 0) + drop_bit 4 (a ! 1 AND 48),
      push_bit 4 (a ! 1 AND 15) + drop_bit 2 (a ! 2 AND 60),
      push_bit 6 (a ! 2 AND 3) + a ! 3])"

text \<open>
  The loop over the characters; \<open>pending\<close> are those in \<open>char_array_4\<close>. \<open>None\<close> is the return of an empty
  string at a character outside the alphabet.
\<close>

fun decode_loop :: "bytes \<Rightarrow> bytes \<Rightarrow> bytes \<Rightarrow> (bytes \<times> bytes) option" where
  "decode_loop [] pending ret = Some (pending, ret)"
| "decode_loop (c # cs) pending ret =
     (if c = 61 then Some (pending, ret)
      else if \<not> is_base64_char c then None
      else let chars = pending @ [c] in
        if length chars = 4 then decode_loop cs [] (ret @ quad_bytes chars) else decode_loop cs chars ret)"

definition base64_decode :: "bytes \<Rightarrow> bytes" where
  "base64_decode encoded_string = (case decode_loop encoded_string [] [] of
     None \<Rightarrow> []
   | Some (pending, ret) \<Rightarrow> if pending \<noteq> [] then
       ret @ take (length pending - 1) (quad_bytes (pending @ replicate (4 - length pending) 0)) else ret)"

section \<open>Hex\<close>

definition hex_digits :: bytes where
  "hex_digits = ascii ''0123456789abcdef''"

definition to_hex_text :: "bytes \<Rightarrow> bytes" where
  "to_hex_text d = concat (map (\<lambda>c. [hex_digits ! unat (drop_bit 4 c), hex_digits ! unat (c AND 15)]) d)"

definition base64_to_hex :: "bytes \<Rightarrow> bytes" where
  "base64_to_hex base64_str = (let decoded = base64_decode base64_str in if decoded = [] then [] else to_hex_text decoded)"

section \<open>PEM\<close>

definition strip_newline :: "bytes \<Rightarrow> bytes" where
  "strip_newline s = filter (\<lambda>c. c \<noteq> 10) s"

definition pem_header :: bytes where
  "pem_header = ascii ''-----BEGIN PUBLIC KEY-----''"

definition pem_trailer :: bytes where
  "pem_trailer = ascii ''-----END PUBLIC KEY-----''"

text \<open>
  The trailer is compared with the end of the whole text, and cut off what is left of it without the
  header: erasing more characters than there are is undefined behaviour.
\<close>

definition strip_header_trailer :: "bytes \<Rightarrow> bytes result" where
  "strip_header_trailer r =
     (if take (length pem_header) r \<noteq> pem_header then Inr []
      else if length r < length pem_trailer then Inl (Trap ''position behind the end of a string'')
      else if drop (length r - length pem_trailer) r \<noteq> pem_trailer then Inr []
      else let r1 = drop (length pem_header) r in
        if length r1 < length pem_trailer then Inl (Trap ''iterator before the start of a string'')
        else Inr (take (length r1 - length pem_trailer) r1))"

section \<open>The parser of keys\<close>

record rsa_key_parser =
  rp_key :: bytes
  rp_pos :: u32
  rp_byte :: u8

definition key_size :: "rsa_key_parser \<Rightarrow> u32" where
  "key_size p = of_nat (length (rp_key p))"

definition get_next :: "u32 \<Rightarrow> rsa_key_parser \<Rightarrow> bool \<times> rsa_key_parser" where
  "get_next step p =
     (if rp_pos p \<ge> key_size p then (False, p)
      else let p1 = p\<lparr>rp_byte := rp_key p ! unat (rp_pos p)\<rparr> in
        if rp_pos p \<noteq> key_size p - step then
          (if rp_pos p + step \<ge> key_size p then (False, p1) else (True, p1\<lparr>rp_pos := rp_pos p + step\<rparr>))
        else (True, p1))"

text \<open>\<open>get_next() && cur_byte == b\<close>\<close>

definition next_is :: "u8 \<Rightarrow> rsa_key_parser \<Rightarrow> bool \<times> rsa_key_parser" where
  "next_is b p = (case get_next 1 p of (ok, p1) \<Rightarrow> (ok \<and> rp_byte p1 = b, p1))"

fun read_len_loop :: "nat \<Rightarrow> u32 \<Rightarrow> u8 \<Rightarrow> rsa_key_parser \<Rightarrow> u32 \<times> u8 \<times> rsa_key_parser" where
  "read_len_loop 0 len len_bytes_num p = (len, len_bytes_num, p)"
| "read_len_loop (Suc k) len len_bytes_num p = (case get_next 1 p of (ok, p1) \<Rightarrow>
     if \<not> ok then (0, 0, p1)
     else read_len_loop k (push_bit 8 len + ucast (rp_byte p1)) (len_bytes_num + 1) p1)"

definition read_len :: "rsa_key_parser \<Rightarrow> u32 \<times> u8 \<times> rsa_key_parser" where
  "read_len p = (case get_next 1 p of (ok, p1) \<Rightarrow>
     if \<not> ok then (0, 0, p1)
     else let len_byte = rp_byte p1 in
       if len_byte < 128 then (ucast len_byte, 0, p1)
       else if len_byte > 128 \<and> len_byte \<le> 132 then read_len_loop (unat (len_byte - 128)) 0 0 p1
       else (0, 0, p1))"

definition read_seq_len :: "rsa_key_parser \<Rightarrow> u32 \<times> u8 \<times> rsa_key_parser" where
  "read_seq_len p = (case next_is 48 p of (ok, p1) \<Rightarrow> if \<not> ok then (0, 0, p1) else read_len p1)"

definition key_substr :: "u32 \<Rightarrow> rsa_key_parser \<Rightarrow> bytes" where
  "key_substr len p = take (unat len) (drop (unat (rp_pos p)) (rp_key p))"

definition read_oid :: "rsa_key_parser \<Rightarrow> bytes \<times> rsa_key_parser" where
  "read_oid p = (case next_is 6 p of (ok, p1) \<Rightarrow>
     if \<not> ok then ([], p1)
     else case read_len p1 of (len, _, p2) \<Rightarrow>
       if len = 0 then ([], p2)
       else let ret = key_substr len p2 in
         case get_next len p2 of (ok2, p3) \<Rightarrow> if \<not> ok2 then ([], p3) else (ret, p3))"

definition get_null :: "rsa_key_parser \<Rightarrow> bool \<times> rsa_key_parser" where
  "get_null p = (case next_is 5 p of (ok, p1) \<Rightarrow> if \<not> ok then (False, p1) else next_is 0 p1)"

definition read_bit_str :: "rsa_key_parser \<Rightarrow> u32 \<times> rsa_key_parser" where
  "read_bit_str p = (case next_is 3 p of (ok, p1) \<Rightarrow>
     if \<not> ok then (0, p1)
     else case read_len p1 of (len, _, p2) \<Rightarrow>
       case get_next 1 p2 of (ok2, p3) \<Rightarrow> if \<not> ok2 then (0, p3) else (len, p3))"

definition read_int :: "rsa_key_parser \<Rightarrow> bytes \<times> rsa_key_parser" where
  "read_int p = (case next_is 2 p of (ok, p1) \<Rightarrow>
     if \<not> ok then ([], p1)
     else case read_len p1 of (len, _, p2) \<Rightarrow>
       if len = 0 then ([], p2)
       else let s = key_substr len p2; ret = (case s of [] \<Rightarrow> [] | c # cs \<Rightarrow> if c = 0 then cs else s) in
         case get_next len p2 of (ok2, p3) \<Rightarrow> if \<not> ok2 then ([], p3) else (ret, p3))"

definition rsa_oid :: bytes where
  "rsa_oid = [42, 134, 72, 134, 247, 13, 1, 1, 1]"

text \<open>The part of \<open>parse_rsa_pubkey\<close> after decoding; \<open>md\<close> and \<open>ex\<close> are the output strings.\<close>

definition parse_rsa_der :: "bytes \<Rightarrow> bytes \<Rightarrow> bytes \<Rightarrow> int \<times> bytes \<times> bytes" where
  "parse_rsa_der key md ex =
     (if length key < 2 then (- 1, md, ex)
      else case read_seq_len \<lparr>rp_key = key, rp_pos = 0, rp_byte = 0\<rparr> of (key_seq_len, len_bytes_num, p1) \<Rightarrow>
        if key_seq_len = 0 \<or> of_nat (length key) - 2 - ucast len_bytes_num \<noteq> key_seq_len then (- 1, md, ex)
        else case read_seq_len p1 of (n1, _, p2) \<Rightarrow>
        if n1 = 0 then (- 1, md, ex)
        else case read_oid p2 of (oid_chars, p3) \<Rightarrow>
        if oid_chars \<noteq> rsa_oid then (- 1, md, ex)
        else case get_null p3 of (ok, p4) \<Rightarrow>
        if \<not> ok then (- 1, md, ex)
        else case read_bit_str p4 of (n2, p5) \<Rightarrow>
        if n2 = 0 then (- 1, md, ex)
        else case read_seq_len p5 of (n3, _, p6) \<Rightarrow>
        if n3 = 0 then (- 1, md, ex)
        else case read_int p6 of (mod_bytes, p7) \<Rightarrow>
        if mod_bytes = [] then (- 1, md, ex)
        else case read_int p7 of (exp_bytes, p8) \<Rightarrow>
        if exp_bytes = [] then (- 1, to_hex_text mod_bytes, ex)
        else (0, to_hex_text mod_bytes, to_hex_text exp_bytes))"

definition parse_rsa_pubkey :: "bytes \<Rightarrow> bytes \<Rightarrow> bytes \<Rightarrow> (int \<times> bytes \<times> bytes) result" where
  "parse_rsa_pubkey pubkey md ex =
     (let key_stripped = strip_newline pubkey in
      if key_stripped = [] then Inr (- 1, md, ex)
      else res_bind (strip_header_trailer key_stripped) (\<lambda>body.
        if body = [] then Inr (- 1, md, ex) else Inr (parse_rsa_der (base64_decode body) md ex)))"

section \<open>Signatures\<close>

text \<open>
  The users of these formats in \<open>crypto.cpp\<close>; the host's function takes message, signature,
  exponent and modulus.
\<close>

definition verify_rsa_sha256_sig :: "(bytes \<Rightarrow> bytes \<Rightarrow> bytes \<Rightarrow> bytes \<Rightarrow> bool) \<Rightarrow> bytes \<Rightarrow> bytes \<Rightarrow> bytes \<Rightarrow> bool result" where
  "verify_rsa_sha256_sig h msg sig pubkey =
     (let sig_hex = base64_to_hex (strip_newline sig) in
      if sig_hex = [] then Inr False
      else res_bind (parse_rsa_pubkey pubkey [] []) (\<lambda>(r, md, ex).
        if r \<noteq> 0 then Inr False else Inr (h msg sig_hex ex md)))"

definition is_supported_rsa_pubkey :: "bytes \<Rightarrow> bool result" where
  "is_supported_rsa_pubkey pub_key = res_bind (parse_rsa_pubkey pub_key [] []) (\<lambda>(r, _, _). Inr (r = 0))"

end
