(* ===== verification/CryptoProps.thy ===== *)
theory CryptoProps
  imports CryptoUtils
begin

text \<open>
  The base64 decoder against the standard encoder, and the key parser against the DER encoding of RSA
  public keys.
\<close>

section \<open>base64\<close>

definition base64_char :: "nat \<Rightarrow> u8" where
  "base64_char n = (if n < 26 then of_nat (65 + n) else if n < 52 then of_nat (71 + n)
     else if n < 62 then of_nat (n - 4) else if n = 62 then 43 else 47)"

text \<open>The encoding of RFC 4648, with padding.\<close>

fun base64_encode :: "bytes \<Rightarrow> bytes" where
  "base64_encode [] = []"
| "base64_encode [a] = [base64_char (unat a div 4), base64_char (16 * (unat a mod 4)), 61, 61]"
| "base64_encode [a, b] = [base64_char (unat a div 4), base64_char (16 * (unat a mod 4) + unat b div 16),
     base64_char (4 * (unat b mod 16)), 61]"
| "base64_encode (a # b # c # bs) = base64_char (unat a div 4) # base64_char (16 * (unat a mod 4) + unat b div 16)
     # base64_char (4 * (unat b mod 16) + unat c div 64) # base64_char (unat c mod 64) # base64_encode bs"

definition sextet_ok :: "nat \<Rightarrow> bool" where
  "sextet_ok n \<longleftrightarrow> (let l = of_nat n :: u8 in base64_lookup ! unat (base64_char n) = l \<and> is_base64_char (base64_char n) \<and> base64_char n \<noteq> 61
     \<and> unat (push_bit 2 l) = 4 * n \<and> unat (drop_bit 4 (l AND 48)) = n div 16 \<and> unat (push_bit 4 (l AND 15)) = 16 * (n mod 16)
     \<and> unat (drop_bit 2 (l AND 60)) = n div 4 \<and> unat (push_bit 6 (l AND 3)) = 64 * (n mod 4))"

lemma all_sextets_ok: "list_all sextet_ok [0..<64]"
  by code_simp

lemma sextet:
  assumes "n < 64"
  shows "base64_lookup ! unat (base64_char n) = of_nat n" and "is_base64_char (base64_char n)" and "base64_char n \<noteq> 61"
    and "unat (push_bit 2 (of_nat n :: u8)) = 4 * n" and "unat (drop_bit 4 (of_nat n AND 48 :: u8)) = n div 16"
    and "unat (push_bit 4 (of_nat n AND 15 :: u8)) = 16 * (n mod 16)" and "unat (drop_bit 2 (of_nat n AND 60 :: u8)) = n div 4"
    and "unat (push_bit 6 (of_nat n AND 3 :: u8)) = 64 * (n mod 4)" and "unat (of_nat n :: u8) = n"
proof -
  have "sextet_ok n" using all_sextets_ok assms by (simp add: list_all_iff)
  then show "base64_lookup ! unat (base64_char n) = of_nat n" "is_base64_char (base64_char n)" "base64_char n \<noteq> 61"
    "unat (push_bit 2 (of_nat n :: u8)) = 4 * n" "unat (drop_bit 4 (of_nat n AND 48 :: u8)) = n div 16"
    "unat (push_bit 4 (of_nat n AND 15 :: u8)) = 16 * (n mod 16)" "unat (drop_bit 2 (of_nat n AND 60 :: u8)) = n div 4"
    "unat (push_bit 6 (of_nat n AND 3 :: u8)) = 64 * (n mod 4)"
    unfolding sextet_ok_def Let_def by blast+
  show "unat (of_nat n :: u8) = n" using assms by (simp add: unat_of_nat take_bit_nat_eq_self)
qed

lemma unat_lt8: "unat (a :: u8) < 256"
  using unsigned_less [of a] by simp

lemma byte_eqI: "x + y < 256 \<Longrightarrow> unat a = x \<Longrightarrow> unat b = y \<Longrightarrow> unat c = x + y \<Longrightarrow> a + b = (c :: u8)"
  by (simp add: word_unat_eq_iff unat_word_ariths)

lemma joined: "y < k \<Longrightarrow> (k * x + y) div k = x" "y < k \<Longrightarrow> (k * x + y) mod k = (y :: nat)"
  by simp_all

lemma quad_of_bytes:
  "take 1 (quad_bytes [base64_char (unat a div 4), base64_char (16 * (unat a mod 4) + unat b div 16), x, y]) = [a]"
  "take 2 (quad_bytes [base64_char (unat a div 4), base64_char (16 * (unat a mod 4) + unat b div 16),
     base64_char (4 * (unat b mod 16) + unat c div 64), y]) = [a, b]"
  "quad_bytes [base64_char (unat a div 4), base64_char (16 * (unat a mod 4) + unat b div 16),
     base64_char (4 * (unat b mod 16) + unat c div 64), base64_char (unat c mod 64)] = [a, b, c]"
proof -
  have lt: "unat a div 4 < 64" "unat b div 16 < 16" "unat c div 64 < 4"
    using unat_lt8 [of a] unat_lt8 [of b] unat_lt8 [of c] by (simp_all add: div_less_iff_less_mult)
  note a = lt(1)
  have m: "unat a mod 4 < 4" "unat b mod 16 < 16" by simp_all
  have b: "16 * (unat a mod 4) + unat b div 16 < 64" and c: "4 * (unat b mod 16) + unat c div 64 < 64"
    using lt m by linarith+
  have A: "push_bit 2 (of_nat (unat a div 4)) + drop_bit 4 (of_nat (16 * (unat a mod 4) + unat b div 16) AND 48) = a"
    by (rule byte_eqI [of "4 * (unat a div 4)" "unat a mod 4"])
      (use unat_lt8 [of a] sextet(4) [OF a] sextet(5) [OF b] joined(1) [OF lt(2), of "unat a mod 4"] in simp_all)
  have B: "push_bit 4 (of_nat (16 * (unat a mod 4) + unat b div 16) AND 15) + drop_bit 2 (of_nat (4 * (unat b mod 16) + unat c div 64) AND 60) = b"
    by (rule byte_eqI [of "16 * (unat b div 16)" "unat b mod 16"])
      (use unat_lt8 [of b] sextet(6) [OF b] sextet(7) [OF c] joined(2) [OF lt(2), of "unat a mod 4"] joined(1) [OF lt(3), of "unat b mod 16"] in simp_all)
  have C: "push_bit 6 (of_nat (4 * (unat b mod 16) + unat c div 64) AND 3) + of_nat (unat c mod 64) = c"
    by (rule byte_eqI [of "64 * (unat c div 64)" "unat c mod 64"])
      (use unat_lt8 [of c] sextet(8) [OF c] sextet(9) [of "unat c mod 64"] joined(2) [OF lt(3), of "unat b mod 16"] in simp_all)
  show "take 1 (quad_bytes [base64_char (unat a div 4), base64_char (16 * (unat a mod 4) + unat b div 16), x, y]) = [a]"
    using A by (simp add: quad_bytes_def Let_def sextet [OF a] sextet [OF b])
  show "take 2 (quad_bytes [base64_char (unat a div 4), base64_char (16 * (unat a mod 4) + unat b div 16),
     base64_char (4 * (unat b mod 16) + unat c div 64), y]) = [a, b]"
    using A B by (simp add: quad_bytes_def Let_def sextet [OF a] sextet [OF b] sextet [OF c] numeral_2_eq_2)
  have "unat c mod 64 < 64" by simp
  then show "quad_bytes [base64_char (unat a div 4), base64_char (16 * (unat a mod 4) + unat b div 16),
     base64_char (4 * (unat b mod 16) + unat c div 64), base64_char (unat c mod 64)] = [a, b, c]"
    using A B C by (simp add: quad_bytes_def Let_def sextet [OF a] sextet [OF b] sextet [OF c] sextet [OF \<open>unat c mod 64 < 64\<close>])
qed

definition finish :: "bytes \<times> bytes \<Rightarrow> bytes" where
  "finish = (\<lambda>(pending, ret). if pending \<noteq> [] then
     ret @ take (length pending - 1) (quad_bytes (pending @ replicate (4 - length pending) 0)) else ret)"

lemma base64_decode_finish: "base64_decode s = (case decode_loop s [] [] of None \<Rightarrow> [] | Some st \<Rightarrow> finish st)"
  by (simp add: base64_decode_def finish_def split: option.splits)

lemma byte_sextets:
  "unat (a :: u8) div 4 < 64" "16 * (unat a mod 4) < 64" "16 * (unat a mod 4) + unat (b :: u8) div 16 < 64"
  "4 * (unat b mod 16) < 64" "4 * (unat b mod 16) + unat (c :: u8) div 64 < 64" "unat c mod 64 < 64"
proof -
  have "unat a div 4 < 64" "unat b div 16 < 16" "unat c div 64 < 4"
    using unat_lt8 [of a] unat_lt8 [of b] unat_lt8 [of c] by (simp_all add: div_less_iff_less_mult)
  moreover have "unat a mod 4 < 4" "unat b mod 16 < 16" by simp_all
  ultimately show "unat a div 4 < 64" "16 * (unat a mod 4) < 64" "16 * (unat a mod 4) + unat b div 16 < 64"
    "4 * (unat b mod 16) < 64" "4 * (unat b mod 16) + unat c div 64 < 64" "unat c mod 64 < 64"
    by linarith+
qed

lemma decode_step:
  "n < 64 \<Longrightarrow> decode_loop (base64_char n # cs) pending ret = (if length pending = 3
     then decode_loop cs [] (ret @ quad_bytes (pending @ [base64_char n])) else decode_loop cs (pending @ [base64_char n]) ret)"
  by (simp add: sextet)

lemma decode_encoded:
  "map_option finish (decode_loop (base64_encode bs) [] ret) = Some (ret @ bs)"
proof (induction bs arbitrary: ret rule: base64_encode.induct)
  case 1
  then show ?case by (simp add: finish_def)
next
  case (2 a)
  have "decode_loop (base64_encode [a]) [] ret = Some ([base64_char (unat a div 4), base64_char (16 * (unat a mod 4))], ret)"
    by (simp add: decode_step byte_sextets del: decode_loop.simps(2)) simp
  then show ?case using quad_of_bytes(1) [of a 0 "0" "0"] by (simp add: finish_def numeral_2_eq_2)
next
  case (3 a b)
  have "decode_loop (base64_encode [a, b]) [] ret = Some ([base64_char (unat a div 4),
      base64_char (16 * (unat a mod 4) + unat b div 16), base64_char (4 * (unat b mod 16))], ret)"
    by (simp add: decode_step byte_sextets del: decode_loop.simps(2)) simp
  then show ?case using quad_of_bytes(2) [of a b 0 "0"] by (simp add: finish_def numeral_2_eq_2)
next
  case (4 a b c bs)
  show ?case using 4 [of "ret @ [a, b, c]"] quad_of_bytes(3) [of a b c] by (simp add: decode_step byte_sextets del: decode_loop.simps(2))
qed

lemma decode_bad:
  "list_all is_base64_char xs \<Longrightarrow> 61 \<notin> set xs \<Longrightarrow> \<not> is_base64_char c \<Longrightarrow> c \<noteq> 61 \<Longrightarrow> decode_loop (xs @ c # ys) pending ret = None"
  by (induction xs arbitrary: pending ret) (auto simp: Let_def)

lemma base64_decode_encode: "base64_decode (base64_encode bs) = bs"
  using decode_encoded [of bs "[]"] by (auto simp: base64_decode_finish split: option.splits)

lemma to_hex_text_not_Nil: "d \<noteq> [] \<Longrightarrow> to_hex_text d \<noteq> []"
  by (cases d) (auto simp: to_hex_text_def)

text \<open>
  C29. Decoding the base64 text of any bytes, padded as in RFC 4648, gives them back, and its hex text is
  that of the bytes; a character outside the alphabet in front of the padding makes the result empty.
\<close>
theorem base64_round_trip:
  "base64_decode (base64_encode bs) = bs \<and> base64_to_hex (base64_encode bs) = to_hex_text bs
    \<and> (list_all is_base64_char xs \<and> \<not> is_base64_char c \<and> c \<noteq> 61 \<longrightarrow> base64_decode (xs @ c # ys) = [])"
proof -
  have "base64_decode (xs @ c # ys) = []"
    if "list_all is_base64_char xs" "\<not> is_base64_char c" "c \<noteq> 61"
  proof -
    have "61 \<notin> set xs" using that(1) by (auto simp: list_all_iff is_base64_char_def isalnum_def)
    then show ?thesis using decode_bad [OF that(1) _ that(2,3)] by (simp add: base64_decode_def)
  qed
  then show ?thesis by (auto simp: base64_to_hex_def base64_decode_encode Let_def to_hex_text_def)
qed


theorem base64_round_trip_witness:
  "base64_decode (ascii ''AQI*'') = [] \<and> base64_decode (base64_encode [1, 2]) = [1, 2]"
  using base64_round_trip [of "[1, 2]" "ascii ''AQI''" "of_char (CHR ''*'')" "[]"] by code_simp

section \<open>The encoding of RSA public keys\<close>

definition der_len :: "nat \<Rightarrow> bytes" where
  "der_len n = (if n < 128 then [of_nat n] else if n < 256 then [129, of_nat n]
     else [130, of_nat (n div 256), of_nat (n mod 256)])"

definition tlv :: "u8 \<Rightarrow> bytes \<Rightarrow> bytes" where
  "tlv tag v = tag # der_len (length v) @ v"

text \<open>An unsigned number, written as a signed one.\<close>

definition der_int :: "bytes \<Rightarrow> bytes" where
  "der_int m = tlv 2 (if hd m \<ge> 128 then 0 # m else m)"

text \<open>\<open>SubjectPublicKeyInfo\<close> with the algorithm \<open>rsaEncryption\<close>.\<close>

definition der_spki :: "bytes \<Rightarrow> bytes" where
  "der_spki ints = tlv 48 (tlv 48 (tlv 6 rsa_oid @ [5, 0]) @ tlv 3 (0 # tlv 48 ints))"

definition der_key :: "bytes \<Rightarrow> bytes \<Rightarrow> bytes" where
  "der_key m e = der_spki (der_int m @ der_int e)"

definition stands :: "rsa_key_parser \<Rightarrow> bytes \<Rightarrow> bool" where
  "stands p xs \<longleftrightarrow> (\<exists>pre. rp_key p = pre @ xs \<and> unat (rp_pos p) = length pre) \<and> length (rp_key p) < 2 ^ 31"

lemma unat_small: "n < 2 ^ 31 \<Longrightarrow> unat (of_nat n :: u32) = n"
  by (simp add: unat_of_nat take_bit_nat_eq_self)

lemma get_next_skip:
  assumes "stands p (xs @ ys)" "xs \<noteq> []"
  shows "\<exists>p'. get_next (of_nat (length xs)) p = (True, p') \<and> rp_byte p' = hd xs \<and> (ys \<noteq> [] \<longrightarrow> stands p' ys)"
proof -
  obtain pre where p: "rp_key p = pre @ xs @ ys" "unat (rp_pos p) = length pre" and l: "length (pre @ xs @ ys) < 2 ^ 31"
    using assms(1) by (auto simp: stands_def)
  have pos: "rp_pos p = of_nat (length pre)" using p(2) by (metis of_nat_unat ucast_id)
  have size': "key_size p = of_nat (length pre + length xs + length ys)" by (simp add: key_size_def p(1))
  have lt: "\<not> rp_pos p \<ge> key_size p"
    using l assms(2) unfolding pos size' by (simp only: word_le_nat_alt unat_small length_append) simp
  have sub: "key_size p - of_nat (length xs) = of_nat (length pre + length ys)"
    unfolding size' by simp
  have eq: "rp_pos p \<noteq> key_size p - of_nat (length xs) \<longleftrightarrow> ys \<noteq> []"
    using l unfolding sub pos word_unat_eq_iff by (simp only: unat_small length_append) simp
  have step: "rp_pos p + of_nat (length xs) = of_nat (length pre + length xs)" by (simp add: pos)
  have fits: "ys \<noteq> [] \<Longrightarrow> \<not> rp_pos p + of_nat (length xs) \<ge> key_size p"
    using l unfolding step size' by (simp only: word_le_nat_alt unat_small length_append) simp
  have byte: "rp_key p ! unat (rp_pos p) = hd xs" using assms(2) by (simp add: p nth_append hd_conv_nth)
  have "stands (p\<lparr>rp_byte := hd xs, rp_pos := of_nat (length pre + length xs)\<rparr>) ys" if "ys \<noteq> []"
    using l unfolding stands_def by (intro conjI exI [of _ "pre @ xs"]) (simp_all add: p unat_small del: of_nat_add)
  then show ?thesis using lt eq fits byte unfolding get_next_def Let_def step by auto
qed

lemma get_next_one:
  assumes "stands p (x # ys)" "ys \<noteq> []"
  shows "\<exists>p'. get_next 1 p = (True, p') \<and> rp_byte p' = x \<and> stands p' ys"
  using get_next_skip [of p "[x]" ys] assms by simp

lemma next_is_tag:
  assumes "stands p (x # ys)" "ys \<noteq> []"
  shows "\<exists>p'. next_is x p = (True, p') \<and> stands p' ys"
  using get_next_one [OF assms] by (auto simp: next_is_def)

lemma ucast_byte: "n < 256 \<Longrightarrow> ucast (of_nat n :: u8) = (of_nat n :: u32)"
  by (simp add: word_unat_eq_iff unsigned_ucast_eq unat_of_nat take_bit_nat_eq_self)

lemma read_len_der:
  assumes "stands p (der_len n @ ys)" "ys \<noteq> []" "n < 65536"
  shows "\<exists>p'. read_len p = (of_nat n, of_nat (length (der_len n) - 1), p') \<and> stands p' ys"
proof -
  consider "n < 128" | "128 \<le> n" "n < 256" | "256 \<le> n" by linarith
  then show ?thesis
  proof cases
    case 1
    obtain p1 where "get_next 1 p = (True, p1)" "rp_byte p1 = of_nat n" "stands p1 ys"
      using get_next_one [of p "of_nat n" ys] assms 1 by (auto simp: der_len_def)
    moreover have "(of_nat n :: u8) < 128" using 1 by (simp add: word_less_nat_alt unat_of_nat take_bit_nat_eq_self)
    moreover have "(ucast (of_nat n :: u8) :: u32) = of_nat n" using 1 by (simp add: ucast_byte)
    ultimately show ?thesis using 1 by (simp add: read_len_def der_len_def)
  next
    case 2
    obtain p1 where p1: "get_next 1 p = (True, p1)" "rp_byte p1 = 129" "stands p1 (of_nat n # ys)"
      using get_next_one [of p 129 "of_nat n # ys"] assms 2 by (auto simp: der_len_def)
    obtain p2 where p2: "get_next 1 p1 = (True, p2)" "rp_byte p2 = of_nat n" "stands p2 ys"
      using get_next_one [OF p1(3) assms(2)] by blast
    have "(ucast (of_nat n :: u8) :: u32) = of_nat n" using 2 by (simp add: ucast_byte)
    then show ?thesis using 2 p1 p2 by (simp add: read_len_def der_len_def)
  next
    case 3
    obtain p1 where p1: "get_next 1 p = (True, p1)" "rp_byte p1 = 130" "stands p1 (of_nat (n div 256) # of_nat (n mod 256) # ys)"
      using get_next_one [of p 130 "of_nat (n div 256) # of_nat (n mod 256) # ys"] assms 3 by (auto simp: der_len_def)
    obtain p2 where p2: "get_next 1 p1 = (True, p2)" "rp_byte p2 = of_nat (n div 256)" "stands p2 (of_nat (n mod 256) # ys)"
      using get_next_one [OF p1(3)] by blast
    obtain p3 where p3: "get_next 1 p2 = (True, p3)" "rp_byte p3 = of_nat (n mod 256)" "stands p3 ys"
      using get_next_one [OF p2(3) assms(2)] by blast
    have "n div 256 < 256" using assms(3) by simp
    then have "(ucast (of_nat (n div 256) :: u8) :: u32) = of_nat (n div 256)"
      by (simp add: ucast_byte)
    moreover have "(ucast (of_nat (n mod 256) :: u8) :: u32) = of_nat (n mod 256)"
      by (simp add: ucast_byte)
    moreover have "push_bit 8 (of_nat (n div 256)) + of_nat (n mod 256) = (of_nat n :: u32)"
      using arg_cong [OF div_mult_mod_eq [of n 256], of "of_nat :: nat \<Rightarrow> u32"]
      by (simp only: push_bit_eq_mult of_nat_add of_nat_mult of_nat_numeral) simp
    ultimately have "read_len_loop (Suc (Suc 0)) 0 0 p1 = (of_nat n, 2, p3)" by (simp add: p2(1,2) p3(1,2))
    then have "read_len_loop 2 0 0 p1 = (of_nat n, 2, p3)" by (simp only: numeral_2_eq_2)
    then show ?thesis using 3 p1 p3(3) by (simp add: read_len_def der_len_def)
  qed
qed

lemma read_seq_der:
  assumes "stands p (tlv 48 v @ ys)" "v \<noteq> []" "length v < 65536"
  shows "\<exists>p'. read_seq_len p = (of_nat (length v), of_nat (length (der_len (length v)) - 1), p') \<and> stands p' (v @ ys)"
proof -
  obtain p1 where p1: "next_is 48 p = (True, p1)" "stands p1 (der_len (length v) @ v @ ys)"
    using next_is_tag [of p 48] assms by (auto simp: tlv_def)
  show ?thesis using read_len_der [OF p1(2)] assms(2,3) p1(1) by (auto simp: read_seq_len_def)
qed

lemma key_substr_stands: "stands p (v @ ys) \<Longrightarrow> length v < 65536 \<Longrightarrow> key_substr (of_nat (length v)) p = v"
  by (auto simp: stands_def key_substr_def unat_small)

lemma len_not_0: "v \<noteq> [] \<Longrightarrow> length v < 65536 \<Longrightarrow> (of_nat (length v) :: u32) \<noteq> 0"
  using unat_small [of "length v"] by (auto simp: word_unat_eq_iff)

lemma read_oid_der:
  assumes "stands p (tlv 6 v @ ys)" "v \<noteq> []" "length v < 65536" "ys \<noteq> []"
  shows "\<exists>p'. read_oid p = (v, p') \<and> stands p' ys"
proof -
  obtain p1 where p1: "next_is 6 p = (True, p1)" "stands p1 (der_len (length v) @ v @ ys)"
    using next_is_tag [of p 6] assms by (auto simp: tlv_def)
  obtain k p2 where p2: "read_len p1 = (of_nat (length v), k, p2)" "stands p2 (v @ ys)"
    using read_len_der [OF p1(2)] assms(2,3) by auto
  obtain p3 where "get_next (of_nat (length v)) p2 = (True, p3)" "stands p3 ys"
    using get_next_skip [OF p2(2) assms(2)] assms(4) by auto
  then show ?thesis
    using p1(1) p2(1) assms(2) key_substr_stands [OF p2(2)] len_not_0 [OF assms(2,3)] assms(3) by (simp add: read_oid_def)
qed

lemma read_int_der:
  assumes "stands p (tlv 2 v @ ys)" "v \<noteq> []" "length v < 65536"
  shows "\<exists>p'. read_int p = ((if hd v = 0 then tl v else v), p') \<and> (ys \<noteq> [] \<longrightarrow> stands p' ys)"
proof -
  obtain p1 where p1: "next_is 2 p = (True, p1)" "stands p1 (der_len (length v) @ v @ ys)"
    using next_is_tag [of p 2] assms by (auto simp: tlv_def)
  obtain k p2 where p2: "read_len p1 = (of_nat (length v), k, p2)" "stands p2 (v @ ys)"
    using read_len_der [OF p1(2)] assms(2,3) by auto
  obtain p3 where "get_next (of_nat (length v)) p2 = (True, p3)" "ys \<noteq> [] \<longrightarrow> stands p3 ys"
    using get_next_skip [OF p2(2) assms(2)] by auto
  moreover obtain c cs where "v = c # cs" using assms(2) by (cases v) auto
  ultimately show ?thesis
    using p1(1) p2(1) key_substr_stands [OF p2(2)] len_not_0 [OF assms(2,3)] assms(3) by (simp add: read_int_def)
qed

lemma get_null_der:
  assumes "stands p (5 # 0 # ys)" "ys \<noteq> []"
  shows "\<exists>p'. get_null p = (True, p') \<and> stands p' ys"
proof -
  obtain p1 where "next_is 5 p = (True, p1)" "stands p1 (0 # ys)" using next_is_tag [OF assms(1)] by auto
  moreover obtain p2 where "next_is 0 p1 = (True, p2)" "stands p2 ys" using next_is_tag [OF calculation(2) assms(2)] by auto
  ultimately show ?thesis by (simp add: get_null_def)
qed

lemma read_bit_str_der:
  assumes "stands p (tlv 3 (0 # v) @ ys)" "v @ ys \<noteq> []" "length v < 65535"
  shows "\<exists>p'. read_bit_str p = (of_nat (Suc (length v)), p') \<and> stands p' (v @ ys)"
proof -
  obtain p1 where p1: "next_is 3 p = (True, p1)" "stands p1 (der_len (Suc (length v)) @ 0 # v @ ys)"
    using next_is_tag [of p 3] assms by (auto simp: tlv_def)
  obtain k p2 where p2: "read_len p1 = (of_nat (Suc (length v)), k, p2)" "stands p2 (0 # v @ ys)"
    using read_len_der [OF p1(2)] assms(3) by auto
  show ?thesis using get_next_one [OF p2(2) assms(2)] p1(1) p2(1) by (auto simp: read_bit_str_def)
qed

lemma length_tlv: "length v < 128 \<Longrightarrow> length (tlv tag v) = length v + 2"
  and tlv_not_Nil: "tlv tag v \<noteq> []"
  by (simp_all add: tlv_def der_len_def)

lemma der_int_bytes:
  assumes "m \<noteq> []" "hd m \<noteq> 0"
  obtains v where "der_int m = tlv 2 v" "v \<noteq> []" "(if hd v = 0 then tl v else v) = m" "length v \<le> Suc (length m)"
  using assms that [of "if hd m \<ge> 128 then 0 # m else m"] by (auto simp: der_int_def)

lemma tlv_longer: "length v < length (tlv tag v)"
  by (simp add: tlv_def)

lemma seq_length_matches:
  "of_nat (length (tlv 48 v)) - 2 - ucast (of_nat (length (der_len (length v)) - 1) :: u8) = (of_nat (length v) :: u32)"
proof -
  have "length (der_len (length v)) \<in> {1, 2, 3}" by (simp add: der_len_def)
  then show ?thesis by (auto simp: tlv_def)
qed

text \<open>Everything in front of the two numbers; what is read then decides.\<close>

definition numbers :: "rsa_key_parser \<Rightarrow> bytes \<Rightarrow> bytes \<Rightarrow> int \<times> bytes \<times> bytes" where
  "numbers p md ex = (case read_int p of (m, p1) \<Rightarrow> if m = [] then (- 1, md, ex)
     else case read_int p1 of (e, p2) \<Rightarrow> if e = [] then (- 1, to_hex_text m, ex) else (0, to_hex_text m, to_hex_text e))"

lemma parse_to_numbers:
  assumes "ints \<noteq> []" "length (der_spki ints) < 65536"
  obtains p where "stands p ints" and "parse_rsa_der (der_spki ints) md ex = numbers p md ex"
proof -
  define alg where "alg = tlv 6 rsa_oid @ [5, 0]"
  define body where "body = tlv 48 alg @ tlv 3 (0 # tlv 48 ints)"
  have key: "der_spki ints = tlv 48 body" by (simp add: der_spki_def body_def alg_def)
  have bodylen: "length body < 65536" using assms(2) tlv_longer [of body 48] unfolding key by linarith
  have l3: "length (tlv 48 ints) < 65535" using bodylen tlv_longer [of "0 # tlv 48 ints" 3] by (simp add: body_def)
  have ilen: "length ints < 65536" using l3 tlv_longer [of ints 48] by linarith
  have alen: "length alg = 13" "alg \<noteq> []" by (simp_all add: alg_def rsa_oid_def tlv_def der_len_def)
  have ne: "body \<noteq> []" by (simp add: body_def tlv_def)
  let ?p = "\<lparr>rp_key = der_spki ints, rp_pos = 0, rp_byte = 0\<rparr>"
  have "stands ?p (tlv 48 body @ [])" using assms(2) by (simp add: stands_def key)
  from read_seq_der [OF this ne bodylen] obtain p1 where
    p1: "read_seq_len ?p = (of_nat (length body), of_nat (length (der_len (length body)) - 1), p1)"
      "stands p1 (tlv 48 alg @ tlv 3 (0 # tlv 48 ints))"
    by (auto simp: body_def)
  obtain k p2 where p2: "read_seq_len p1 = (of_nat (length alg), k, p2)" "stands p2 (tlv 6 rsa_oid @ 5 # 0 # tlv 3 (0 # tlv 48 ints))"
    using read_seq_der [OF p1(2) alen(2)] alen(1) by (auto simp: alg_def)
  obtain p3 where p3: "read_oid p2 = (rsa_oid, p3)" "stands p3 (5 # 0 # tlv 3 (0 # tlv 48 ints) @ [])"
    using read_oid_der [OF p2(2)] by (auto simp: rsa_oid_def)
  obtain p4 where p4: "get_null p3 = (True, p4)" "stands p4 (tlv 3 (0 # tlv 48 ints) @ [])"
    using get_null_der [OF p3(2)] tlv_not_Nil by auto
  obtain p5 where p5: "read_bit_str p4 = (of_nat (Suc (length (tlv 48 ints))), p5)" "stands p5 (tlv 48 ints @ [])"
    using read_bit_str_der [OF p4(2)] tlv_not_Nil l3 by auto
  obtain k' p6 where p6: "read_seq_len p5 = (of_nat (length ints), k', p6)" "stands p6 ints"
    using read_seq_der [OF p5(2) assms(1) ilen] by auto
  note nz = len_not_0 [OF ne bodylen] len_not_0 [OF assms(1) ilen] len_not_0 [OF alen(2)]
  have z: "(of_nat (Suc (length (tlv 48 ints))) :: u32) \<noteq> 0"
    using len_not_0 [of "0 # tlv 48 ints"] l3 by (simp del: of_nat_Suc)
  have long: "\<not> length (der_spki ints) < 2" by (simp add: key tlv_def der_len_def)
  note fits = seq_length_matches [of body, folded key, unfolded One_nat_def]
  have "parse_rsa_der (der_spki ints) md ex = numbers p6 md ex"
    unfolding parse_rsa_der_def numbers_def
    by (simp add: long fits z p1(1) p2(1) p3(1) p4(1) p5(1) p6(1) nz alen(1) del: of_nat_Suc)
  with p6(2) show thesis by (rule that)
qed

lemma spki_longer: "length ints < length (der_spki ints)"
  by (simp add: der_spki_def tlv_def)

lemma parse_der_key:
  assumes "m \<noteq> []" "hd m \<noteq> 0" "e \<noteq> []" "hd e \<noteq> 0" "length (der_key m e) < 65536"
  shows "parse_rsa_der (der_key m e) md ex = (0, to_hex_text m, to_hex_text e)"
proof -
  obtain v where v: "der_int m = tlv 2 v" "v \<noteq> []" "(if hd v = 0 then tl v else v) = m" using der_int_bytes assms(1,2) by metis
  obtain w where w: "der_int e = tlv 2 w" "w \<noteq> []" "(if hd w = 0 then tl w else w) = e" using der_int_bytes assms(3,4) by metis
  have key: "der_key m e = der_spki (tlv 2 v @ tlv 2 w)" by (simp add: der_key_def v(1) w(1))
  have len: "length v < 65536" "length w < 65536"
    using assms(5) spki_longer [of "tlv 2 v @ tlv 2 w"] tlv_longer [of v 2] tlv_longer [of w 2] by (simp_all add: key)
  obtain p where p: "stands p (tlv 2 v @ tlv 2 w)" "parse_rsa_der (der_key m e) md ex = numbers p md ex"
    using parse_to_numbers [of "tlv 2 v @ tlv 2 w" md ex] assms(5) unfolding key by (auto simp: tlv_not_Nil)
  obtain p7 where p7: "read_int p = (m, p7)" "stands p7 (tlv 2 w @ [])"
    using read_int_der [OF p(1) v(2) len(1)] v(3) tlv_not_Nil by auto
  obtain p8 where "read_int p7 = (e, p8)" using read_int_der [OF p7(2) w(2) len(2)] w(3) by auto
  then show ?thesis using p(2) p7(1) assms(1,3) by (simp add: numbers_def)
qed

text \<open>A length of \<open>2 ^ 32 - 6\<close> moves the position back to the tag in front of it.\<close>

definition back_to_tag :: bytes where
  "back_to_tag = [2, 132, 255, 255, 255, 250]"

lemma get_next_key: "get_next k p = (ok, p') \<Longrightarrow> rp_key p' = rp_key p"
  by (auto simp: get_next_def Let_def split: if_splits)

lemma next_is_key: "next_is k p = (ok, p') \<Longrightarrow> rp_key p' = rp_key p"
  by (auto simp: next_is_def dest: get_next_key split: prod.splits)

lemma four_Sucs: "(4 :: nat) = Suc (Suc (Suc (Suc 0)))"
  by simp

lemma get_next_back:
  assumes "rp_key p = (pre @ back_to_tag) @ ys" "unat (rp_pos p) = length pre + 6" "ys \<noteq> []" "length (rp_key p) < 2 ^ 31"
  shows "\<exists>p'. get_next 4294967290 p = (True, p') \<and> stands p' (back_to_tag @ ys)"
proof -
  have pos: "rp_pos p = of_nat (length pre + 6)" using assms(2) by (metis of_nat_unat ucast_id)
  have lys: "length pre + 6 + length ys < 2 ^ 31" using assms(1,4) by (simp add: back_to_tag_def)
  have size': "key_size p = of_nat (length pre + 6 + length ys)" by (simp add: key_size_def assms(1) back_to_tag_def)
  have lt: "\<not> rp_pos p \<ge> key_size p"
    using lys assms(3) unfolding pos size' by (simp add: word_le_nat_alt unat_small del: of_nat_add)
  have sub: "key_size p - 4294967290 = of_nat (length pre + 12 + length ys)" unfolding size' by simp
  have ne: "rp_pos p \<noteq> key_size p - 4294967290"
    using lys unfolding sub pos word_unat_eq_iff by (simp add: unat_of_nat take_bit_nat_eq_self del: of_nat_add)
  have went: "rp_pos p + 4294967290 = of_nat (length pre)" by (simp add: pos)
  have fits: "\<not> of_nat (length pre) \<ge> key_size p"
    using lys unfolding size' by (simp add: word_le_nat_alt unat_small del: of_nat_add)
  have "stands (p\<lparr>rp_byte := b, rp_pos := of_nat (length pre)\<rparr>) (back_to_tag @ ys)" for b
    using assms(1,4) lys unfolding stands_def by (intro conjI exI [of _ pre]) (simp_all add: unat_small)
  then show ?thesis using lt ne fits unfolding get_next_def Let_def went by auto
qed

lemma read_int_wraps:
  assumes "stands p (back_to_tag @ ys)" "ys \<noteq> []"
  shows "\<exists>p'. read_int p = ((if hd ys = 0 then tl ys else ys), p') \<and> stands p' (back_to_tag @ ys)"
proof -
  obtain p1 where p1: "next_is 2 p = (True, p1)" "stands p1 (132 # 255 # 255 # 255 # 250 # ys)"
    using next_is_tag [of p 2] assms by (auto simp: back_to_tag_def)
  obtain p2 where p2: "get_next 1 p1 = (True, p2)" "rp_byte p2 = 132" "stands p2 (255 # 255 # 255 # 250 # ys)" using get_next_one [OF p1(2)] by auto
  obtain p3 where p3: "get_next 1 p2 = (True, p3)" "rp_byte p3 = 255" "stands p3 (255 # 255 # 250 # ys)" using get_next_one [OF p2(3)] by auto
  obtain p4 where p4: "get_next 1 p3 = (True, p4)" "rp_byte p4 = 255" "stands p4 (255 # 250 # ys)" using get_next_one [OF p3(3)] by auto
  obtain p5 where p5: "get_next 1 p4 = (True, p5)" "rp_byte p5 = 255" "stands p5 (250 # ys)" using get_next_one [OF p4(3)] by auto
  obtain p6 where p6: "get_next 1 p5 = (True, p6)" "rp_byte p6 = 250" "stands p6 ys" using get_next_one [OF p5(3) assms(2)] by auto
  have "read_len_loop (Suc (Suc (Suc (Suc 0)))) 0 0 p2 = (4294967290, 4, p6)"
    by (simp add: p3(1,2) p4(1,2) p5(1,2) p6(1,2) push_bit_eq_mult)
  then have loop: "read_len_loop 4 0 0 p2 = (4294967290, 4, p6)" by (simp only: four_Sucs)
  have len: "read_len p1 = (4294967290, 4, p6)" by (simp add: read_len_def p2(1,2) loop)
  obtain pre where pre: "rp_key p = pre @ back_to_tag @ ys" "length (rp_key p) < 2 ^ 31" using assms(1) by (auto simp: stands_def)
  have "rp_key p6 = rp_key p"
    using next_is_key [OF p1(1)] get_next_key [OF p2(1)] get_next_key [OF p3(1)] get_next_key [OF p4(1)]
      get_next_key [OF p5(1)] get_next_key [OF p6(1)] by simp
  then have p6': "rp_key p6 = (pre @ back_to_tag) @ ys" "unat (rp_pos p6) = length pre + 6"
    using p6(3) pre(1) by (auto simp: stands_def back_to_tag_def)
  obtain p7 where "get_next 4294967290 p6 = (True, p7)" "stands p7 (back_to_tag @ ys)"
    using get_next_back [OF p6' assms(2)] pre(2) pre(1) p6'(1) by auto
  moreover have "key_substr 4294967290 p6 = ys"
    using pre by (simp add: key_substr_def p6' back_to_tag_def)
  ultimately show ?thesis using p1(1) len assms(2) by (cases ys) (auto simp: read_int_def)
qed

lemma not_newline: "n < 64 \<Longrightarrow> base64_char n \<noteq> 10"
  using sextet(2) [of n] by (auto simp: is_base64_char_def isalnum_def)

lemma base64_text_line: "10 \<notin> set (base64_encode bs)"
  by (induction bs rule: base64_encode.induct) (simp_all add: not_newline [symmetric] not_newline byte_sextets)

lemma strip_parts:
  "strip_newline (xs @ ys) = strip_newline xs @ strip_newline ys" "strip_newline (10 # xs) = strip_newline xs"
  "strip_newline (base64_encode bs) = base64_encode bs" "strip_newline pem_header = pem_header" "strip_newline pem_trailer = pem_trailer"
  using base64_text_line [of bs]
  by (auto simp: strip_newline_def filter_id_conv pem_header_def pem_trailer_def ascii_def)

lemma strip_of_pem: "b \<noteq> [] \<Longrightarrow> strip_header_trailer (pem_header @ b @ pem_trailer) = Inr b"
  by (simp add: strip_header_trailer_def Let_def)

text \<open>
  C30. The PEM text of an RSA public key, broken into lines in any way, parses: the outputs are the hex
  texts of the modulus and of the exponent, without the zero byte that keeps a DER number positive.
\<close>
theorem pem_key_parses:
  assumes "m \<noteq> []" "hd m \<noteq> 0" "e \<noteq> []" "hd e \<noteq> 0" "length (der_key m e) < 65536"
    and "strip_newline text' = pem_header @ base64_encode (der_key m e) @ pem_trailer"
  shows "parse_rsa_pubkey text' md ex = Inr (0, to_hex_text m, to_hex_text e) \<and> is_supported_rsa_pubkey text' = Inr True
    \<and> verify_rsa_sha256_sig h msg sig text' = Inr (base64_decode (strip_newline sig) \<noteq> []
      \<and> h msg (to_hex_text (base64_decode (strip_newline sig))) (to_hex_text e) (to_hex_text m))"
proof -
  have ne: "base64_encode (der_key m e) \<noteq> []"
    using base64_decode_encode [of "der_key m e"] by (auto simp: der_key_def der_spki_def tlv_def base64_decode_def)
  have "parse_rsa_pubkey text' md ex = Inr (0, to_hex_text m, to_hex_text e)" for md ex
    using assms(6) strip_of_pem [OF ne] parse_der_key [OF assms(1-5)] base64_decode_encode [of "der_key m e"] ne
    by (simp add: parse_rsa_pubkey_def Let_def)
  then show ?thesis by (simp add: is_supported_rsa_pubkey_def verify_rsa_sha256_sig_def base64_to_hex_def Let_def to_hex_text_not_Nil)
qed

lemma small_key: "length (der_key [193, 5] [1, 0, 1]) < 65536"
  by (simp add: der_key_def der_int_def der_spki_def length_tlv rsa_oid_def)

theorem pem_key_parses_witness:
  "parse_rsa_pubkey (pem_header @ 10 # base64_encode (der_key [193, 5] [1, 0, 1]) @ 10 # pem_trailer) [] []
     = Inr (0, to_hex_text [193, 5], to_hex_text [1, 0, 1])"
  by (rule pem_key_parses [OF _ _ _ _ small_key, THEN conjunct1]) (simp_all only: strip_parts, simp_all)

text \<open>A text whose trailer begins inside the header erases characters in front of the string.\<close>

lemma overlapping_pem_traps:
  "parse_rsa_pubkey (ascii ''-----BEGIN PUBLIC KEY-----END PUBLIC KEY-----'') md ex = Inl (Trap ''iterator before the start of a string'')"
  by (simp add: parse_rsa_pubkey_def strip_newline_def strip_header_trailer_def pem_header_def pem_trailer_def ascii_def)

text \<open>
  C31. A key whose modulus claims a length of \<open>2 ^ 32 - 6\<close> bytes is accepted: its numbers are the rest
  of the text, read twice, as modulus and as exponent.
\<close>
theorem malformed_keys:
  assumes "ys \<noteq> []" "ys \<noteq> [0]" "length (der_spki (back_to_tag @ ys)) < 65536"
    and "strip_newline text' = pem_header @ base64_encode (der_spki (back_to_tag @ ys)) @ pem_trailer"
  shows "let n = to_hex_text (if hd ys = 0 then tl ys else ys) in parse_rsa_pubkey text' md ex = Inr (0, n, n)"
proof -
  obtain p where p: "stands p (back_to_tag @ ys)" "parse_rsa_der (der_spki (back_to_tag @ ys)) md ex = numbers p md ex"
    using parse_to_numbers [of "back_to_tag @ ys" md ex] assms(1,3) by auto
  obtain p1 where p1: "read_int p = ((if hd ys = 0 then tl ys else ys), p1)" "stands p1 (back_to_tag @ ys)"
    using read_int_wraps [OF p(1) assms(1)] by auto
  obtain p2 where "read_int p1 = ((if hd ys = 0 then tl ys else ys), p2)" using read_int_wraps [OF p1(2) assms(1)] by auto
  moreover have "(if hd ys = 0 then tl ys else ys) \<noteq> []" using assms(1,2) by (cases ys) auto
  ultimately have "parse_rsa_der (der_spki (back_to_tag @ ys)) md ex
      = (0, to_hex_text (if hd ys = 0 then tl ys else ys), to_hex_text (if hd ys = 0 then tl ys else ys))"
    unfolding p(2) numbers_def p1(1) by simp
  moreover have ne: "base64_encode (der_spki (back_to_tag @ ys)) \<noteq> []"
    using base64_decode_encode [of "der_spki (back_to_tag @ ys)"] by (auto simp: der_spki_def tlv_def base64_decode_def)
  ultimately show ?thesis
    using assms(4) strip_of_pem [OF ne] base64_decode_encode ne by (simp add: parse_rsa_pubkey_def Let_def pem_header_def ascii_def)
qed

theorem malformed_keys_witness:
  "parse_rsa_pubkey (pem_header @ base64_encode (der_spki (back_to_tag @ [193, 5])) @ pem_trailer) [] []
     = Inr (0, to_hex_text [193, 5], to_hex_text [193, 5])"
proof -
  have "length (der_spki (back_to_tag @ [193, 5])) < 65536"
    by (simp add: der_spki_def length_tlv rsa_oid_def back_to_tag_def)
  then show ?thesis
    using malformed_keys [of "[193, 5]" "pem_header @ base64_encode (der_spki (back_to_tag @ [193, 5])) @ pem_trailer" "[]" "[]"]
    by (simp add: strip_parts Let_def del: base64_encode.simps append.simps)
qed

end
