(* ===== verification/Names.thy ===== *)
theory Names
  imports Prelude "HOL-Library.Char_ord"
begin

text \<open>
  Account and table names as the plugins of the compiler read and print them (\<open>plugins/eosio/utils.hpp\<close>): up to
  twelve characters of five bits each, and a thirteenth of four bits. The names of the ABI
  (\<open>abigen.hpp\<close>) are checked with \<open>validate_name\<close> and come from \<open>name_to_string\<close>.
\<close>

section \<open>The code\<close>

definition code_of :: "char \<Rightarrow> nat" where
  "code_of c = of_char c"

definition char_to_symbol :: "char \<Rightarrow> u64" where
  "char_to_symbol c = (let v = code_of c in
     if 97 \<le> v \<and> v \<le> 122 then of_nat (v - 97) + 6
     else if 49 \<le> v \<and> v \<le> 53 then of_nat (v - 49) + 1
     else 0)"

text \<open>A C string ends before its first null character; reading \<open>str[i]\<close> at its end gives that character.\<close>

definition nul :: char where
  "nul = CHR 0x00"

definition c_string :: "string \<Rightarrow> string" where
  "c_string s = takeWhile (\<lambda>c. c \<noteq> nul) s"

definition char_at :: "string \<Rightarrow> nat \<Rightarrow> char" where
  "char_at s i = (if i < length s then s ! i else nul)"

fun name_bits_loop :: "nat \<Rightarrow> string \<Rightarrow> u64 \<Rightarrow> nat \<times> u64" where
  "name_bits_loop i [] name = (i, name)"
| "name_bits_loop i (c # cs) name =
     (if i < 12 then name_bits_loop (i + 1) cs (name OR push_bit (64 - 5 * (i + 1)) (char_to_symbol c AND 31)) else (i, name))"

definition string_to_name :: "string \<Rightarrow> u64" where
  "string_to_name str = (let s = c_string str in
     case name_bits_loop 0 s 0 of (i, name) \<Rightarrow>
       if i = 12 then name OR (char_to_symbol (char_at s 12) AND 15) else name)"

definition charmap :: string where
  "charmap = ''.12345abcdefghijklmnopqrstuvwxyz''"

text \<open>The loop that both functions have: thirteen characters from the last to the first.\<close>

function name_chars :: "nat \<Rightarrow> u64 \<Rightarrow> string \<Rightarrow> string" where
  "name_chars i tmp str = (if i \<le> 12 then
     name_chars (i + 1) (drop_bit (if i = 0 then 4 else 5) tmp) (str[12 - i := charmap ! unat (tmp AND (if i = 0 then 15 else 31))])
   else str)"
  by auto
termination by (relation "measure (\<lambda>(i, _, _). 13 - i)") auto

declare name_chars.simps [simp del]

text \<open>\<open>validate_name\<close> cuts off all dots at the end; \<open>None\<close> is that no error was reported.\<close>

fun drop_dots :: "string \<Rightarrow> string" where
  "drop_dots [] = []"
| "drop_dots (c # cs) = (if c = CHR ''.'' then drop_dots cs else c # cs)"

definition trim_dots :: "string \<Rightarrow> string" where
  "trim_dots s = rev (drop_dots (rev s))"

definition validate_name :: "string \<Rightarrow> string option" where
  "validate_name str = (if length str > 13 then Some (''Name {'' @ str @ ''} is more than 13 characters long'')
     else if trim_dots (name_chars 0 (string_to_name str) (replicate 13 (CHR ''.''))) \<noteq> str
     then Some ''name not properly normalized'' else None)"

text \<open>\<open>find_last_not_of\<close> finds nothing in a text of dots, which is then not cut off.\<close>

definition trim_right_dots :: "string \<Rightarrow> string" where
  "trim_right_dots s = (if \<exists>c \<in> set s. c \<noteq> CHR ''.'' then trim_dots s else s)"

definition name_to_string :: "u64 \<Rightarrow> string" where
  "name_to_string nm = trim_right_dots (name_chars 0 nm (replicate 13 (CHR ''.'')))"

definition starts_with :: "string \<Rightarrow> string \<Rightarrow> bool" where
  "starts_with str pre = (take (length pre) (c_string str) = pre)"

end
