(* ===== verification/NamesProps.thy ===== *)
theory NamesProps
  imports Names
begin

text \<open>
  Names and numbers: \<open>string_to_name\<close> undoes \<open>name_to_string\<close>, and \<open>validate_name\<close> accepts exactly the
  canonical texts.
\<close>

unbundle bit_operations_syntax

section \<open>Symbols\<close>

lemma length_charmap: "length charmap = 32"
  by (simp add: charmap_def)

lemma symbol_table: "map char_to_symbol charmap = map of_nat [0..<32]"
  by code_simp

lemma symbol_of_charmap:
  assumes "k < 32"
  shows "char_to_symbol (charmap ! k) = of_nat k"
  using arg_cong [OF symbol_table, of "\<lambda>xs. xs ! k"] assms by (simp add: length_charmap)

lemma symbol_and:
  "char_to_symbol (charmap ! unat (x AND 31 :: u64)) AND 31 = x AND 31"
  "char_to_symbol (charmap ! unat (x AND 15 :: u64)) AND 15 = x AND 15"
proof -
  have "x AND 31 < 32" "x AND 15 < 32"
    using word_and_le1 [of x 31] word_and_le1 [of x 15] by (auto simp: word_le_nat_alt word_less_nat_alt elim: le_less_trans)
  then have "unat (x AND 31) < 32" "unat (x AND 15) < 32" by (simp_all add: word_less_nat_alt)
  then show "char_to_symbol (charmap ! unat (x AND 31 :: u64)) AND 31 = x AND 31"
    "char_to_symbol (charmap ! unat (x AND 15 :: u64)) AND 15 = x AND 15"
    by (simp_all add: symbol_of_charmap and.assoc)
qed

definition symbol_at :: "u64 \<Rightarrow> nat \<Rightarrow> u64" where
  "symbol_at w i = (if i < 12 then drop_bit (59 - 5 * i) w AND 31 else w AND 15)"

lemma thirteen: "[0..<13] = [0, 1, 2, 3, 4, 5, 6, 7, 8, 9, 10, 11, 12 :: nat]"
  by (simp add: upt_rec)

lemma replicate13: "replicate 13 x = [x, x, x, x, x, x, x, x, x, x, x, x, x]"
  by (simp add: numeral_eq_Suc)

lemma name_chars_symbols: "name_chars 0 w (replicate 13 (CHR ''.'')) = map (\<lambda>i. charmap ! unat (symbol_at w i)) [0..<13]"
  unfolding thirteen replicate13
  by (simp add: name_chars.simps symbol_at_def)

section \<open>Placing symbols\<close>

definition place :: "nat \<Rightarrow> u64 \<Rightarrow> u64" where
  "place i x = (if i < 12 then push_bit (59 - 5 * i) (x AND 31) else x AND 15)"

fun spread :: "nat \<Rightarrow> string \<Rightarrow> u64" where
  "spread i [] = 0"
| "spread i (c # cs) = place i (char_to_symbol c) OR spread (i + 1) cs"

lemma loop_spreads:
  "i + length cs \<le> 13 \<Longrightarrow> i \<le> 12 \<Longrightarrow> (case name_bits_loop i cs n of (j, m) \<Rightarrow>
     if j = 12 then m OR (char_to_symbol (char_at cs (12 - i)) AND 15) else m) = n OR spread i cs"
proof (induction cs arbitrary: i n)
  case Nil
  have "char_to_symbol nul = 0" by code_simp
  then show ?case by (simp add: char_at_def)
next
  case (Cons c cs)
  show ?case
  proof (cases "i < 12")
    case True
    have e: "12 - i = Suc (12 - (i + 1))" using True by simp
    have ch: "char_at (c # cs) (12 - i) = char_at cs (12 - (i + 1))" unfolding e by (simp add: char_at_def)
    show ?thesis unfolding ch using True Cons.IH [of "i + 1" "n OR place i (char_to_symbol c)"] Cons.prems
      by (simp add: place_def or.assoc)
  next
    case False
    then show ?thesis using Cons.prems by (simp add: place_def char_at_def)
  qed
qed

lemma c_string_id: "nul \<notin> set s \<Longrightarrow> c_string s = s"
  unfolding c_string_def by (intro takeWhile_eq_all_conv [THEN iffD2]) auto

lemma string_to_name_spread: "nul \<notin> set s \<Longrightarrow> length s \<le> 13 \<Longrightarrow> string_to_name s = spread 0 s"
  using loop_spreads [of 0 s 0] unfolding diff_zero by (simp add: string_to_name_def c_string_id)

lemma dot_symbol: "char_to_symbol (CHR ''.'') = 0"
  by code_simp

lemma spread_dots: "spread i (s @ replicate k (CHR ''.'')) = spread i s"
proof (induction s arbitrary: i)
  case Nil
  show ?case by (induction k arbitrary: i) (simp_all add: place_def dot_symbol)
qed simp

section \<open>Trimming\<close>

lemma drop_dots_split: "\<exists>k. s = replicate k (CHR ''.'') @ drop_dots s"
proof (induction s)
  case (Cons c s)
  then obtain k where "s = replicate k (CHR ''.'') @ drop_dots s" by blast
  then have "c = CHR ''.'' \<Longrightarrow> c # s = replicate (Suc k) (CHR ''.'') @ drop_dots (c # s)" by simp
  then show ?case by (cases "c = CHR ''.''") (blast, simp add: exI [of _ 0])
qed simp

lemma trim_dots_split: "\<exists>k. s = trim_dots s @ replicate k (CHR ''.'')"
  using drop_dots_split [of "rev s"] unfolding trim_dots_def
  by (metis rev_append rev_replicate rev_rev_ident)

lemma trim_right_dots_split: "\<exists>k. s = trim_right_dots s @ replicate k (CHR ''.'')"
  using trim_dots_split [of s] by (auto simp: trim_right_dots_def intro: exI [of _ 0])

lemma trim_dots_keeps: "s = [] \<or> last s \<noteq> CHR ''.'' \<Longrightarrow> trim_dots (s @ replicate k (CHR ''.'')) = s"
proof -
  assume "s = [] \<or> last s \<noteq> CHR ''.''"
  moreover have "drop_dots (replicate k (CHR ''.'') @ xs) = drop_dots xs" for xs by (induction k) simp_all
  moreover have "drop_dots (replicate k (CHR ''.'')) = []" by (induction k) simp_all
  ultimately show ?thesis by (cases s rule: rev_cases) (simp_all add: trim_dots_def)
qed

section \<open>From numbers to texts and back\<close>

lemma place_symbol:
  "place i (char_to_symbol (charmap ! unat (symbol_at w i))) = place i (symbol_at w i)"
  by (simp add: place_def symbol_at_def symbol_and and.assoc)

lemma place_symbol_at:
  "i < 12 \<Longrightarrow> place i (symbol_at w i) = w AND push_bit (59 - 5 * i) 31"
  "place 12 (symbol_at w 12) = w AND 15"
  by (auto simp: place_def symbol_at_def and.assoc bit_eq_iff bit_simps)

lemma spread13:
  "spread 0 [c0, c1, c2, c3, c4, c5, c6, c7, c8, c9, c10, c11, c12] = place 0 (char_to_symbol c0) OR place 1 (char_to_symbol c1)
     OR place 2 (char_to_symbol c2) OR place 3 (char_to_symbol c3) OR place 4 (char_to_symbol c4) OR place 5 (char_to_symbol c5)
     OR place 6 (char_to_symbol c6) OR place 7 (char_to_symbol c7) OR place 8 (char_to_symbol c8) OR place 9 (char_to_symbol c9)
     OR place 10 (char_to_symbol c10) OR place 11 (char_to_symbol c11) OR place 12 (char_to_symbol c12)"
  by (simp add: numeral_eq_Suc or.assoc)

lemma spread_chars: "spread 0 (map (\<lambda>i. charmap ! unat (symbol_at w i)) [0..<13]) = w"
proof -
  have "spread 0 (map (\<lambda>i. charmap ! unat (symbol_at w i)) [0..<13])
    = w AND (18446744073709551615 :: u64)"
    unfolding thirteen list.map spread13 place_symbol
    by (simp add: place_symbol_at flip: bit.conj_disj_distrib)
  also have "(18446744073709551615 :: u64) = - 1" by simp
  finally show ?thesis by simp
qed

lemma chars_no_nul: "nul \<notin> set (map (\<lambda>i. charmap ! unat (symbol_at w i)) [0..<13])"
proof -
  have "unat (symbol_at w i) < length charmap" for i
    using word_and_le1 [of "drop_bit (59 - 5 * i) w" 31] word_and_le1 [of w 15]
    by (auto simp: symbol_at_def length_charmap word_le_nat_alt)
  moreover have "nul \<notin> set charmap" by code_simp
  ultimately show ?thesis by (metis (no_types, lifting) imageE nth_mem set_map)
qed

section \<open>From texts to numbers and back\<close>

text \<open>What a name looks like.\<close>

definition canonical_name :: "string \<Rightarrow> bool" where
  "canonical_name s \<longleftrightarrow> length s \<le> 13 \<and> set s \<subseteq> set charmap \<and> (s \<noteq> [] \<longrightarrow> last s \<noteq> CHR ''.'')
     \<and> (length s = 13 \<longrightarrow> last s \<in> set (take 16 charmap))"

lemma charmap_of_symbol: "list_all (\<lambda>c. charmap ! unat (char_to_symbol c) = c \<and> char_to_symbol c < 32) charmap"
  "list_all (\<lambda>c. char_to_symbol c < 16) (take 16 charmap)"
  by code_simp+

lemma masks: "(31 :: u64) = mask 5" "(15 :: u64) = mask 4"
  by (simp_all add: mask_eq_decr_exp)

lemma bit_place:
  "j < 12 \<Longrightarrow> bit (place j x) n \<longleftrightarrow> 59 - 5 * j \<le> n \<and> n < 64 - 5 * j \<and> bit x (n - (59 - 5 * j))"
  "\<not> j < 12 \<Longrightarrow> bit (place j x) n \<longleftrightarrow> n < 4 \<and> bit x n"
  by (auto simp: place_def masks bit_simps)

lemma bit_spread: "bit (spread i cs) n \<longleftrightarrow> (\<exists>j < length cs. bit (place (i + j) (char_to_symbol (cs ! j))) n)"
proof (induction cs arbitrary: i)
  case (Cons c cs)
  show ?case
    by (simp add: bit_or_iff Cons.IH Ex_less_Suc2)
qed simp

lemma symbol_spread:
  assumes "length p = 13" "i < 13"
  shows "symbol_at (spread 0 p) i = (if i < 12 then char_to_symbol (p ! i) AND 31 else char_to_symbol (p ! 12) AND 15)"
proof (cases "i < 12")
  case True
  have "bit (spread 0 p) (59 - 5 * i + m) \<longleftrightarrow> bit (char_to_symbol (p ! i)) m" if "m < 5" for m
  proof -
    have "bit (place j x) (59 - 5 * i + m) \<longleftrightarrow> j = i \<and> bit x m" if "j < 13" for j x
    proof (cases "j < 12")
      case j: True
      have "59 - 5 * j \<le> 59 - 5 * i + m \<and> 59 - 5 * i + m < 64 - 5 * j \<longleftrightarrow> j = i" using True \<open>m < 5\<close> j by arith
      then show ?thesis using j by (auto simp: bit_place)
    qed (use True \<open>m < 5\<close> that in \<open>auto simp: bit_place\<close>)
    then show ?thesis using assms(1) True by (auto simp: bit_spread intro!: exI [of _ i])
  qed
  then show ?thesis using True by (auto simp: symbol_at_def masks bit_eq_iff bit_simps)
next
  case False
  then have i: "i = 12" using assms(2) by simp
  have "bit (spread 0 p) m \<longleftrightarrow> bit (char_to_symbol (p ! 12)) m" if "m < 4" for m
  proof -
    have "bit (place j x) m \<longleftrightarrow> j = 12 \<and> bit x m" if "j < 13" for j x
      using \<open>m < 4\<close> that by (cases "j < 12") (auto simp: bit_place)
    then show ?thesis using assms(1) by (auto simp: bit_spread intro!: exI [of _ 12])
  qed
  then show ?thesis by (auto simp: i symbol_at_def masks bit_eq_iff bit_simps)
qed

lemma small_and: "x < 32 \<Longrightarrow> x AND 31 = x" "x < 16 \<Longrightarrow> x AND 15 = x" for x :: u64
  by (simp_all add: masks word_unat_eq_iff word_less_nat_alt unsigned_take_bit_eq take_bit_nat_eq_self flip: take_bit_eq_mask)

lemma canonical_chars:
  assumes "canonical_name s"
  defines "p \<equiv> s @ replicate (13 - length s) (CHR ''.'')"
  shows "map (\<lambda>i. charmap ! unat (symbol_at (string_to_name s) i)) [0..<13] = p"
proof (rule nth_equalityI)
  have len: "length p = 13" using assms(1) by (simp add: p_def canonical_name_def)
  then show "length (map (\<lambda>i. charmap ! unat (symbol_at (string_to_name s) i)) [0..<13]) = length p" by simp
  have "CHR ''.'' \<in> set charmap" by (simp add: charmap_def)
  then have sub: "set p \<subseteq> set charmap" using assms(1) by (auto simp: p_def canonical_name_def)
  have "nul \<notin> set charmap" by code_simp
  then have "nul \<notin> set s" using assms(1) by (auto simp: canonical_name_def)
  then have sp: "string_to_name s = spread 0 p"
    using assms(1) by (simp add: string_to_name_spread spread_dots p_def canonical_name_def)
  have last: "p ! 12 \<in> set (take 16 charmap)"
  proof (cases "length s = 13")
    case True
    moreover from this have "s \<noteq> []" by auto
    ultimately have "p ! 12 = last s" by (simp add: p_def nth_append last_conv_nth)
    then show ?thesis using assms(1) True by (auto simp: canonical_name_def)
  next
    case False
    then have "length s < 13" using assms(1) by (simp add: canonical_name_def)
    then have "p ! 12 = CHR ''.''" by (simp add: p_def nth_append)
    then show ?thesis by (simp add: charmap_def)
  qed
  fix i assume "i < length (map (\<lambda>i. charmap ! unat (symbol_at (string_to_name s) i)) [0..<13])"
  then have i: "i < 13" by simp
  have c: "charmap ! unat (char_to_symbol (p ! i)) = p ! i" "char_to_symbol (p ! i) < 32"
    using charmap_of_symbol(1) sub i len by (auto simp: list_all_iff subset_iff)
  have "char_to_symbol (p ! 12) < 16" using charmap_of_symbol(2) last by (auto simp: list_all_iff)
  then have "symbol_at (string_to_name s) i = char_to_symbol (p ! i)"
    using c(2) i unfolding sp symbol_spread [OF len i]
    using \<open>char_to_symbol (p ! 12) < 16\<close> by (cases "i = 12") (simp_all add: small_and)
  then show "map (\<lambda>i. charmap ! unat (symbol_at (string_to_name s) i)) [0..<13] ! i = p ! i" using i c(1) by simp
qed

section \<open>The properties\<close>

lemma drop_dots_hd: "drop_dots s \<noteq> [] \<Longrightarrow> hd (drop_dots s) \<noteq> CHR ''.''"
  by (induction s) auto

lemma trim_dots_last: "trim_dots s \<noteq> [] \<Longrightarrow> last (trim_dots s) \<noteq> CHR ''.''"
  using drop_dots_hd [of "rev s"] by (simp add: trim_dots_def last_rev)

abbreviation chars13 :: "u64 \<Rightarrow> string" where
  "chars13 w \<equiv> map (\<lambda>i. charmap ! unat (symbol_at w i)) [0..<13]"

lemma symbol_bounds: "unat (symbol_at w i) < 32" "unat (symbol_at w 12) < 16"
  using word_and_le1 [of "drop_bit (59 - 5 * i) w" 31] word_and_le1 [of w 15]
  by (auto simp: symbol_at_def word_le_nat_alt)

lemma chars_canonical: "canonical_name (trim_dots (chars13 w))"
proof -
  obtain k where k: "chars13 w = trim_dots (chars13 w) @ replicate k (CHR ''.'')" using trim_dots_split by blast
  have sub: "set (trim_dots (chars13 w)) \<subseteq> set charmap"
  proof -
    have "set (trim_dots (chars13 w)) \<subseteq> set (chars13 w)" by (subst (2) k) simp
    also have "\<dots> \<subseteq> set charmap" using symbol_bounds(1) [of w] by (auto simp: length_charmap)
    finally show ?thesis .
  qed
  have len: "length (trim_dots (chars13 w)) + k = 13" using arg_cong [OF k, of length] by simp
  have "last (trim_dots (chars13 w)) \<in> set (take 16 charmap)" if "length (trim_dots (chars13 w)) = 13"
  proof -
    have "trim_dots (chars13 w) = chars13 w" using k len that by simp
    then have "last (trim_dots (chars13 w)) = take 16 charmap ! unat (symbol_at w 12)"
      using symbol_bounds(2) [of w] by (simp add: last_map)
    moreover have "take 16 charmap ! unat (symbol_at w 12) \<in> set (take 16 charmap)"
      by (rule nth_mem) (use symbol_bounds(2) [of w] in \<open>simp add: length_charmap\<close>)
    ultimately show ?thesis by (simp only:)
  qed
  then show ?thesis using sub len trim_dots_last by (simp add: canonical_name_def)
qed

lemma read_chars:
  assumes "chars13 w = s @ replicate k (CHR ''.'')"
  shows "string_to_name s = w"
proof -
  have "set s \<subseteq> set (chars13 w)" unfolding assms by simp
  moreover have "length (chars13 w) = 13" by simp
  then have "length s \<le> 13" unfolding assms by simp
  ultimately have "string_to_name s = spread 0 s" using chars_no_nul [of w] by (intro string_to_name_spread) auto
  also have "\<dots> = spread 0 (chars13 w)" unfolding assms by (simp add: spread_dots)
  finally show ?thesis by (simp only: spread_chars)
qed

text \<open>
  C34. Printing a number as a name and reading the text gives the number back, for every number. The
  text is a canonical name, except that zero prints as thirteen dots instead of the empty name.
\<close>
theorem name_round_trip:
  "string_to_name (name_to_string w) = w
    \<and> (if w = 0 then name_to_string w = replicate 13 (CHR ''.'') else canonical_name (name_to_string w))"
proof -
  obtain k where "chars13 w = trim_right_dots (chars13 w) @ replicate k (CHR ''.'')" using trim_right_dots_split by blast
  then have rt: "string_to_name (name_to_string w) = w"
    by (simp only: name_to_string_def name_chars_symbols read_chars)
  have "canonical_name (name_to_string w)" if "w \<noteq> 0"
  proof -
    have "\<exists>c \<in> set (chars13 w). c \<noteq> CHR ''.''"
    proof (rule ccontr)
      assume "\<not> (\<exists>c \<in> set (chars13 w). c \<noteq> CHR ''.'')"
      then have "chars13 w = replicate 13 (CHR ''.'')" by (intro replicate_eqI) auto
      then have "spread 0 (chars13 w) = 0" using spread_dots [of 0 "[]" 13] by simp
      with that show False by (simp only: spread_chars)
    qed
    then show ?thesis using chars_canonical by (simp only: name_to_string_def name_chars_symbols trim_right_dots_def if_True)
  qed
  moreover have "name_to_string 0 = replicate 13 (CHR ''.'')" by code_simp
  ultimately show ?thesis using rt by simp
qed

text \<open>
  C35. \<open>validate_name\<close> accepts exactly the canonical names: at most thirteen characters of the alphabet, the last
  no dot, and the thirteenth one of the first sixteen. An accepted name that is not empty is what its number prints as.
\<close>
theorem validate_name_iff:
  "(validate_name s = None \<longleftrightarrow> canonical_name s) \<and> (canonical_name s \<and> s \<noteq> [] \<longrightarrow> name_to_string (string_to_name s) = s)"
proof -
  have trim: "trim_dots (chars13 (string_to_name s)) = s" if "canonical_name s"
    unfolding canonical_chars [OF that] using that by (intro trim_dots_keeps) (auto simp: canonical_name_def)
  then have "validate_name s = None" if "canonical_name s"
    using that by (simp add: validate_name_def name_chars_symbols canonical_name_def)
  moreover have "canonical_name s" if "validate_name s = None"
    using that chars_canonical [of "string_to_name s"] by (auto simp: validate_name_def name_chars_symbols split: if_splits)
  moreover have "name_to_string (string_to_name s) = s" if s: "canonical_name s" "s \<noteq> []"
  proof -
    have "last s \<in> set (chars13 (string_to_name s))" "last s \<noteq> CHR ''.''"
      unfolding canonical_chars [OF s(1)] using s by (auto simp: canonical_name_def)
    then show ?thesis using trim [OF s(1)] by (auto simp: name_to_string_def name_chars_symbols trim_right_dots_def)
  qed
  ultimately show ?thesis by blast
qed

theorem validate_name_iff_witness:
  "name_to_string (string_to_name ''eosio.token'') = ''eosio.token'' \<and> validate_name ''eosio.'' \<noteq> None"
  using validate_name_iff [of "''eosio.token''"] validate_name_iff [of "''eosio.''"]
  by (simp add: canonical_name_def charmap_def)

end
