(* ===== verification/Ricardian.thy ===== *)
theory Ricardian
  imports Names
begin

text \<open>
  \<open>simple_ricardian_tokenizer\<close> of \<open>plugins/eosio/gen.hpp\<close>, which reads the contracts and clauses of an ABI from
  markdown files with headings of the form \<open><h1 class="clause"> id </h1>\<close>. Reading a \<open>std::string\<close> at its
  length gives the null character; behind it, reading is undefined. Texts are shorter than \<open>2 ^ 31\<close>.
\<close>

section \<open>The code\<close>

definition read_char :: "string \<Rightarrow> nat \<Rightarrow> char result" where
  "read_char s i = (if i < length s then Inr (s ! i) else if i = length s then Inr nul
     else Inl (Trap ''read behind the end of a string''))"

definition is_ws :: "char \<Rightarrow> bool" where
  "is_ws c \<longleftrightarrow> c = CHR '' '' \<or> c = CHR 0x0A \<or> c = CHR 0x0D \<or> c = CHR 0x09"

function skip_ws :: "string \<Rightarrow> nat \<Rightarrow> nat" where
  "skip_ws s i = (if i < length s \<and> is_ws (s ! i) then skip_ws s (i + 1) else i)"
  by auto
termination by (relation "measure (\<lambda>(s, i). length s - i)") auto

declare skip_ws.simps [simp del]

text \<open>\<open>eat_ws\<close> returns the distance from the member \<open>index\<close>, whatever \<open>i\<close> it started from.\<close>

definition eat_ws :: "string \<Rightarrow> nat \<Rightarrow> nat \<Rightarrow> nat result" where
  "eat_ws source index i = res_bind (read_char source i) (\<lambda>c.
     if \<not> is_ws c then Inr 0 else Inr (skip_ws source i - index))"

fun check_loop :: "string \<Rightarrow> nat \<Rightarrow> string \<Rightarrow> nat \<Rightarrow> nat option result" where
  "check_loop source index [] i = Inr (Some i)"
| "check_loop source index (c # cs) i = res_bind (eat_ws source index i) (\<lambda>k.
     res_bind (read_char source (i + k)) (\<lambda>d. if c \<noteq> d then Inr None else check_loop source index cs (i + k + 1)))"

text \<open>The results are the answer and the new \<open>index\<close>.\<close>

definition check_text :: "string \<Rightarrow> string \<Rightarrow> nat \<Rightarrow> (bool \<times> nat) result" where
  "check_text source sub index = res_bind (check_loop source index sub index) (\<lambda>r. case r of
     None \<Rightarrow> Inr (False, index)
   | Some i \<Rightarrow> res_bind (eat_ws source i i) (\<lambda>k. Inr (True, i + k)))"

text \<open>\<open>check(a) && check(b) && ...\<close>: a failing check leaves what the ones before it have moved.\<close>

fun check_all :: "string \<Rightarrow> string list \<Rightarrow> nat \<Rightarrow> (bool \<times> nat) result" where
  "check_all source [] index = Inr (True, index)"
| "check_all source (t # ts) index = res_bind (check_text source t index) (\<lambda>(ok, index1).
     if ok then check_all source ts index1 else Inr (False, index1))"

definition quoted :: "string \<Rightarrow> string" where
  "quoted ty = CHR 0x22 # ty @ [CHR 0x22]"

definition is_decl :: "string \<Rightarrow> string \<Rightarrow> nat \<Rightarrow> (bool \<times> nat) result" where
  "is_decl source ty index = check_all source [''<'', ''h1'', ''class'', ''='', quoted ty, ''>''] index"

text \<open>Up to the next \<open><\<close>, with the number of blanks in front of it.\<close>

function find_tag :: "string \<Rightarrow> nat \<Rightarrow> nat \<Rightarrow> nat \<times> nat" where
  "find_tag source after' ws = (if after' < length source then
     if source ! after' = CHR ''<'' then (after', ws)
     else if \<not> is_ws (source ! after') then find_tag source (after' + 1) 0
     else find_tag source (after' + 1) (ws + 1)
   else (after', ws))"
  by auto
termination by (relation "measure (\<lambda>(s, i, _). length s - i)") auto

declare find_tag.simps [simp del]

definition substr :: "string \<Rightarrow> nat \<Rightarrow> nat \<Rightarrow> string" where
  "substr s pos n = take n (drop pos s)"

definition get_decl :: "string \<Rightarrow> string \<Rightarrow> nat \<Rightarrow> (string option \<times> nat) result" where
  "get_decl source ty index = res_bind (is_decl source ty index) (\<lambda>(ok, before).
     if \<not> ok then Inr (None, before)
     else case find_tag source before 0 of (after', ws) \<Rightarrow>
       res_bind (check_all source [''<'', ''/h1'', ''>''] after') (\<lambda>(closed, index1).
       Inr (if closed then Some (substr source before (after' - before - ws)) else None, index1)))"

function find_decl :: "string \<Rightarrow> string \<Rightarrow> nat \<Rightarrow> nat \<Rightarrow> (nat \<times> nat) result" where
  "find_decl source ty i ws = (if i < length source then
     res_bind (is_decl source ty i) (\<lambda>(found, _).
     if found then Inr (i, ws)
     else if \<not> is_ws (source ! i) then find_decl source ty (i + 1) 0 else find_decl source ty (i + 1) (ws + 1))
   else Inr (i, ws))"
  by auto
termination by (relation "measure (\<lambda>(s, _, i, _). length s - i)") auto

declare find_decl.simps [simp del]

definition get_body :: "string \<Rightarrow> string \<Rightarrow> nat \<Rightarrow> (string \<times> nat) result" where
  "get_body source ty index = res_bind (find_decl source ty index 0) (\<lambda>(i, ws).
     Inr (substr source index (i - index - ws), i))"

text \<open>The loop of \<open>parse\<close>, with fuel; \<open>None\<close> is that the fuel is used up.\<close>

fun parse_loop :: "nat \<Rightarrow> string \<Rightarrow> string \<Rightarrow> nat \<Rightarrow> (string \<times> string) list \<Rightarrow> (string \<times> string) list result option" where
  "parse_loop 0 source ty index ret = None"
| "parse_loop (Suc n) source ty index ret = (if index < length source then
     case get_decl source ty index of
       Inl e \<Rightarrow> Some (Inl e)
     | Inr (None, _) \<Rightarrow> Some (Inr [])
     | Inr (Some decl, index1) \<Rightarrow> (case get_body source ty index1 of
         Inl e \<Rightarrow> Some (Inl e)
       | Inr (body, index2) \<Rightarrow> parse_loop n source ty index2 (ret @ [(decl, body)]))
   else Some (Inr ret))"

definition parse_ricardian :: "string \<Rightarrow> string \<Rightarrow> (string \<times> string) list result option" where
  "parse_ricardian source ty = parse_loop (Suc (length source)) source ty 0 []"

text \<open>
  Contracts are kept in a map, where the first of two with the same name stays; clauses are kept in a list.
\<close>

definition emplace :: "('k \<times> 'v) \<Rightarrow> ('k \<rightharpoonup> 'v) \<Rightarrow> ('k \<rightharpoonup> 'v)" where
  "emplace kv m = (if m (fst kv) = None then m(fst kv \<mapsto> snd kv) else m)"

definition parse_contracts :: "string \<Rightarrow> (string \<rightharpoonup> string) result option" where
  "parse_contracts contracts = (if contracts = [] then Some (Inr Map.empty)
     else map_option (map_sum id (\<lambda>parsed. fold emplace parsed Map.empty)) (parse_ricardian contracts ''contract''))"

definition parse_clauses :: "string \<Rightarrow> (string \<times> string) list result option" where
  "parse_clauses clauses = (if clauses = [] then Some (Inr []) else parse_ricardian clauses ''clause'')"

end
