(* ===== verification/RicardianProps.thy ===== *)
theory RicardianProps
  imports Ricardian
begin

text \<open>
  The tokenizer of ricardian contracts against the texts it is made for: it always ends, and it reads the
  headings and bodies of a well-formed text without the blanks around them.
\<close>

section \<open>It ends\<close>

lemma skip_ws_ge: "i \<le> skip_ws s i"
  by (induction s i rule: skip_ws.induct) (subst skip_ws.simps, auto intro: Suc_leD)

lemma check_loop_ge: "check_loop s ix cs i = Inr (Some j) \<Longrightarrow> i + length cs \<le> j"
proof (induction cs arbitrary: i)
  case (Cons c cs)
  then show ?case by (fastforce simp: res_bind_Inr split: if_splits)
qed simp

lemma check_text_ge: "check_text s sub i = Inr (True, j) \<Longrightarrow> i + length sub \<le> j"
  using check_loop_ge by (fastforce simp: check_text_def res_bind_Inr split: option.splits)

lemma check_all_ge: "check_all s ts i = Inr (True, j) \<Longrightarrow> i + sum_list (map length ts) \<le> j"
proof (induction ts arbitrary: i)
  case (Cons t ts)
  then obtain k where "check_text s t i = Inr (True, k)" "check_all s ts k = Inr (True, j)"
    by (auto simp: res_bind_Inr split: if_splits)
  then show ?case using Cons.IH check_text_ge by fastforce
qed simp

lemma find_tag_ge: "find_tag s i ws = (j, n) \<Longrightarrow> i \<le> j"
proof (induction s i ws rule: find_tag.induct)
  case (1 s i ws)
  show ?case using "1.prems" "1.IH" unfolding find_tag.simps [of s i ws] by (auto split: if_splits)
qed

lemma find_decl_ge: "find_decl s ty i ws = Inr (j, n) \<Longrightarrow> i \<le> j"
proof (induction s ty i ws rule: find_decl.induct)
  case (1 s ty i ws)
  note step = "1.prems" [unfolded find_decl.simps [of s ty i ws]]
  show ?case
  proof (cases "is_decl s ty i")
    case (Inr r)
    obtain found k where r: "r = (found, k)" by (cases r)
    show ?thesis
    proof (cases "i < length s \<and> \<not> found")
      case True
      then have "find_decl s ty (i + 1) (if \<not> is_ws (s ! i) then 0 else ws + 1) = Inr (j, n)"
        using step by (simp add: Inr r split: if_splits)
      then have "i + 1 \<le> j"
        using "1.IH" [of False] True by (auto split: if_splits)
      then show ?thesis by simp
    qed (use step in \<open>auto simp: Inr r split: if_splits\<close>)
  qed (use step in \<open>auto split: if_splits\<close>)
qed

lemma get_decl_ge:
  assumes "get_decl s ty i = Inr (Some d, j)"
  shows "i < j"
proof -
  obtain b where b: "is_decl s ty i = Inr (True, b)"
    using assms by (auto simp: get_decl_def res_bind_Inr split: if_splits)
  obtain a ws where a: "find_tag s b 0 = (a, ws)" by (cases "find_tag s b 0")
  then have "check_all s [''<'', ''/h1'', ''>''] a = Inr (True, j)"
    using assms b by (auto simp: get_decl_def res_bind_Inr split: if_splits)
  from check_all_ge [OF this] check_all_ge [OF b [unfolded is_decl_def]] find_tag_ge [OF a] show ?thesis by simp
qed

lemma get_body_ge: "get_body s ty i = Inr (b, j) \<Longrightarrow> i \<le> j"
  using find_decl_ge by (fastforce simp: get_body_def res_bind_Inr)

lemma parse_loop_ends: "length s - i < n \<Longrightarrow> parse_loop n s ty i ret \<noteq> None"
proof (induction n arbitrary: i ret)
  case (Suc n)
  have "parse_loop n s ty k ret' \<noteq> None" if "get_decl s ty i = Inr (Some d, j)" "get_body s ty j = Inr (b, k)" "i < length s" for d j b k ret'
    using Suc.prems that get_decl_ge [OF that(1)] get_body_ge [OF that(2)] by (intro Suc.IH) simp
  then show ?case by (simp split: sum.split prod.split option.split)
qed simp

section \<open>Reading at a position\<close>

definition at :: "string \<Rightarrow> nat \<Rightarrow> string \<Rightarrow> bool" where
  "at s i xs \<longleftrightarrow> drop i s = xs \<and> i \<le> length s"

definition blanks :: "string \<Rightarrow> bool" where
  "blanks w \<longleftrightarrow> list_all is_ws w"

text \<open>A text that does not begin with a blank.\<close>

definition solid :: "string \<Rightarrow> bool" where
  "solid xs \<longleftrightarrow> xs = [] \<or> \<not> is_ws (hd xs)"

lemma at_append: "at s i (xs @ ys) \<Longrightarrow> at s (i + length xs) ys"
proof -
  assume a: "at s i (xs @ ys)"
  then have d: "drop i s = xs @ ys" and l: "i \<le> length s" by (simp_all add: at_def)
  have "drop (i + length xs) s = drop (length xs) (drop i s)" by (simp add: add.commute)
  moreover have "length s - i = length xs + length ys" using arg_cong [OF d, of length] by simp
  ultimately show ?thesis using d l by (simp add: at_def)
qed

lemma at_Cons: "at s i (c # ys) \<Longrightarrow> at s (Suc i) ys" "at s i (c # ys) \<Longrightarrow> i < length s \<and> s ! i = c"
proof -
  assume a: "at s i (c # ys)"
  then show "at s (Suc i) ys" using at_append [of s i "[c]" ys] by simp
  from a have "i < length s" by (auto simp: at_def intro: ccontr)
  then show "i < length s \<and> s ! i = c" using a by (simp add: at_def flip: Cons_nth_drop_Suc)
qed

lemma at_Nil: "at s i [] \<longleftrightarrow> i = length s"
  by (auto simp: at_def)

lemma read_at: "at s i (c # xs) \<Longrightarrow> read_char s i = Inr c" "at s i [] \<Longrightarrow> read_char s i = Inr nul"
  by (auto simp: read_char_def at_Cons(2) at_Nil)

lemma nul_solid: "\<not> is_ws nul"
  by (simp add: is_ws_def nul_def)

lemma skip_ws_at: "at s i (w @ xs) \<Longrightarrow> blanks w \<Longrightarrow> solid xs \<Longrightarrow> skip_ws s i = i + length w"
proof (induction w arbitrary: i)
  case Nil
  then show ?case
    using at_Cons(2) [of s i] by (subst skip_ws.simps) (cases xs, auto simp: solid_def at_Nil)
next
  case (Cons c w)
  then have "skip_ws s (Suc i) = Suc i + length w" using at_Cons(1) by (auto simp: blanks_def)
  then show ?case using at_Cons(2) [of s i] Cons.prems by (simp add: skip_ws.simps [of s i] blanks_def)
qed

lemma eat_solid: "at s i xs \<Longrightarrow> solid xs \<Longrightarrow> eat_ws s ix i = Inr 0"
  by (cases xs) (auto simp: eat_ws_def read_at nul_solid solid_def)

lemma eat_blanks: "at s i (w @ xs) \<Longrightarrow> blanks w \<Longrightarrow> solid xs \<Longrightarrow> eat_ws s i i = Inr (length w)"
  using skip_ws_at [of s i w xs] eat_solid [of s i xs i]
  by (cases w) (auto simp: eat_ws_def read_at blanks_def)

lemma check_loop_at: "at s i (cs @ xs) \<Longrightarrow> list_all (\<lambda>c. \<not> is_ws c) cs \<Longrightarrow> check_loop s ix cs i = Inr (Some (i + length cs))"
proof (induction cs arbitrary: i)
  case (Cons c cs)
  then have "eat_ws s ix i = Inr 0" "read_char s i = Inr c"
    using eat_solid [of s i "c # cs @ xs"] by (auto simp: solid_def read_at)
  then show ?case using Cons at_Cons(1) [of s i c "cs @ xs"] by simp
qed simp

lemma check_text_at:
  assumes "at s i (w @ sub @ w' @ xs)" "blanks w" "blanks w'" "solid xs" "sub \<noteq> []" "list_all (\<lambda>c. \<not> is_ws c) sub"
  shows "check_text s sub i = Inr (True, i + length w + length sub + length w')"
proof -
  obtain c cs where sub: "sub = c # cs" using assms(5) by (cases sub) auto
  have a: "at s (i + length w) (c # cs @ w' @ xs)" using at_append assms(1) by (simp add: sub)
  have "eat_ws s i i = Inr (length w)" using eat_blanks assms(1,2,6) by (auto simp: sub solid_def)
  moreover have "check_loop s i cs (Suc (i + length w)) = Inr (Some (Suc (i + length w) + length cs))"
    using check_loop_at [OF at_Cons(1) [OF a]] assms(6) by (simp add: sub)
  moreover have "at s (Suc (i + length w) + length cs) (w' @ xs)" using at_append [OF at_Cons(1) [OF a]] .
  then have "eat_ws s (Suc (i + length w) + length cs) (Suc (i + length w) + length cs) = Inr (length w')"
    using eat_blanks assms(3,4) by blast
  ultimately show ?thesis using read_at(1) [OF a] by (simp add: check_text_def sub)
qed

lemma check_text_not:
  assumes "at s i (w @ xs)" "blanks w" "solid xs" "xs = [] \<or> hd xs \<noteq> c" "c \<noteq> nul"
  shows "check_text s (c # cs) i = Inr (False, i)"
proof -
  have "eat_ws s i i = Inr (length w)" using eat_blanks assms(1-3) by blast
  moreover have "\<exists>d. read_char s (i + length w) = Inr d \<and> c \<noteq> d"
    using at_append [OF assms(1)] assms(4,5) by (cases xs) (auto simp: read_at)
  ultimately show ?thesis by (auto simp: check_text_def)
qed

section \<open>Texts of clauses\<close>

text \<open>A heading and a body, with blanks \<open>w1\<close> to \<open>w4\<close> around the two.\<close>

datatype item = Item string string string string string string

fun heading :: "string \<Rightarrow> string \<Rightarrow> string" where
  "heading ty rest = ''<h1 class='' @ quoted ty @ ''>'' @ rest"

fun item_text :: "string \<Rightarrow> item \<Rightarrow> string" where
  "item_text ty (Item w1 key w2 w3 body w4) = heading ty (w1 @ key @ w2 @ ''</h1>'' @ w3 @ body @ w4)"

definition ricardian_text :: "string \<Rightarrow> item list \<Rightarrow> string" where
  "ricardian_text ty items = concat (map (item_text ty) items)"

definition part_ok :: "string \<Rightarrow> bool" where
  "part_ok xs \<longleftrightarrow> CHR ''<'' \<notin> set xs \<and> solid xs \<and> solid (rev xs)"

fun item_ok :: "item \<Rightarrow> bool" where
  "item_ok (Item w1 key w2 w3 body w4) \<longleftrightarrow> part_ok key \<and> part_ok body \<and> blanks w1 \<and> blanks w2 \<and> blanks w3 \<and> blanks w4"

fun item_pair :: "item \<Rightarrow> string \<times> string" where
  "item_pair (Item w1 key w2 w3 body w4) = (key, body)"

definition type_ok :: "string \<Rightarrow> bool" where
  "type_ok ty \<longleftrightarrow> list_all (\<lambda>c. \<not> is_ws c) ty"

lemma is_decl_at:
  assumes "at s i (w @ heading ty (w1 @ xs))" "type_ok ty" "blanks w" "blanks w1" "solid xs"
  shows "is_decl s ty i = Inr (True, i + length w + 13 + length ty + length w1)"
proof -
  have b: "blanks []" "blanks '' ''" by (simp_all add: blanks_def is_ws_def)
  have so: "solid (c # cs) \<longleftrightarrow> \<not> is_ws c" for c cs by (simp add: solid_def)
  have q: "list_all (\<lambda>c. \<not> is_ws c) (quoted ty)" "quoted ty \<noteq> []" "length (quoted ty) = length ty + 2"
    using assms(2) by (auto simp: quoted_def type_ok_def is_ws_def)
  have hq: "solid (quoted ty @ zs)" for zs by (simp add: quoted_def solid_def is_ws_def)
  have a0: "at s i (w @ ''<'' @ [] @ ''h1 class='' @ quoted ty @ ''>'' @ w1 @ xs)" using assms(1) by simp
  have c0: "check_text s ''<'' i = Inr (True, i + length w + 1)"
    using check_text_at [OF a0 assms(3) b(1)] by (simp add: solid_def is_ws_def)
  have a1: "at s (i + length w + 1) ([] @ ''h1'' @ '' '' @ ''class='' @ quoted ty @ ''>'' @ w1 @ xs)"
    using at_append [of s i "w @ ''<''"] a0 by (simp add: numeral_eq_Suc)
  have c1: "check_text s ''h1'' (i + length w + 1) = Inr (True, i + length w + 4)"
    using check_text_at [OF a1 b(1) b(2)] by (simp add: solid_def is_ws_def)
  have a2: "at s (i + length w + 4) ([] @ ''class'' @ [] @ ''='' @ quoted ty @ ''>'' @ w1 @ xs)"
    using at_append [OF at_append [OF at_append [OF a1]]] by (simp add: numeral_eq_Suc)
  have c2: "check_text s ''class'' (i + length w + 4) = Inr (True, i + length w + 9)"
    using check_text_at [OF a2 b(1) b(1)] by (simp add: solid_def is_ws_def)
  have a3: "at s (i + length w + 9) ([] @ ''='' @ [] @ quoted ty @ ''>'' @ w1 @ xs)"
    using at_append [OF at_append [OF a2]] by (simp add: numeral_eq_Suc)
  have c3: "check_text s ''='' (i + length w + 9) = Inr (True, i + length w + 10)"
    using check_text_at [OF a3 b(1) b(1)] hq by (simp add: is_ws_def)
  have a4: "at s (i + length w + 10) ([] @ quoted ty @ [] @ ''>'' @ w1 @ xs)"
    using at_append [OF at_append [OF a3]] by (simp add: numeral_eq_Suc)
  have c4: "check_text s (quoted ty) (i + length w + 10) = Inr (True, i + length w + 12 + length ty)"
    using check_text_at [OF a4 b(1) b(1)] q by (simp add: solid_def is_ws_def)
  have a5: "at s (i + length w + 12 + length ty) ([] @ ''>'' @ w1 @ xs)"
    using at_append [OF at_append [OF a4]] q(3) by (simp add: numeral_eq_Suc)
  have c5: "check_text s ''>'' (i + length w + 12 + length ty) = Inr (True, i + length w + 13 + length ty + length w1)"
    using check_text_at [OF a5 b(1) assms(4,5)] by (simp add: is_ws_def)
  show ?thesis by (simp only: is_decl_def check_all.simps c0 c1 c2 c3 c4 c5 res_bind_simps prod.case if_True)
qed

lemma is_decl_not:
  assumes "at s i (w @ xs)" "blanks w" "solid xs" "xs = [] \<or> hd xs \<noteq> CHR ''<''"
  shows "\<exists>k. is_decl s ty i = Inr (False, k)"
  using check_text_not [OF assms] by (simp add: is_decl_def nul_def)

lemma split_blanks: "\<exists>w ys. xs = w @ ys \<and> blanks w \<and> solid ys"
proof -
  have "solid (dropWhile is_ws xs)" by (induction xs) (auto simp: solid_def)
  moreover have "blanks (takeWhile is_ws xs)" by (auto simp: blanks_def list_all_iff dest: set_takeWhileD)
  ultimately show ?thesis by (metis takeWhile_dropWhile_id)
qed

text \<open>The tag behind the text of a heading, and the blanks in front of it.\<close>

lemma find_tag_blanks:
  "at s i (w @ CHR ''<'' # xs) \<Longrightarrow> blanks w \<Longrightarrow> find_tag s i n = (i + length w, n + length w)"
proof (induction w arbitrary: i n)
  case Nil
  then show ?case using at_Cons(2) [of s i] by (subst find_tag.simps) auto
next
  case (Cons c w)
  have "c \<noteq> CHR ''<''" using Cons.prems(2) by (auto simp: blanks_def is_ws_def)
  moreover have "i < length s \<and> s ! i = c" "at s (Suc i) (w @ CHR ''<'' # xs)" using at_Cons Cons.prems(1) by auto
  ultimately show ?case using Cons.IH [of "Suc i" "Suc n"] Cons.prems(2) by (subst find_tag.simps) (auto simp: blanks_def)
qed

lemma find_tag_at:
  "at s i (xs @ w @ CHR ''<'' # ys) \<Longrightarrow> CHR ''<'' \<notin> set xs \<Longrightarrow> solid (rev xs) \<Longrightarrow> blanks w \<Longrightarrow>
    find_tag s i n = (i + length xs + length w, (if xs = [] then n else 0) + length w)"
proof (induction xs arbitrary: i n)
  case Nil
  then show ?case using find_tag_blanks by simp
next
  case (Cons c xs)
  have s: "i < length s \<and> s ! i = c" "at s (Suc i) (xs @ w @ CHR ''<'' # ys)" using at_Cons Cons.prems(1) by auto
  have "solid (rev xs)" "xs = [] \<Longrightarrow> \<not> is_ws c" using Cons.prems(3) by (cases xs rule: rev_cases; auto simp: solid_def)+
  then show ?case
    using s Cons.IH [of "Suc i" "Suc n"] Cons.IH [of "Suc i" 0] Cons.prems by (subst find_tag.simps) auto
qed

text \<open>The end of a body: the next heading, or the end of the text.\<close>

lemma find_decl_blanks: "at s i w \<Longrightarrow> blanks w \<Longrightarrow> find_decl s ty i n = Inr (i + length w, n + length w)"
proof (induction w arbitrary: i n)
  case Nil
  then show ?case by (subst find_decl.simps) (simp add: at_Nil)
next
  case (Cons c w)
  obtain k where "is_decl s ty i = Inr (False, k)"
    using is_decl_not [of s i "c # w" "[]"] Cons.prems by (auto simp: solid_def)
  moreover have "i < length s \<and> s ! i = c" "at s (Suc i) w" using at_Cons Cons.prems(1) by auto
  ultimately show ?case using Cons.IH [of "Suc i" "Suc n"] Cons.prems(2) by (subst find_decl.simps) (auto simp: blanks_def)
qed

lemma find_decl_at:
  assumes "next_ok = (rest = [] \<or> (\<exists>w1 xs. rest = heading ty (w1 @ xs) \<and> blanks w1 \<and> solid xs))"
  shows "at s i (xs @ w @ rest) \<Longrightarrow> CHR ''<'' \<notin> set xs \<Longrightarrow> solid (rev xs) \<Longrightarrow> blanks w \<Longrightarrow> type_ok ty \<Longrightarrow> next_ok \<Longrightarrow>
    find_decl s ty i n = Inr (if rest = [] then (i + length xs + length w, (if xs = [] then n else 0) + length w)
      else (i + length xs, (if xs = [] then n else 0)))"
proof (induction xs arbitrary: i n)
  case Nil
  show ?case
  proof (cases "rest = []")
    case True
    then show ?thesis using find_decl_blanks [of s i w] Nil by simp
  next
    case False
    then obtain w1 ys where r: "rest = heading ty (w1 @ ys)" "blanks w1" "solid ys" using Nil assms by auto
    have "is_decl s ty i = Inr (True, i + length w + 13 + length ty + length w1)"
      using is_decl_at [of s i w ty w1 ys] Nil r by simp
    moreover have "i < length s" using Nil(1) False at_Cons(2) [of s i] by (cases "w @ rest") auto
    ultimately show ?thesis using False by (subst find_decl.simps) simp
  qed
next
  case (Cons c xs)
  have s: "i < length s \<and> s ! i = c" "at s (Suc i) (xs @ w @ rest)" using at_Cons Cons.prems(1) by auto
  have l: "solid (rev xs)" "xs = [] \<Longrightarrow> \<not> is_ws c" using Cons.prems(3) by (cases xs rule: rev_cases; auto simp: solid_def)+
  obtain v ys where v: "c # xs = v @ ys" "blanks v" "solid ys" using split_blanks by blast
  have "ys \<noteq> []"
  proof
    assume "ys = []"
    then have e: "v = c # xs" using v(1) by simp
    have "last v \<in> set v" unfolding e by (rule last_in_set) simp
    then have "is_ws (last (c # xs))" using v(2) by (simp add: blanks_def list_all_iff flip: e)
    then show False using Cons.prems(3) by (simp add: solid_def hd_rev del: rev.simps)
  qed
  moreover from this have "hd ys \<in> set (c # xs)" unfolding v(1) by simp
  then have "hd ys \<noteq> CHR ''<''" using Cons.prems(2) by metis
  ultimately have h: "hd ys \<noteq> CHR ''<''" "solid (ys @ w @ rest)"
    using v(3) by (simp_all add: solid_def)
  have "at s i (v @ ys @ w @ rest)" using Cons.prems(1) v(1) by (metis append_Cons append_assoc)
  then obtain k where "is_decl s ty i = Inr (False, k)"
    using is_decl_not [of s i v "ys @ w @ rest" ty] v(2) h \<open>ys \<noteq> []\<close> by auto
  then show ?case
    using s l Cons.IH [of "Suc i" "Suc n"] Cons.IH [of "Suc i" 0] Cons.prems by (subst find_decl.simps) auto
qed

lemma item_ends: "(\<exists>w1 xs. ricardian_text ty items = heading ty (w1 @ xs) \<and> blanks w1 \<and> solid xs) \<or> ricardian_text ty items = []"
  if "list_all item_ok items"
proof (cases items)
  case (Cons it its)
  obtain w1 key w2 w3 body w4 where it: "it = Item w1 key w2 w3 body w4" by (cases it)
  obtain w ys where "w1 @ key @ w2 @ ''</h1>'' @ w3 @ body @ w4 @ ricardian_text ty its = w @ ys" "blanks w" "solid ys"
    using split_blanks by blast
  then show ?thesis by (auto simp: Cons it ricardian_text_def)
qed (simp add: ricardian_text_def)

lemma blanks_append [simp]: "blanks (v @ w) \<longleftrightarrow> blanks v \<and> blanks w"
  by (simp add: blanks_def)

lemma check_close:
  assumes "at s a (''</h1>'' @ v @ xs)" "blanks v" "solid xs"
  shows "check_all s [''<'', ''/h1'', ''>''] a = Inr (True, a + 5 + length v)"
proof -
  have b: "blanks []" by (simp add: blanks_def)
  have a0: "at s a ([] @ ''<'' @ [] @ ''/h1>'' @ v @ xs)" using assms(1) by simp
  have c0: "check_text s ''<'' a = Inr (True, a + 1)" using check_text_at [OF a0 b b] by (simp add: solid_def is_ws_def)
  have a1: "at s (a + 1) ([] @ ''/h1'' @ [] @ ''>'' @ v @ xs)" using at_append [OF at_append [OF a0]] by simp
  have c1: "check_text s ''/h1'' (a + 1) = Inr (True, a + 4)"
    using check_text_at [OF a1 b b] by (simp add: solid_def is_ws_def)
  have a2: "at s (a + 4) ([] @ ''>'' @ v @ xs)" using at_append [OF at_append [OF a1]] by (simp add: numeral_eq_Suc)
  have c2: "check_text s ''>'' (a + 4) = Inr (True, a + 5 + length v)"
    using check_text_at [OF a2 b assms(2,3)] by (simp add: is_ws_def)
  show ?thesis by (simp only: check_all.simps c0 c1 c2 res_bind_simps prod.case if_True)
qed

lemma substr_at: "at s i (xs @ ys) \<Longrightarrow> substr s i (length xs) = xs"
  by (auto simp: substr_def at_def)

lemma get_decl_at:
  assumes "at s i (u @ heading ty (w1 @ key @ w2 @ ''</h1>'' @ v @ xs))" "type_ok ty" "part_ok key" "blanks u" "blanks w1" "blanks w2"
    and "blanks v" "solid xs" "key = [] \<longrightarrow> w2 = []"
  shows "\<exists>j. get_decl s ty i = Inr (Some key, j) \<and> at s j xs"
proof -
  let ?b = "i + length u + 13 + length ty + length w1"
  have so: "solid (key @ w2 @ ''</h1>'' @ v @ xs)"
    using assms(3,9) by (cases key) (auto simp: part_ok_def solid_def is_ws_def)
  have d: "is_decl s ty i = Inr (True, ?b)" by (rule is_decl_at [OF assms(1,2,4,5) so])
  have ab: "at s ?b (key @ w2 @ ''</h1>'' @ v @ xs)"
  proof -
    have "at s (i + length (u @ heading ty w1)) (key @ w2 @ ''</h1>'' @ v @ xs)"
      using assms(1) by (intro at_append) (simp add: quoted_def)
    then show ?thesis by (simp add: quoted_def numeral_eq_Suc algebra_simps)
  qed
  have t: "find_tag s ?b 0 = (?b + length key + length w2, length w2)"
    using find_tag_at [of s ?b key w2 "''/h1>'' @ v @ xs" 0] ab assms(3,6,9) by (auto simp: part_ok_def)
  have at: "at s (?b + length key + length w2) (''</h1>'' @ v @ xs)" using at_append [OF at_append [OF ab]] .
  have c: "check_all s [''<'', ''/h1'', ''>''] (?b + length key + length w2) = Inr (True, ?b + length key + length w2 + 5 + length v)"
    by (rule check_close [OF at assms(7,8)])
  have "substr s ?b (?b + length key + length w2 - ?b - length w2) = key" using substr_at [OF ab] by simp
  moreover have "at s (?b + length key + length w2 + 5 + length v) xs"
    using at_append [of s "?b + length key + length w2" "''</h1>'' @ v" xs] at by (simp add: ac_simps)
  ultimately show ?thesis unfolding get_decl_def d res_bind_simps prod.case t c by auto
qed

text \<open>One turn of the loop reads one item; \<open>u\<close> are blanks that the last turn has left.\<close>

lemma item_read:
  assumes "at s i (u @ item_text ty (Item w1 key w2 w3 body w4) @ rest)" and "item_ok (Item w1 key w2 w3 body w4)" and "type_ok ty" "blanks u"
    and rest: "rest = [] \<or> (\<exists>v xs. rest = heading ty (v @ xs) \<and> blanks v \<and> solid xs)"
  shows "\<exists>j k w. get_decl s ty i = Inr (Some key, j) \<and> get_body s ty j = Inr (body, k) \<and> at s k (w @ rest) \<and> blanks w \<and> (rest = [] \<longrightarrow> w = [])"
proof -
  define W K where "W = (if key = [] then w1 @ w2 else w1)" and "K = (if key = [] then [] else w2)"
  define V T where "V = (if body = [] then w3 @ w4 else w3)" and "T = (if body = [] then [] else w4)"
  have ok: "part_ok key" "part_ok body" "blanks W" "blanks K" "blanks V" "blanks T"
    using assms(2) by (auto simp: W_def K_def V_def T_def blanks_def)
  have "solid rest" using rest by (auto simp: solid_def is_ws_def)
  then have so: "solid (body @ T @ rest)" using ok(2) by (cases body) (auto simp: part_ok_def solid_def T_def)
  have "at s i (u @ heading ty (W @ key @ K @ ''</h1>'' @ V @ body @ T @ rest))"
    using assms(1) by (cases "key = []"; cases "body = []") (simp_all add: W_def K_def V_def T_def)
  then obtain j where j: "get_decl s ty i = Inr (Some key, j)" "at s j (body @ T @ rest)"
    using get_decl_at [of s i u ty W key K V "body @ T @ rest"] ok assms(3,4) so by (auto simp: K_def)
  have f: "find_decl s ty j 0 = Inr (if rest = [] then (j + length body + length T, length T) else (j + length body, 0))"
    using find_decl_at [OF refl j(2), of ty 0] ok(2,6) rest assms(3) by (auto simp: part_ok_def T_def)
  have b: "at s (j + length body) (T @ rest)" by (rule at_append [OF j(2)])
  have "get_body s ty j = Inr (body, if rest = [] then j + length body + length T else j + length body)"
    using substr_at [OF j(2)] by (simp add: get_body_def f)
  moreover have "at s (if rest = [] then j + length body + length T else j + length body) ((if rest = [] then [] else T) @ rest)"
    using b at_append [OF b] by auto
  ultimately show ?thesis using j(1) ok(6) by (intro exI [of _ j] exI [of _ "if rest = [] then j + length body + length T else j + length body"]
        exI [of _ "if rest = [] then [] else T"] conjI) (auto simp: blanks_def)
qed

lemma parse_loop_at:
  "at s i (u @ ricardian_text ty items) \<Longrightarrow> blanks u \<Longrightarrow> list_all item_ok items \<Longrightarrow> type_ok ty \<Longrightarrow> (items = [] \<longrightarrow> u = []) \<Longrightarrow> length items < n \<Longrightarrow>
    parse_loop n s ty i ret = Some (Inr (ret @ map item_pair items))"
proof (induction items arbitrary: i u n ret)
  case Nil
  then show ?case by (cases n) (auto simp: ricardian_text_def at_Nil)
next
  case (Cons it items)
  obtain w1 key w2 w3 body w4 where it: "it = Item w1 key w2 w3 body w4" by (cases it)
  have a: "at s i (u @ item_text ty (Item w1 key w2 w3 body w4) @ ricardian_text ty items)"
    using Cons.prems(1) by (simp add: it ricardian_text_def)
  have ok: "item_ok (Item w1 key w2 w3 body w4)" "list_all item_ok items" using Cons.prems(3) by (simp_all add: it)
  have r: "ricardian_text ty items = [] \<or> (\<exists>v xs. ricardian_text ty items = heading ty (v @ xs) \<and> blanks v \<and> solid xs)"
    using item_ends [OF ok(2), of ty] by blast
  obtain j k w where step: "get_decl s ty i = Inr (Some key, j)" "get_body s ty j = Inr (body, k)"
      "at s k (w @ ricardian_text ty items)" "blanks w" "ricardian_text ty items = [] \<longrightarrow> w = []"
    using item_read [OF a ok(1) Cons.prems(4,2) r] by blast
  obtain m where n: "n = Suc m" "length items < m" using Cons.prems(6) by (cases n) auto
  have "i < length s" using a by (auto simp: at_def intro: ccontr)
  moreover have "items = [] \<longrightarrow> w = []" using step(5) by (auto simp: ricardian_text_def)
  ultimately show ?case
    using Cons.IH [OF step(3,4) ok(2) Cons.prems(4) _ n(2), of "ret @ [(key, body)]"] step(1,2) by (simp add: n(1) it)
qed

section \<open>The properties\<close>

text \<open>
  C36. Parsing a text of headings and bodies gives the pairs of heading and body in their order, each without the
  blanks around it. Headings and bodies are any texts without an opening angle bracket that
  neither begin nor end with a blank; there may be blanks around both.
\<close>
theorem ricardian_text_parses:
  assumes "list_all item_ok items" and "type_ok ty"
  shows "parse_ricardian (ricardian_text ty items) ty = Some (Inr (map item_pair items))"
proof -
  have "length items \<le> length (ricardian_text ty items)"
  proof (induction items)
    case (Cons it items)
    have "1 \<le> length (item_text ty it)" by (cases it) simp
    then show ?case using Cons by (simp add: ricardian_text_def)
  qed (simp add: ricardian_text_def)
  then show ?thesis
    using parse_loop_at [of "ricardian_text ty items" 0 "[]" ty items "Suc (length (ricardian_text ty items))" "[]"] assms
    by (simp add: parse_ricardian_def at_def blanks_def)
qed

theorem ricardian_text_parses_witness:
  "parse_ricardian (ricardian_text ''clause'' [Item '' '' ''a b'' [] '' '' ''c.'' '' '', Item [] ''d'' [] [] [] []]) ''clause''
    = Some (Inr [(''a b'', ''c.''), (''d'', [])])"
  using ricardian_text_parses [of "[Item '' '' ''a b'' [] '' '' ''c.'' '' '', Item [] ''d'' [] [] [] []]" "''clause''"]
  by (simp add: part_ok_def blanks_def solid_def is_ws_def type_ok_def)

text \<open>
  C37. Parsing ends for every text: with a defined result, or with a read behind the end of the text. Such reads
  happen: a text that ends with an opening angle bracket, \<open>h\<close> and a blank is one, because \<open>eat_ws\<close> returns the distance from the member
  \<open>index\<close> instead of the number of blanks.
\<close>
theorem ricardian_parse_ends:
  "(\<exists>r. parse_ricardian source ty = Some r)
    \<and> parse_ricardian ''<h '' ty = Some (Inl (Trap ''read behind the end of a string''))"
proof -
  have "parse_ricardian source ty \<noteq> None" unfolding parse_ricardian_def by (rule parse_loop_ends) simp
  moreover have "parse_ricardian ''<h '' ty = Some (Inl (Trap ''read behind the end of a string''))"
    by (simp add: parse_ricardian_def get_decl_def is_decl_def check_text_def eat_ws_def read_char_def is_ws_def skip_ws.simps)
  ultimately show ?thesis by blast
qed

end
