(* ===== verification/AbiGen.thy ===== *)
theory AbiGen
  imports AbiMerge "HOL-Library.List_Lexorder" "HOL-Library.Char_ord"
begin

text \<open>
  What the ABI generator writes: the data of \<open>tools/include/eosio/cdt_abi.hpp\<close>, the names of built-in types and
  \<open>to_json\<close> of \<open>plugins/eosio/abigen.hpp\<close>, which decides which structs and type definitions get into
  the ABI. Strings are compared as the library does, by their characters as unsigned numbers.
\<close>

section \<open>Definitions of an ABI\<close>

record abi_typedef =
  td_new_type_name :: string
  td_type :: string

record abi_field =
  fl_name :: string
  fl_type :: string

record abi_struct =
  st_name :: string
  st_base :: string
  st_fields :: "abi_field list"

record abi_action =
  ac_name :: string
  ac_type :: string
  ac_ricardian_contract :: string

record abi_table =
  tb_name :: string
  tb_type :: string
  tb_index_type :: string
  tb_key_names :: "string list"
  tb_key_types :: "string list"

record abi_kv_index =
  ki_name :: string
  ki_type :: string

record abi_kv_table =
  kt_name :: string
  kt_type :: string
  kt_indices :: "abi_kv_index list"

record abi_ricardian_clause_pair =
  rc_id :: string
  rc_body :: string

record abi_variant =
  va_name :: string
  va_types :: "string list"

record abi_error_message =
  em_error_code :: u64
  em_error_msg :: string

record wasm_action =
  wa_name :: string
  wa_handler :: string

record wasm_notify =
  wn_name :: string
  wn_contract :: string
  wn_handler :: string

record abi_action_result =
  ar_name :: string
  ar_type :: string

text \<open>The orders of the sets.\<close>

definition typedef_less :: "abi_typedef \<Rightarrow> abi_typedef \<Rightarrow> bool" where
  "typedef_less a b \<longleftrightarrow> td_new_type_name a < td_new_type_name b"

definition struct_less :: "abi_struct \<Rightarrow> abi_struct \<Rightarrow> bool" where
  "struct_less a b \<longleftrightarrow> st_name a < st_name b"

definition action_less :: "abi_action \<Rightarrow> abi_action \<Rightarrow> bool" where
  "action_less a b \<longleftrightarrow> ac_name a < ac_name b"

definition table_less :: "abi_table \<Rightarrow> abi_table \<Rightarrow> bool" where
  "table_less a b \<longleftrightarrow> tb_name a < tb_name b"

definition kv_table_less :: "abi_kv_table \<Rightarrow> abi_kv_table \<Rightarrow> bool" where
  "kv_table_less a b \<longleftrightarrow> kt_name a < kt_name b"

definition variant_less :: "abi_variant \<Rightarrow> abi_variant \<Rightarrow> bool" where
  "variant_less a b \<longleftrightarrow> va_name a < va_name b"

definition wasm_action_less :: "wasm_action \<Rightarrow> wasm_action \<Rightarrow> bool" where
  "wasm_action_less a b \<longleftrightarrow> wa_name a < wa_name b"

definition action_result_less :: "abi_action_result \<Rightarrow> abi_action_result \<Rightarrow> bool" where
  "action_result_less a b \<longleftrightarrow> ar_name a < ar_name b"

text \<open>Notifications of a name come before the one for all contracts.\<close>

definition wasm_notify_less :: "wasm_notify \<Rightarrow> wasm_notify \<Rightarrow> bool" where
  "wasm_notify_less a b \<longleftrightarrow>
     (if wn_name a = wn_name b \<and> wn_contract a = ''*'' \<and> wn_contract b \<noteq> ''*'' then False
      else if wn_name a = wn_name b \<and> wn_contract a \<noteq> ''*'' \<and> wn_contract b = ''*'' then True
      else wn_name a < wn_name b \<or> wn_name a = wn_name b \<and> wn_contract a < wn_contract b)"

text \<open>\<open>insert\<close> of a \<open>std::set\<close>: an element that is equivalent to one in the set is not inserted.\<close>

fun set_insert :: "('a \<Rightarrow> 'a \<Rightarrow> bool) \<Rightarrow> 'a \<Rightarrow> 'a list \<Rightarrow> 'a list" where
  "set_insert lt x [] = [x]"
| "set_insert lt x (y # ys) = (if lt x y then x # y # ys else if lt y x then y # set_insert lt x ys else y # ys)"

record abi =
  version_major :: int
  version_minor :: int
  ab_structs :: "abi_struct list"
  ab_typedefs :: "abi_typedef list"
  ab_actions :: "abi_action list"
  ab_tables :: "abi_table list"
  ab_kv_tables :: "abi_kv_table list"
  ab_variants :: "abi_variant list"
  ab_ricardian_clauses :: "abi_ricardian_clause_pair list"
  ab_error_messages :: "abi_error_message list"
  ab_wasm_actions :: "wasm_action list"
  ab_wasm_notifies :: "wasm_notify list"
  ab_wasm_entries :: "string list"
  ab_action_results :: "abi_action_result list"

definition version_string :: "abi \<Rightarrow> string" where
  "version_string a = ''eosio::abi/'' @ int_text (version_major a) @ ''.'' @ int_text (version_minor a)"

text \<open>The parts of the generator's state that its output depends on.\<close>

record abigen =
  ag_abi :: abi
  ag_ctables :: "abi_table list"
  ag_pb_types :: "string list"

section \<open>Built-in types\<close>

text \<open>The target, and for a native build the widths of \<open>long\<close> and \<open>int\<close>.\<close>

record target =
  is_wasm :: bool
  long_bits :: nat
  int_bits :: nat

definition get_translation_table :: "target \<Rightarrow> (string \<times> string) list" where
  "get_translation_table T =
     [(''unsigned __int128'', ''uint128''), (''__int128'', ''int128''), (''uint128_t'', ''uint128''), (''int128_t'', ''int128''),
      (''unsigned long long'', ''uint64''), (''long long'', ''int64''), (''uint64_t'', ''uint64''), (''int64_t'', ''int64''),
      (''uint32_t'', ''uint32''), (''int32_t'', ''int32''),
      (''unsigned short'', ''uint16''), (''short'', ''int16''), (''uint16_t'', ''uint16''), (''int16_t'', ''int16''),
      (''unsigned char'', ''uint8''), (''signed char'', ''int8''), (''char'', ''int8''), (''uint8_t'', ''uint8''),
      (''byte'', ''uint8''), (''int8_t'', ''int8''), (''_Bool'', ''bool''),
      (''float'', ''float32''),
      (''double'', ''float64''), (''long double'', ''float128''),
      (''unsigned_int'', ''varuint32''), (''signed_int'', ''varint32''),
      (''vint32_t'', ''varuint32''), (''vuint32_t'', ''varuint32''), (''vsint32_t'', ''varint32''),
      (''string'', ''string''), (''string_view'', ''string''),
      (''block_timestamp'', ''block_timestamp_type''), (''public_key'', ''public_key''), (''private_key'', ''private_key''),
      (''signature'', ''signature''),
      (''capi_name'', ''name''), (''capi_public_key'', ''public_key''), (''capi_signature'', ''signature''),
      (''capi_checksum160'', ''checksum160''), (''capi_checksum256'', ''checksum256''), (''capi_checksum512'', ''checksum512''),
      (''fixed_bytes_20_uint32'', ''checksum160''), (''fixed_bytes_32_uint64'', ''checksum256''), (''fixed_bytes_64_uint64'', ''checksum512'')]
     @ (if is_wasm T then [(''unsigned long'', ''uint32''), (''long'', ''int32''), (''unsigned int'', ''uint32''), (''int'', ''int32'')]
        else [(''unsigned long'', ''uint'' @ nat_text (long_bits T)), (''long'', ''int'' @ nat_text (long_bits T)),
          (''unsigned int'', ''uint'' @ nat_text (int_bits T)), (''int'', ''int'' @ nat_text (int_bits T))])"

definition translate_builtin_type :: "target \<Rightarrow> string \<Rightarrow> string" where
  "translate_builtin_type T t = (case map_of (get_translation_table T) t of None \<Rightarrow> [] | Some r \<Rightarrow> r)"

definition translate_name :: "target \<Rightarrow> string \<Rightarrow> string" where
  "translate_name T t = (let r = translate_builtin_type T t in if r = [] then t else r)"

definition builtins :: "string list" where
  "builtins =
     [''bool'', ''int8'', ''uint8'', ''int16'', ''uint16'', ''int32'', ''uint32'', ''int64'', ''uint64'', ''int128'', ''uint128'',
      ''varint32'', ''varuint32'', ''float32'', ''float64'', ''float128'', ''time_point'', ''time_point_sec'', ''name'', ''bytes'',
      ''string'', ''block_timestamp_type'', ''name'', ''checksum160'', ''checksum256'', ''checksum512'', ''public_key'',
      ''private_key'', ''signature'', ''symbol'', ''symbol_code'', ''asset'', ''extended_asset'']"

definition is_builtin_type :: "target \<Rightarrow> string \<Rightarrow> bool" where
  "is_builtin_type T t \<longleftrightarrow> translate_name T t \<in> set builtins"

fun is_reserved :: "string \<Rightarrow> bool" where
  "is_reserved (c # d # cs) = (c = CHR ''_'' \<and> d = CHR ''_'' \<or> is_reserved (d # cs))"
| "is_reserved _ = False"

section \<open>JSON\<close>

definition j_text_member :: "'j jsoncons \<Rightarrow> string \<Rightarrow> string \<Rightarrow> 'j \<Rightarrow> 'j" where
  "j_text_member J k v o' = j_put J o' k (j_string J v)"

text \<open>An array that the elements are pushed to in turn.\<close>

definition j_list :: "'j jsoncons \<Rightarrow> 'j list \<Rightarrow> 'j" where
  "j_list J xs = fold (\<lambda>x r. j_push J r x) xs (j_array J)"

definition field_to_json :: "'j jsoncons \<Rightarrow> abi_field \<Rightarrow> 'j" where
  "field_to_json J f = j_text_member J ''type'' (fl_type f) (j_text_member J ''name'' (fl_name f) (j_object J))"

definition struct_to_json :: "'j jsoncons \<Rightarrow> abi_struct \<Rightarrow> 'j" where
  "struct_to_json J s = j_put J (j_text_member J ''base'' (st_base s) (j_text_member J ''name'' (st_name s) (j_object J)))
     ''fields'' (j_list J (map (field_to_json J) (st_fields s)))"

definition variant_to_json :: "'j jsoncons \<Rightarrow> abi_variant \<Rightarrow> 'j" where
  "variant_to_json J v = j_put J (j_text_member J ''name'' (va_name v) (j_object J)) ''types'' (j_list J (map (j_string J) (va_types v)))"

definition typedef_to_json :: "'j jsoncons \<Rightarrow> abi_typedef \<Rightarrow> 'j" where
  "typedef_to_json J t = j_text_member J ''type'' (td_type t) (j_text_member J ''new_type_name'' (td_new_type_name t) (j_object J))"

definition action_to_json :: "'j jsoncons \<Rightarrow> abi_action \<Rightarrow> 'j" where
  "action_to_json J a = j_text_member J ''ricardian_contract'' (ac_ricardian_contract a)
     (j_text_member J ''type'' (ac_type a) (j_text_member J ''name'' (ac_name a) (j_object J)))"

definition clause_to_json :: "'j jsoncons \<Rightarrow> abi_ricardian_clause_pair \<Rightarrow> 'j" where
  "clause_to_json J c = j_text_member J ''body'' (rc_body c) (j_text_member J ''id'' (rc_id c) (j_object J))"

definition table_to_json :: "'j jsoncons \<Rightarrow> abi_table \<Rightarrow> 'j" where
  "table_to_json J t = (let o' = j_text_member J ''index_type'' ''i64''
       (j_text_member J ''type'' (tb_type t) (j_text_member J ''name'' (tb_name t) (j_object J)))
     in j_put J (j_put J o' ''key_names'' (j_array J)) ''key_types'' (j_array J))"

definition wasm_action_to_json :: "'j jsoncons \<Rightarrow> wasm_action \<Rightarrow> 'j" where
  "wasm_action_to_json J a = j_text_member J ''handler'' (wa_handler a) (j_text_member J ''name'' (wa_name a) (j_object J))"

definition wasm_notify_to_json :: "'j jsoncons \<Rightarrow> wasm_notify \<Rightarrow> 'j" where
  "wasm_notify_to_json J n = j_text_member J ''handler'' (wn_handler n)
     (j_text_member J ''name'' (wn_name n) (j_text_member J ''contract'' (wn_contract n) (j_object J)))"

text \<open>The first index is the primary one, the others are members of an object, by their names.\<close>

definition kv_table_to_json :: "'j jsoncons \<Rightarrow> abi_kv_table \<Rightarrow> string \<times> 'j" where
  "kv_table_to_json J t =
     (let o1 = j_text_member J ''type'' (kt_type t) (j_object J);
          (o2, indices) = (case kt_indices t of
             [] \<Rightarrow> (j_put J o1 ''primary_index'' (j_object J), j_object J)
           | idx # idxs \<Rightarrow>
               (j_put J o1 ''primary_index'' (j_text_member J ''type'' (ki_type idx) (j_text_member J ''name'' (ki_name idx) (j_object J))),
                fold (\<lambda>idx r. j_put J r (ki_name idx) (j_text_member J ''type'' (ki_type idx) (j_object J))) idxs (j_object J)))
      in (kt_name t, j_put J o2 ''secondary_indices'' indices))"

definition action_result_to_json :: "'j jsoncons \<Rightarrow> abi_action_result \<Rightarrow> 'j" where
  "action_result_to_json J r = j_text_member J ''result_type'' (ar_type r) (j_text_member J ''name'' (ar_name r) (j_object J))"

section \<open>Choosing what is written\<close>

text \<open>A type name without the characters of arrays, optionals and extensions at its end.\<close>

definition is_suffix_char :: "char \<Rightarrow> bool" where
  "is_suffix_char c \<longleftrightarrow> c = CHR ''['' \<or> c = CHR '']'' \<or> c = CHR ''?'' \<or> c = CHR ''$''"

definition remove_suffix :: "string \<Rightarrow> string" where
  "remove_suffix name = rev (dropWhile is_suffix_char (rev name))"

text \<open>
  The tables: those of multi-indexes, and the declared ones whose type no multi-index has. The loop over the
  multi-indexes stops at the first with the type, and inserts those it passes.
\<close>

fun pass_tables :: "abi_table \<Rightarrow> abi_table list \<Rightarrow> abi_table list \<Rightarrow> bool \<times> abi_table list" where
  "pass_tables t [] acc = (False, acc)"
| "pass_tables t (u # us) acc = (if tb_type t = tb_type u then (True, acc) else pass_tables t us (set_insert table_less u acc))"

definition add_ctable :: "abi_table list \<Rightarrow> abi_table \<Rightarrow> abi_table list \<Rightarrow> abi_table list" where
  "add_ctable us t acc = (case pass_tables t us acc of (has_multi_index, acc1) \<Rightarrow>
     if \<not> has_multi_index then set_insert table_less t acc1 else acc1)"

definition set_of_tables :: "abigen \<Rightarrow> abi_table list" where
  "set_of_tables g = fold (set_insert table_less) (ab_tables (ag_abi g)) (fold (add_ctable (ab_tables (ag_abi g))) (ag_ctables g) [])"

definition is_empty :: "abigen \<Rightarrow> bool" where
  "is_empty g \<longleftrightarrow> ab_structs (ag_abi g) = [] \<and> ab_typedefs (ag_abi g) = [] \<and> ab_actions (ag_abi g) = [] \<and> set_of_tables g = []
     \<and> ab_ricardian_clauses (ag_abi g) = [] \<and> ab_variants (ag_abi g) = []"

text \<open>
  \<open>get_root_name\<close> follows type definitions from a name to the type behind it. The recursion of the code has no
  bound; here it has fuel, and \<open>None\<close> is that the fuel is used up.
\<close>

fun get_root_name :: "nat \<Rightarrow> abi_typedef list \<Rightarrow> string \<Rightarrow> string option" where
  "get_root_name 0 tds name = None"
| "get_root_name (Suc n) tds name = (case find (\<lambda>td. remove_suffix name = td_new_type_name td) tds of
     None \<Rightarrow> Some name
   | Some td \<Rightarrow> get_root_name n tds (td_type td))"

text \<open>The first loop of \<open>validate_struct\<close>, over all structs: fields, variants and bases.\<close>

definition field_uses :: "string \<Rightarrow> abi_struct \<Rightarrow> bool" where
  "field_uses nm s \<longleftrightarrow> list_ex (\<lambda>f. nm = remove_suffix (fl_type f)) (st_fields s)"

definition variants_use :: "string \<Rightarrow> abi_variant list \<Rightarrow> bool" where
  "variants_use nm vs \<longleftrightarrow> list_ex (\<lambda>v. list_ex (\<lambda>vt. nm = remove_suffix vt) (va_types v)) vs"

fun structs_use :: "nat \<Rightarrow> abi \<Rightarrow> string \<Rightarrow> abi_struct list \<Rightarrow> bool option" where
  "structs_use n A nm [] = Some False"
| "structs_use n A nm (s # ss) = (if field_uses nm s then Some True
     else if variants_use nm (ab_variants A) then Some True
     else case get_root_name n (ab_typedefs A) (st_base s) of
       None \<Rightarrow> None
     | Some r \<Rightarrow> if r = nm then Some True else structs_use n A nm ss)"

definition kv_tables_use :: "string \<Rightarrow> abi_kv_table list \<Rightarrow> bool" where
  "kv_tables_use nm ts \<longleftrightarrow> list_ex (\<lambda>t. kt_type t = nm \<or> list_ex (\<lambda>idx. ki_type idx = nm) (kt_indices t)) ts"

definition validate_struct :: "nat \<Rightarrow> target \<Rightarrow> abigen \<Rightarrow> abi_struct \<Rightarrow> bool option" where
  "validate_struct n T g as = (let A = ag_abi g; nm = st_name as in
     if is_builtin_type T nm then Some False
     else if is_reserved nm then Some False
     else case structs_use n A nm (ab_structs A) of
       None \<Rightarrow> None
     | Some used \<Rightarrow> Some (used \<or> variants_use nm (ab_variants A)
         \<or> list_ex (\<lambda>a. nm = ac_type a) (ab_actions A)
         \<or> list_ex (\<lambda>t. nm = tb_type t) (set_of_tables g)
         \<or> list_ex (\<lambda>t. nm = kt_type t) (ab_kv_tables A)
         \<or> list_ex (\<lambda>td. nm = remove_suffix (td_type td)) (ab_typedefs A)
         \<or> list_ex (\<lambda>ar. nm = ar_type ar) (ab_action_results A)
         \<or> kv_tables_use nm (ab_kv_tables A)))"

text \<open>The loop of \<open>validate_types\<close> over the structs that are written.\<close>

fun valid_structs_use :: "nat \<Rightarrow> target \<Rightarrow> abigen \<Rightarrow> string \<Rightarrow> abi_struct list \<Rightarrow> bool option" where
  "valid_structs_use n T g nm [] = Some False"
| "valid_structs_use n T g nm (as # ss) = (case validate_struct n T g as of
     None \<Rightarrow> None
   | Some valid \<Rightarrow> if valid \<and> (list_ex (\<lambda>f. remove_suffix (fl_type f) = nm) (st_fields as) \<or> st_base as = nm) then Some True
       else valid_structs_use n T g nm ss)"

definition validate_types :: "nat \<Rightarrow> target \<Rightarrow> abigen \<Rightarrow> abi_typedef \<Rightarrow> bool option" where
  "validate_types n T g td = (let A = ag_abi g; nm = td_new_type_name td in
     if nm = td_type td then Some False
     else case valid_structs_use n T g nm (ab_structs A) of
       None \<Rightarrow> None
     | Some used \<Rightarrow> Some (used \<or> list_ex (\<lambda>v. list_ex (\<lambda>vt. remove_suffix vt = nm) (va_types v)) (ab_variants A)
         \<or> list_ex (\<lambda>t. tb_type t = nm) (ab_tables A)
         \<or> list_ex (\<lambda>a. ac_type a = nm) (ab_actions A)
         \<or> list_ex (\<lambda>td'. remove_suffix (td_type td') = nm) (ab_typedefs A)
         \<or> list_ex (\<lambda>ar. ar_type ar = nm) (ab_action_results A)
         \<or> kv_tables_use nm (ab_kv_tables A)))"

text \<open>The elements that a test selects; a test without a result has none.\<close>

fun select :: "('a \<Rightarrow> bool option) \<Rightarrow> 'a list \<Rightarrow> 'a list option" where
  "select p [] = Some []"
| "select p (x # xs) = (case p x of None \<Rightarrow> None | Some b \<Rightarrow> map_option (\<lambda>ys. if b then x # ys else ys) (select p xs))"

definition version_has_kv :: "abi \<Rightarrow> bool" where
  "version_has_kv A \<longleftrightarrow> version_major A = 1 \<and> version_minor A \<ge> 2"

definition to_json :: "nat \<Rightarrow> 'j jsoncons \<Rightarrow> target \<Rightarrow> abigen \<Rightarrow> 'j option" where
  "to_json n J T g = (let A = ag_abi g in
     case select (validate_struct n T g) (ab_structs A) of None \<Rightarrow> None | Some ss \<Rightarrow>
     case select (validate_types n T g) (ab_typedefs A) of None \<Rightarrow> None | Some ts \<Rightarrow>
     let o1 = j_text_member J ''version'' (version_string A) (j_object J);
         o2 = j_put J o1 ''structs'' (j_list J (map (struct_to_json J) ss));
         o3 = j_put J o2 ''types'' (j_list J (map (typedef_to_json J) ts));
         o4 = j_put J o3 ''actions'' (j_list J (map (action_to_json J) (ab_actions A)));
         o5 = j_put J o4 ''tables'' (j_list J (map (table_to_json J) (set_of_tables g)));
         o6 = (if version_has_kv A then j_put J o5 ''kv_tables''
             (fold (\<lambda>t r. case kv_table_to_json J t of (k, v) \<Rightarrow> j_put J r k v) (ab_kv_tables A) (j_object J)) else o5);
         o7 = j_put J o6 ''ricardian_clauses'' (j_list J (map (clause_to_json J) (ab_ricardian_clauses A)));
         o8 = j_put J o7 ''variants'' (j_list J (map (variant_to_json J) (ab_variants A)));
         o9 = j_put J o8 ''abi_extensions'' (j_array J)
     in Some (if version_has_kv A then j_put J o9 ''action_results'' (j_list J (map (action_result_to_json J) (ab_action_results A))) else o9))"

definition to_json_debug :: "nat \<Rightarrow> 'j jsoncons \<Rightarrow> target \<Rightarrow> abigen \<Rightarrow> 'j option" where
  "to_json_debug n J T g = (let A = ag_abi g in map_option (\<lambda>o'.
     let o1 = j_put J o' ''wasm_actions'' (j_list J (map (wasm_action_to_json J) (ab_wasm_actions A)));
         o2 = j_put J o1 ''wasm_notifies'' (j_list J (map (wasm_notify_to_json J) (ab_wasm_notifies A)));
         o3 = j_put J o2 ''wasm_entries'' (j_list J (map (j_string J) (ab_wasm_entries A)))
     in j_put J o3 ''pb_types'' (j_list J (map (j_string J) (ag_pb_types g)))) (to_json n J T g))"

end
