(* ===== verification/AbiGenProps.thy ===== *)
theory AbiGenProps
  imports AbiGen AbiMergeProps "HOL-Library.Sublist"
begin

text \<open>
  The ABI that is generated: the sets have unique names, the ABI that is written is closed under the names it refers to, following
  type definitions ends when they are not circular, and generated files merge without losing a
  definition.
\<close>

section \<open>Ordered sets\<close>

text \<open>What \<open>std::set\<close> asks of the order of its elements, and what it promises.\<close>

locale set_order =
  fixes lt :: "'a \<Rightarrow> 'a \<Rightarrow> bool"
  assumes irrefl: "\<not> lt x x"
    and trans: "lt x y \<Longrightarrow> lt y z \<Longrightarrow> lt x z"
    and equiv_trans: "\<not> lt x y \<Longrightarrow> \<not> lt y x \<Longrightarrow> \<not> lt y z \<Longrightarrow> \<not> lt z y \<Longrightarrow> \<not> lt x z \<and> \<not> lt z x"
begin

lemma insert_subset: "set (set_insert lt x xs) \<subseteq> insert x (set xs)"
  by (induction xs) auto

lemma insert_keeps: "set xs \<subseteq> set (set_insert lt x xs)"
  by (induction xs) auto

lemma insert_sorted: "sorted_wrt lt xs \<Longrightarrow> sorted_wrt lt (set_insert lt x xs)"
proof (induction xs)
  case (Cons y ys)
  then show ?case using insert_subset [of x ys] by (auto intro: trans)
qed simp

lemma insert_present: "\<exists>y \<in> set (set_insert lt x xs). \<not> lt x y \<and> \<not> lt y x"
  by (induction xs) (auto simp: irrefl)

lemma insert_fresh: "sorted_wrt lt xs \<Longrightarrow> \<forall>y \<in> set xs. lt x y \<or> lt y x \<Longrightarrow> x \<in> set (set_insert lt x xs)"
  by (induction xs) auto

text \<open>An element that is equivalent to one in the set is dropped.\<close>

lemma insert_equivalent:
  "sorted_wrt lt xs \<Longrightarrow> y \<in> set xs \<Longrightarrow> \<not> lt x y \<Longrightarrow> \<not> lt y x \<Longrightarrow> set_insert lt x xs = xs"
proof (induction xs)
  case (Cons z zs)
  show ?case
  proof (cases "y = z")
    case False
    then have y: "y \<in> set zs" "lt z y" using Cons.prems by auto
    have "\<not> lt x z" using trans [of x z y] y(2) Cons.prems(3) by blast
    moreover have "lt z x" using equiv_trans [of z x y] calculation y(2) Cons.prems(3,4) by blast
    moreover have "set_insert lt x zs = zs" using Cons.IH Cons.prems y(1) by simp
    ultimately show ?thesis by simp
  qed (use Cons.prems in simp)
qed simp

lemma sorted_distinct: "sorted_wrt lt xs \<Longrightarrow> distinct xs"
  by (induction xs) (auto simp: irrefl)

end

lemma key_order: "set_order (\<lambda>a b. key a < key b)" for key :: "'a \<Rightarrow> 'k :: linorder"
  by unfold_locales auto

interpretation typedefs: set_order typedef_less
  unfolding typedef_less_def by (rule key_order)

interpretation struct_set: set_order struct_less
  unfolding struct_less_def by (rule key_order)

interpretation action_set: set_order action_less
  unfolding action_less_def by (rule key_order)

interpretation table_set: set_order table_less
  unfolding table_less_def by (rule key_order)

interpretation kv_table_set: set_order kv_table_less
  unfolding kv_table_less_def by (rule key_order)

interpretation variant_set: set_order variant_less
  unfolding variant_less_def by (rule key_order)

interpretation wasm_action_set: set_order wasm_action_less
  unfolding wasm_action_less_def by (rule key_order)

interpretation action_result_set: set_order action_result_less
  unfolding action_result_less_def by (rule key_order)

text \<open>Notifications are ordered by name, and of one name the one for all contracts is the last.\<close>

definition notify_key :: "wasm_notify \<Rightarrow> string list" where
  "notify_key n = [wn_name n, if wn_contract n = ''*'' then ''1'' else ''0'', wn_contract n]"

lemma wasm_notify_less_key: "wasm_notify_less = (\<lambda>a b. notify_key a < notify_key b)"
proof (intro ext)
  fix a b
  have "''0'' < (''1'' :: string)" "\<not> ''1'' < (''0'' :: string)" by (simp_all add: less_char_def)
  then show "wasm_notify_less a b \<longleftrightarrow> notify_key a < notify_key b"
    by (cases "wn_contract a = ''*''"; cases "wn_contract b = ''*''"; simp add: wasm_notify_less_def notify_key_def)
qed

interpretation wasm_notify_set: set_order wasm_notify_less
  unfolding wasm_notify_less_key by (rule key_order)

section \<open>Following type definitions\<close>

text \<open>The type behind a name, as a relation; on a set of type definitions it is what \<open>get_root_name\<close> computes.\<close>

inductive root :: "abi_typedef list \<Rightarrow> string \<Rightarrow> string \<Rightarrow> bool" for tds where
  here: "remove_suffix x \<notin> td_new_type_name ` set tds \<Longrightarrow> root tds x x"
| follow: "td \<in> set tds \<Longrightarrow> td_new_type_name td = remove_suffix x \<Longrightarrow> root tds (td_type td) y \<Longrightarrow> root tds x y"

lemma find_typedef:
  "find (\<lambda>td. k = td_new_type_name td) tds = None \<longleftrightarrow> k \<notin> td_new_type_name ` set tds"
  "find (\<lambda>td. k = td_new_type_name td) tds = Some td \<Longrightarrow> td \<in> set tds \<and> td_new_type_name td = k"
  by (auto simp: find_None_iff find_Some_iff)

lemma unique_typedef:
  "sorted_wrt typedef_less tds \<Longrightarrow> a \<in> set tds \<Longrightarrow> b \<in> set tds \<Longrightarrow> td_new_type_name a = td_new_type_name b \<Longrightarrow> a = b"
  by (induction tds) (auto simp: typedef_less_def)

lemma get_root_name_root: "get_root_name n tds x = Some y \<Longrightarrow> root tds x y"
proof (induction n arbitrary: x)
  case (Suc n)
  show ?case
  proof (cases "find (\<lambda>td. remove_suffix x = td_new_type_name td) tds")
    case None
    then have "x = y" using Suc.prems by simp
    moreover have "remove_suffix x \<notin> td_new_type_name ` set tds" by (rule iffD1 [OF find_typedef(1) None])
    ultimately show ?thesis using root.here by blast
  next
    case (Some td)
    then have "root tds (td_type td) y" using Suc by simp
    then show ?thesis using root.follow find_typedef(2) [OF Some] by blast
  qed
qed simp

lemma root_unique:
  assumes "sorted_wrt typedef_less tds"
  shows "root tds x y \<Longrightarrow> root tds x z \<Longrightarrow> y = z"
proof (induction rule: root.induct)
  case (here x)
  from here.prems show ?case by (rule root.cases) (use here.hyps in \<open>metis imageI\<close>)+
next
  case (follow td x y)
  from follow.prems show ?case
  proof (rule root.cases)
    fix u assume "x = u" "z = u" "remove_suffix u \<notin> td_new_type_name ` set tds"
    then show ?thesis using follow.hyps(1,2) by (metis imageI)
  next
    fix td' u v assume *: "x = u" "z = v" "td' \<in> set tds" "td_new_type_name td' = remove_suffix u" "root tds (td_type td') v"
    then have "td' = td" using unique_typedef [OF assms(1) *(3) follow.hyps(1)] follow.hyps(2) by simp
    then show ?thesis using * follow.IH by simp
  qed
qed

definition follows :: "abi_typedef list \<Rightarrow> (string \<times> string) set" where
  "follows tds = (\<lambda>td. (td_new_type_name td, remove_suffix (td_type td))) ` set tds"

lemma get_root_name_ends:
  assumes "acyclic (follows tds)"
  shows "card {td \<in> set tds. (remove_suffix x, td_new_type_name td) \<in> (follows tds)\<^sup>*} < n \<Longrightarrow> get_root_name n tds x \<noteq> None"
proof (induction n arbitrary: x)
  case (Suc n)
  let ?reach = "\<lambda>x. {td \<in> set tds. (remove_suffix x, td_new_type_name td) \<in> (follows tds)\<^sup>*}"
  show ?case
  proof (cases "find (\<lambda>td. remove_suffix x = td_new_type_name td) tds")
    case (Some td)
    then have td: "td \<in> set tds" "td_new_type_name td = remove_suffix x" using find_typedef(2) by blast+
    then have step: "(remove_suffix x, remove_suffix (td_type td)) \<in> follows tds" unfolding follows_def by force
    have "(remove_suffix (td_type td), remove_suffix x) \<notin> (follows tds)\<^sup>*"
      using assms step unfolding acyclic_def by (meson rtrancl_into_trancl2)
    then have "td \<in> ?reach x" "td \<notin> ?reach (td_type td)" using td by simp_all
    moreover have "?reach (td_type td) \<subseteq> ?reach x" using step by (auto intro: converse_rtrancl_into_rtrancl)
    ultimately have "card (?reach (td_type td)) < card (?reach x)" by (intro psubset_card_mono) auto
    then show ?thesis using Suc.IH [of "td_type td"] Suc.prems Some by simp
  qed simp
qed simp

lemma enough_fuel:
  assumes "acyclic (follows tds)" and "length tds < n"
  shows "\<exists>y. get_root_name n tds x = Some y"
proof -
  have "card {td \<in> set tds. (remove_suffix x, td_new_type_name td) \<in> (follows tds)\<^sup>*} \<le> card (set tds)"
    by (intro card_mono) auto
  also have "\<dots> \<le> length tds" by (rule card_length)
  finally show ?thesis using get_root_name_ends [OF assms(1), of x n] assms(2) by auto
qed

lemma circular_never_ends:
  assumes "sorted_wrt typedef_less tds" and "td \<in> set tds" and "remove_suffix (td_type td) = td_new_type_name td"
  shows "remove_suffix x = td_new_type_name td \<Longrightarrow> get_root_name n tds x = None"
proof (induction n arbitrary: x)
  case (Suc n)
  obtain td' where f: "find (\<lambda>td. remove_suffix x = td_new_type_name td) tds = Some td'"
    using find_typedef(1) [of "remove_suffix x" tds] assms(2) Suc.prems by fastforce
  then have "td' = td" using find_typedef(2) [OF f] unique_typedef [OF assms(1) _ assms(2)] Suc.prems by simp
  then show ?case using f Suc.IH [of "td_type td"] assms(3) by simp
qed simp

section \<open>What is written\<close>

text \<open>The names that the ABI mentions.\<close>

inductive_set mentioned :: "abigen \<Rightarrow> string set" for g where
  field: "s \<in> set (ab_structs (ag_abi g)) \<Longrightarrow> f \<in> set (st_fields s) \<Longrightarrow> remove_suffix (fl_type f) \<in> mentioned g"
| base: "s \<in> set (ab_structs (ag_abi g)) \<Longrightarrow> root (ab_typedefs (ag_abi g)) (st_base s) r \<Longrightarrow> r \<in> mentioned g"
| alternative: "v \<in> set (ab_variants (ag_abi g)) \<Longrightarrow> t \<in> set (va_types v) \<Longrightarrow> remove_suffix t \<in> mentioned g"
| action: "a \<in> set (ab_actions (ag_abi g)) \<Longrightarrow> ac_type a \<in> mentioned g"
| table: "t \<in> set (set_of_tables g) \<Longrightarrow> tb_type t \<in> mentioned g"
| kv_table: "t \<in> set (ab_kv_tables (ag_abi g)) \<Longrightarrow> kt_type t \<in> mentioned g"
| kv_index: "t \<in> set (ab_kv_tables (ag_abi g)) \<Longrightarrow> i \<in> set (kt_indices t) \<Longrightarrow> ki_type i \<in> mentioned g"
| synonym: "td \<in> set (ab_typedefs (ag_abi g)) \<Longrightarrow> remove_suffix (td_type td) \<in> mentioned g"
| result: "r \<in> set (ab_action_results (ag_abi g)) \<Longrightarrow> ar_type r \<in> mentioned g"

definition wanted :: "target \<Rightarrow> abigen \<Rightarrow> abi_struct \<Rightarrow> bool" where
  "wanted T g s \<longleftrightarrow> \<not> is_builtin_type T (st_name s) \<and> \<not> is_reserved (st_name s) \<and> st_name s \<in> mentioned g"

lemma structs_use_root:
  assumes "sorted_wrt typedef_less (ab_typedefs A)"
  shows "structs_use n A nm ss = Some b \<Longrightarrow> b \<or> variants_use nm (ab_variants A) \<longleftrightarrow>
    (\<exists>s \<in> set ss. field_uses nm s \<or> root (ab_typedefs A) (st_base s) nm) \<or> variants_use nm (ab_variants A)"
proof (induction ss arbitrary: b)
  case (Cons s ss)
  show ?case
  proof (cases "field_uses nm s \<or> variants_use nm (ab_variants A)")
    case False
    with Cons.prems obtain r where r: "get_root_name n (ab_typedefs A) (st_base s) = Some r"
      by (auto split: option.splits)
    have "root (ab_typedefs A) (st_base s) nm \<longleftrightarrow> r = nm"
      using get_root_name_root [OF r] root_unique [OF assms] by blast
    then show ?thesis using Cons False r by (cases "r = nm") auto
  qed (use Cons.prems in \<open>auto split: if_splits\<close>)
qed simp

lemmas uses_defs = field_uses_def variants_use_def kv_tables_use_def list_ex_iff

lemma mentioned_iff:
  "nm \<in> mentioned g \<longleftrightarrow> (\<exists>s \<in> set (ab_structs (ag_abi g)). field_uses nm s \<or> root (ab_typedefs (ag_abi g)) (st_base s) nm)
     \<or> variants_use nm (ab_variants (ag_abi g)) \<or> list_ex (\<lambda>a. nm = ac_type a) (ab_actions (ag_abi g))
     \<or> list_ex (\<lambda>t. nm = tb_type t) (set_of_tables g) \<or> list_ex (\<lambda>t. nm = kt_type t) (ab_kv_tables (ag_abi g))
     \<or> list_ex (\<lambda>td. nm = remove_suffix (td_type td)) (ab_typedefs (ag_abi g))
     \<or> list_ex (\<lambda>ar. nm = ar_type ar) (ab_action_results (ag_abi g)) \<or> kv_tables_use nm (ab_kv_tables (ag_abi g))"
  (is "_ \<longleftrightarrow> ?uses")
proof
  show "nm \<in> mentioned g \<Longrightarrow> ?uses" by (induction rule: mentioned.induct) (simp add: uses_defs; blast)+
  show "?uses \<Longrightarrow> nm \<in> mentioned g"
    by (elim disjE; simp add: uses_defs) (blast intro: mentioned.intros)+
qed

lemma validate_struct_wanted:
  assumes "sorted_wrt typedef_less (ab_typedefs (ag_abi g))" and "validate_struct n T g s = Some b"
  shows "b \<longleftrightarrow> wanted T g s"
proof (cases "is_builtin_type T (st_name s) \<or> is_reserved (st_name s)")
  case False
  then obtain u where u: "structs_use n (ag_abi g) (st_name s) (ab_structs (ag_abi g)) = Some u"
    using assms(2) unfolding validate_struct_def Let_def by (cases "structs_use n (ag_abi g) (st_name s) (ab_structs (ag_abi g))") simp_all
  have no: "is_builtin_type T (st_name s) = False" "is_reserved (st_name s) = False" using False by simp_all
  have "wanted T g s \<longleftrightarrow> st_name s \<in> mentioned g" using False unfolding wanted_def by blast
  also have "\<dots> \<longleftrightarrow> b"
    using structs_use_root [OF assms(1) u] assms(2)
    unfolding mentioned_iff validate_struct_def Let_def u by (simp only: no if_False option.case option.inject) blast
  finally show ?thesis by simp
next
  case True
  then have "b = False" using assms(2)
    by (cases "is_builtin_type T (st_name s)"; cases "is_reserved (st_name s)"; simp add: validate_struct_def Let_def)
  then show ?thesis using True unfolding wanted_def by blast
qed

lemma select_filter:
  "select p xs = Some ys \<Longrightarrow> (\<And>x b. x \<in> set xs \<Longrightarrow> p x = Some b \<Longrightarrow> b \<longleftrightarrow> q x) \<Longrightarrow> ys = filter q xs"
proof (induction xs arbitrary: ys)
  case (Cons x xs)
  then obtain b zs where b: "p x = Some b" "select p xs = Some zs" "ys = (if b then x # zs else zs)"
    by (auto split: option.splits)
  have "b \<longleftrightarrow> q x" by (rule Cons.prems(2)) (simp_all add: b)
  moreover have "zs = filter q xs" by (rule Cons.IH [OF b(2)], rule Cons.prems(2)) simp_all
  ultimately show ?case using b by simp
qed simp

lemma select_Some: "\<forall>x \<in> set xs. \<exists>b. p x = Some b \<Longrightarrow> \<exists>ys. select p xs = Some ys"
  by (induction xs) auto

definition written :: "target \<Rightarrow> abigen \<Rightarrow> abi_struct list" where
  "written T g = filter (wanted T g) (ab_structs (ag_abi g))"

lemma select_written:
  assumes "sorted_wrt typedef_less (ab_typedefs (ag_abi g))" and "select (validate_struct n T g) (ab_structs (ag_abi g)) = Some ss"
  shows "ss = written T g"
  unfolding written_def by (rule select_filter [OF assms(2)], rule validate_struct_wanted [OF assms(1)])

text \<open>The names that count for type definitions.\<close>

definition type_uses :: "target \<Rightarrow> abigen \<Rightarrow> string set" where
  "type_uses T g = {remove_suffix (fl_type f) | s f. s \<in> set (written T g) \<and> f \<in> set (st_fields s)}
     \<union> st_base ` set (written T g)
     \<union> {remove_suffix t | v t. v \<in> set (ab_variants (ag_abi g)) \<and> t \<in> set (va_types v)}
     \<union> tb_type ` set (ab_tables (ag_abi g)) \<union> ac_type ` set (ab_actions (ag_abi g))
     \<union> (\<lambda>td. remove_suffix (td_type td)) ` set (ab_typedefs (ag_abi g))
     \<union> ar_type ` set (ab_action_results (ag_abi g)) \<union> kt_type ` set (ab_kv_tables (ag_abi g))
     \<union> {ki_type i | t i. t \<in> set (ab_kv_tables (ag_abi g)) \<and> i \<in> set (kt_indices t)}"

definition written_types :: "target \<Rightarrow> abigen \<Rightarrow> abi_typedef list" where
  "written_types T g = filter (\<lambda>td. td_new_type_name td \<noteq> td_type td \<and> td_new_type_name td \<in> type_uses T g) (ab_typedefs (ag_abi g))"

lemma valid_structs_use_written:
  assumes "sorted_wrt typedef_less (ab_typedefs (ag_abi g))"
  shows "valid_structs_use n T g nm ss = Some b \<Longrightarrow>
    b \<longleftrightarrow> (\<exists>s \<in> set (filter (wanted T g) ss). (\<exists>f \<in> set (st_fields s). remove_suffix (fl_type f) = nm) \<or> st_base s = nm)"
proof (induction ss arbitrary: b)
  case (Cons s ss)
  from Cons.prems obtain v where v: "validate_struct n T g s = Some v" by (auto split: option.splits)
  have w: "v = wanted T g s" using validate_struct_wanted [OF assms v] by simp
  show ?case
  proof (cases "v \<and> (list_ex (\<lambda>f. remove_suffix (fl_type f) = nm) (st_fields s) \<or> st_base s = nm)")
    case True
    then show ?thesis using Cons.prems v w by (auto simp: list_ex_iff)
  next
    case False
    then have no: "(v \<and> (list_ex (\<lambda>f. remove_suffix (fl_type f) = nm) (st_fields s) \<or> st_base s = nm)) = False" by blast
    have "valid_structs_use n T g nm ss = Some b"
      using Cons.prems unfolding valid_structs_use.simps v option.case no if_False .
    from Cons.IH [OF this] show ?thesis using False w by (auto simp: list_ex_iff)
  qed
qed simp

lemma type_uses_iff:
  "nm \<in> type_uses T g \<longleftrightarrow> (\<exists>s \<in> set (written T g). (\<exists>f \<in> set (st_fields s). remove_suffix (fl_type f) = nm) \<or> st_base s = nm)
     \<or> list_ex (\<lambda>v. list_ex (\<lambda>vt. remove_suffix vt = nm) (va_types v)) (ab_variants (ag_abi g))
     \<or> list_ex (\<lambda>t. tb_type t = nm) (ab_tables (ag_abi g)) \<or> list_ex (\<lambda>a. ac_type a = nm) (ab_actions (ag_abi g))
     \<or> list_ex (\<lambda>td'. remove_suffix (td_type td') = nm) (ab_typedefs (ag_abi g))
     \<or> list_ex (\<lambda>ar. ar_type ar = nm) (ab_action_results (ag_abi g)) \<or> kv_tables_use nm (ab_kv_tables (ag_abi g))"
  unfolding type_uses_def kv_tables_use_def list_ex_iff by blast

lemma validate_types_uses:
  assumes "sorted_wrt typedef_less (ab_typedefs (ag_abi g))" and "validate_types n T g td = Some b"
  shows "b \<longleftrightarrow> td_new_type_name td \<noteq> td_type td \<and> td_new_type_name td \<in> type_uses T g"
proof (cases "td_new_type_name td = td_type td")
  case False
  then obtain u where u: "valid_structs_use n T g (td_new_type_name td) (ab_structs (ag_abi g)) = Some u"
    using assms(2) unfolding validate_types_def Let_def
    by (cases "valid_structs_use n T g (td_new_type_name td) (ab_structs (ag_abi g))") simp_all
  note used = valid_structs_use_written [OF assms(1) u, folded written_def]
  have "b \<longleftrightarrow> td_new_type_name td \<in> type_uses T g"
    using assms(2) unfolding validate_types_def Let_def u option.case if_not_P [OF False] option.inject type_uses_iff used by blast
  with False show ?thesis by simp
qed (use assms(2) in \<open>simp add: validate_types_def Let_def\<close>)

lemma select_types:
  assumes "sorted_wrt typedef_less (ab_typedefs (ag_abi g))" and "select (validate_types n T g) (ab_typedefs (ag_abi g)) = Some ts"
  shows "ts = written_types T g"
  unfolding written_types_def by (rule select_filter [OF assms(2)], rule validate_types_uses [OF assms(1)])

section \<open>The file\<close>

lemma definitions_list:
  "jsoncons_laws J \<Longrightarrow> j_elements J (j_list J xs) = Inr xs"
  using fold_push [of J "j_array J" "[]" xs] by (simp add: j_list_def law_array)

lemma to_json_written:
  assumes "jsoncons_laws J" and "sorted_wrt typedef_less (ab_typedefs (ag_abi g))" and "to_json n J T g = Some r"
  shows "definitions J r ''structs'' = Inr (map (struct_to_json J) (written T g))"
    and "definitions J r ''types'' = Inr (map (typedef_to_json J) (written_types T g))"
    and "definitions J r ''actions'' = Inr (map (action_to_json J) (ab_actions (ag_abi g)))"
    and "definitions J r ''tables'' = Inr (map (table_to_json J) (set_of_tables g))"
proof -
  obtain ss ts where s: "select (validate_struct n T g) (ab_structs (ag_abi g)) = Some ss" "ss = written T g"
      and t: "select (validate_types n T g) (ab_typedefs (ag_abi g)) = Some ts" "ts = written_types T g"
    using assms(3) select_written [OF assms(2)] select_types [OF assms(2)] unfolding to_json_def Let_def
    by (cases "select (validate_struct n T g) (ab_structs (ag_abi g))"; cases "select (validate_types n T g) (ab_typedefs (ag_abi g))") simp_all
  have ob: "is_object J (j_object J)" using law_object [OF assms(1)] by (simp add: is_object_def)
  note put = object_put(1,2) [OF assms(1)]
  have eq: "j_get J r ''structs'' d = Inr (j_list J (map (struct_to_json J) ss))
      \<and> j_get J r ''types'' d = Inr (j_list J (map (typedef_to_json J) ts))
      \<and> j_get J r ''actions'' d = Inr (j_list J (map (action_to_json J) (ab_actions (ag_abi g))))
      \<and> j_get J r ''tables'' d = Inr (j_list J (map (table_to_json J) (set_of_tables g)))" for d
    using assms(3) unfolding to_json_def Let_def s(1) t(1) option.case option.inject
    by (cases "version_has_kv (ag_abi g)") (auto simp: put ob j_text_member_def)
  show "definitions J r ''structs'' = Inr (map (struct_to_json J) (written T g))"
    and "definitions J r ''types'' = Inr (map (typedef_to_json J) (written_types T g))"
    and "definitions J r ''actions'' = Inr (map (action_to_json J) (ab_actions (ag_abi g)))"
    and "definitions J r ''tables'' = Inr (map (table_to_json J) (set_of_tables g))"
    using eq definitions_list [OF assms(1)] s(2) t(2) by (simp_all add: definitions_def)
qed

section \<open>Tables\<close>

lemma pass_tables_keeps:
  "pass_tables t us acc = (b, r) \<Longrightarrow> sorted_wrt table_less acc \<Longrightarrow> sorted_wrt table_less r \<and> set acc \<subseteq> set r \<and> set r \<subseteq> set acc \<union> set us
     \<and> (b \<longleftrightarrow> tb_type t \<in> tb_type ` set us)
     \<and> (\<not> b \<longrightarrow> (\<forall>u \<in> set us. \<exists>v \<in> set r. tb_name v = tb_name u))"
proof (induction us arbitrary: acc)
  case (Cons u us)
  show ?case
  proof (cases "tb_type t = tb_type u")
    case False
    let ?acc = "set_insert table_less u acc"
    have "pass_tables t us ?acc = (b, r)" using Cons.prems(1) False by simp
    from Cons.IH [OF this table_set.insert_sorted [OF Cons.prems(2)]]
    have ih: "sorted_wrt table_less r" "set ?acc \<subseteq> set r" "set r \<subseteq> set ?acc \<union> set us" "b \<longleftrightarrow> tb_type t \<in> tb_type ` set us"
      "\<not> b \<longrightarrow> (\<forall>u \<in> set us. \<exists>v \<in> set r. tb_name v = tb_name u)" by blast+
    obtain v where "v \<in> set ?acc" "tb_name v = tb_name u"
      using table_set.insert_present [of u acc] unfolding table_less_def by (meson less_linear)
    then show ?thesis using ih table_set.insert_subset [of u acc] table_set.insert_keeps [of acc u] False by auto
  qed (use Cons.prems in auto)
qed simp

lemma insert_tables:
  "sorted_wrt table_less acc \<Longrightarrow> sorted_wrt table_less (fold (set_insert table_less) us acc)
     \<and> set acc \<subseteq> set (fold (set_insert table_less) us acc) \<and> set (fold (set_insert table_less) us acc) \<subseteq> set acc \<union> set us
     \<and> (\<forall>u \<in> set us. \<exists>v \<in> set (fold (set_insert table_less) us acc). tb_name v = tb_name u)"
proof (induction us arbitrary: acc)
  case (Cons u us)
  obtain v where "v \<in> set (set_insert table_less u acc)" "tb_name v = tb_name u"
    using table_set.insert_present [of u acc] unfolding table_less_def by (meson less_linear)
  then show ?case using Cons.IH [OF table_set.insert_sorted [OF Cons.prems, of u]]
      table_set.insert_subset [of u acc] table_set.insert_keeps [of acc u] by auto
qed simp

text \<open>Until a declared table is added there are only tables of multi-indexes, from then on all of them.\<close>

definition all_or_only :: "abi_table list \<Rightarrow> abi_table list \<Rightarrow> bool" where
  "all_or_only us acc \<longleftrightarrow> sorted_wrt table_less acc \<and> (set acc \<subseteq> set us \<or> set us \<subseteq> set acc)"

lemma tables_by_name:
  "sorted_wrt table_less us \<Longrightarrow> u \<in> set us \<Longrightarrow> v \<in> set us \<Longrightarrow> tb_name u = tb_name v \<Longrightarrow> u = v"
  by (induction us) (auto simp: table_less_def)

lemma all_tables:
  assumes "sorted_wrt table_less us" and "set acc \<subseteq> set us \<or> set us \<subseteq> set acc" and "set acc \<subseteq> set r"
    and "set r \<subseteq> set acc \<union> set us" and "\<forall>u \<in> set us. \<exists>v \<in> set r. tb_name v = tb_name u"
  shows "set us \<subseteq> set r"
proof
  fix u assume u: "u \<in> set us"
  show "u \<in> set r"
  proof (cases "set us \<subseteq> set acc")
    case False
    obtain v where "v \<in> set r" "tb_name v = tb_name u" using u assms(5) by blast
    moreover from this have "v \<in> set us" using False assms(2,4) by blast
    ultimately show ?thesis using tables_by_name [OF assms(1) _ u] by blast
  qed (use u assms(3) in blast)
qed

lemma add_ctable_keeps:
  assumes "sorted_wrt table_less us" and "all_or_only us acc"
  shows "all_or_only us (add_ctable us t acc) \<and> set acc \<subseteq> set (add_ctable us t acc)
    \<and> (tb_type t \<in> tb_type ` set us \<or> (\<exists>v \<in> set (add_ctable us t acc). tb_name v = tb_name t))
    \<and> (\<forall>x \<in> set (add_ctable us t acc). x \<in> set acc \<union> set us \<or> x = t \<and> tb_type t \<notin> tb_type ` set us)"
proof -
  obtain b r where r: "pass_tables t us acc = (b, r)" by fastforce
  note acc = assms(2) [unfolded all_or_only_def]
  note p = pass_tables_keeps [OF r conjunct1 [OF acc]]
  show ?thesis
  proof (cases b)
    case True
    have "add_ctable us t acc = r" using True by (simp add: add_ctable_def r)
    then show ?thesis using p True acc unfolding all_or_only_def by blast
  next
    case False
    have eq: "add_ctable us t acc = set_insert table_less t r" using False by (simp add: add_ctable_def r)
    have us: "set us \<subseteq> set r" by (rule all_tables [OF assms(1), of acc]) (use p acc False in blast)+
    obtain v where v: "v \<in> set (set_insert table_less t r)" "tb_name v = tb_name t"
      using table_set.insert_present [of t r] unfolding table_less_def by (meson less_linear)
    have ins: "sorted_wrt table_less (set_insert table_less t r)" "set r \<subseteq> set (set_insert table_less t r)"
        "set (set_insert table_less t r) \<subseteq> insert t (set r)"
      using table_set.insert_sorted table_set.insert_keeps table_set.insert_subset p by blast+
    show ?thesis unfolding eq all_or_only_def using ins v us p False by blast
  qed
qed

lemma add_ctables:
  assumes "sorted_wrt table_less us"
  shows "all_or_only us acc \<Longrightarrow> all_or_only us (fold (add_ctable us) ts acc) \<and> set acc \<subseteq> set (fold (add_ctable us) ts acc)
    \<and> (\<forall>t \<in> set ts. tb_type t \<in> tb_type ` set us \<or> (\<exists>v \<in> set (fold (add_ctable us) ts acc). tb_name v = tb_name t))
    \<and> (\<forall>x \<in> set (fold (add_ctable us) ts acc). x \<in> set acc \<union> set us \<or> x \<in> set ts \<and> tb_type x \<notin> tb_type ` set us)"
proof (induction ts arbitrary: acc)
  case (Cons t ts)
  note one = add_ctable_keeps [OF assms Cons.prems, of t]
  let ?r = "fold (add_ctable us) ts (add_ctable us t acc)"
  have ih: "all_or_only us ?r" "set (add_ctable us t acc) \<subseteq> set ?r"
    "\<forall>t \<in> set ts. tb_type t \<in> tb_type ` set us \<or> (\<exists>v \<in> set ?r. tb_name v = tb_name t)"
    "\<forall>x \<in> set ?r. x \<in> set (add_ctable us t acc) \<union> set us \<or> x \<in> set ts \<and> tb_type x \<notin> tb_type ` set us"
    using Cons.IH [OF conjunct1 [OF one]] by blast+
  have "fold (add_ctable us) (t # ts) acc = ?r" by simp
  moreover have "\<forall>x \<in> set ?r. x \<in> set acc \<union> set us \<or> x \<in> set (t # ts) \<and> tb_type x \<notin> tb_type ` set us"
    using ih(4) one unfolding set_simps by blast
  moreover have "\<forall>u \<in> set (t # ts). tb_type u \<in> tb_type ` set us \<or> (\<exists>v \<in> set ?r. tb_name v = tb_name u)"
    using ih(2,3) one unfolding set_simps by blast
  ultimately show ?case using ih(1,2) one by (metis order_trans)
qed simp

text \<open>
  The tables that are written have different names. Every table of a multi-index is one of them, even
  when a declared table has its name; a declared table is one of them, or another with its name is, unless
  a multi-index has its type; no others are.
\<close>
theorem tables_written:
  assumes "sorted_wrt table_less (ab_tables (ag_abi g))"
  shows "sorted_wrt table_less (set_of_tables g) \<and> set (ab_tables (ag_abi g)) \<subseteq> set (set_of_tables g)
    \<and> (\<forall>t \<in> set (ag_ctables g). tb_type t \<notin> tb_type ` set (ab_tables (ag_abi g)) \<longrightarrow> (\<exists>v \<in> set (set_of_tables g). tb_name v = tb_name t))
    \<and> set (set_of_tables g) \<subseteq> set (ab_tables (ag_abi g)) \<union> {t \<in> set (ag_ctables g). tb_type t \<notin> tb_type ` set (ab_tables (ag_abi g))}"
proof -
  let ?us = "ab_tables (ag_abi g)" and ?acc = "fold (add_ctable (ab_tables (ag_abi g))) (ag_ctables g) []"
  have "all_or_only ?us []" by (simp add: all_or_only_def)
  note cs = add_ctables [OF assms this, of "ag_ctables g"]
  then have acc: "sorted_wrt table_less ?acc" "set ?acc \<subseteq> set ?us \<or> set ?us \<subseteq> set ?acc" unfolding all_or_only_def by blast+
  note us = insert_tables [OF acc(1), of ?us]
  have "set ?us \<subseteq> set (set_of_tables g)" unfolding set_of_tables_def
    by (rule all_tables [OF assms acc(2)]) (use us in blast)+
  moreover have "\<forall>x \<in> set (set_of_tables g). x \<in> set ?us \<or> x \<in> set (ag_ctables g) \<and> tb_type x \<notin> tb_type ` set ?us"
    using us cs unfolding set_of_tables_def set_simps by blast
  moreover have "\<forall>t \<in> set (ag_ctables g). tb_type t \<notin> tb_type ` set ?us \<longrightarrow> (\<exists>v \<in> set (set_of_tables g). tb_name v = tb_name t)"
    using us cs unfolding set_of_tables_def by blast
  moreover have "sorted_wrt table_less (set_of_tables g)" using us unfolding set_of_tables_def by blast
  ultimately show ?thesis by blast
qed

definition table_named :: "string \<Rightarrow> string \<Rightarrow> abi_table" where
  "table_named name type = \<lparr>tb_name = name, tb_type = type, tb_index_type = ''i64'', tb_key_names = [], tb_key_types = []\<rparr>"

definition empty_abi :: abi where
  "empty_abi = \<lparr>version_major = 1, version_minor = 2, ab_structs = [], ab_typedefs = [], ab_actions = [], ab_tables = [], ab_kv_tables = [],
     ab_variants = [], ab_ricardian_clauses = [], ab_error_messages = [], ab_wasm_actions = [], ab_wasm_notifies = [], ab_wasm_entries = [],
     ab_action_results = []\<rparr>"

definition generator :: "abi \<Rightarrow> abi_table list \<Rightarrow> abigen" where
  "generator A ts = \<lparr>ag_abi = A, ag_ctables = ts, ag_pb_types = []\<rparr>"

theorem tables_written_witness:
  "let us = [table_named ''a'' ''x'', table_named ''b'' ''y''];
       g = generator (empty_abi\<lparr>ab_tables := us\<rparr>) [table_named ''a'' ''z'', table_named ''c'' ''y'']
   in set us \<subseteq> set (set_of_tables g) \<and> set_of_tables g = us"
proof -
  let ?us = "[table_named ''a'' ''x'', table_named ''b'' ''y'']"
  let ?g = "generator (empty_abi\<lparr>ab_tables := ?us\<rparr>) [table_named ''a'' ''z'', table_named ''c'' ''y'']"
  have us: "ab_tables (ag_abi ?g) = ?us" by (simp add: generator_def)
  have "sorted_wrt table_less ?us" by (simp add: table_less_def table_named_def less_char_def)
  moreover have "set_of_tables ?g = ?us" by code_simp
  ultimately show ?thesis using tables_written [of ?g] unfolding us Let_def by blast
qed

lemma ends_Some: "\<exists>b. Some c = Some b"
  by simp

lemma ends_if: "\<exists>b. x = Some b \<Longrightarrow> \<exists>b. y = Some b \<Longrightarrow> \<exists>b. (if P then x else y) = Some b"
  by simp

lemma structs_use_ends:
  assumes "acyclic (follows (ab_typedefs A))" and "length (ab_typedefs A) < n"
  shows "\<exists>b. structs_use n A nm ss = Some b"
proof (induction ss)
  case (Cons s ss)
  obtain y where y: "get_root_name n (ab_typedefs A) (st_base s) = Some y" using enough_fuel [OF assms] by blast
  obtain b where "structs_use n A nm ss = Some b" using Cons by blast
  then have "structs_use n A nm (s # ss) = Some (field_uses nm s \<or> variants_use nm (ab_variants A) \<or> y = nm \<or> b)" by (simp add: y)
  then show ?case by blast
qed (simp only: structs_use.simps ends_Some)

lemma validate_struct_ends:
  assumes "acyclic (follows (ab_typedefs (ag_abi g)))" and "length (ab_typedefs (ag_abi g)) < n"
  shows "\<exists>b. validate_struct n T g s = Some b"
proof -
  obtain u where "structs_use n (ag_abi g) (st_name s) (ab_structs (ag_abi g)) = Some u"
    using structs_use_ends [OF assms] by blast
  note u = this
  show ?thesis unfolding validate_struct_def Let_def u option.case by (intro ends_if ends_Some)
qed

lemma validate_types_ends:
  assumes "acyclic (follows (ab_typedefs (ag_abi g)))" and "length (ab_typedefs (ag_abi g)) < n"
  shows "\<exists>b. validate_types n T g td = Some b"
proof -
  have "\<exists>b. valid_structs_use n T g nm ss = Some b" for nm ss
  proof (induction ss)
    case (Cons s ss)
    obtain v where v: "validate_struct n T g s = Some v" using validate_struct_ends [OF assms] by blast
    show ?case unfolding valid_structs_use.simps v option.case by (intro ends_if ends_Some Cons)
  qed (simp only: valid_structs_use.simps ends_Some)
  then obtain u where u: "valid_structs_use n T g (td_new_type_name td) (ab_structs (ag_abi g)) = Some u" by blast
  show ?thesis unfolding validate_types_def Let_def u option.case by (intro ends_if ends_Some)
qed

text \<open>
  C40. Writing the ABI ends when no type definition leads back to itself: then one step per type definition
  is enough to follow them. \<open>validate_types\<close> is prepared for type definitions of a name as itself, \<open>get_root_name\<close>
  is not: with a struct whose base has such a name it calls itself for ever.
\<close>
theorem to_json_ends:
  assumes "acyclic (follows (ab_typedefs (ag_abi g)))" and "length (ab_typedefs (ag_abi g)) < n"
  shows "\<exists>r. to_json n J T g = Some r"
proof -
  have "\<exists>ss. select (validate_struct n T g) (ab_structs (ag_abi g)) = Some ss"
    by (rule select_Some) (use validate_struct_ends [OF assms] in blast)
  moreover have "\<exists>ts. select (validate_types n T g) (ab_typedefs (ag_abi g)) = Some ts"
    by (rule select_Some) (use validate_types_ends [OF assms] in blast)
  ultimately obtain ss ts where s: "select (validate_struct n T g) (ab_structs (ag_abi g)) = Some ss"
      and t: "select (validate_types n T g) (ab_typedefs (ag_abi g)) = Some ts"
    by (elim exE)
  show ?thesis unfolding to_json_def Let_def s t option.case by (rule ends_Some)
qed

definition struct_named :: "string \<Rightarrow> string \<Rightarrow> abi_field list \<Rightarrow> abi_struct" where
  "struct_named name base fs = \<lparr>st_name = name, st_base = base, st_fields = fs\<rparr>"

abbreviation wasm_target :: target where
  "wasm_target \<equiv> \<lparr>is_wasm = True, long_bits = 64, int_bits = 32\<rparr>"

text \<open>A struct \<open>D\<close> with a base whose name a type definition gives to \<open>S\<close>.\<close>

definition derived :: "string \<Rightarrow> abigen" where
  "derived base = generator (empty_abi\<lparr>ab_structs := [struct_named ''D'' base [], struct_named ''S'' [] []],
     ab_typedefs := [\<lparr>td_new_type_name = base, td_type = ''S''\<rparr>]\<rparr>) []"

theorem to_json_ends_witness:
  "(\<exists>r. to_json 2 json_lib wasm_target (derived ''B'') = Some r) \<and> \<not> (\<exists>n r. to_json n json_lib wasm_target (derived ''S'') = Some r)"
proof
  have e: "acyclic ({} :: (string \<times> string) set)" by (simp add: acyclic_def)
  have "follows (ab_typedefs (ag_abi (derived ''B''))) = {(''B'', ''S'')}"
    by (simp add: follows_def derived_def generator_def remove_suffix_def is_suffix_char_def)
  then have "acyclic (follows (ab_typedefs (ag_abi (derived ''B''))))" using e by (simp add: acyclic_insert)
  then show "\<exists>r. to_json 2 json_lib wasm_target (derived ''B'') = Some r"
    by (rule to_json_ends) (simp add: derived_def generator_def)
  let ?td = "\<lparr>td_new_type_name = ''S'', td_type = ''S''\<rparr>"
  have loop: "get_root_name n [?td] ''S'' = None" for n
    by (rule circular_never_ends [of _ ?td]) (simp_all add: typedef_less_def remove_suffix_def is_suffix_char_def)
  have d: "ab_structs (ag_abi (derived ''S'')) = [struct_named ''D'' ''S'' [], struct_named ''S'' [] []]"
      "ab_typedefs (ag_abi (derived ''S'')) = [?td]" "ab_variants (ag_abi (derived ''S'')) = []"
    by (simp_all add: derived_def generator_def empty_abi_def)
  have n: "st_name (struct_named ''D'' ''S'' []) = ''D''" by (simp add: struct_named_def)
  have "structs_use n (ag_abi (derived ''S'')) ''D'' [struct_named ''D'' ''S'' [], struct_named ''S'' [] []] = None" for n
    by (simp add: d loop struct_named_def field_uses_def variants_use_def)
  moreover have "is_builtin_type wasm_target ''D'' = False" by code_simp
  moreover have "is_reserved ''D'' = False" by simp
  ultimately have "validate_struct n wasm_target (derived ''S'') (struct_named ''D'' ''S'' []) = None" for n
    unfolding validate_struct_def Let_def d n by (simp only: if_False option.case)
  then have "select (validate_struct n wasm_target (derived ''S'')) (ab_structs (ag_abi (derived ''S''))) = None" for n
    unfolding d by (simp only: select.simps option.case)
  then show "\<not> (\<exists>n r. to_json n json_lib wasm_target (derived ''S'') = Some r)"
    unfolding to_json_def Let_def by (simp only: option.case option.distinct not_False_eq_True simp_thms)
qed

section \<open>The ABI is closed\<close>

text \<open>
  The type names that an ABI with the structs \<open>ss\<close>, the type definitions \<open>ts\<close> and the tables \<open>tbs\<close> refers to:
  element types for fields, alternatives and type definitions, whole names elsewhere.
\<close>

definition abi_names :: "abi \<Rightarrow> abi_struct list \<Rightarrow> abi_typedef list \<Rightarrow> abi_table list \<Rightarrow> string set" where
  "abi_names A ss ts tbs = {remove_suffix (fl_type f) | s f. s \<in> set ss \<and> f \<in> set (st_fields s)} \<union> st_base ` set ss
     \<union> {remove_suffix t | v t. v \<in> set (ab_variants A) \<and> t \<in> set (va_types v)}
     \<union> (\<lambda>td. remove_suffix (td_type td)) ` set ts \<union> ac_type ` set (ab_actions A) \<union> tb_type ` set tbs
     \<union> ar_type ` set (ab_action_results A) \<union> kt_type ` set (ab_kv_tables A)
     \<union> {ki_type i | t i. t \<in> set (ab_kv_tables A) \<and> i \<in> set (kt_indices t)}"

text \<open>A name that needs a definition: of a struct that is not built in or reserved, or of a type definition for another name.\<close>

definition needs_definition :: "target \<Rightarrow> abi \<Rightarrow> string \<Rightarrow> bool" where
  "needs_definition T A nm \<longleftrightarrow> (nm \<in> st_name ` set (ab_structs A) \<and> \<not> is_builtin_type T nm \<and> \<not> is_reserved nm)
     \<or> (\<exists>td \<in> set (ab_typedefs A). td_new_type_name td = nm \<and> td_type td \<noteq> nm)"

definition plain_names :: "abi \<Rightarrow> bool" where
  "plain_names A \<longleftrightarrow> (\<forall>nm \<in> st_name ` set (ab_structs A) \<union> td_new_type_name ` set (ab_typedefs A). remove_suffix nm = nm)"

lemma tables_come_from:
  "set (set_of_tables g) \<subseteq> set (ab_tables (ag_abi g)) \<union> set (ag_ctables g)"
proof -
  have pass: "set (snd (pass_tables t us acc)) \<subseteq> set us \<union> set acc" for t us acc
  proof (induction us arbitrary: acc)
    case (Cons u us)
    show ?case using Cons [of "set_insert table_less u acc"] table_set.insert_subset [of u acc] by auto
  qed simp
  have add: "set (add_ctable us t acc) \<subseteq> set us \<union> insert t (set acc)" for us t acc
    using pass [of t us acc] table_set.insert_subset [of t "snd (pass_tables t us acc)"]
    unfolding add_ctable_def by (cases "pass_tables t us acc") auto
  have ctables: "set (fold (add_ctable us) cs acc) \<subseteq> set us \<union> set cs \<union> set acc" for us cs acc
  proof (induction cs arbitrary: acc)
    case (Cons c cs)
    show ?case using Cons [of "add_ctable us c acc"] add [of us c acc] by auto
  qed simp
  have tables: "set (fold (set_insert table_less) xs acc) \<subseteq> set xs \<union> set acc" for xs acc
  proof (induction xs arbitrary: acc)
    case (Cons x xs)
    show ?case using Cons [of "set_insert table_less x acc"] table_set.insert_subset [of x acc] by auto
  qed simp
  let ?acc = "fold (add_ctable (ab_tables (ag_abi g))) (ag_ctables g) []"
  have "set ?acc \<subseteq> set (ab_tables (ag_abi g)) \<union> set (ag_ctables g)" using ctables [of _ _ "[]"] by simp
  then show ?thesis unfolding set_of_tables_def using tables [of "ab_tables (ag_abi g)" ?acc] by blast
qed

lemma root_range: "root tds x y \<Longrightarrow> y = x \<or> y \<in> td_type ` set tds"
  by (induction rule: root.induct) auto

lemma structs_use_roots:
  "structs_use n A nm ss = Some False \<Longrightarrow> s \<in> set ss \<Longrightarrow> \<exists>r. get_root_name n (ab_typedefs A) (st_base s) = Some r \<and> r \<noteq> nm"
  by (induction ss) (auto split: if_splits option.splits)

lemma select_decides: "select p xs = Some ys \<Longrightarrow> x \<in> set xs \<Longrightarrow> \<exists>b. p x = Some b"
  by (induction xs arbitrary: ys) (auto split: option.splits)

lemma written_base:
  assumes "sorted_wrt typedef_less (ab_typedefs (ag_abi g))" and "to_json n J T g = Some r" and "plain_names (ag_abi g)"
    and "s \<in> set (written T g)" and "t \<in> set (ab_structs (ag_abi g))" and "st_name t = st_base s"
    and "\<not> is_builtin_type T (st_name t)" and "\<not> is_reserved (st_name t)"
  shows "t \<in> set (written T g) \<or> (\<exists>td \<in> set (ab_typedefs (ag_abi g)). td_new_type_name td = st_base s \<and> td_type td \<noteq> st_base s)"
proof (rule disjCI)
  assume no: "\<not> (\<exists>td \<in> set (ab_typedefs (ag_abi g)). td_new_type_name td = st_base s \<and> td_type td \<noteq> st_base s)"
  have "\<exists>ss. select (validate_struct n T g) (ab_structs (ag_abi g)) = Some ss"
    using assms(2) unfolding to_json_def Let_def by (cases "select (validate_struct n T g) (ab_structs (ag_abi g))") simp_all
  then obtain ss where "select (validate_struct n T g) (ab_structs (ag_abi g)) = Some ss" ..
  from select_decides [OF this assms(5)] obtain b where b: "validate_struct n T g t = Some b" ..
  show "t \<in> set (written T g)"
  proof (cases b)
    case True
    then show ?thesis using validate_struct_wanted [OF assms(1) b] assms(5) by (simp add: written_def)
  next
    case False
    obtain u where u: "structs_use n (ag_abi g) (st_name t) (ab_structs (ag_abi g)) = Some u"
      using b assms(7,8) unfolding validate_struct_def Let_def
      by (cases "structs_use n (ag_abi g) (st_name t) (ab_structs (ag_abi g))") simp_all
    have "\<not> u" using b False assms(7,8) unfolding validate_struct_def Let_def u by simp
    then have f: "structs_use n (ag_abi g) (st_name t) (ab_structs (ag_abi g)) = Some False" using u by simp
    have s: "s \<in> set (ab_structs (ag_abi g))" using assms(4) by (simp add: written_def)
    obtain r where r: "get_root_name n (ab_typedefs (ag_abi g)) (st_base s) = Some r" "r \<noteq> st_name t"
      using structs_use_roots [OF f s] by blast
    have plain: "remove_suffix (st_base s) = st_base s" using assms(3,5) unfolding plain_names_def assms(6) [symmetric] by blast
    show ?thesis
    proof (cases "st_base s \<in> td_new_type_name ` set (ab_typedefs (ag_abi g))")
      case True
      then obtain td where td: "td \<in> set (ab_typedefs (ag_abi g))" "td_new_type_name td = st_base s" by auto
      then have "td_type td = st_base s" using no by blast
      then have "get_root_name n (ab_typedefs (ag_abi g)) (st_base s) = None"
        by (intro circular_never_ends [OF assms(1) td(1)]) (simp_all add: td plain)
      with r show ?thesis by simp
    next
      case False
      then have "root (ab_typedefs (ag_abi g)) (st_base s) (st_base s)" by (intro root.here) (simp add: plain)
      then have "r = st_base s" using root_unique [OF assms(1) get_root_name_root [OF r(1)]] by simp
      with r assms(6) show ?thesis by simp
    qed
  qed
qed

lemma structs_referred:
  assumes "plain_names (ag_abi g)" and "s \<in> set (ab_structs (ag_abi g))" and "st_name s \<in> mentioned g"
  shows "st_name s \<in> abi_names (ag_abi g) (ab_structs (ag_abi g)) (ab_typedefs (ag_abi g)) (set_of_tables g)"
  using assms(3)
proof cases
  case (base u)
  have plain: "remove_suffix (st_name s) = st_name s" using assms(1,2) by (simp add: plain_names_def)
  from root_range [OF base(2)] show ?thesis
  proof
    assume "st_name s = st_base u"
    then show ?thesis using base(1) by (simp add: abi_names_def)
  next
    assume "st_name s \<in> td_type ` set (ab_typedefs (ag_abi g))"
    then obtain td where "td \<in> set (ab_typedefs (ag_abi g))" "remove_suffix (td_type td) = st_name s" using plain by auto
    then have "st_name s \<in> (\<lambda>td. remove_suffix (td_type td)) ` set (ab_typedefs (ag_abi g))" by force
    then show ?thesis unfolding abi_names_def by blast
  qed
qed (unfold abi_names_def; blast)+

lemma names_defined:
  assumes "sorted_wrt typedef_less (ab_typedefs (ag_abi g))" and "to_json n J T g = Some r" and "plain_names (ag_abi g)"
    and "\<forall>t \<in> set (ag_ctables g). tb_type t \<notin> td_new_type_name ` set (ab_typedefs (ag_abi g))"
    and "nm \<in> abi_names (ag_abi g) (written T g) (written_types T g) (set_of_tables g)" and "needs_definition T (ag_abi g) nm"
  shows "nm \<in> st_name ` set (written T g) \<union> td_new_type_name ` set (written_types T g)"
proof -
  let ?A = "ag_abi g"
  have typed: "nm \<in> td_new_type_name ` set (written_types T g)"
    if td: "td \<in> set (ab_typedefs ?A)" "td_new_type_name td = nm" "td_type td \<noteq> nm" for td
  proof -
    have "nm \<in> tb_type ` set (ab_tables ?A)" if tab: "nm \<in> tb_type ` set (set_of_tables g)"
    proof -
      obtain t where t: "t \<in> set (set_of_tables g)" "tb_type t = nm" using tab by auto
      then have "t \<notin> set (ag_ctables g)" using assms(4) td(1,2) by force
      then show ?thesis using t tables_come_from [of g] by blast
    qed
    then have "nm \<in> type_uses T g"
      using assms(5) unfolding abi_names_def type_uses_def written_types_def by auto
    then have "td \<in> set (written_types T g)" using td by (auto simp: written_types_def)
    then show ?thesis using td(2) by blast
  qed
  show ?thesis
  proof (cases "\<exists>td \<in> set (ab_typedefs ?A). td_new_type_name td = nm \<and> td_type td \<noteq> nm")
    case True
    then show ?thesis using typed by blast
  next
    case False
    then obtain t where t: "t \<in> set (ab_structs ?A)" "st_name t = nm" "\<not> is_builtin_type T (st_name t)" "\<not> is_reserved (st_name t)"
      using assms(6) unfolding needs_definition_def by blast
    have "t \<in> set (written T g)"
    proof (cases "nm \<in> st_base ` set (written T g)")
      case True
      then show ?thesis using written_base [OF assms(1-3) _ t(1) _ t(3,4)] t(2) False by blast
    next
      case base: False
      have "nm \<in> mentioned g"
        using assms(5) base unfolding abi_names_def written_def written_types_def by (auto intro: mentioned.intros)
      then show ?thesis using t by (auto simp: written_def wanted_def)
    qed
    then show ?thesis using t(2) by blast
  qed
qed

text \<open>
  C38. The structs and type definitions of the ABI are some of those of the contract in their order, all its
  actions and the set of its tables. They are closed: a name that a written struct (its base, the element types
  of its fields), a written type definition, an alternative, an action, a table, an action result or a key-value
  table refers to, and that needs a definition, has one in the ABI. And nothing is superfluous: a written
  struct is neither built in nor reserved, and it or a written type definition is referred to.
  Suffixes such as \<open>[]\<close> are not taken off the types of action results and of key-value tables and
  indices: these refer to their whole names, and the struct behind a result \<open>item[]\<close> is not in the
  ABI unless something else refers to it. Names are assumed to be without suffix, and declared tables to have types
  that no type definition names.
\<close>
theorem abi_is_closed:
  assumes "jsoncons_laws J" and "sorted_wrt typedef_less (ab_typedefs (ag_abi g))" and "to_json n J T g = Some r"
    and "plain_names (ag_abi g)" and "\<forall>t \<in> set (ag_ctables g). tb_type t \<notin> td_new_type_name ` set (ab_typedefs (ag_abi g))"
  shows "\<exists>ss ts. definitions J r ''structs'' = Inr (map (struct_to_json J) ss)
    \<and> definitions J r ''types'' = Inr (map (typedef_to_json J) ts)
    \<and> definitions J r ''actions'' = Inr (map (action_to_json J) (ab_actions (ag_abi g)))
    \<and> definitions J r ''tables'' = Inr (map (table_to_json J) (set_of_tables g))
    \<and> subseq ss (ab_structs (ag_abi g)) \<and> subseq ts (ab_typedefs (ag_abi g))
    \<and> (\<forall>nm \<in> abi_names (ag_abi g) ss ts (set_of_tables g). needs_definition T (ag_abi g) nm \<longrightarrow>
         nm \<in> st_name ` set ss \<union> td_new_type_name ` set ts)
    \<and> (\<forall>s \<in> set ss. \<not> is_builtin_type T (st_name s) \<and> \<not> is_reserved (st_name s)
         \<and> st_name s \<in> abi_names (ag_abi g) (ab_structs (ag_abi g)) (ab_typedefs (ag_abi g)) (set_of_tables g))
    \<and> (\<forall>td \<in> set ts. td_new_type_name td \<noteq> td_type td
         \<and> td_new_type_name td \<in> abi_names (ag_abi g) ss (ab_typedefs (ag_abi g)) (ab_tables (ag_abi g)))"
proof -
  let ?A = "ag_abi g" and ?ss = "written T g" and ?ts = "written_types T g"
  have closed: "nm \<in> st_name ` set ?ss \<union> td_new_type_name ` set ?ts"
    if nm: "nm \<in> abi_names ?A ?ss ?ts (set_of_tables g)" "needs_definition T ?A nm" for nm
    by (rule names_defined [OF assms(2-5) nm])
  have "\<forall>s \<in> set ?ss. \<not> is_builtin_type T (st_name s) \<and> \<not> is_reserved (st_name s)
      \<and> st_name s \<in> abi_names ?A (ab_structs ?A) (ab_typedefs ?A) (set_of_tables g)"
    using structs_referred [OF assms(4)] by (auto simp: written_def wanted_def)
  moreover have "\<forall>td \<in> set ?ts. td_new_type_name td \<noteq> td_type td
      \<and> td_new_type_name td \<in> abi_names ?A ?ss (ab_typedefs ?A) (ab_tables ?A)"
    unfolding written_types_def type_uses_def abi_names_def by auto
  moreover have "subseq ?ss (ab_structs ?A)" "subseq ?ts (ab_typedefs ?A)"
    by (simp_all add: written_def written_types_def subseq_filter_left)
  ultimately show ?thesis
    using to_json_written [OF assms(1-3)] closed by (intro exI [of _ ?ss] exI [of _ ?ts]) blast
qed

definition field_of :: "string \<Rightarrow> string \<Rightarrow> abi_field" where
  "field_of name type = \<lparr>fl_name = name, fl_type = type\<rparr>"

text \<open>\<open>std::vector<item> act(std::vector<foo> x);\<close>\<close>

definition returns_items :: abigen where
  "returns_items = generator (empty_abi\<lparr>ab_actions := [\<lparr>ac_name = ''act'', ac_type = ''act'', ac_ricardian_contract = []\<rparr>],
     ab_structs := [struct_named ''act'' [] [field_of ''x'' ''foo[]''], struct_named ''foo'' [] [], struct_named ''item'' [] []],
     ab_action_results := [\<lparr>ar_name = ''act'', ar_type = ''item[]''\<rparr>]\<rparr>) []"

theorem abi_is_closed_witness:
  "\<exists>ss ts. map (struct_to_json json_lib) ss
       = [struct_to_json json_lib (struct_named ''act'' [] [field_of ''x'' ''foo[]'']), struct_to_json json_lib (struct_named ''foo'' [] [])]
     \<and> abi_names (ag_abi returns_items) ss ts [] \<inter> {nm. needs_definition wasm_target (ag_abi returns_items) nm}
         \<subseteq> st_name ` set ss \<union> td_new_type_name ` set ts
     \<and> needs_definition wasm_target (ag_abi returns_items) ''item'' \<and> ar_type ` set (ab_action_results (ag_abi returns_items)) = {''item[]''}"
proof -
  let ?ss = "[struct_to_json json_lib (struct_named ''act'' [] [field_of ''x'' ''foo[]'']), struct_to_json json_lib (struct_named ''foo'' [] [])]"
  have "map_option (\<lambda>r. definitions json_lib r ''structs'') (to_json 1 json_lib wasm_target returns_items) = Some (Inr ?ss)"
    by code_simp
  then obtain r where r: "to_json 1 json_lib wasm_target returns_items = Some r" "definitions json_lib r ''structs'' = Inr ?ss"
    by (auto simp: map_option_case split: option.splits)
  have g: "sorted_wrt typedef_less (ab_typedefs (ag_abi returns_items))" "ag_ctables returns_items = []" "set_of_tables returns_items = []"
    "plain_names (ag_abi returns_items)"
    by (simp_all add: returns_items_def generator_def empty_abi_def set_of_tables_def plain_names_def struct_named_def
        remove_suffix_def is_suffix_char_def)
  have item: "needs_definition wasm_target (ag_abi returns_items) ''item''"
    by (simp add: needs_definition_def returns_items_def generator_def struct_named_def is_builtin_type_def builtins_def translate_name_def
        translate_builtin_type_def get_translation_table_def)
  have "\<forall>t \<in> set (ag_ctables returns_items). tb_type t \<notin> td_new_type_name ` set (ab_typedefs (ag_abi returns_items))"
    by (simp add: g(2))
  from abi_is_closed [OF json_lib_laws g(1) r(1) g(4) this] obtain ss ts where
    "?ss = map (struct_to_json json_lib) ss" "\<forall>nm \<in> abi_names (ag_abi returns_items) ss ts []. needs_definition wasm_target (ag_abi returns_items) nm \<longrightarrow>
         nm \<in> st_name ` set ss \<union> td_new_type_name ` set ts"
    unfolding r(2) g(3) sum.inject by (elim exE conjE) (rule that)
  then show ?thesis using item by (intro exI [of _ ss] exI [of _ ts]) (auto simp: returns_items_def generator_def)
qed

section \<open>Generating and merging\<close>

text \<open>What reading a value of the JSON library yields, in terms of its members and elements.\<close>

definition jsoncons_reads :: "'j jsoncons \<Rightarrow> bool" where
  "jsoncons_reads J \<longleftrightarrow>
     (\<forall>v ms k x. j_members J v = Inr ms \<longrightarrow> map_of ms k = Some x \<longrightarrow> j_at J v k = Inr x)
     \<and> (\<forall>v k x xs. j_at J v k = Inr x \<longrightarrow> j_elements J x = Inr xs \<longrightarrow> j_size_at J v k = Inr (length xs))
     \<and> (\<forall>s t. j_string J s = j_string J t \<longleftrightarrow> s = t)"

lemma read_member: "jsoncons_reads J \<Longrightarrow> j_members J v = Inr ms \<Longrightarrow> map_of ms k = Some x \<Longrightarrow> j_at J v k = Inr x"
  and read_size: "jsoncons_reads J \<Longrightarrow> j_at J v k = Inr x \<Longrightarrow> j_elements J x = Inr xs \<Longrightarrow> j_size_at J v k = Inr (length xs)"
  and read_string: "jsoncons_reads J \<Longrightarrow> j_string J s = j_string J t \<longleftrightarrow> s = t"
  unfolding jsoncons_reads_def by blast+

lemma json_lib_reads: "jsoncons_reads json_lib"
  by (auto simp: jsoncons_reads_def json_lib_def json_view)

abbreviation field_texts :: "'j jsoncons \<Rightarrow> abi_struct \<Rightarrow> ('j \<times> 'j) list" where
  "field_texts J s \<equiv> map (\<lambda>f. (j_string J (fl_name f), j_string J (fl_type f))) (st_fields s)"

lemma struct_read:
  assumes "jsoncons_laws J" and "jsoncons_reads J"
  shows "reads_struct J (struct_to_json J s) (j_string J (st_name s)) (j_string J (st_base s)) (field_texts J s)"
proof -
  note ob = law_object [OF assms(1)] and put = law_put [OF assms(1)]
  have ms: "j_members J (struct_to_json J s) = Inr (AList.update ''fields'' (j_list J (map (field_to_json J) (st_fields s)))
      (AList.update ''base'' (j_string J (st_base s)) (AList.update ''name'' (j_string J (st_name s)) [])))"
    unfolding struct_to_json_def j_text_member_def by (intro put ob)
  have at: "j_at J (struct_to_json J s) ''name'' = Inr (j_string J (st_name s))" "j_at J (struct_to_json J s) ''base'' = Inr (j_string J (st_base s))"
      "j_at J (struct_to_json J s) ''fields'' = Inr (j_list J (map (field_to_json J) (st_fields s)))"
    by (rule read_member [OF assms(2) ms]; simp)+
  have "j_at J (field_to_json J f) ''name'' = Inr (j_string J (fl_name f)) \<and> j_at J (field_to_json J f) ''type'' = Inr (j_string J (fl_type f))" for f
  proof -
    have ms: "j_members J (field_to_json J f) = Inr (AList.update ''type'' (j_string J (fl_type f)) (AList.update ''name'' (j_string J (fl_name f)) []))"
      unfolding field_to_json_def j_text_member_def by (intro put ob)
    show ?thesis by (intro conjI; rule read_member [OF assms(2) ms]; simp)
  qed
  then have "list_all2 (\<lambda>e f. j_at J e ''name'' = Inr (fst f) \<and> j_at J e ''type'' = Inr (snd f)) (map (field_to_json J) (st_fields s)) (field_texts J s)"
    by (simp add: list_all2_conv_all_nth)
  then show ?thesis using at read_size [OF assms(2) at(3) definitions_list [OF assms(1)]] definitions_list [OF assms(1)]
    by (simp add: reads_struct_def)
qed

lemma struct_same_name_iff:
  assumes "jsoncons_laws J" and "jsoncons_reads J"
  shows "same_id J ''name'' (struct_to_json J s) (struct_to_json J t) \<longleftrightarrow> st_name s = st_name t"
  using struct_read [OF assms, of s] struct_read [OF assms, of t] read_string [OF assms(2)]
  by (simp add: reads_struct_def same_at_def law_equal [OF assms(1)])

lemma struct_same_fields:
  assumes "jsoncons_laws J" and "jsoncons_reads J" and "struct_is_same J (struct_to_json J s) (struct_to_json J t) = Inr True"
  shows "st_base s = st_base t \<and> length (st_fields s) = length (st_fields t) \<and> set (st_fields s) \<subseteq> set (st_fields t)"
proof -
  note same = struct_same_iff [OF assms(1) struct_read [OF assms(1,2)] struct_read [OF assms(1,2)]]
  then have "set (field_texts J s) \<subseteq> set (field_texts J t)" "st_base s = st_base t" "length (st_fields s) = length (st_fields t)"
    using assms(3) read_string [OF assms(2)] by simp_all
  moreover have "inj (\<lambda>f :: abi_field. (j_string J (fl_name f), j_string J (fl_type f)))"
    using read_string [OF assms(2)] by (intro injI abi_field.equality) simp_all
  ultimately show ?thesis by (simp add: inj_image_subset_iff)
qed

text \<open>
  C39. Merging the ABI files of two translation units: the result has the structs written for the first,
  in their order, and then those written for the second that have new names. Structs with the same name in both have the
  same base and the same fields; otherwise nothing is merged.
\<close>
theorem generated_abis_merge:
  assumes "jsoncons_laws J" and "jsoncons_reads J"
    and "sorted_wrt typedef_less (ab_typedefs (ag_abi g))" and "sorted_wrt typedef_less (ab_typedefs (ag_abi h))"
    and "to_json n J T g = Some a" and "to_json m J T h = Some b" and "merge J a b = Inr r"
  shows "definitions J r ''structs''
      = Inr (map (struct_to_json J) (written T g @ filter (\<lambda>t. st_name t \<notin> st_name ` set (written T g)) (written T h)))
    \<and> (\<forall>s \<in> set (written T g). \<forall>t \<in> set (written T h). st_name s = st_name t \<longrightarrow>
         st_base s = st_base t \<and> length (st_fields s) = length (st_fields t) \<and> set (st_fields s) \<subseteq> set (st_fields t))"
proof -
  have sec: "(''structs'', ''name'', struct_is_same J) \<in> set (abi_sections J)" by (simp add: abi_sections_def)
  obtain v where v: "add_object_to_array J (j_array J) a b ''structs'' ''name'' (struct_is_same J) = Inr v"
      "j_get J r ''structs'' (j_array J) = Inr v"
    using sections_merged [OF assms(1,7) sec] by blast
  obtain cs where cs: "j_elements J v = Inr cs"
      "merged_from J ''name'' (struct_is_same J) (map (struct_to_json J) (written T g)) (map (struct_to_json J) (written T h)) cs"
    using definition_kind.merge_section [OF section_kinds [OF sec] assms(1) v(1)]
      to_json_written(1) [OF assms(1,3,5)] to_json_written(1) [OF assms(1,4,6)] by auto
  have "fresh J ''name'' (map (struct_to_json J) (written T g)) (map (struct_to_json J) (written T h))
      = map (struct_to_json J) (filter (\<lambda>t. st_name t \<notin> st_name ` set (written T g)) (written T h))"
    unfolding fresh_def filter_map comp_def using struct_same_name_iff [OF assms(1,2)] by (simp add: image_iff) metis
  moreover have "struct_is_same J (struct_to_json J s) (struct_to_json J t) = Inr True"
    if "s \<in> set (written T g)" "t \<in> set (written T h)" "st_name s = st_name t" for s t
    using cs(2) that struct_same_name_iff [OF assms(1,2)] unfolding merged_from_def by auto
  ultimately show ?thesis using cs v(2) struct_same_fields [OF assms(1,2)] unfolding merged_from_def definitions_def by auto
qed

definition uses_foo :: "string \<Rightarrow> abigen" where
  "uses_foo name = generator (empty_abi\<lparr>ab_actions := [\<lparr>ac_name = name, ac_type = name, ac_ricardian_contract = []\<rparr>],
     ab_structs := [struct_named name [] [field_of ''x'' ''foo[]''], struct_named ''foo'' [] [field_of ''y'' ''int8'']]\<rparr>) []"

lemma uses_foo_merge:
  "map_option (\<lambda>a. map_option (\<lambda>b. res_bind (merge json_lib a b) (\<lambda>r. definitions json_lib r ''structs''))
      (to_json 1 json_lib wasm_target (uses_foo ''bar''))) (to_json 1 json_lib wasm_target (uses_foo ''act''))
    = Some (Some (Inr (map (struct_to_json json_lib)
        [struct_named ''act'' [] [field_of ''x'' ''foo[]''], struct_named ''foo'' [] [field_of ''y'' ''int8''], struct_named ''bar'' [] [field_of ''x'' ''foo[]'']])))"
  by code_simp

theorem generated_abis_merge_witness:
  "map (struct_to_json json_lib) (written wasm_target (uses_foo ''act'')
      @ filter (\<lambda>t. st_name t \<notin> st_name ` set (written wasm_target (uses_foo ''act''))) (written wasm_target (uses_foo ''bar'')))
    = map (struct_to_json json_lib)
        [struct_named ''act'' [] [field_of ''x'' ''foo[]''], struct_named ''foo'' [] [field_of ''y'' ''int8''], struct_named ''bar'' [] [field_of ''x'' ''foo[]'']]"
proof -
  obtain a b r where r: "to_json 1 json_lib wasm_target (uses_foo ''act'') = Some a" "to_json 1 json_lib wasm_target (uses_foo ''bar'') = Some b"
      "merge json_lib a b = Inr r" "definitions json_lib r ''structs'' = Inr (map (struct_to_json json_lib)
        [struct_named ''act'' [] [field_of ''x'' ''foo[]''], struct_named ''foo'' [] [field_of ''y'' ''int8''], struct_named ''bar'' [] [field_of ''x'' ''foo[]'']])"
    using uses_foo_merge by (auto simp: map_option_case res_bind_Inr split: option.splits)
  have s: "sorted_wrt typedef_less (ab_typedefs (ag_abi (uses_foo x)))" for x by (simp add: uses_foo_def generator_def empty_abi_def)
  show ?thesis using generated_abis_merge [OF json_lib_laws json_lib_reads s s r(1-3)] unfolding r(4) by simp
qed

end
