(* ===== verification/Int128.thy ===== *)
theory Int128
  imports Prelude
begin

text \<open>
  128-bit integers of the run-time library \<open>libraries/rt\<close>: \<open>compiler_builtins.cpp\<close>, whose functions the
  compiler calls for \<open>__int128\<close> with the two halves of each operand, and the routines \<open>multi3.c\<close>,
  \<open>ashlti3.c\<close>, \<open>ashrti3.c\<close>, \<open>lshrti3.c\<close>, \<open>udivmodti4.c\<close>, \<open>int_div_impl.inc\<close> that they call. What C leaves undefined
  (a shift by the width or more, the leading zeros of zero) and a division by zero, which traps, have no result.
\<close>

type_synonym u128 = "128 word"

section \<open>Halves\<close>

text \<open>The unions \<open>twords\<close> and \<open>utwords\<close>, and the first lines of every function of \<open>compiler_builtins.cpp\<close>.\<close>

definition lo64 :: "u128 \<Rightarrow> u64" where
  "lo64 a = ucast a"

definition hi64 :: "u128 \<Rightarrow> u64" where
  "hi64 a = ucast (drop_bit 64 a)"

definition join128 :: "u64 \<Rightarrow> u64 \<Rightarrow> u128" where
  "join128 l h = push_bit 64 (ucast h) OR ucast l"

section \<open>Shifts\<close>

definition shl :: "u64 \<Rightarrow> int \<Rightarrow> u64 option" where
  "shl x n = (if 0 \<le> n \<and> n < 64 then Some (push_bit (nat n) x) else None)"

definition shr :: "u64 \<Rightarrow> int \<Rightarrow> u64 option" where
  "shr x n = (if 0 \<le> n \<and> n < 64 then Some (drop_bit (nat n) x) else None)"

text \<open>\<open>>>\<close> of a signed value.\<close>

definition sar :: "u64 \<Rightarrow> int \<Rightarrow> u64 option" where
  "sar x n = (if 0 \<le> n \<and> n < 64 then Some (signed_drop_bit (nat n) x) else None)"

definition or_opt :: "u64 option \<Rightarrow> u64 option \<Rightarrow> u64 option" where
  "or_opt a b = Option.bind a (\<lambda>x. Option.bind b (\<lambda>y. Some (x OR y)))"

definition join_opt :: "u64 option \<Rightarrow> u64 option \<Rightarrow> u128 option" where
  "join_opt l h = Option.bind l (\<lambda>x. Option.bind h (\<lambda>y. Some (join128 x y)))"

definition ashlti3 :: "u128 \<Rightarrow> 32 word \<Rightarrow> u128 option" where
  "ashlti3 a b =
     (if b AND 64 \<noteq> 0 then join_opt (Some 0) (shl (lo64 a) (sint b - 64))
      else if b = 0 then Some a
      else join_opt (shl (lo64 a) (sint b)) (or_opt (shl (hi64 a) (sint b)) (shr (lo64 a) (64 - sint b))))"

definition ashrti3 :: "u128 \<Rightarrow> 32 word \<Rightarrow> u128 option" where
  "ashrti3 a b =
     (if b AND 64 \<noteq> 0 then join_opt (sar (hi64 a) (sint b - 64)) (sar (hi64 a) 63)
      else if b = 0 then Some a
      else join_opt (or_opt (shl (hi64 a) (64 - sint b)) (shr (lo64 a) (sint b))) (sar (hi64 a) (sint b)))"

definition lshrti3 :: "u128 \<Rightarrow> 32 word \<Rightarrow> u128 option" where
  "lshrti3 a b =
     (if b AND 64 \<noteq> 0 then join_opt (shr (hi64 a) (sint b - 64)) (Some 0)
      else if b = 0 then Some a
      else join_opt (or_opt (shl (hi64 a) (64 - sint b)) (shr (lo64 a) (sint b))) (shr (hi64 a) (sint b)))"

section \<open>Multiplication\<close>

definition mulddi3 :: "u64 \<Rightarrow> u64 \<Rightarrow> u128" where
  "mulddi3 a b =
     (let lower_mask = drop_bit 32 (- 1);
          l1 = (a AND lower_mask) * (b AND lower_mask);
          t1 = drop_bit 32 l1;
          l2 = l1 AND lower_mask;
          t2 = t1 + drop_bit 32 a * (b AND lower_mask);
          l3 = l2 + push_bit 32 (t2 AND lower_mask);
          h1 = drop_bit 32 t2;
          t3 = drop_bit 32 l3;
          l4 = l3 AND lower_mask;
          t4 = t3 + drop_bit 32 b * (a AND lower_mask);
          l5 = l4 + push_bit 32 (t4 AND lower_mask);
          h2 = h1 + drop_bit 32 t4
      in join128 l5 (h2 + drop_bit 32 a * drop_bit 32 b))"

definition multi3 :: "u128 \<Rightarrow> u128 \<Rightarrow> u128" where
  "multi3 x y = (let r = mulddi3 (lo64 x) (lo64 y) in join128 (lo64 r) (hi64 r + (hi64 x * lo64 y + lo64 x * hi64 y)))"

section \<open>Division\<close>

text \<open>\<open>__builtin_clzll\<close>.\<close>

definition clz :: "u64 \<Rightarrow> int" where
  "clz x = int (length (takeWhile (\<lambda>i. \<not> bit x i) (rev [0..<64])))"

text \<open>
  The loop that corrects a quotient digit; it need not end for arguments that the caller does not have.
\<close>

partial_function (option) correct_digit :: "u64 \<Rightarrow> u64 \<Rightarrow> u64 \<Rightarrow> u64 \<Rightarrow> u64 \<Rightarrow> u64 option" where
  "correct_digit vn1 vn0 un q rhat =
     (if q \<ge> 4294967296 \<or> q * vn0 > 4294967296 * rhat + un then
        if rhat + vn1 \<ge> 4294967296 then Some (q - 1) else correct_digit vn1 vn0 un (q - 1) (rhat + vn1)
      else Some q)"

definition digit_step :: "u64 \<Rightarrow> u64 \<Rightarrow> u64 \<Rightarrow> u64 \<Rightarrow> u64 option" where
  "digit_step vn1 vn0 num un =
     (if vn1 = 0 then None
      else let q = num div vn1; rhat = num - q * vn1 in correct_digit vn1 vn0 un q rhat)"

text \<open>Quotient and remainder.\<close>

definition udiv128by64to64 :: "u64 \<Rightarrow> u64 \<Rightarrow> u64 \<Rightarrow> (u64 \<times> u64) option" where
  "udiv128by64to64 u1 u0 v =
     (if v = 0 then None else
      let s = clz v in
      Option.bind (if s > 0 then shl v s else Some v) (\<lambda>v.
      Option.bind (if s > 0 then or_opt (shl u1 s) (shr u0 (64 - s)) else Some u1) (\<lambda>un64.
      Option.bind (if s > 0 then shl u0 s else Some u0) (\<lambda>un10.
      let vn1 = drop_bit 32 v; vn0 = v AND 0xFFFFFFFF; un1 = drop_bit 32 un10; un0 = un10 AND 0xFFFFFFFF in
      Option.bind (digit_step vn1 vn0 un64 un1) (\<lambda>q1.
      let un21 = un64 * 4294967296 + un1 - q1 * v in
      Option.bind (digit_step vn1 vn0 un21 un0) (\<lambda>q0.
      Option.bind (shr (un21 * 4294967296 + un0 - q0 * v) s) (\<lambda>r.
      Some (q1 * 4294967296 + q0, r))))))))"

text \<open>The loop that subtracts the shifted divisor; the first argument counts the passes that are left.\<close>

fun subtract_loop :: "nat \<Rightarrow> u64 \<Rightarrow> u128 \<Rightarrow> u128 \<Rightarrow> u64 \<times> u128" where
  "subtract_loop 0 quot dividend divisor = (quot, dividend)"
| "subtract_loop (Suc n) quot dividend divisor =
     (let s = signed_drop_bit 127 (divisor - dividend - 1)
      in subtract_loop n (push_bit 1 quot OR ucast (s AND 1)) (dividend - (divisor AND s)) (drop_bit 1 divisor))"

definition udivmodti4 :: "u128 \<Rightarrow> u128 \<Rightarrow> (u128 \<times> u128) option" where
  "udivmodti4 dividend divisor =
     (if divisor > dividend then Some (0, dividend)
      else if hi64 divisor = 0 then
        if hi64 dividend < lo64 divisor then
          Option.bind (udiv128by64to64 (hi64 dividend) (lo64 dividend) (lo64 divisor)) (\<lambda>(q, r). Some (join128 q 0, join128 r 0))
        else if lo64 divisor = 0 then None
        else let qh = hi64 dividend div lo64 divisor; dh = hi64 dividend mod lo64 divisor in
          Option.bind (udiv128by64to64 dh (lo64 dividend) (lo64 divisor)) (\<lambda>(q, r). Some (join128 q qh, join128 r 0))
      else let shift = clz (hi64 divisor) - clz (hi64 dividend) in
        if shift < 0 then None
        else let (q, r) = subtract_loop (nat (shift + 1)) 0 dividend (push_bit (nat shift) divisor) in Some (join128 q 0, r))"

definition udivti3 :: "u128 \<Rightarrow> u128 \<Rightarrow> u128 option" where
  "udivti3 a b = map_option fst (udivmodti4 a b)"

definition umodti3 :: "u128 \<Rightarrow> u128 \<Rightarrow> u128 option" where
  "umodti3 a b = map_option snd (udivmodti4 a b)"

definition divti3 :: "u128 \<Rightarrow> u128 \<Rightarrow> u128 option" where
  "divti3 a b =
     (let s_a = signed_drop_bit 127 a; s_b = signed_drop_bit 127 b;
          a_u = (a XOR s_a) + (- s_a); b_u = (b XOR s_b) + (- s_b); s = s_a XOR s_b
      in map_option (\<lambda>q. (q XOR s) + (- s)) (udivti3 a_u b_u))"

definition modti3 :: "u128 \<Rightarrow> u128 \<Rightarrow> u128 option" where
  "modti3 a b =
     (let s_b = signed_drop_bit 127 b; b_u = (b XOR s_b) + (- s_b);
          s_a = signed_drop_bit 127 a; a_u = (a XOR s_a) + (- s_a)
      in map_option (\<lambda>r. (r XOR s_a) + (- s_a)) (umodti3 a_u b_u))"

section \<open>The functions the compiler calls\<close>

definition rt_ashlti3 :: "u64 \<Rightarrow> u64 \<Rightarrow> 32 word \<Rightarrow> u128 option" where
  "rt_ashlti3 l h shift = ashlti3 (join128 l h) shift"

definition rt_ashrti3 :: "u64 \<Rightarrow> u64 \<Rightarrow> 32 word \<Rightarrow> u128 option" where
  "rt_ashrti3 l h shift = ashrti3 (join128 l h) shift"

definition rt_lshlti3 :: "u64 \<Rightarrow> u64 \<Rightarrow> 32 word \<Rightarrow> u128 option" where
  "rt_lshlti3 l h shift = ashlti3 (join128 l h) shift"

definition rt_lshrti3 :: "u64 \<Rightarrow> u64 \<Rightarrow> 32 word \<Rightarrow> u128 option" where
  "rt_lshrti3 l h shift = lshrti3 (join128 l h) shift"

definition rt_divti3 :: "u64 \<Rightarrow> u64 \<Rightarrow> u64 \<Rightarrow> u64 \<Rightarrow> u128 option" where
  "rt_divti3 la ha lb hb = divti3 (join128 la ha) (join128 lb hb)"

definition rt_udivti3 :: "u64 \<Rightarrow> u64 \<Rightarrow> u64 \<Rightarrow> u64 \<Rightarrow> u128 option" where
  "rt_udivti3 la ha lb hb = udivti3 (join128 la ha) (join128 lb hb)"

definition rt_multi3 :: "u64 \<Rightarrow> u64 \<Rightarrow> u64 \<Rightarrow> u64 \<Rightarrow> u128" where
  "rt_multi3 la ha lb hb = multi3 (join128 la ha) (join128 lb hb)"

definition rt_modti3 :: "u64 \<Rightarrow> u64 \<Rightarrow> u64 \<Rightarrow> u64 \<Rightarrow> u128 option" where
  "rt_modti3 la ha lb hb = modti3 (join128 la ha) (join128 lb hb)"

definition rt_umodti3 :: "u64 \<Rightarrow> u64 \<Rightarrow> u64 \<Rightarrow> u64 \<Rightarrow> u128 option" where
  "rt_umodti3 la ha lb hb = umodti3 (join128 la ha) (join128 lb hb)"

section \<open>Comparisons of 128-bit floating-point numbers\<close>

text \<open>The operations of the softfloat library, which is outside the repository.\<close>

record 'f softfloat =
  f128 :: "u64 \<Rightarrow> u64 \<Rightarrow> 'f"
  f128_is_nan :: "'f \<Rightarrow> bool"
  f128_lt :: "'f \<Rightarrow> 'f \<Rightarrow> bool"
  f128_eq :: "'f \<Rightarrow> 'f \<Rightarrow> bool"

definition unordtf2 :: "'f softfloat \<Rightarrow> u64 \<Rightarrow> u64 \<Rightarrow> u64 \<Rightarrow> u64 \<Rightarrow> int" where
  "unordtf2 F la ha lb hb = (if f128_is_nan F (f128 F la ha) \<or> f128_is_nan F (f128 F lb hb) then 1 else 0)"

definition cmptf2_nan :: "'f softfloat \<Rightarrow> u64 \<Rightarrow> u64 \<Rightarrow> u64 \<Rightarrow> u64 \<Rightarrow> int \<Rightarrow> int" where
  "cmptf2_nan F la ha lb hb return_value_if_nan =
     (if unordtf2 F la ha lb hb \<noteq> 0 then return_value_if_nan
      else if f128_lt F (f128 F la ha) (f128 F lb hb) then -1
      else if f128_eq F (f128 F la ha) (f128 F lb hb) then 0 else 1)"

definition eqtf2 :: "'f softfloat \<Rightarrow> u64 \<Rightarrow> u64 \<Rightarrow> u64 \<Rightarrow> u64 \<Rightarrow> int" where
  "eqtf2 F la ha lb hb = cmptf2_nan F la ha lb hb 1"

definition netf2 :: "'f softfloat \<Rightarrow> u64 \<Rightarrow> u64 \<Rightarrow> u64 \<Rightarrow> u64 \<Rightarrow> int" where
  "netf2 F la ha lb hb = cmptf2_nan F la ha lb hb 1"

definition getf2 :: "'f softfloat \<Rightarrow> u64 \<Rightarrow> u64 \<Rightarrow> u64 \<Rightarrow> u64 \<Rightarrow> int" where
  "getf2 F la ha lb hb = cmptf2_nan F la ha lb hb (-1)"

definition gttf2 :: "'f softfloat \<Rightarrow> u64 \<Rightarrow> u64 \<Rightarrow> u64 \<Rightarrow> u64 \<Rightarrow> int" where
  "gttf2 F la ha lb hb = cmptf2_nan F la ha lb hb 0"

definition letf2 :: "'f softfloat \<Rightarrow> u64 \<Rightarrow> u64 \<Rightarrow> u64 \<Rightarrow> u64 \<Rightarrow> int" where
  "letf2 F la ha lb hb = cmptf2_nan F la ha lb hb 1"

definition lttf2 :: "'f softfloat \<Rightarrow> u64 \<Rightarrow> u64 \<Rightarrow> u64 \<Rightarrow> u64 \<Rightarrow> int" where
  "lttf2 F la ha lb hb = cmptf2_nan F la ha lb hb 0"

definition cmptf2 :: "'f softfloat \<Rightarrow> u64 \<Rightarrow> u64 \<Rightarrow> u64 \<Rightarrow> u64 \<Rightarrow> int" where
  "cmptf2 F la ha lb hb = cmptf2_nan F la ha lb hb 1"

text \<open>The sign bit is the highest of the upper half.\<close>

definition negtf2 :: "'f softfloat \<Rightarrow> u64 \<Rightarrow> u64 \<Rightarrow> 'f" where
  "negtf2 F la ha = f128 F la (ha XOR push_bit 63 1)"

end
