(* ===== verification/Int128Props.thy ===== *)
theory Int128Props
  imports Int128 "HOL-Library.Signed_Division"
begin

text \<open>
  The routines for 128-bit integers compute what the operators of C mean: products and shifts wrap
  around at 128 bits, the quotients of signed numbers are rounded towards zero. Words are read as integers.
\<close>

section \<open>Halves\<close>

lemma uint_lo64: "uint (lo64 a) = uint a mod 18446744073709551616"
  by (simp add: lo64_def unsigned_ucast_eq take_bit_eq_mod)

lemma uint_less128: "uint (a :: u128) < 340282366920938463463374607431768211456"
  using uint_lt2p [of a] by simp

lemma uint_less64: "uint (a :: u64) < 18446744073709551616"
  using uint_lt2p [of a] by simp

lemma uint_hi64: "uint (hi64 a) = uint a div 18446744073709551616"
proof -
  have "uint a div 18446744073709551616 < 18446744073709551616" using uint_less128 [of a] by linarith
  then have "(uint a div 2 ^ 64) mod 2 ^ 64 = uint a div 2 ^ 64" by (simp add: pos_imp_zdiv_nonneg_iff)
  moreover have "uint (drop_bit 64 a) = uint a div 2 ^ 64"
    by (simp add: drop_bit_eq_div uint_div_distrib)
  ultimately show ?thesis unfolding hi64_def unsigned_ucast_eq take_bit_eq_mod by simp
qed

lemma join128_add: "join128 l h = push_bit 64 (ucast h) + ucast l"
  unfolding join128_def
  by (rule disjunctive_add [symmetric]) (auto simp: bit_simps dest: bit_imp_le_length)

lemma uint_ucast128 [simp]: "uint (ucast l :: u128) = uint (l :: u64)"
  using uint_less64 [of l] by (simp add: unsigned_ucast_eq take_bit_eq_mod)

lemma uint_join: "uint (join128 l h) = uint h * 18446744073709551616 + uint l"
proof -
  have "uint (push_bit 64 (ucast h) :: u128) = uint h * 18446744073709551616"
    unfolding push_bit_eq_mult uint_word_ariths uint_ucast128 using uint_less64 [of h] by simp
  then show ?thesis using uint_less64 [of l] uint_less64 [of h]
    by (simp only: join128_add uint_word_ariths uint_ucast128) simp
qed

lemma lo64_join [simp]: "lo64 (join128 l h) = l"
  using uint_less64 [of l] by (simp add: word_uint_eq_iff uint_lo64 uint_join)

lemma hi64_join [simp]: "hi64 (join128 l h) = h"
  using uint_less64 [of l] by (simp add: word_uint_eq_iff uint_hi64 uint_join)

lemma join_halves [simp]: "join128 (lo64 a) (hi64 a) = a"
  by (simp add: word_uint_eq_iff uint_join uint_lo64 uint_hi64)

section \<open>Shifts\<close>

lemma bit_lo64: "bit (lo64 a) n \<longleftrightarrow> n < 64 \<and> bit a n"
  by (simp add: lo64_def bit_simps)

lemma bit_hi64: "bit (hi64 a) n \<longleftrightarrow> n < 64 \<and> bit a (n + 64)"
  by (auto simp: hi64_def bit_simps add.commute)

lemma bit_join128: "bit (join128 l h) n \<longleftrightarrow> (if n < 64 then bit l n else bit h (n - 64))"
  by (auto simp: join128_def bit_simps dest: bit_imp_le_length)

text \<open>A shift count below 128 has the bit of 64 set exactly when it is at least 64.\<close>

lemma div_64: "(n :: nat) < 128 \<Longrightarrow> n div 2 ^ 6 = (if n < 64 then 0 else 1)"
  by (auto intro: div_nat_eqI)

lemma count_bit6: "unat (b :: 32 word) < 128 \<Longrightarrow> b AND 64 = 0 \<longleftrightarrow> unat b < 64"
proof -
  assume b: "unat b < 128"
  have "bit (unat b) 6 \<longleftrightarrow> bit b 6" by (simp add: bit_unsigned_iff)
  then have "bit b 6 \<longleftrightarrow> odd (unat b div 2 ^ 6)" by (simp only: bit_iff_odd)
  moreover have "b AND 2 ^ 6 = 0 \<longleftrightarrow> \<not> bit b 6" by (rule and_exp_eq_0_iff_not_bit)
  ultimately show "b AND 64 = 0 \<longleftrightarrow> unat b < 64" using div_64 [OF b] by simp
qed

lemma count_sint:
  assumes "unat (b :: 32 word) < 128"
  shows "sint b = int (unat b)"
proof -
  have u: "uint b = int (unat b)" by (rule uint_nat)
  have "uint b < 128" using assms u by linarith
  then have "uint b < 2 ^ 31" by simp
  moreover have "- (2 ^ 31) \<le> uint b" by (rule order_trans [OF _ uint_ge_0]) simp
  ultimately have "signed_take_bit 31 (uint b) = uint b" by (intro signed_take_bit_int_eq_self)
  moreover have "LENGTH(32) - Suc 0 = 31" by simp
  ultimately show ?thesis unfolding sint_uint u by (simp only:)
qed

lemmas count_bit = count_bit6 count_sint

lemma ashlti3_ok:
  assumes "unat b < 128"
  shows "ashlti3 a b = Some (push_bit (unat b) a)"
proof -
  obtain n where n: "unat b = n" "n < 128" using assms by blast
  note b = count_bit [OF assms, unfolded n(1)]
  have z: "b = 0 \<longleftrightarrow> n = 0" using n(1) by (simp flip: unat_eq_0)
  show ?thesis unfolding n(1)
  proof (cases "n < 64")
    case True
    have "join128 (push_bit n (lo64 a)) (push_bit n (hi64 a) OR drop_bit (64 - n) (lo64 a)) = push_bit n a"
      using True by (intro bit_eqI) (auto simp: bit_simps bit_join128 bit_lo64 bit_hi64)
    then show "ashlti3 a b = Some (push_bit n a)" using b z True
      by (simp add: ashlti3_def join_opt_def shl_def shr_def or_opt_def nat_diff_distrib)
  next
    case False
    have "join128 0 (push_bit (n - 64) (lo64 a)) = push_bit n a"
      using False n(2) by (intro bit_eqI) (auto simp: bit_simps bit_join128 bit_lo64)
    then show "ashlti3 a b = Some (push_bit n a)" using b False n(2)
      by (simp add: ashlti3_def join_opt_def shl_def nat_diff_distrib)
  qed
qed

lemma sign63: "signed_drop_bit 63 (x :: u64) = (if bit x 63 then - 1 else 0)"
proof (rule bit_word_eqI)
  fix n assume "n < LENGTH(64)"
  then show "bit (signed_drop_bit 63 x) n \<longleftrightarrow> bit (if bit x 63 then - 1 else 0 :: u64) n"
    by (cases n) (simp_all add: bit_signed_drop_bit_iff bit_simps)
qed

lemma sign127: "signed_drop_bit 127 (x :: u128) = (if bit x 127 then - 1 else 0)"
proof (rule bit_word_eqI)
  fix n assume "n < LENGTH(128)"
  then show "bit (signed_drop_bit 127 x) n \<longleftrightarrow> bit (if bit x 127 then - 1 else 0 :: u128) n"
    by (cases n) (simp_all add: bit_signed_drop_bit_iff bit_simps)
qed

lemma ashrti3_ok:
  assumes "unat b < 128"
  shows "ashrti3 a b = Some (signed_drop_bit (unat b) a)"
proof -
  obtain n where n: "unat b = n" "n < 128" using assms by blast
  note b = count_bit [OF assms, unfolded n(1)]
  have z: "b = 0 \<longleftrightarrow> n = 0" using n(1) by (simp flip: unat_eq_0)
  show ?thesis unfolding n(1)
  proof (cases "n < 64")
    case True
    have "join128 (push_bit (64 - n) (hi64 a) OR drop_bit n (lo64 a)) (signed_drop_bit n (hi64 a)) = signed_drop_bit n a"
      using True by (intro bit_eqI; auto simp: bit_simps bit_join128 bit_lo64 bit_hi64 bit_signed_drop_bit_iff; simp add: add.commute)
    then show "ashrti3 a b = Some (signed_drop_bit n a)" using b z True
      by (simp add: ashrti3_def join_opt_def shl_def shr_def sar_def or_opt_def nat_diff_distrib)
  next
    case False
    have "join128 (signed_drop_bit (n - 64) (hi64 a)) (signed_drop_bit 63 (hi64 a)) = signed_drop_bit n a"
      using False n(2) unfolding sign63 by (intro bit_eqI) (auto simp: bit_simps bit_join128 bit_hi64 bit_signed_drop_bit_iff)
    then show "ashrti3 a b = Some (signed_drop_bit n a)" using b False n(2)
      by (simp add: ashrti3_def join_opt_def sar_def nat_diff_distrib)
  qed
qed

lemma lshrti3_ok:
  assumes "unat b < 128"
  shows "lshrti3 a b = Some (drop_bit (unat b) a)"
proof -
  obtain n where n: "unat b = n" "n < 128" using assms by blast
  note b = count_bit [OF assms, unfolded n(1)]
  have z: "b = 0 \<longleftrightarrow> n = 0" using n(1) by (simp flip: unat_eq_0)
  show ?thesis unfolding n(1)
  proof (cases "n < 64")
    case True
    have "join128 (push_bit (64 - n) (hi64 a) OR drop_bit n (lo64 a)) (drop_bit n (hi64 a)) = drop_bit n a"
      using True by (intro bit_eqI; auto simp: bit_simps bit_join128 bit_lo64 bit_hi64 dest: bit_imp_le_length; auto simp: add.commute dest: bit_imp_le_length)
    then show "lshrti3 a b = Some (drop_bit n a)" using b z True
      by (simp add: lshrti3_def join_opt_def shl_def shr_def or_opt_def nat_diff_distrib)
  next
    case False
    have "join128 (drop_bit (n - 64) (hi64 a)) 0 = drop_bit n a"
      using False n(2) by (intro bit_eqI) (auto simp: bit_simps bit_join128 bit_hi64 dest: bit_imp_le_length)
    then show "lshrti3 a b = Some (drop_bit n a)" using b False n(2)
      by (simp add: lshrti3_def join_opt_def shr_def nat_diff_distrib)
  qed
qed

section \<open>Multiplication\<close>

text \<open>The parts of the product of two 64-bit numbers fit in 64 bits at every step.\<close>

lemma mask32: "drop_bit 32 (- 1) = (mask 32 :: u64)" "0xFFFFFFFF = (mask 32 :: u64)"
  by (simp_all add: drop_bit_eq_div mask_eq_exp_minus_1)

lemma mask64I: "uint a = i \<Longrightarrow> uint (a AND mask 32 :: u64) = i mod 4294967296"
  by (simp add: take_bit_eq_mod uint_mod_distrib flip: take_bit_eq_mask)

lemma drop64I: "uint a = i \<Longrightarrow> uint (drop_bit 32 a :: u64) = i div 4294967296"
  by (simp add: drop_bit_eq_div uint_div_distrib)

lemma add64I: "uint a = i \<Longrightarrow> uint b = j \<Longrightarrow> i + j < 18446744073709551616 \<Longrightarrow> uint (a + b :: u64) = i + j"
  by (auto simp: uint_word_ariths)

lemma mult64I: "uint a = i \<Longrightarrow> uint b = j \<Longrightarrow> i * j < 18446744073709551616 \<Longrightarrow> uint (a * b :: u64) = i * j"
  by (auto simp: uint_word_ariths)

lemma push64I: "uint a = i \<Longrightarrow> i < 4294967296 \<Longrightarrow> uint (push_bit 32 a :: u64) = i * 4294967296"
  by (auto simp: push_bit_eq_mult uint_word_ariths)

lemma digits64:
  "0 \<le> uint a mod 4294967296" "uint (a :: u64) mod 4294967296 \<le> 4294967295" "0 \<le> uint a div 4294967296" "uint a div 4294967296 \<le> 4294967295"
  using uint_less64 [of a] uint_ge_0 [of a] pos_mod_bound [of 4294967296 "uint a"] by (simp_all add: pos_imp_zdiv_nonneg_iff, linarith?)

lemma product_bound:
  "0 \<le> x \<Longrightarrow> x \<le> 4294967295 \<Longrightarrow> 0 \<le> y \<Longrightarrow> y \<le> 4294967295 \<Longrightarrow> 0 \<le> x * y \<and> x * y \<le> (18446744065119617025 :: int)"
  using mult_mono [of x 4294967295 y 4294967295] by simp

lemma mulddi3_ok: "uint (mulddi3 a b) = uint a * uint b"
proof -
  define a0 where "a0 = uint a mod 4294967296"
  define a1 where "a1 = uint a div 4294967296"
  define b0 where "b0 = uint b mod 4294967296"
  define b1 where "b1 = uint b div 4294967296"
  note d = a0_def a1_def b0_def b1_def
  note r = digits64 [of a, folded d] digits64 [of b, folded d]
  have ab: "uint a = a1 * 4294967296 + a0" "uint b = b1 * 4294967296 + b0" unfolding d by simp_all
  note am = mask64I [OF refl, of a, folded d] and bm = mask64I [OF refl, of b, folded d]
    and ad = drop64I [OF refl, of a, folded d] and bd = drop64I [OF refl, of b, folded d]
  define p00 where "p00 = a0 * b0"
  define p10 where "p10 = a1 * b0"
  define p01 where "p01 = b1 * a0"
  define p11 where "p11 = a1 * b1"
  note pd = p00_def p10_def p01_def p11_def
  note p = product_bound [OF r(1,2,5,6), folded pd] product_bound [OF r(3,4,5,6), folded pd]
    product_bound [OF r(7,8,1,2), folded pd] product_bound [OF r(3,4,7,8), folded pd]
  let ?l1 = "(a AND mask 32) * (b AND mask 32)"
  have l1: "uint ?l1 = p00" unfolding p00_def by (rule mult64I [OF am bm]) (use p in \<open>simp add: pd\<close>)
  let ?t1 = "drop_bit 32 ?l1"
  have t1: "uint ?t1 = p00 div 4294967296" by (rule drop64I [OF l1])
  let ?l2 = "?l1 AND mask 32"
  have l2: "uint ?l2 = p00 mod 4294967296" by (rule mask64I [OF l1])
  let ?t2 = "?t1 + drop_bit 32 a * (b AND mask 32)"
  have m2: "uint (drop_bit 32 a * (b AND mask 32)) = p10" unfolding p10_def by (rule mult64I [OF ad bm]) (use p in \<open>simp add: pd\<close>)
  have t2: "uint ?t2 = p00 div 4294967296 + p10" by (rule add64I [OF t1 m2]) (use p in linarith)
  define q0 where "q0 = p00 div 4294967296"
  define r0 where "r0 = p00 mod 4294967296"
  define q2 where "q2 = (q0 + p10) div 4294967296"
  define r2 where "r2 = (q0 + p10) mod 4294967296"
  define q4 where "q4 = (r2 + p01) div 4294967296"
  define r4 where "r4 = (r2 + p01) mod 4294967296"
  have e: "p00 = 4294967296 * q0 + r0" "q0 + p10 = 4294967296 * q2 + r2" "r2 + p01 = 4294967296 * q4 + r4"
    unfolding q0_def r0_def q2_def r2_def q4_def r4_def by simp_all
  have rr: "0 \<le> r0" "r0 < 4294967296" "0 \<le> r2" "r2 < 4294967296" "0 \<le> r4" "r4 < 4294967296"
    unfolding r0_def r2_def r4_def by simp_all
  note t2 = t2 [folded q0_def] and l2 = l2 [folded r0_def]
  let ?l3 = "?l2 + push_bit 32 (?t2 AND mask 32)"
  have l3: "uint ?l3 = r0 + r2 * 4294967296"
    by (rule add64I [OF l2 push64I [OF mask64I [OF t2, folded r2_def]]]) (use rr in linarith)+
  have l34: "(r0 + r2 * 4294967296) div 4294967296 = r2" "(r0 + r2 * 4294967296) mod 4294967296 = r0" using rr by simp_all
  let ?l4 = "?l3 AND mask 32"
  have m4: "uint (drop_bit 32 b * (a AND mask 32)) = p01" unfolding p01_def by (rule mult64I [OF bd am]) (use p in \<open>simp add: pd\<close>)
  let ?t4 = "drop_bit 32 ?l3 + drop_bit 32 b * (a AND mask 32)"
  have t4: "uint ?t4 = r2 + p01" by (rule add64I [OF drop64I [OF l3, unfolded l34] m4]) (use p rr in linarith)
  let ?l5 = "?l4 + push_bit 32 (?t4 AND mask 32)"
  have l5: "uint ?l5 = r0 + r4 * 4294967296"
    by (rule add64I [OF mask64I [OF l3, unfolded l34] push64I [OF mask64I [OF t4, folded r4_def]]]) (use rr in linarith)+
  have m5: "uint (drop_bit 32 a * drop_bit 32 b) = p11" unfolding p11_def by (rule mult64I [OF ad bd]) (use p in \<open>simp add: pd\<close>)
  have hi: "uint (drop_bit 32 ?t2 + drop_bit 32 ?t4 + drop_bit 32 a * drop_bit 32 b) = q2 + q4 + p11"
    by (rule add64I [OF add64I [OF drop64I [OF t2, folded q2_def] drop64I [OF t4, folded q4_def]] m5]) (use p rr e in linarith)+
  have "uint (mulddi3 a b) = (q2 + q4 + p11) * 18446744073709551616 + (r0 + r4 * 4294967296)"
    unfolding mulddi3_def Let_def mask32 uint_join hi l5 ..
  also have "\<dots> = uint a * uint b" using e unfolding ab pd by (simp add: algebra_simps)
  finally show ?thesis .
qed

lemma uint_halves: "uint a = uint (hi64 a) * 18446744073709551616 + uint (lo64 a)"
  using uint_join [of "lo64 a" "hi64 a"] by simp

lemma multi3_ok: "multi3 x y = x * y"
proof -
  let ?B = "18446744073709551616 :: int"
  define c where "c = uint (hi64 x) * uint (lo64 y) + uint (lo64 x) * uint (hi64 y)"
  have "uint (hi64 x * lo64 y + lo64 x * hi64 y) = c mod ?B"
    unfolding uint_word_ariths c_def by (simp add: mod_add_eq)
  then have "uint (multi3 x y) = ((uint (hi64 (mulddi3 (lo64 x) (lo64 y))) + c) mod ?B) * ?B + uint (lo64 (mulddi3 (lo64 x) (lo64 y)))"
    unfolding multi3_def Let_def uint_join by (simp add: uint_word_ariths mod_add_right_eq)
  also have "\<dots> mod (?B * ?B) = (uint (mulddi3 (lo64 x) (lo64 y)) + c * ?B) mod (?B * ?B)"
    unfolding uint_halves [of "mulddi3 (lo64 x) (lo64 y)"] mult_mod_left by (simp add: algebra_simps mod_add_right_eq mod_add_left_eq)
  also have "uint (mulddi3 (lo64 x) (lo64 y)) + c * ?B
      = uint x * uint y - uint (hi64 x) * uint (hi64 y) * (?B * ?B)"
    unfolding mulddi3_ok c_def uint_halves [of x] uint_halves [of y] by (simp add: algebra_simps)
  also have "\<dots> mod (?B * ?B) = (uint x * uint y) mod (?B * ?B)" by (simp add: mod_diff_eq [symmetric] )
  finally have "uint (multi3 x y) mod (?B * ?B) = (uint x * uint y) mod (?B * ?B)" .
  then show ?thesis using uint_less128 [of "multi3 x y"] by (simp add: word_uint_eq_iff uint_word_ariths)
qed

section \<open>Division\<close>

text \<open>Knuth's estimate: with a divisor of two digits whose first is large, the loop ends with the right digit.\<close>

lemma le_div_int: "0 < v \<Longrightarrow> q \<le> n div v \<longleftrightarrow> q * v \<le> (n :: int)"
proof
  assume v: "0 < v" and "q \<le> n div v"
  then have "q * v \<le> n div v * v" by (intro mult_right_mono) simp_all
  also have "\<dots> \<le> n" using v by (simp add: minus_mod_eq_div_mult [symmetric])
  finally show "q * v \<le> n" .
next
  assume v: "0 < v" and "q * v \<le> n"
  then have "q * v div v \<le> n div v" by (intro zdiv_mono1)
  then show "q \<le> n div v" using v by simp
qed

lemma correct_digit_ok:
  fixes N :: int
  assumes v: "2147483648 \<le> uint vn1" "uint vn1 < 4294967296" "uint vn0 < 4294967296" "uint un < 4294967296"
    and Q: "Q = (4294967296 * N + uint un) div (uint vn1 * 4294967296 + uint vn0)" "Q < 4294967296"
  shows "uint q * uint vn1 + uint rhat = N \<Longrightarrow> uint rhat < 4294967296 \<Longrightarrow> uint q \<le> 4294967297 \<Longrightarrow> Q \<le> uint q \<Longrightarrow>
    \<exists>q'. correct_digit vn1 vn0 un q rhat = Some q' \<and> uint q' = Q"
proof (induction "nat (4294967296 - uint rhat)" arbitrary: q rhat rule: less_induct)
  case less
  let ?b = "4294967296 :: int" and ?V = "uint vn1 * 4294967296 + uint vn0"
  have V: "?V > 0" using v(1) uint_ge_0 [of vn0] by linarith
  have pos: "0 \<le> uint q" "0 \<le> uint rhat" "0 \<le> uint vn0" "0 \<le> uint un" by simp_all
  have qv: "uint q * uint vn0 \<le> 18446744073709551615"
    using mult_mono [of "uint q" 4294967297 "uint vn0" 4294967295] less.prems(3) v(3) pos by simp
  have w1: "uint (q * vn0) = uint q * uint vn0" by (rule mult64I) (use qv in simp_all)
  have w2: "uint (4294967296 * rhat + un) = ?b * uint rhat + uint un"
    by (rule add64I [OF mult64I]) (use less.prems(2) v(4) pos in simp_all)
  have qV: "uint q * ?V = ?b * N - ?b * uint rhat + uint q * uint vn0" unfolding less.prems(1) [symmetric] by (simp add: algebra_simps)
  have cond: "(q \<ge> 4294967296 \<or> q * vn0 > 4294967296 * rhat + un) \<longleftrightarrow> ?b \<le> uint q \<or> ?b * uint rhat + uint un < uint q * uint vn0"
    unfolding word_le_def word_less_def w1 w2 by simp
  show ?case
  proof (cases "?b \<le> uint q \<or> ?b * uint rhat + uint un < uint q * uint vn0")
    case True
    have Qq: "Q < uint q"
    proof (cases "?b \<le> uint q")
      case False
      then have "?b * N + uint un < uint q * ?V" using True qV by linarith
      then have "\<not> uint q \<le> Q" unfolding Q(1) using V by (simp add: le_div_int)
      then show ?thesis by simp
    qed (use Q(2) in linarith)
    have "0 \<le> N" unfolding less.prems(1) [symmetric] by simp
    then have Q0: "0 \<le> Q" unfolding Q(1) using V by (simp add: pos_imp_zdiv_nonneg_iff)
    have q1: "uint (q - 1) = uint q - 1" using Qq Q0 by (simp add: uint_sub_lem [THEN iffD1])
    have r1: "uint (rhat + vn1) = uint rhat + uint vn1" by (rule add64I) (use less.prems(2) v(2) in simp_all)
    show ?thesis
    proof (cases "rhat + vn1 \<ge> 4294967296")
      case True
      then have "?b \<le> uint rhat + uint vn1" unfolding word_le_def r1 by simp
      moreover have "(uint q - 1) * uint vn0 \<le> 4294967296 * 4294967295"
        by (rule mult_mono) (use less.prems(3) v(3) Qq Q0 in simp_all)
      moreover have "(uint q - 1) * ?V = ?b * N - ?b * (uint rhat + uint vn1) + (uint q - 1) * uint vn0"
        unfolding less.prems(1) [symmetric] by (simp add: algebra_simps)
      moreover have "y \<le> ?b * N + uint un"
        if "?b \<le> t" "x \<le> 4294967296 * 4294967295" "y = ?b * N - ?b * t + x" for x y t :: int
        using that pos(4) by linarith
      ultimately have "(uint q - 1) * ?V \<le> ?b * N + uint un" by blast
      then have "uint q - 1 \<le> Q" unfolding Q(1) using V by (simp add: le_div_int)
      then have "uint (q - 1) = Q" using Qq q1 by linarith
      moreover have "correct_digit vn1 vn0 un q rhat = Some (q - 1)"
        using True cond \<open>?b \<le> uint q \<or> _\<close> by (subst correct_digit.simps) (simp only: if_True)
      ultimately show ?thesis by blast
    next
      case False
      then have "uint rhat + uint vn1 < ?b" unfolding word_le_def r1 by simp
      have e: "uint (q - 1) * uint vn1 + uint (rhat + vn1) = N"
        unfolding q1 r1 less.prems(1) [symmetric] by (simp add: algebra_simps)
      have "\<exists>q'. correct_digit vn1 vn0 un (q - 1) (rhat + vn1) = Some q' \<and> uint q' = Q"
        using less.prems v(1) Qq \<open>uint rhat + uint vn1 < ?b\<close> by (intro less.hyps [OF _ e]) (simp_all add: q1 r1)
      moreover have "correct_digit vn1 vn0 un q rhat = correct_digit vn1 vn0 un (q - 1) (rhat + vn1)"
        using False cond \<open>?b \<le> uint q \<or> _\<close> by (subst correct_digit.simps) (simp only: if_True if_False)
      ultimately show ?thesis by simp
    qed
  next
    case False
    then have "uint q * ?V \<le> ?b * N + uint un" using qV by linarith
    then have "uint q \<le> Q" unfolding Q(1) using V by (simp add: le_div_int)
    then have "uint q = Q" using less.prems(4) by linarith
    moreover have "correct_digit vn1 vn0 un q rhat = Some q"
      using False cond by (subst correct_digit.simps) (simp only: if_False)
    ultimately show ?thesis by blast
  qed
qed

lemma digit_step_ok:
  assumes v: "2147483648 \<le> uint vn1" "uint vn1 < 4294967296" "uint vn0 < 4294967296" "uint un < 4294967296"
    and less: "uint num < uint vn1 * 4294967296 + uint vn0"
  shows "\<exists>q. digit_step vn1 vn0 num un = Some q \<and> uint q < 4294967296
    \<and> uint q = (4294967296 * uint num + uint un) div (uint vn1 * 4294967296 + uint vn0)"
proof -
  let ?b = "4294967296 :: int" and ?V = "uint vn1 * 4294967296 + uint vn0"
  define q where "q = num div vn1"
  define rhat where "rhat = num - q * vn1"
  define Q where "Q = (4294967296 * uint num + uint un) div ?V"
  have V: "?V > 0" using v(1) uint_ge_0 [of vn0] by linarith
  have q: "uint q = uint num div uint vn1" unfolding q_def by (rule uint_div_distrib)
  have "rhat = num mod vn1" unfolding rhat_def q_def by (rule minus_div_mult_eq_mod)
  then have r: "uint rhat = uint num mod uint vn1" by (simp add: uint_mod_distrib)
  have e: "uint q * uint vn1 + uint rhat = uint num" unfolding q r by simp
  have rb: "uint rhat < ?b" using v(1,2) pos_mod_bound [of "uint vn1" "uint num"] unfolding r by linarith
  have "\<not> 4294967298 \<le> uint q"
  proof
    assume "4294967298 \<le> uint q"
    then have "4294967298 * uint vn1 \<le> uint num" using v(1) unfolding q by (simp add: le_div_int)
    then show False using less v(1,3) by linarith
  qed
  then have qb: "uint q \<le> 4294967297" by simp
  have "\<not> ?b \<le> Q"
  proof
    assume "?b \<le> Q"
    then have "?b * ?V \<le> ?b * uint num + uint un" using V by (simp only: Q_def le_div_int)
    moreover have "?b * (uint num + 1) \<le> ?b * ?V" using less by (intro mult_left_mono) simp_all
    ultimately show False using v(4) by (simp add: distrib_left)
  qed
  then have Qb: "Q < ?b" by simp
  have "Q * ?V \<le> ?b * uint num + uint un" using V by (simp only: Q_def le_div_int [symmetric])
  moreover have "0 \<le> Q" using V unfolding Q_def by (simp add: pos_imp_zdiv_nonneg_iff)
  then have "0 \<le> Q * uint vn0" by simp
  ultimately have "?b * (Q * uint vn1) < ?b * (uint num + 1)" using v(4) by (simp add: algebra_simps)
  then have "Q * uint vn1 \<le> uint num" by simp
  then have "Q \<le> uint q" using v(1) unfolding q by (simp add: le_div_int)
  from correct_digit_ok [OF v Q_def Qb e rb qb this] obtain q' where "correct_digit vn1 vn0 un q rhat = Some q'" "uint q' = Q" by blast
  moreover have "vn1 \<noteq> 0" using v(1) by auto
  ultimately have "digit_step vn1 vn0 num un = Some q'" by (simp add: digit_step_def q_def rhat_def Let_def)
  with \<open>uint q' = Q\<close> Qb show ?thesis unfolding Q_def by auto
qed

lemma bit_lower: "bit (x :: u64) n \<Longrightarrow> 2 ^ n \<le> uint x"
proof -
  assume "bit x n"
  then have "bit (uint x) n" by (simp add: bit_unsigned_iff)
  then have "uint x div 2 ^ n \<noteq> 0" by (auto simp: bit_iff_odd)
  then have "1 \<le> uint x div 2 ^ n" using pos_imp_zdiv_nonneg_iff [of "2 ^ n" "uint x"] by simp
  then show ?thesis by (simp add: le_div_int)
qed

lemma bits_upper: "(\<And>i. n \<le> i \<Longrightarrow> \<not> bit (x :: u64) i) \<Longrightarrow> uint x < 2 ^ n"
proof -
  assume none: "\<And>i. n \<le> i \<Longrightarrow> \<not> bit x i"
  have "take_bit n (uint x) = uint x"
    by (rule bit_eqI) (use none in \<open>auto simp: bit_take_bit_iff bit_unsigned_iff intro: leI\<close>)
  then show ?thesis by (simp add: take_bit_int_eq_self_iff)
qed

lemma clz_bounds:
  assumes "x \<noteq> 0"
  shows "\<exists>k<64. clz x = int k \<and> 2 ^ (63 - k) \<le> uint x \<and> uint x < 2 ^ (64 - k)"
proof -
  let ?P = "\<lambda>i. \<not> bit x i" and ?l = "rev [0..<64]"
  define k where "k = length (takeWhile ?P ?l)"
  have nth: "?l ! j = 63 - j" if "j < 64" for j using that by (simp add: rev_nth)
  have above: "\<not> bit x (63 - j)" if "j < k" for j
  proof -
    have "j < 64" using that length_takeWhile_le [of ?P ?l] unfolding k_def by simp
    moreover have "takeWhile ?P ?l ! j \<in> set (takeWhile ?P ?l)" using that unfolding k_def by (rule nth_mem)
    moreover have "takeWhile ?P ?l ! j = ?l ! j" using that unfolding k_def by (rule takeWhile_nth)
    ultimately show ?thesis using nth [of j] set_takeWhileD [of "?l ! j" ?P ?l] by simp
  qed
  obtain n where n: "bit x n" using assms by (auto simp: bit_eq_iff)
  then have "n < 64" using bit_imp_le_length by fastforce
  have "k < 64"
  proof (rule ccontr)
    assume "\<not> k < 64"
    then have "63 - n < k" by linarith
    then show False using above [of "63 - n"] n \<open>n < 64\<close> by simp
  qed
  then have "k < length ?l" by simp
  then have "bit x (?l ! k)" unfolding k_def using nth_length_takeWhile [of ?P ?l] by blast
  then have "2 ^ (63 - k) \<le> uint x" using nth [OF \<open>k < 64\<close>] bit_lower by simp
  moreover have "\<not> bit x i" if "64 - k \<le> i" for i
    using above [of "63 - i"] that bit_imp_le_length [of x i] by (cases "i < 64") auto
  then have "uint x < 2 ^ (64 - k)" by (rule bits_upper)
  ultimately show ?thesis using \<open>k < 64\<close> by (intro exI [of _ k]) (simp add: clz_def k_def)
qed

text \<open>Normalising: the divisor and the dividend are shifted until the highest bit of the divisor is set.\<close>

lemma uint_push64_mod: "uint (push_bit k x :: u64) = uint x * 2 ^ k mod 18446744073709551616"
  unfolding unsigned_push_bit_eq by (simp add: push_bit_eq_mult take_bit_eq_mod)

lemma uint_push64: "uint x * 2 ^ k < 18446744073709551616 \<Longrightarrow> uint (push_bit k x :: u64) = uint x * 2 ^ k"
  unfolding uint_push64_mod by simp

lemma uint_drop64: "uint (drop_bit k x :: u64) = uint x div 2 ^ k"
  unfolding unsigned_drop_bit_eq using uint_less64 [of x] by (simp add: drop_bit_eq_div take_bit_int_eq_self)

lemma shifted_out:
  assumes "k < 64"
  shows "(n :: int) * 2 ^ k = n div 2 ^ (64 - k) * 18446744073709551616 + n * 2 ^ k mod 18446744073709551616"
proof -
  have e: "(18446744073709551616 :: int) = 2 ^ (64 - k) * 2 ^ k" using assms by (simp flip: power_add)
  have "n * 2 ^ k div (2 ^ (64 - k) * 2 ^ k) = n div 2 ^ (64 - k)" by (rule div_mult_mult2) simp
  then have "n * 2 ^ k div 18446744073709551616 = n div 2 ^ (64 - k)" unfolding e .
  then show ?thesis by (metis div_mult_mod_eq)
qed

lemma normalise:
  assumes "uint u1 < uint v" and "0 < k" and "k < 64" and "uint v * 2 ^ k < 18446744073709551616"
  shows "uint (push_bit k u1 OR drop_bit (64 - k) u0 :: u64) = uint u1 * 2 ^ k + uint u0 div 2 ^ (64 - k)"
proof -
  have eq: "push_bit k u1 OR drop_bit (64 - k) u0 = push_bit k u1 + drop_bit (64 - k) u0"
    by (rule disjunctive_add [symmetric]) (use assms(3) in \<open>auto simp: bit_simps dest: bit_imp_le_length\<close>)
  have "uint u0 div 2 ^ (64 - k) < 2 ^ k"
  proof -
    have "uint u0 < 2 ^ k * 2 ^ (64 - k)" using uint_less64 [of u0] assms(3) by (simp flip: power_add)
    then have "\<not> 2 ^ k \<le> uint u0 div 2 ^ (64 - k)" by (simp add: le_div_int)
    then show ?thesis by simp
  qed
  moreover have "(uint u1 + 1) * 2 ^ k \<le> uint v * 2 ^ k" using assms(1) by (intro mult_right_mono) simp_all
  moreover have "0 < (2 :: int) ^ k" by simp
  ultimately have "uint u1 * 2 ^ k + uint u0 div 2 ^ (64 - k) < 18446744073709551616" "uint u1 * 2 ^ k < 18446744073709551616"
    using assms(4) unfolding distrib_right by linarith+
  then show ?thesis unfolding eq by (intro add64I uint_push64 uint_drop64)
qed

lemma uint_remainder:
  assumes "uint q = (4294967296 * uint n + uint u) div uint v" and "0 < uint v"
  shows "uint (n * 4294967296 + u - q * v :: u64) = (4294967296 * uint n + uint u) mod uint v"
proof -
  let ?x = "4294967296 * uint n + uint u"
  have "uint (n * 4294967296 + u - q * v) = (uint n * 4294967296 + uint u - uint q * uint v) mod 18446744073709551616"
    by (simp add: uint_word_ariths mod_simps)
  also have "uint n * 4294967296 + uint u - uint q * uint v = ?x mod uint v"
    unfolding assms(1) by (simp add: minus_mult_div_eq_mod mult.commute)
  also have "\<dots> mod 18446744073709551616 = ?x mod uint v"
    using pos_mod_bound [OF assms(2), of ?x] pos_mod_sign [OF assms(2), of ?x] uint_less64 [of v] by simp
  finally show ?thesis .
qed

lemma udiv128by64to64_ok:
  assumes "uint u1 < uint v"
  shows "\<exists>q r. udiv128by64to64 u1 u0 v = Some (q, r)
    \<and> uint q = (uint u1 * 18446744073709551616 + uint u0) div uint v \<and> uint r = (uint u1 * 18446744073709551616 + uint u0) mod uint v"
proof -
  have "v \<noteq> 0" using assms by auto
  then obtain k where k: "k < 64" "clz v = int k" "2 ^ (63 - k) \<le> uint v" "uint v < 2 ^ (64 - k)" using clz_bounds by blast
  have p: "2 ^ (63 - k) * 2 ^ k = (9223372036854775808 :: int)" "2 ^ (64 - k) * 2 ^ k = (18446744073709551616 :: int)"
    using k(1) by (simp_all flip: power_add)
  have vk: "9223372036854775808 \<le> uint v * 2 ^ k" "uint v * 2 ^ k < 18446744073709551616"
    using mult_right_mono [OF k(3), of "2 ^ k"] k(4) unfolding p by (simp_all flip: p(2))
  define v' where "v' = push_bit k v"
  define un10 where "un10 = push_bit k u0"
  define un64 where "un64 = (if 0 < k then push_bit k u1 OR drop_bit (64 - k) u0 else u1)"
  let ?U = "uint u1 * 18446744073709551616 + uint u0"
  have v': "uint v' = uint v * 2 ^ k" unfolding v'_def by (rule uint_push64 [OF vk(2)])
  have un: "uint un64 * 18446744073709551616 + uint un10 = ?U * 2 ^ k"
  proof (cases "0 < k")
    case True
    have "uint un64 = uint u1 * 2 ^ k + uint u0 div 2 ^ (64 - k)" using normalise [OF assms True k(1) vk(2)] True by (simp add: un64_def)
    then show ?thesis using shifted_out [OF k(1), of "uint u0"] unfolding un10_def uint_push64_mod by (simp add: distrib_right)
  qed (simp add: un64_def un10_def)
  have "(uint u1 + 1) * 18446744073709551616 \<le> uint v * 18446744073709551616" using assms by (intro mult_right_mono) simp_all
  then have "?U < uint v * 18446744073709551616" using uint_less64 [of u0] by (simp add: distrib_right)
  then have "?U * 2 ^ k < uint v' * 18446744073709551616" unfolding v' by (simp add: mult.commute mult.left_commute)
  then have lt: "uint un64 < uint v'" using un uint_ge_0 [of un10] by linarith
  define vn1 where "vn1 = drop_bit 32 v'"
  define vn0 where "vn0 = v' AND mask 32"
  define un1 where "un1 = drop_bit 32 un10"
  define un0 where "un0 = un10 AND mask 32"
  have d: "uint vn1 = uint v' div 4294967296" "uint vn0 = uint v' mod 4294967296" "uint un1 = uint un10 div 4294967296" "uint un0 = uint un10 mod 4294967296"
    unfolding vn1_def vn0_def un1_def un0_def by (rule drop64I mask64I, rule refl)+
  have V: "uint vn1 * 4294967296 + uint vn0 = uint v'" unfolding d by simp
  have vb: "2147483648 \<le> uint vn1" "uint vn1 < 4294967296" "uint vn0 < 4294967296" "uint un1 < 4294967296" "uint un0 < 4294967296"
    using digits64 [of v'] digits64 [of un10] vk(1) v' unfolding d by linarith+
  obtain q1 where q1: "digit_step vn1 vn0 un64 un1 = Some q1" "uint q1 < 4294967296"
      "uint q1 = (4294967296 * uint un64 + uint un1) div uint v'"
    using digit_step_ok [OF vb(1-4)] lt unfolding V by blast
  define un21 where "un21 = un64 * 4294967296 + un1 - q1 * v'"
  have V0: "0 < uint v'" using lt uint_ge_0 [of un64] by linarith
  have un21: "uint un21 = (4294967296 * uint un64 + uint un1) mod uint v'"
    unfolding un21_def by (rule uint_remainder [OF q1(3) V0])
  then have lt1: "uint un21 < uint v'" using V0 by simp
  obtain q0 where q0: "digit_step vn1 vn0 un21 un0 = Some q0" "uint q0 < 4294967296"
      "uint q0 = (4294967296 * uint un21 + uint un0) div uint v'"
    using digit_step_ok [OF vb(1-3,5)] lt1 unfolding V by blast
  define r' where "r' = un21 * 4294967296 + un0 - q0 * v'"
  have r': "uint r' = (4294967296 * uint un21 + uint un0) mod uint v'"
    unfolding r'_def by (rule uint_remainder [OF q0(3) V0])
  have e1: "4294967296 * uint un64 + uint un1 = uint q1 * uint v' + uint un21" unfolding q1(3) un21 by simp
  have e2: "4294967296 * uint un21 + uint un0 = uint q0 * uint v' + uint r'" unfolding q0(3) r' by simp
  have e3: "uint un10 = uint un1 * 4294967296 + uint un0" unfolding d by simp
  let ?q = "uint q1 * 4294967296 + uint q0"
  have "?U * 2 ^ k = ?q * uint v' + uint r'" using e1 e2 e3 unfolding un [symmetric] by (simp add: algebra_simps)
  moreover have "uint r' < uint v'" unfolding r' using V0 by simp
  ultimately have "?U * 2 ^ k div uint v' = ?q" "?U * 2 ^ k mod uint v' = uint r'" using V0 by simp_all
  then have "?U div uint v = ?q" "?U mod uint v * 2 ^ k = uint r'" unfolding v' by (simp_all add: mult_mod_left)
  moreover have "uint (q1 * 4294967296 + q0) = ?q" by (rule add64I [OF mult64I]) (use q1(2) q0(2) in simp_all)
  moreover have "uint (drop_bit k r') = ?U mod uint v" unfolding uint_drop64 using calculation(2) [symmetric] by simp
  moreover have "udiv128by64to64 u1 u0 v = Some (q1 * 4294967296 + q0, drop_bit k r')"
  proof -
    have 1: "(if 0 < clz v then shl v (clz v) else Some v) = Some v'"
      "(if 0 < clz v then or_opt (shl u1 (clz v)) (shr u0 (64 - clz v)) else Some u1) = Some un64"
      "(if 0 < clz v then shl u0 (clz v) else Some u0) = Some un10" "\<And>x. shr x (clz v) = Some (drop_bit k x)"
      using k(1) unfolding k(2) by (simp_all add: shl_def shr_def or_opt_def v'_def un64_def un10_def nat_diff_distrib)
    note 2 = q1(1) [unfolded vn1_def vn0_def un1_def] q0(1) [unfolded vn1_def vn0_def un21_def un1_def un0_def]
    show ?thesis using \<open>v \<noteq> 0\<close> unfolding udiv128by64to64_def Let_def 1 bind.bind_lunit mask32 2
      by (simp add: 2 r'_def un21_def un1_def un0_def)
  qed
  ultimately show ?thesis by auto
qed

lemma top_bit: "bit (x :: u128) 127 \<longleftrightarrow> 170141183460469231731687303715884105728 \<le> uint x"
proof -
  have "bit (uint x) 127 \<longleftrightarrow> odd (uint x div 2 ^ 127)" by (rule bit_iff_odd)
  moreover have "bit (uint x) 127 \<longleftrightarrow> bit x 127" by (simp add: bit_unsigned_iff)
  moreover have "uint x div 2 ^ 127 = (if 170141183460469231731687303715884105728 \<le> uint x then 1 else 0)"
    using uint_less128 [of x] by (auto intro: int_div_pos_eq [where r = "uint x - 170141183460469231731687303715884105728"])
  ultimately show ?thesis by simp
qed

text \<open>One pass of the subtraction loop: the sign of the difference says whether the divisor fits.\<close>

lemma sign_of_difference:
  fixes dividend divisor :: u128
  assumes "uint dividend < 2 * uint divisor"
    and "uint divisor \<le> 170141183460469231731687303715884105728 \<or> 170141183460469231731687303715884105728 \<le> uint dividend"
  shows "signed_drop_bit 127 (divisor - dividend - 1) = (if divisor \<le> dividend then - 1 else 0)"
proof -
  let ?d = "uint divisor - uint dividend - 1"
  have w: "uint (divisor - dividend - 1) = ?d mod 340282366920938463463374607431768211456"
    by (simp add: uint_word_ariths mod_simps)
  have "bit (divisor - dividend - 1) 127 \<longleftrightarrow> divisor \<le> dividend"
  proof (cases "divisor \<le> dividend")
    case True
    then have "?d < 0" by (simp add: word_le_def)
    moreover have "- 170141183460469231731687303715884105728 \<le> ?d" using assms uint_less128 [of dividend] uint_less128 [of divisor] by linarith
    ultimately have "uint (divisor - dividend - 1) = ?d + 340282366920938463463374607431768211456" unfolding w
      by (simp add: mod_pos_pos_trivial mod_add_self2 [symmetric, of ?d] del: mod_add_self2)
    then show ?thesis using True \<open>?d < 0\<close> \<open>- _ \<le> ?d\<close> by (simp add: top_bit)
  next
    case False
    then have "0 \<le> ?d" by (simp add: word_le_def)
    moreover have "?d < 170141183460469231731687303715884105728" using assms uint_less128 [of divisor] uint_ge_0 [of dividend] by linarith
    ultimately have "uint (divisor - dividend - 1) = ?d" "?d < 170141183460469231731687303715884105728" unfolding w by simp_all
    then show ?thesis using False by (simp add: top_bit)
  qed
  then show ?thesis by (simp add: sign127)
qed

lemma uint_double: "2 * uint x < 18446744073709551615 \<Longrightarrow>
    uint (push_bit 1 x OR ucast ((if c then - 1 else 0 :: u128) AND 1) :: u64) = 2 * uint x + (if c then 1 else 0)"
proof -
  assume x: "2 * uint x < 18446744073709551615"
  let ?c = "ucast ((if c then - 1 else 0 :: u128) AND 1) :: u64"
  have c: "?c = (if c then 1 else 0)" by simp
  have "push_bit 1 x OR ?c = push_bit 1 x + ?c"
    unfolding c
  proof (rule disjunctive_add [symmetric])
    fix n show "\<not> bit (push_bit 1 x) n \<or> \<not> bit (if c then 1 else 0 :: u64) n" by (cases n) (simp_all add: bit_0)
  qed
  moreover have "uint (push_bit 1 x) = 2 * uint x" unfolding uint_push64_mod using x by simp
  ultimately show ?thesis unfolding c using x by (simp only:) (rule add64I, simp_all)
qed

lemma subtract_pass:
  fixes dividend divisor :: u128
  assumes "uint dividend < 2 * uint divisor"
    and "uint divisor \<le> 170141183460469231731687303715884105728 \<or> 170141183460469231731687303715884105728 \<le> uint dividend"
    and "2 * uint quot < 18446744073709551615"
  shows "\<exists>q r c. subtract_loop (Suc n) quot dividend divisor = subtract_loop n q r (drop_bit 1 divisor)
    \<and> c = (if uint divisor \<le> uint dividend then 1 else 0) \<and> uint q = 2 * uint quot + c \<and> uint r = uint dividend - c * uint divisor"
proof -
  let ?c = "divisor \<le> dividend" and ?s = "if divisor \<le> dividend then - 1 else 0 :: u128"
  have "uint (dividend - (divisor AND ?s)) = uint dividend - (if ?c then 1 else 0) * uint divisor"
    by (simp add: word_le_def uint_sub_lem [THEN iffD1])
  then show ?thesis
    using uint_double [OF assms(3), of ?c] unfolding subtract_loop.simps Let_def sign_of_difference [OF assms(1,2)] word_le_def by blast
qed

lemma subtract_loop_ok:
  "uint divisor = D * 2 ^ m \<Longrightarrow> 0 < D \<Longrightarrow> uint dividend < 2 * uint divisor \<Longrightarrow>
    uint divisor \<le> 170141183460469231731687303715884105728 \<or> 170141183460469231731687303715884105728 \<le> uint dividend \<Longrightarrow>
    (uint quot + 1) * 2 ^ Suc m \<le> 18446744073709551616 \<Longrightarrow>
    \<exists>q r. subtract_loop (Suc m) quot dividend divisor = (q, r) \<and> uint q = uint quot * 2 ^ Suc m + uint dividend div D \<and> uint r = uint dividend mod D"
proof (induction m arbitrary: divisor dividend quot)
  case 0
  have "2 * uint quot < 18446744073709551615" using 0 by simp
  then obtain q r c where s: "subtract_loop (Suc 0) quot dividend divisor = subtract_loop 0 q r (drop_bit 1 divisor)"
      "c = (if uint divisor \<le> uint dividend then 1 else 0)" "uint q = 2 * uint quot + c" "uint r = uint dividend - c * uint divisor"
    using subtract_pass [OF 0(3,4), of quot 0] by blast
  have "uint dividend = c * D + uint r" "uint r < D" using 0(1,3) s(2,4) by auto
  then have "uint dividend div D = c" "uint dividend mod D = uint r" using 0(2) by simp_all
  then show ?case using s by simp
next
  case (Suc m)
  have two: "2 * (uint quot + 1) * 2 ^ Suc m = (uint quot + 1) * 2 ^ Suc (Suc m)" by simp
  have "(uint quot + 1) * 4 \<le> (uint quot + 1) * 2 ^ Suc (Suc m)" by (intro mult_left_mono) simp_all
  then have "(uint quot + 1) * 4 \<le> 18446744073709551616" using Suc.prems(5) by (rule order_trans)
  then have "2 * uint quot < 18446744073709551615" using uint_ge_0 [of quot] by simp
  then obtain q r c where s: "subtract_loop (Suc (Suc m)) quot dividend divisor = subtract_loop (Suc m) q r (drop_bit 1 divisor)"
      "c = (if uint divisor \<le> uint dividend then 1 else 0)" "uint q = 2 * uint quot + c" "uint r = uint dividend - c * uint divisor"
    using subtract_pass [OF Suc.prems(3,4), of quot "Suc m"] by blast
  have d: "uint (drop_bit 1 divisor) = D * 2 ^ m" using Suc.prems(1) by (simp add: drop_bit_eq_div uint_div_distrib)
  have r: "uint r < 2 * uint (drop_bit 1 divisor)" using Suc.prems(1,3) s(2,4) unfolding d by auto
  have "(uint q + 1) * 2 ^ Suc m \<le> 2 * (uint quot + 1) * 2 ^ Suc m" unfolding s(3) by (intro mult_right_mono) (simp_all add: s(2))
  then have q: "(uint q + 1) * 2 ^ Suc m \<le> 18446744073709551616" using Suc.prems(5) unfolding two by linarith
  have "uint (drop_bit 1 divisor) \<le> 170141183460469231731687303715884105728" 
    using uint_less128 [of divisor] unfolding d Suc.prems(1) by simp
  then obtain q' r' where *: "subtract_loop (Suc m) q r (drop_bit 1 divisor) = (q', r')"
      "uint q' = uint q * 2 ^ Suc m + uint r div D" "uint r' = uint r mod D"
    using Suc.IH [OF d Suc.prems(2) r _ q] by blast
  have "uint dividend = uint r + c * 2 ^ Suc m * D" unfolding s(4) Suc.prems(1) by simp
  then have e: "uint dividend div D = uint r div D + c * 2 ^ Suc m" "uint dividend mod D = uint r mod D" using Suc.prems(2) by simp_all
  have "uint q' = uint quot * 2 ^ Suc (Suc m) + uint dividend div D" unfolding *(2) s(3) e(1) by (simp add: distrib_right)
  then show ?case using *(1,3) s(1) e(2) by simp
qed

lemma hi64_le: "n \<le> uint (hi64 a) \<longleftrightarrow> n * 18446744073709551616 \<le> uint a"
  unfolding uint_hi64 by (rule le_div_int) simp

lemma hi64_less: "uint (hi64 a) < n \<longleftrightarrow> uint a < n * 18446744073709551616"
  using hi64_le [of n a] by linarith

lemma uint_push128_mod: "uint (push_bit k x :: u128) = uint x * 2 ^ k mod 340282366920938463463374607431768211456"
  unfolding unsigned_push_bit_eq by (simp add: push_bit_eq_mult take_bit_eq_mod)

lemma udivmodti4_ok:
  assumes "uint b \<noteq> 0"
  shows "\<exists>q r. udivmodti4 a b = Some (q, r) \<and> uint q = uint a div uint b \<and> uint r = uint a mod uint b"
proof (cases "a < b")
  case True
  then show ?thesis by (intro exI [of _ 0] exI [of _ a]) (simp add: udivmodti4_def word_less_def)
next
  case False
  let ?B = "18446744073709551616 :: int"
  note ab = uint_halves [of a] uint_halves [of b]
  show ?thesis
  proof (cases "hi64 b = 0")
    case True
    then have e: "uint b = uint (lo64 b)" using ab(2) by simp
    then have b: "uint b = uint (lo64 b)" "0 < uint (lo64 b)" using assms uint_ge_0 [of "lo64 b"] by linarith+
    show ?thesis
    proof (cases "hi64 a < lo64 b")
      case less: True
      then obtain q r where "udiv128by64to64 (hi64 a) (lo64 a) (lo64 b) = Some (q, r)" "uint q = uint a div uint b" "uint r = uint a mod uint b"
        using udiv128by64to64_ok [of "hi64 a" "lo64 b" "lo64 a"] unfolding word_less_def ab(1) [symmetric] b(1) by blast
      then show ?thesis using False True less by (simp add: udivmodti4_def uint_join)
    next
      case ge: False
      define dh where "dh = hi64 a mod lo64 b"
      have dh: "uint dh = uint (hi64 a) mod uint (lo64 b)" unfolding dh_def by (rule uint_mod_distrib)
      then have "uint dh < uint (lo64 b)" using b(2) by simp
      then obtain q r where qr: "udiv128by64to64 dh (lo64 a) (lo64 b) = Some (q, r)"
          "uint q = (uint dh * ?B + uint (lo64 a)) div uint b" "uint r = (uint dh * ?B + uint (lo64 a)) mod uint b"
        using udiv128by64to64_ok [of dh "lo64 b" "lo64 a"] unfolding b(1) by blast
      have "uint a = uint dh * ?B + uint (lo64 a) + uint (hi64 a) div uint b * ?B * uint b"
      proof -
        define x where "x = uint (hi64 a) div uint b"
        define y where "y = uint (hi64 a) mod uint b"
        have "uint (hi64 a) = x * uint b + y" unfolding x_def y_def by simp
        then show ?thesis unfolding ab(1) dh b(1) [symmetric] x_def [symmetric] y_def [symmetric] by (simp add: algebra_simps)
      qed
      then have "uint a div uint b = (uint dh * ?B + uint (lo64 a)) div uint b + uint (hi64 a) div uint b * ?B"
        "uint a mod uint b = (uint dh * ?B + uint (lo64 a)) mod uint b" using assms by simp_all
      moreover have "lo64 b \<noteq> 0" using b(2) by auto
      ultimately show ?thesis using qr False True ge
        by (simp add: udivmodti4_def Let_def dh_def uint_join uint_div_distrib b(1))
    qed
  next
    case high: False
    have le: "uint b \<le> uint a" using False by (simp add: word_less_def)
    have hi: "uint (hi64 b) \<le> uint (hi64 a)" unfolding uint_hi64 using le by (intro zdiv_mono1) simp_all
    then have "hi64 a \<noteq> 0" using high uint_ge_0 [of "hi64 b"] by (auto simp: word_uint_eq_iff)
    then obtain j where j: "j < 64" "clz (hi64 a) = int j" "2 ^ (63 - j) \<le> uint (hi64 a)" "uint (hi64 a) < 2 ^ (64 - j)" using clz_bounds by blast
    from high obtain k where k: "k < 64" "clz (hi64 b) = int k" "2 ^ (63 - k) \<le> uint (hi64 b)" "uint (hi64 b) < 2 ^ (64 - k)" using clz_bounds by blast
    have "j \<le> k"
    proof (rule ccontr)
      assume "\<not> j \<le> k"
      then have "(2 :: int) ^ (64 - j) \<le> 2 ^ (63 - k)" using j(1) by (intro power_increasing) simp_all
      then show False using j(4) k(3) hi by linarith
    qed
    define m where "m = k - j"
    let ?D = "uint b * 2 ^ m"
    have p: "2 ^ (63 - k) * 2 ^ m = (2 :: int) ^ (63 - j)" "2 ^ (64 - k) * 2 ^ m = (2 :: int) ^ (64 - j)" "2 ^ (64 - j) = 2 * (2 :: int) ^ (63 - j)"
      using \<open>j \<le> k\<close> j(1) k(1) unfolding m_def by (simp_all flip: power_add power_Suc add: Suc_diff_le)
    have bl: "2 ^ (63 - k) * ?B \<le> uint b" and bu: "uint b < 2 ^ (64 - k) * ?B"
      and al: "2 ^ (63 - j) * ?B \<le> uint a" and au: "uint a < 2 ^ (64 - j) * ?B"
      using k(3,4) j(3,4) by (simp_all only: hi64_le hi64_less)
    have "2 ^ (63 - j) * ?B = 2 ^ (63 - k) * ?B * 2 ^ m" by (simp add: p(1) [symmetric])
    then have dl: "2 ^ (63 - j) * ?B \<le> ?D" using mult_right_mono [OF bl, of "2 ^ m"] by simp
    have "2 ^ (64 - j) * ?B = 2 ^ (64 - k) * ?B * 2 ^ m" by (simp add: p(2) [symmetric])
    then have du: "?D < 2 ^ (64 - j) * ?B" using mult_strict_right_mono [OF bu, of "2 ^ m"] by simp
    have "(2 :: int) ^ (64 - j) \<le> 2 ^ 64" by (intro power_increasing) simp_all
    then have D: "uint (push_bit m b) = ?D" using du unfolding uint_push128_mod by simp
    have side: "?D \<le> 170141183460469231731687303715884105728 \<or> 170141183460469231731687303715884105728 \<le> uint a"
    proof (cases "j = 0")
      case True
      then show ?thesis using al by simp
    next
      case False
      then have "(2 :: int) ^ (64 - j) \<le> 2 ^ 63" by (intro power_increasing) simp_all
      then show ?thesis using du by simp
    qed
    have less: "uint a < 2 * ?D" using dl au unfolding p(3) by linarith
    have q0: "(uint (0 :: u64) + 1) * 2 ^ Suc m \<le> 18446744073709551616"
      using power_increasing [of "Suc m" 64 "2 :: int"] k(1) unfolding m_def by simp
    obtain q r where "subtract_loop (Suc m) 0 a (push_bit m b) = (q, r)" "uint q = uint a div uint b" "uint r = uint a mod uint b"
      using subtract_loop_ok [OF D _ _ _ q0, of a] side less assms uint_ge_0 [of b] unfolding D by auto
    then show ?thesis using False high j(2) k(2) \<open>j \<le> k\<close> 
      by (simp add: udivmodti4_def Let_def uint_join m_def nat_add_distrib nat_diff_distrib)
  qed
qed

lemma udivti3_ok: "b \<noteq> 0 \<Longrightarrow> udivti3 a b = Some (a div b)"
  using udivmodti4_ok [of b a] by (auto simp: udivti3_def word_uint_eq_iff uint_div_distrib)

lemma umodti3_ok: "b \<noteq> 0 \<Longrightarrow> umodti3 a b = Some (a mod b)"
  using udivmodti4_ok [of b a] by (auto simp: umodti3_def word_uint_eq_iff uint_mod_distrib)

lemma division_by_zero: "udivmodti4 a 0 = None"
  by (auto simp: udivmodti4_def hi64_def lo64_def word_less_def)

text \<open>Signed division divides the magnitudes and gives the result its sign.\<close>

lemma sint_cases: "sint (x :: u128) = uint x - (if bit x 127 then 340282366920938463463374607431768211456 else 0)"
proof -
  have "sint x = signed_take_bit 127 (uint x)" by (simp add: sint_uint)
  then show ?thesis using uint_less128 [of x] top_bit [of x]
    by (simp add: signed_take_bit_eq_take_bit_minus take_bit_int_eq_self bit_unsigned_iff)
qed

lemma flip_sign: "NOT x + 1 = - (x :: u128)"
  by (simp add: not_eq_complement)

lemma uint_minus: "x \<noteq> 0 \<Longrightarrow> uint (- x) = 340282366920938463463374607431768211456 - uint (x :: u128)"
proof -
  assume "x \<noteq> 0"
  then have "uint x \<noteq> 0" by (simp only: unsigned_eq_0_iff not_False_eq_True)
  then have "0 < uint x" using uint_ge_0 [of x] by linarith
  moreover have "uint (- x) = (- uint x) mod 340282366920938463463374607431768211456" by (simp add: uint_word_ariths)
  ultimately show ?thesis using uint_less128 [of x] by (simp add: zmod_zminus1_eq_if)
qed

lemma bit_sign: "bit x 127 \<longleftrightarrow> sint (x :: u128) < 0"
  using uint_less128 [of x] uint_ge_0 [of x] by (simp add: sint_cases)

lemma magnitude: "uint ((x XOR signed_drop_bit 127 x) + (- signed_drop_bit 127 x)) = \<bar>sint (x :: u128)\<bar>"
proof (cases "bit x 127")
  case True
  then have "x \<noteq> 0" by auto
  then show ?thesis using True uint_minus [of x] uint_less128 [of x] by (simp add: sign127 sint_cases flip_sign)
qed (simp add: sign127 sint_cases)

lemma signed: "(q XOR (if c then - 1 else 0)) + (- (if c then - 1 else 0)) = (if c then - q else q :: u128)"
  by (cases c) (simp_all add: flip_sign)

lemma divti3_ok:
  assumes "b \<noteq> 0"
  shows "divti3 a b = Some (word_of_int (sint a sdiv sint b))"
proof -
  let ?m = "\<lambda>x :: u128. (x XOR signed_drop_bit 127 x) + (- signed_drop_bit 127 x)"
  have sb: "sint b \<noteq> 0" using assms by (simp only: signed_eq_0_iff not_False_eq_True)
  then have "?m b \<noteq> 0" using magnitude [of b] by auto
  then have q: "udivti3 (?m a) (?m b) = Some (?m a div ?m b)" by (rule udivti3_ok)
  have s: "signed_drop_bit 127 a XOR signed_drop_bit 127 b = (if bit a 127 \<noteq> bit b 127 then - 1 else 0)"
    by (simp add: sign127)
  have "divti3 a b = Some (if bit a 127 \<noteq> bit b 127 then - (?m a div ?m b) else ?m a div ?m b)"
    unfolding divti3_def Let_def q s option.map signed ..
  moreover have "?m a div ?m b = word_of_int (\<bar>sint a\<bar> div \<bar>sint b\<bar>)"
    unfolding magnitude [symmetric] uint_div_distrib [symmetric] by simp
  moreover have "(if bit a 127 \<noteq> bit b 127 then - (word_of_int n :: u128) else word_of_int n) = word_of_int (sgn (sint a) * sgn (sint b) * n)"
    if "sint a = 0 \<Longrightarrow> n = 0" for n
    using sb that unfolding bit_sign by (cases "sint a" "0 :: int" rule: linorder_cases; cases "sint b" "0 :: int" rule: linorder_cases) simp_all
  from this [of "\<bar>sint a\<bar> div \<bar>sint b\<bar>"]
  have "(if bit a 127 \<noteq> bit b 127 then - (word_of_int (\<bar>sint a\<bar> div \<bar>sint b\<bar>) :: u128) else word_of_int (\<bar>sint a\<bar> div \<bar>sint b\<bar>))
      = word_of_int (sint a sdiv sint b)"
    unfolding signed_divide_int_def by simp
  ultimately show ?thesis by (simp only:)
qed

lemma modti3_ok:
  assumes "b \<noteq> 0"
  shows "modti3 a b = Some (word_of_int (sint a smod sint b))"
proof -
  let ?m = "\<lambda>x :: u128. (x XOR signed_drop_bit 127 x) + (- signed_drop_bit 127 x)"
  have "sint b \<noteq> 0" using assms by (simp only: signed_eq_0_iff not_False_eq_True)
  then have "?m b \<noteq> 0" using magnitude [of b] by auto
  then have r: "umodti3 (?m a) (?m b) = Some (?m a mod ?m b)" by (rule umodti3_ok)
  have s: "signed_drop_bit 127 a = (if bit a 127 then - 1 else 0)" by (rule sign127)
  have "modti3 a b = Some (if bit a 127 then - (?m a mod ?m b) else ?m a mod ?m b)"
    unfolding modti3_def Let_def r option.map unfolding s signed ..
  moreover have "?m a mod ?m b = word_of_int (\<bar>sint a\<bar> mod \<bar>sint b\<bar>)"
    unfolding magnitude [symmetric] uint_mod_distrib [symmetric] by simp
  moreover have "(if bit a 127 then - (word_of_int n :: u128) else word_of_int n) = word_of_int (sgn (sint a) * n)"
    if "sint a = 0 \<Longrightarrow> n = 0" for n
    using that unfolding bit_sign by (cases "sint a" "0 :: int" rule: linorder_cases) simp_all
  from this [of "\<bar>sint a\<bar> mod \<bar>sint b\<bar>"]
  have "(if bit a 127 then - (word_of_int (\<bar>sint a\<bar> mod \<bar>sint b\<bar>) :: u128) else word_of_int (\<bar>sint a\<bar> mod \<bar>sint b\<bar>))
      = word_of_int (sint a smod sint b)"
    unfolding signed_modulo_int_def by simp
  ultimately show ?thesis by (simp only:)
qed

lemma sint_wide:
  assumes "\<not> unat (b :: 32 word) < 128"
  shows "128 \<le> sint b \<or> sint b < 0"
proof -
  have "sint b = uint b - (if bit b 31 then 4294967296 else 0)"
    using unsigned_less [of b, where 'a = int] uint_ge_0 [of b]
    by (simp add: sint_uint signed_take_bit_eq_take_bit_minus take_bit_int_eq_self bit_unsigned_iff)
  moreover have "uint b < 4294967296" using unsigned_less [of b, where 'a = int] by simp
  moreover have "128 \<le> uint b" using assms by (metis not_less of_nat_le_iff of_nat_numeral uint_nat)
  ultimately show ?thesis by (auto split: if_splits)
qed

lemma wide_shift:
  assumes "\<not> unat (b :: 32 word) < 128"
  shows "\<not> (0 \<le> sint b - 64 \<and> sint b - 64 < 64)" "\<not> (0 \<le> sint b \<and> sint b < 64)" "b \<noteq> 0"
  using sint_wide [OF assms] assms by auto

lemma wide_shifts:
  assumes "\<not> unat b < 128"
  shows "ashlti3 a b = None" "ashrti3 a b = None" "lshrti3 a b = None"
proof -
  note w = wide_shift [OF assms]
  have n: "shl x (sint b - 64) = None" "shr x (sint b - 64) = None" "sar x (sint b - 64) = None"
    "shl x (sint b) = None" "shr x (sint b) = None" "sar x (sint b) = None" for x
    unfolding shl_def shr_def sar_def by (simp_all only: w(1,2) if_False)
  have o: "Option.bind u (\<lambda>_. None) = None" for u :: "'a option" by (cases u) simp_all
  show "ashlti3 a b = None" "ashrti3 a b = None" "lshrti3 a b = None"
    using w(3) by (simp_all add: ashlti3_def ashrti3_def lshrti3_def n o join_opt_def or_opt_def)
qed

section \<open>The functions the compiler calls\<close>

text \<open>
  C9. The functions that the compiler calls for 128-bit integers compute the operators of C on the numbers
  whose halves they are given: the product modulo \<open>2 ^ 128\<close>; the unsigned quotient and remainder; the signed ones, rounded towards zero, the quotient
  wrapped to 128 bits; shifts by fewer than 128 places, arithmetic and logical. Division by zero traps and shifts by more places
  are undefined in C: these, and only these, have no result.
\<close>
theorem int128_arithmetic:
  "rt_multi3 la ha lb hb = join128 la ha * join128 lb hb
   \<and> rt_udivti3 la ha lb hb = (if join128 lb hb = 0 then None else Some (join128 la ha div join128 lb hb))
   \<and> rt_umodti3 la ha lb hb = (if join128 lb hb = 0 then None else Some (join128 la ha mod join128 lb hb))
   \<and> rt_divti3 la ha lb hb = (if join128 lb hb = 0 then None
       else Some (word_of_int (sint (join128 la ha) sdiv sint (join128 lb hb))))
   \<and> rt_modti3 la ha lb hb = (if join128 lb hb = 0 then None
       else Some (word_of_int (sint (join128 la ha) smod sint (join128 lb hb))))
   \<and> rt_ashlti3 la ha n = (if unat n < 128 then Some (push_bit (unat n) (join128 la ha)) else None)
   \<and> rt_lshlti3 la ha n = (if unat n < 128 then Some (push_bit (unat n) (join128 la ha)) else None)
   \<and> rt_ashrti3 la ha n = (if unat n < 128 then Some (signed_drop_bit (unat n) (join128 la ha)) else None)
   \<and> rt_lshrti3 la ha n = (if unat n < 128 then Some (drop_bit (unat n) (join128 la ha)) else None)"
proof -
  have zero: "udivti3 a 0 = None" "umodti3 a 0 = None" "divti3 a 0 = None" "modti3 a 0 = None" for a
    by (simp_all add: divti3_def modti3_def udivti3_def umodti3_def division_by_zero)
  show ?thesis
    by (intro conjI; simp add: rt_multi3_def rt_udivti3_def rt_umodti3_def rt_divti3_def rt_modti3_def rt_ashlti3_def rt_lshlti3_def
      rt_ashrti3_def rt_lshrti3_def multi3_ok udivti3_ok umodti3_ok divti3_ok modti3_ok ashlti3_ok ashrti3_ok lshrti3_ok wide_shifts zero)
qed

section \<open>Comparisons of 128-bit floating-point numbers\<close>

text \<open>What IEEE 754 says of the order: nothing is less than or equal to a number that is not one, and others compare in exactly one way.\<close>

definition softfloat_laws :: "'f softfloat \<Rightarrow> bool" where
  "softfloat_laws F \<longleftrightarrow> (\<forall>x y. if f128_is_nan F x \<or> f128_is_nan F y then \<not> f128_lt F x y \<and> \<not> f128_eq F x y
     else (f128_lt F x y \<and> \<not> f128_eq F x y \<and> \<not> f128_lt F y x) \<or> (\<not> f128_lt F x y \<and> f128_eq F x y \<and> \<not> f128_lt F y x)
       \<or> (\<not> f128_lt F x y \<and> \<not> f128_eq F x y \<and> f128_lt F y x))"

text \<open>
  The comparison functions return numbers whose comparison with zero, as the compiler emits it for the operator, is the
  operator of IEEE 754: with an operand that is not a number all are false but inequality.
\<close>
lemma float128_comparisons:
  assumes "softfloat_laws F" and x_def: "x = f128 F la ha" and y_def: "y = f128 F lb hb"
  shows "eqtf2 F la ha lb hb = 0 \<longleftrightarrow> f128_eq F x y" and "netf2 F la ha lb hb \<noteq> 0 \<longleftrightarrow> \<not> f128_eq F x y"
    and "lttf2 F la ha lb hb < 0 \<longleftrightarrow> f128_lt F x y" and "letf2 F la ha lb hb \<le> 0 \<longleftrightarrow> f128_lt F x y \<or> f128_eq F x y"
    and "gttf2 F la ha lb hb > 0 \<longleftrightarrow> \<not> f128_is_nan F x \<and> \<not> f128_is_nan F y \<and> f128_lt F y x"
    and "getf2 F la ha lb hb \<ge> 0 \<longleftrightarrow> \<not> f128_is_nan F x \<and> \<not> f128_is_nan F y \<and> (f128_lt F y x \<or> f128_eq F x y)"
    and "unordtf2 F la ha lb hb \<noteq> 0 \<longleftrightarrow> f128_is_nan F x \<or> f128_is_nan F y"
proof -
  have l: "if f128_is_nan F x \<or> f128_is_nan F y then \<not> f128_lt F x y \<and> \<not> f128_eq F x y
     else (f128_lt F x y \<and> \<not> f128_eq F x y \<and> \<not> f128_lt F y x) \<or> (\<not> f128_lt F x y \<and> f128_eq F x y \<and> \<not> f128_lt F y x)
       \<or> (\<not> f128_lt F x y \<and> \<not> f128_eq F x y \<and> f128_lt F y x)"
    using assms(1) unfolding softfloat_laws_def by blast
  note defs = eqtf2_def netf2_def lttf2_def letf2_def gttf2_def getf2_def unordtf2_def cmptf2_nan_def x_def y_def
  show "eqtf2 F la ha lb hb = 0 \<longleftrightarrow> f128_eq F x y" and "netf2 F la ha lb hb \<noteq> 0 \<longleftrightarrow> \<not> f128_eq F x y"
    and "lttf2 F la ha lb hb < 0 \<longleftrightarrow> f128_lt F x y" and "letf2 F la ha lb hb \<le> 0 \<longleftrightarrow> f128_lt F x y \<or> f128_eq F x y"
    and "gttf2 F la ha lb hb > 0 \<longleftrightarrow> \<not> f128_is_nan F x \<and> \<not> f128_is_nan F y \<and> f128_lt F y x"
    and "getf2 F la ha lb hb \<ge> 0 \<longleftrightarrow> \<not> f128_is_nan F x \<and> \<not> f128_is_nan F y \<and> (f128_lt F y x \<or> f128_eq F x y)"
    and "unordtf2 F la ha lb hb \<noteq> 0 \<longleftrightarrow> f128_is_nan F x \<or> f128_is_nan F y"
    using l unfolding defs by (auto split: if_splits)
qed

end
