(* ===== verification/Spec2Isabelle.thy ===== *)
theory Spec2Isabelle
  imports HeapProps KvProps KvHex KvLegacy KvMapProps Singleton SerializeProps RopeProps Decimal AbiMergeProps ActionProps DispatcherProps CryptoProps NamesProps RicardianProps AbiGenProps Int128Props
begin

text \<open>
  A verification development for the contract development kit: the library that contracts are compiled with
  (\<open>src/libraries\<close>), and the parts of the compiler's plugins that write the ABI (\<open>src/plugins\<close>,
  \<open>src/tools\<close>). Definitions follow the source function by function and keep its names; code outside
  the repository is a parameter with its documented behaviour as hypotheses.

  The program. A contract is a WebAssembly program that the chain starts in \<open>apply\<close> for one action. The
  dispatcher finds the handler of the action, reads its arguments from the bytes of the action into a buffer, which
  is on the stack or a block of the allocator, unpacks them from a stream and calls the handler. The handler keeps its data in tables,
  which are classes of the library over the host's intrinsics: the key-value database (tables and ordered maps) or the older
  multi-index tables (and the singletons on them). It can send actions and transactions, ask about
  permissions, and print numbers and texts. A failed \<open>check\<close> or a trap ends the whole transaction, so every operation
  has a result type with an error (\<open>result\<close> of \<open>Prelude\<close>). At build time the plugins
  collect the types of the contract, write the ABI file, read ricardian texts for it, and the linker merges the files of
  the translation units.

  Theories, in the order of the layers; those that end in \<open>Safe\<close> or \<open>Props\<close> hold invariants and
  properties of the one before.

  \<^item> \<open>Prelude\<close>: machine words, results, the facts \<open>w32\<close> on 32-bit arithmetic. \<open>SortedWalk\<close>: positions in
  finite sets of a linear order, shared by all iterators. \<open>Memory\<close> (\<open>eosiolib/memory.cpp\<close>): the linear memory,
  \<open>memcpy\<close>, \<open>memmove\<close>, \<open>memset\<close>, \<open>memcmp\<close>. \<open>ByteBlocks\<close>, \<open>Regions\<close>: blocks of bytes, families of disjoint regions.

  \<^item> \<open>SimpleMalloc\<close> (\<open>eosiolib/simple_malloc.cpp\<close>, \<open>malloc/eosio/*.hpp\<close>): the record \<open>dsmalloc\<close> is the allocator with the
  memory, its free lists and its table of big chunks; \<open>ds_alloc\<close>, \<open>ds_free\<close> and the C functions. \<open>SimpleMallocSafe\<close> has the invariant \<open>ds_inv\<close> of
  live blocks, free blocks and headers, and the step relation \<open>heap_step\<close> of a client that holds blocks; its requests are at least 1 and
  below \<open>2 ^ 32 - 31\<close> bytes (\<open>fits\<close>), beyond which adding the header wraps around, and a block of \<open>calloc\<close> counts with the
  wrapped product. \<open>HeapProps\<close>: blocks never overlap, calls keep the other blocks, an allocation with room
  succeeds at the position the free lists say. \<open>StackBuffer\<close>: buffers that are blocks beyond 512 bytes, and that
  taking, filling and freeing one leaves the heap in order.

  \<^item> \<open>KvBase\<close>, \<open>KvHex\<close> (\<open>contracts/eosio/kv_base.hpp\<close>): binary keys, and their hexadecimal texts. \<open>KvHost\<close>: the
  key-value intrinsics as the record \<open>kv_host\<close>, their laws \<open>kv_db_ok\<close> and \<open>kv_it_ok\<close> through a view of the host's state, and a host in
  memory that keeps them. \<open>KvTable\<close>, \<open>KvTableSafe\<close>, \<open>KvIterSafe\<close>, \<open>KvProps\<close> (\<open>kv.hpp\<close>): rows with unique
  secondary keys; \<open>table_rep\<close> relates the pairs in the database to a map, which \<open>put\<close> and \<open>erase\<close> update and lookups and ranges read. \<open>KvLegacy\<close>
  (\<open>key_value.hpp\<close>): the second copy of that code, with equations to the first. \<open>KvMap\<close>, \<open>KvMapSafe\<close>, \<open>KvMapProps\<close> (\<open>map.hpp\<close>,
  \<open>core/eosio/key_utils.hpp\<close>): the ordered map as a finite function, and where it is not one.

  \<^item> \<open>DbHost\<close>, \<open>DbMem\<close>: the table intrinsics with the laws \<open>db_ok\<close>, and a host that keeps them. \<open>MultiIndex\<close>, \<open>MultiIndexSafe\<close>,
  \<open>MultiIndexWrite\<close>, \<open>MultiIndexScan\<close>, \<open>MultiIndexProps\<close> (\<open>multi_index.hpp\<close>): the record \<open>multi_index\<close> is the object with its cache of
  items; \<open>mx_inv\<close> says that rows, secondary entries and cache stand for one function, \<open>mx_step\<close> is one call, and every call keeps the
  invariant. A row type has one type of secondary keys in a linear order, compared by equality where the code
  uses \<open>memcmp\<close>, so floating-point zeros of both signs and NaN are outside. \<open>Singleton\<close> (\<open>singleton.hpp\<close>): an optional value, over the locale \<open>slot\<close>,
  which the tables interpret.

  \<^item> \<open>Datastream\<close>, \<open>Serialize\<close>, \<open>SerializeProps\<close>, \<open>Formats\<close> (\<open>datastream.hpp\<close>, \<open>serialize.hpp\<close>, \<open>ignore.hpp\<close>, \<open>binary_extension.hpp\<close>): the two
  streams over the memory, both instances of the locale \<open>byte_sink\<close>, and packing with a \<open>codec\<close>, which a library outside the
  repository or the contract gives for a type. \<open>Rope\<close>, \<open>RopeSafe\<close>, \<open>RopeProps\<close> (\<open>rope.hpp\<close>): ropes and the loop without a stack that writes them
  out. \<open>Powers\<close>, \<open>Decimal\<close> (\<open>powers.hpp\<close>, \<open>eosiolib.cpp\<close>): decimal output. \<open>CryptoUtils\<close>, \<open>CryptoProps\<close> (\<open>crypto_utils.hpp\<close>,
  \<open>crypto.cpp\<close>): base64, hex, RSA keys in PEM format.

  \<^item> \<open>Action\<close>, \<open>Transaction\<close>, \<open>Privileged\<close>, \<open>ActionProps\<close> (\<open>action.hpp\<close>, \<open>transaction.hpp\<close>, \<open>permission.hpp\<close>, \<open>privileged.hpp\<close>,
  \<open>producer_schedule.hpp\<close>): what a contract sends is a trace of host calls. \<open>Dispatcher\<close>, \<open>DispatcherProps\<close> (\<open>dispatcher.hpp\<close>,
  \<open>contract.hpp\<close>): running a handler, and its composition with sending and with the allocator.

  \<^item> \<open>Names\<close>, \<open>NamesProps\<close> (\<open>plugins/eosio/utils.hpp\<close>); \<open>Ricardian\<close>, \<open>RicardianProps\<close> (\<open>plugins/eosio/gen.hpp\<close>); \<open>AbiGen\<close>, \<open>AbiGenProps\<close>
  (\<open>tools/include/eosio/cdt_abi.hpp\<close>, \<open>plugins/eosio/abigen.hpp\<close>); \<open>AbiMerge\<close>, \<open>AbiMergeProps\<close> (\<open>abimerge.hpp\<close>): from the collected
  types to the merged file. Sets in the order of the code are instances of the locale \<open>set_order\<close>, comparisons of definitions of
  \<open>definition_kind\<close>; JSON values are those of the record \<open>jsoncons\<close> with \<open>jsoncons_laws\<close>.

  \<^item> \<open>Int128\<close>, \<open>Int128Props\<close> (\<open>libraries/rt\<close>): the functions the compiler calls for 128-bit integers, down to division by 32-bit digits,
  against the operators they stand for.

  What the groups of lemmas show. Tables, maps and singletons refine finite functions (\<open>table_rep\<close>, \<open>map_rep\<close>, \<open>mx_inv\<close>, \<open>slot\<close>): each operation
  has a lemma on every branch, errors included, and iteration meets the elements in order, once, and
  ends. The allocator, the stack buffers and reading an action keep every byte that a client holds. Texts and
  binary formats have round trips in the direction that the code promises, stated against encoders or canonical
  texts that are defined apart from the code. The written ABI is closed under the names it refers to, and merging loses no definition that the version of
  the result can hold. Where the code does something else than it means to, the
  defect is a theorem or is stated beside the property, and is in the list of findings.

  Bounds and fuel. Pointers and \<open>size_t\<close> have 32 bits and wrap around, integers have the width of the source. Texts of the plugins and of
  \<open>crypto_utils.hpp\<close> are shorter than \<open>2 ^ 31\<close>. Recursions of the code without a structural bound have fuel or \<open>while_option\<close>: a range over \<open>n\<close> rows has one iteration more, a walk over a table one step per row; the
  parser of ricardian texts one per character; \<open>get_root_name\<close> one more than there are type definitions, with a theorem that circular definitions exhaust any fuel, as the code's recursion does not
  end; the correction of a quotient digit is a \<open>partial_function\<close> that is shown to end for all arguments of the division.
  Each has a theorem that the bound is enough.

  Not modelled: walking clang's syntax tree (\<open>codegen.cpp\<close>, the filling of the sets in \<open>abigen.hpp\<close>, attributes and preprocessor
  callbacks), the protobuf compiler plugin, the post-processing of wasm files, \<open>malloc.cpp\<close>, which is not built, the contract tester, functions that only forward to
  an intrinsic, floating-point arithmetic and its conversions, and type-level C++. Buffers inside the key-value tables hold what the host
  returns, without the allocator's failure, which is modelled for the heap, action data and printed keys. Expressions of C that are undefined (a
  shift by the width, the leading zeros of zero) and division by zero have no result; other integer operations are those of
  the target, so a shift to the left of a negative number moves its bits.
\<close>

end
